(* ===== verification/Prelude.thy ===== *)
theory Prelude
  imports Main "HOL-Library.Word"
begin

text \<open>
  Shared vocabulary of the development: names for the machine integers of the C++ sources,
  the big-endian byte packing used by every wire format of the server, the string operations of
  the C++ standard library the sources rely on (\<open>find\<close>, \<open>substr\<close>, \<open>getline\<close>, \<open>to_string\<close>), and
  the collections of simplification rules the component theories add to.

  A \<open>std::string\<close> is a \<open>string\<close> (one \<open>char\<close> per byte), a byte buffer a list of \<open>8 word\<close>. An
  access outside an object, which C++ leaves undefined, is the value \<open>None\<close> of an option result.
\<close>

unbundle bit_operations_syntax

type_synonym u8 = "8 word"
type_synonym u16 = "16 word"
type_synonym u32 = "32 word"
type_synonym u64 = "64 word"

type_synonym bytes = "u8 list"

named_theorems err_simps \<open>what the error constructors say of the error code\<close>
named_theorems inv_lemmas \<open>preservation lemmas of the component invariants\<close>

subsection \<open>Big-endian packing\<close>

text \<open>
  \<open>(data[0] << 24) | (data[1] << 16) | (data[2] << 8) | data[3]\<close> and its shorter forms, computed at
  the width the result is stored in.
\<close>

definition be32 :: "u8 \<Rightarrow> u8 \<Rightarrow> u8 \<Rightarrow> u8 \<Rightarrow> u32" where
  "be32 a b c d =
     push_bit 24 (ucast a) OR push_bit 16 (ucast b) OR push_bit 8 (ucast c) OR ucast d"

definition be24 :: "u8 \<Rightarrow> u8 \<Rightarrow> u8 \<Rightarrow> u32" where
  "be24 a b c = push_bit 16 (ucast a) OR push_bit 8 (ucast b) OR ucast c"

definition be16 :: "u8 \<Rightarrow> u8 \<Rightarrow> u16" where
  "be16 a b = push_bit 8 (ucast a) OR ucast b"

text \<open>\<open>(v >> k) & 0xFF\<close> stored in a byte.\<close>

definition byte_at :: "nat \<Rightarrow> 'a::len word \<Rightarrow> u8" where
  "byte_at k v = ucast (drop_bit k v AND 255)"

lemma byte_at_bit [simp]:
  "bit (byte_at k (v :: 'a::len word)) n \<longleftrightarrow> n < 8 \<and> bit v (k + n)"
proof -
  have mask: "(255 :: 'a word) = mask 8" by (simp add: mask_eq_exp_minus_1)
  show ?thesis
    unfolding byte_at_def mask by (auto simp: bit_simps dest: bit_imp_le_length)
qed

text \<open>The three packings are inverse to taking the bytes out again.\<close>

lemma be32_byte_at [simp]:
  "be32 (byte_at 24 v) (byte_at 16 v) (byte_at 8 v) (byte_at 0 v) = v"
proof (rule bit_word_eqI)
  fix n assume "n < LENGTH(32)"
  then consider "n < 8" | "8 \<le> n" "n < 16" | "16 \<le> n" "n < 24" | "24 \<le> n" "n < 32" by fastforce
  then show "bit (be32 (byte_at 24 v) (byte_at 16 v) (byte_at 8 v) (byte_at 0 v)) n = bit v n"
    by cases (auto simp: be32_def bit_simps)
qed

lemma be16_byte_at [simp]: "be16 (byte_at 8 v) (byte_at 0 v) = v"
proof (rule bit_word_eqI)
  fix n assume "n < LENGTH(16)"
  then consider "n < 8" | "8 \<le> n" "n < 16" by fastforce
  then show "bit (be16 (byte_at 8 v) (byte_at 0 v)) n = bit v n"
    by cases (auto simp: be16_def bit_simps)
qed

lemma be24_byte_at [simp]:
  "be24 (byte_at 16 v) (byte_at 8 v) (byte_at 0 v) = v AND mask 24"
proof (rule bit_word_eqI)
  fix n assume "n < LENGTH(32)"
  then consider "n < 8" | "8 \<le> n" "n < 16" | "16 \<le> n" "n < 24" | "24 \<le> n" "n < 32" by fastforce
  then show "bit (be24 (byte_at 16 v) (byte_at 8 v) (byte_at 0 v)) n = bit (v AND mask 24) n"
    by cases (auto simp: be24_def bit_simps)
qed

lemma byte_at_be32 [simp]:
  "byte_at 24 (be32 a b c d) = a" "byte_at 16 (be32 a b c d) = b"
  "byte_at 8 (be32 a b c d) = c" "byte_at 0 (be32 a b c d) = d"
  by (rule bit_word_eqI; auto simp: be32_def bit_simps dest: bit_imp_le_length)+

lemma byte_at_be24 [simp]:
  "byte_at 16 (be24 a b c) = a" "byte_at 8 (be24 a b c) = b" "byte_at 0 (be24 a b c) = c"
  by (rule bit_word_eqI; auto simp: be24_def bit_simps dest: bit_imp_le_length)+

lemma byte_at_be16 [simp]: "byte_at 8 (be16 a b) = a" "byte_at 0 (be16 a b) = b"
  by (rule bit_word_eqI; auto simp: be16_def bit_simps dest: bit_imp_le_length)+

lemma be24_less: "unat (be24 a b c) < 2 ^ 24"
proof -
  have "be24 a b c = be24 a b c AND mask 24"
    by (rule bit_word_eqI) (auto simp: be24_def bit_simps dest: bit_imp_le_length)
  then have "unat (be24 a b c) = unat (be24 a b c) mod 2 ^ 24"
    by (metis take_bit_eq_mask take_bit_eq_mod unsigned_take_bit_eq)
  then show ?thesis by (metis mod_less_divisor zero_less_numeral zero_less_power)
qed

subsection \<open>Strings\<close>

text \<open>
  \<open>find_sub p s\<close> is \<open>s.find(p)\<close>: the least index at which \<open>p\<close> occurs, \<open>None\<close> for \<open>npos\<close>.
\<close>

fun is_prefix :: "'a list \<Rightarrow> 'a list \<Rightarrow> bool" where
  "is_prefix [] s = True"
| "is_prefix (p # ps) [] = False"
| "is_prefix (p # ps) (c # cs) = (p = c \<and> is_prefix ps cs)"

fun find_sub :: "'a list \<Rightarrow> 'a list \<Rightarrow> nat option" where
  "find_sub p [] = (if p = [] then Some 0 else None)"
| "find_sub p (c # cs) = (if is_prefix p (c # cs) then Some 0 else map_option Suc (find_sub p cs))"

text \<open>\<open>s.find(c)\<close> for a character: the index of its first occurrence.\<close>

fun find_char :: "'a \<Rightarrow> 'a list \<Rightarrow> nat option" where
  "find_char x [] = None"
| "find_char x (c # cs) = (if c = x then Some 0 else map_option Suc (find_char x cs))"

text \<open>\<open>std::to_string\<close> of an unsigned number.\<close>

definition digit_char :: "nat \<Rightarrow> char" where
  "digit_char d = char_of (48 + d)"

fun dec :: "nat \<Rightarrow> string" where
  "dec n = (if n < 10 then [digit_char n] else dec (n div 10) @ [digit_char (n mod 10)])"

declare dec.simps [simp del]

definition dec_int :: "int \<Rightarrow> string" where
  "dec_int i = (if i < 0 then ''-'' @ dec (nat (- i)) else dec (nat i))"

text \<open>
  \<open>while (std::getline(ss, part, d))\<close>: the pieces between delimiters; a delimiter at the very end
  of the input starts no further piece, and an empty input has none.
\<close>

fun getlines :: "'a \<Rightarrow> 'a list \<Rightarrow> 'a list list" where
  "getlines d [] = []"
| "getlines d (c # cs) =
     (if c = d then [] # getlines d cs
      else (case getlines d cs of [] \<Rightarrow> [[c]] | l # ls \<Rightarrow> (c # l) # ls))"

text \<open>The characters of a byte buffer, as \<open>assign\<close> and \<open>reinterpret_cast\<close> read them.\<close>

definition chars_of :: "bytes \<Rightarrow> string" where
  "chars_of bs = map (\<lambda>b. char_of (unat b)) bs"

definition bytes_of :: "string \<Rightarrow> bytes" where
  "bytes_of s = map (\<lambda>c. of_nat (of_char c)) s"

lemma length_chars_of [simp]: "length (chars_of bs) = length bs"
  by (simp add: chars_of_def)

lemma length_bytes_of [simp]: "length (bytes_of s) = length s"
  by (simp add: bytes_of_def)

lemma chars_of_bytes_of [simp]: "chars_of (bytes_of s) = s"
proof -
  have "char_of (unat (of_nat (of_char c) :: u8)) = c" for c :: char
  proof -
    have "(of_char c :: nat) < 2 ^ 8" by (cases c) (simp add: of_char_def horner_sum_simps)
    then have "unat (of_nat (of_char c) :: u8) = of_char c"
      by (simp add: unsigned_of_nat take_bit_eq_mod)
    then show ?thesis by simp
  qed
  then show ?thesis by (simp add: chars_of_def bytes_of_def o_def)
qed

end
