(* ===== verification/WebError.thy ===== *)
theory WebError
  imports Prelude
begin

text \<open>
  The error objects every component returns (include/error/error.h, src/error/error.cpp).

  \<open>Error\<close> is the record \<open>error_obj\<close>: the project code, the message and the system errno. The time
  stamp is left out, because it is the clock at construction and nothing reads it. The text of a
  system error, \<open>std::strerror\<close>, is a parameter of the operations that print it.
\<close>

datatype web_error =
    kSuccess
  | kSocketError | kEpollError | kFcntlError | kIoError | kFileNotFound | kPermissionDenied
  | kParseError | kInvalidRequest | kUnsupportedMethod | kProtocolError | kRequestTimeout
  | kBufferFull | kConnectionLimit | kMemoryLimit | kQueueFull | kResourceExhausted
  | kAccessDenied | kInvalidPath | kRequestTooLarge
  | kInternalError | kStateError | kNullPointer | kInvalidArgument
  | kTimerError | kTimeout
  | kUnknownError

fun web_error_int :: "web_error \<Rightarrow> int" where
  "web_error_int kSuccess = 0"
| "web_error_int kSocketError = 1000"
| "web_error_int kEpollError = 1001"
| "web_error_int kFcntlError = 1002"
| "web_error_int kIoError = 1003"
| "web_error_int kFileNotFound = 1004"
| "web_error_int kPermissionDenied = 1005"
| "web_error_int kParseError = 1100"
| "web_error_int kInvalidRequest = 1101"
| "web_error_int kUnsupportedMethod = 1102"
| "web_error_int kProtocolError = 1103"
| "web_error_int kRequestTimeout = 1104"
| "web_error_int kBufferFull = 1200"
| "web_error_int kConnectionLimit = 1201"
| "web_error_int kMemoryLimit = 1202"
| "web_error_int kQueueFull = 1203"
| "web_error_int kResourceExhausted = 1204"
| "web_error_int kAccessDenied = 1300"
| "web_error_int kInvalidPath = 1301"
| "web_error_int kRequestTooLarge = 1302"
| "web_error_int kInternalError = 1400"
| "web_error_int kStateError = 1401"
| "web_error_int kNullPointer = 1402"
| "web_error_int kInvalidArgument = 1403"
| "web_error_int kTimerError = 1500"
| "web_error_int kTimeout = 1501"
| "web_error_int kUnknownError = 9999"

record error_obj =
  err_code :: web_error
  err_message :: string
  err_sys_errno :: int

fun GetErrorCodeString :: "web_error \<Rightarrow> string" where
  "GetErrorCodeString kSuccess = ''Success''"
| "GetErrorCodeString kSocketError = ''Socket operation failed''"
| "GetErrorCodeString kEpollError = ''Epoll operation failed''"
| "GetErrorCodeString kFcntlError = ''Fcntl operation failed''"
| "GetErrorCodeString kIoError = ''I/O error''"
| "GetErrorCodeString kFileNotFound = ''File not found''"
| "GetErrorCodeString kPermissionDenied = ''Permission denied''"
| "GetErrorCodeString kParseError = ''Parse error''"
| "GetErrorCodeString kInvalidRequest = ''Invalid request''"
| "GetErrorCodeString kUnsupportedMethod = ''Unsupported HTTP method''"
| "GetErrorCodeString kProtocolError = ''Protocol error''"
| "GetErrorCodeString kRequestTimeout = ''Request timeout''"
| "GetErrorCodeString kBufferFull = ''Buffer full''"
| "GetErrorCodeString kConnectionLimit = ''Connection limit exceeded''"
| "GetErrorCodeString kMemoryLimit = ''Memory limit exceeded''"
| "GetErrorCodeString kQueueFull = ''Queue full''"
| "GetErrorCodeString kResourceExhausted = ''Resource exhausted''"
| "GetErrorCodeString kAccessDenied = ''Access denied''"
| "GetErrorCodeString kInvalidPath = ''Invalid path''"
| "GetErrorCodeString kRequestTooLarge = ''Request too large''"
| "GetErrorCodeString kInternalError = ''Internal error''"
| "GetErrorCodeString kStateError = ''State machine error''"
| "GetErrorCodeString kNullPointer = ''Null pointer access''"
| "GetErrorCodeString kInvalidArgument = ''Invalid argument''"
| "GetErrorCodeString kTimerError = ''Timer operation failed''"
| "GetErrorCodeString kTimeout = ''Timeout''"
| "GetErrorCodeString kUnknownError = ''Unknown error''"

text \<open>The constructors: the success object, one from a project code, one from an errno.\<close>

definition Error_Success :: error_obj where
  "Error_Success = \<lparr>err_code = kSuccess, err_message = ''Success'', err_sys_errno = 0\<rparr>"

definition Error_code :: "web_error \<Rightarrow> string \<Rightarrow> int \<Rightarrow> error_obj" where
  "Error_code code message sys_errno =
     \<lparr>err_code = code,
      err_message = (if message = [] then GetErrorCodeString code else message),
      err_sys_errno = sys_errno\<rparr>"

abbreviation Error_of :: "web_error \<Rightarrow> string \<Rightarrow> error_obj" where
  "Error_of code message \<equiv> Error_code code message 0"

text \<open>The errno values of Linux that the sources name.\<close>

abbreviation EPERM :: int where "EPERM \<equiv> 1"
abbreviation ENOENT :: int where "ENOENT \<equiv> 2"
abbreviation EINTR :: int where "EINTR \<equiv> 4"
abbreviation EIO :: int where "EIO \<equiv> 5"
abbreviation EBADF :: int where "EBADF \<equiv> 9"
abbreviation EAGAIN :: int where "EAGAIN \<equiv> 11"
abbreviation ENOMEM :: int where "ENOMEM \<equiv> 12"
abbreviation EACCES :: int where "EACCES \<equiv> 13"
abbreviation EINVAL :: int where "EINVAL \<equiv> 22"
abbreviation ENFILE :: int where "ENFILE \<equiv> 23"
abbreviation EMFILE :: int where "EMFILE \<equiv> 24"
abbreviation EPIPE :: int where "EPIPE \<equiv> 32"
abbreviation ENOTSOCK :: int where "ENOTSOCK \<equiv> 88"
abbreviation ECONNABORTED :: int where "ECONNABORTED \<equiv> 103"
abbreviation ECONNRESET :: int where "ECONNRESET \<equiv> 104"
abbreviation ENOTCONN :: int where "ENOTCONN \<equiv> 107"
abbreviation ETIMEDOUT :: int where "ETIMEDOUT \<equiv> 110"

definition errno_code :: "int \<Rightarrow> web_error" where
  "errno_code e =
     (if e = EACCES \<or> e = EPERM then kPermissionDenied
      else if e = ENOENT then kFileNotFound
      else if e = ENOMEM then kMemoryLimit
      else if e = ENFILE \<or> e = EMFILE then kConnectionLimit
      else if e = EINVAL then kInvalidArgument
      else if e = ETIMEDOUT then kTimeout
      else if e = EBADF \<or> e = ENOTSOCK then kSocketError
      else if e = EAGAIN then kBufferFull
      else kUnknownError)"

definition Error_errno :: "(int \<Rightarrow> string) \<Rightarrow> int \<Rightarrow> string \<Rightarrow> error_obj" where
  "Error_errno strerror sys_errno message =
     (if sys_errno = 0
      then \<lparr>err_code = kSuccess,
            err_message = (if message = [] then ''Success'' else message),
            err_sys_errno = 0\<rparr>
      else \<lparr>err_code = errno_code sys_errno,
            err_message = (if message = [] then strerror sys_errno else message),
            err_sys_errno = sys_errno\<rparr>)"

definition IsSuccess :: "error_obj \<Rightarrow> bool" where
  "IsSuccess e \<longleftrightarrow> err_code e = kSuccess"

definition IsFailure :: "error_obj \<Rightarrow> bool" where
  "IsFailure e \<longleftrightarrow> \<not> IsSuccess e"

definition Error_ToString :: "(int \<Rightarrow> string) \<Rightarrow> error_obj \<Rightarrow> string" where
  "Error_ToString strerror e =
     ''['' @ dec_int (web_error_int (err_code e)) @ ''] '' @ GetErrorCodeString (err_code e)
     @ (if err_message e \<noteq> [] \<and> err_message e \<noteq> GetErrorCodeString (err_code e)
        then '': '' @ err_message e else [])
     @ (if err_sys_errno e \<noteq> 0
        then '' (errno='' @ dec_int (err_sys_errno e) @ '': '' @ strerror (err_sys_errno e) @ '')''
        else [])"

text \<open>\<open>ToSystemError\<close>: the errno of the resulting \<open>std::error_code\<close>.\<close>

definition ToSystemError :: "error_obj \<Rightarrow> int" where
  "ToSystemError e =
     (if err_sys_errno e \<noteq> 0 then err_sys_errno e
      else case err_code e of
             kPermissionDenied \<Rightarrow> EACCES
           | kFileNotFound \<Rightarrow> ENOENT
           | kMemoryLimit \<Rightarrow> ENOMEM
           | kTimeout \<Rightarrow> ETIMEDOUT
           | kInvalidArgument \<Rightarrow> EINVAL
           | _ \<Rightarrow> EIO)"

definition AddContext :: "error_obj \<Rightarrow> string \<Rightarrow> error_obj" where
  "AddContext e context_text =
     (if context_text = [] then e
      else if err_message e \<noteq> []
           then e\<lparr>err_message := context_text @ '': '' @ err_message e\<rparr>
           else e\<lparr>err_message := context_text\<rparr>)"

definition IsRetriableErrno :: "int \<Rightarrow> bool" where
  "IsRetriableErrno e \<longleftrightarrow>
     e = EAGAIN \<or> e = EINTR \<or> e = ECONNRESET \<or> e = ETIMEDOUT"

definition IsConnectionClosedErrno :: "int \<Rightarrow> bool" where
  "IsConnectionClosedErrno e \<longleftrightarrow>
     e = ECONNRESET \<or> e = EPIPE \<or> e = ECONNABORTED \<or> e = ENOTCONN \<or> e = ETIMEDOUT"

subsection \<open>Facts about error objects\<close>

lemma web_error_int_inject [simp]: "web_error_int a = web_error_int b \<longleftrightarrow> a = b"
  by (cases a; cases b; simp)

lemma GetErrorCodeString_nonempty [simp]: "GetErrorCodeString c \<noteq> []"
  by (cases c) simp_all

lemma Error_code_fields [simp, err_simps]:
  "err_code (Error_code c m n) = c" "err_sys_errno (Error_code c m n) = n"
  "err_message (Error_code c m n) \<noteq> []"
  by (simp_all add: Error_code_def)

lemma Error_Success_fields [simp, err_simps]:
  "err_code Error_Success = kSuccess" "err_sys_errno Error_Success = 0"
  by (simp_all add: Error_Success_def)

lemma IsSuccess_simps [simp, err_simps]:
  "IsSuccess Error_Success" "IsSuccess (Error_code c m n) \<longleftrightarrow> c = kSuccess"
  by (simp_all add: IsSuccess_def)

lemma IsFailure_simps [simp, err_simps]:
  "\<not> IsFailure Error_Success" "IsFailure (Error_code c m n) \<longleftrightarrow> c \<noteq> kSuccess"
  by (simp_all add: IsFailure_def)

lemma AddContext_fields [simp]:
  "err_code (AddContext e c) = err_code e" "err_sys_errno (AddContext e c) = err_sys_errno e"
  by (simp_all add: AddContext_def)

end
