(* ===== verification/H2Frame.thy ===== *)
theory H2Frame
  imports WebError
begin

text \<open>
  HTTP/2 frames: the nine-byte frame header and the payload formats
  (include/http2/h2_frame_parser.h, src/http2/h2_frame_parser.cpp, and the payload encoders of
  src/http2/h2_connection.cpp, which are the other half of the round trips).

  The bit fields of \<open>H2FrameHeader\<close> are words of their width. A frame type is the byte on the wire;
  \<open>as_frame_type\<close> is the cast to the enumeration, \<open>None\<close> where the byte is no enumerator and a
  \<open>switch\<close> takes its default branch.
\<close>

datatype h2_frame_type =
    FT_DATA | FT_HEADERS | FT_PRIORITY | FT_RST_STREAM | FT_SETTINGS
  | FT_PUSH_PROMISE | FT_PING | FT_GOAWAY | FT_WINDOW_UPDATE | FT_CONTINUATION

fun frame_type_code :: "h2_frame_type \<Rightarrow> u8" where
  "frame_type_code FT_DATA = 0"
| "frame_type_code FT_HEADERS = 1"
| "frame_type_code FT_PRIORITY = 2"
| "frame_type_code FT_RST_STREAM = 3"
| "frame_type_code FT_SETTINGS = 4"
| "frame_type_code FT_PUSH_PROMISE = 5"
| "frame_type_code FT_PING = 6"
| "frame_type_code FT_GOAWAY = 7"
| "frame_type_code FT_WINDOW_UPDATE = 8"
| "frame_type_code FT_CONTINUATION = 9"

definition as_frame_type :: "u8 \<Rightarrow> h2_frame_type option" where
  "as_frame_type t =
     find (\<lambda>ft. frame_type_code ft = t)
       [FT_DATA, FT_HEADERS, FT_PRIORITY, FT_RST_STREAM, FT_SETTINGS,
        FT_PUSH_PROMISE, FT_PING, FT_GOAWAY, FT_WINDOW_UPDATE, FT_CONTINUATION]"

abbreviation FLAG_END_STREAM :: u8 where "FLAG_END_STREAM \<equiv> 1"
abbreviation FLAG_ACK :: u8 where "FLAG_ACK \<equiv> 1"

record h2_frame_header =
  fh_length :: "24 word"
  fh_type :: u8
  fh_flags :: u8
  fh_stream_id :: "31 word"
  fh_reserved :: "1 word"

definition HasFlag :: "h2_frame_header \<Rightarrow> u8 \<Rightarrow> bool" where
  "HasFlag h flag \<longleftrightarrow> fh_flags h AND flag = flag"

fun FrameTypeName :: "h2_frame_type \<Rightarrow> string" where
  "FrameTypeName FT_DATA = ''DATA''"
| "FrameTypeName FT_HEADERS = ''HEADERS''"
| "FrameTypeName FT_PRIORITY = ''PRIORITY''"
| "FrameTypeName FT_RST_STREAM = ''RST_STREAM''"
| "FrameTypeName FT_SETTINGS = ''SETTINGS''"
| "FrameTypeName FT_PUSH_PROMISE = ''PUSH_PROMISE''"
| "FrameTypeName FT_PING = ''PING''"
| "FrameTypeName FT_GOAWAY = ''GOAWAY''"
| "FrameTypeName FT_WINDOW_UPDATE = ''WINDOW_UPDATE''"
| "FrameTypeName FT_CONTINUATION = ''CONTINUATION''"

definition FrameTypeToString :: "u8 \<Rightarrow> string" where
  "FrameTypeToString t =
     (case as_frame_type t of
        Some ft \<Rightarrow> FrameTypeName ft
      | None \<Rightarrow> ''UNKNOWN('' @ dec (unat t) @ '')'')"

definition StringToFrameType :: "string \<Rightarrow> h2_frame_type option" where
  "StringToFrameType name =
     (if name = ''DATA'' then Some FT_DATA
      else if name = ''HEADERS'' then Some FT_HEADERS
      else if name = ''PRIORITY'' then Some FT_PRIORITY
      else if name = ''RST_STREAM'' then Some FT_RST_STREAM
      else if name = ''SETTINGS'' then Some FT_SETTINGS
      else if name = ''PUSH_PROMISE'' then Some FT_PUSH_PROMISE
      else if name = ''PING'' then Some FT_PING
      else if name = ''GOAWAY'' then Some FT_GOAWAY
      else if name = ''WINDOW_UPDATE'' then Some FT_WINDOW_UPDATE
      else if name = ''CONTINUATION'' then Some FT_CONTINUATION
      else None)"

definition IsValidStreamId :: "u32 \<Rightarrow> bool" where
  "IsValidStreamId stream_id = True"

definition frame_length_error :: "string \<Rightarrow> u32 \<Rightarrow> string \<Rightarrow> error_obj" where
  "frame_length_error what len rule_text =
     Error_of kProtocolError
       (''Invalid '' @ what @ '' frame length: '' @ dec (unat len) @ '' ('' @ rule_text @ '')'')"

text \<open>The check on lengths above 16383 only logs a warning, so it is no branch of the model.\<close>

definition ValidateFrameLength :: "u32 \<Rightarrow> u8 \<Rightarrow> error_obj" where
  "ValidateFrameLength len type_byte =
     (case as_frame_type type_byte of
        Some FT_SETTINGS \<Rightarrow>
          (if len mod 6 \<noteq> 0 then frame_length_error ''SETTINGS'' len ''must be multiple of 6''
           else Error_Success)
      | Some FT_PING \<Rightarrow>
          (if len \<noteq> 8 then frame_length_error ''PING'' len ''must be 8'' else Error_Success)
      | Some FT_WINDOW_UPDATE \<Rightarrow>
          (if len \<noteq> 4 then frame_length_error ''WINDOW_UPDATE'' len ''must be 4''
           else Error_Success)
      | Some FT_PRIORITY \<Rightarrow>
          (if len \<noteq> 5 then frame_length_error ''PRIORITY'' len ''must be 5'' else Error_Success)
      | Some FT_RST_STREAM \<Rightarrow>
          (if len \<noteq> 4 then frame_length_error ''RST_STREAM'' len ''must be 4''
           else Error_Success)
      | Some FT_GOAWAY \<Rightarrow>
          (if len < 8 then frame_length_error ''GOAWAY'' len ''must be at least 8''
           else Error_Success)
      | _ \<Rightarrow> Error_Success)"

definition Validate :: "h2_frame_header \<Rightarrow> error_obj" where
  "Validate h =
     (if fh_reserved h \<noteq> 0
      then Error_of kProtocolError ''HTTP/2 frame reserved bit must be 0''
      else if \<not> IsValidStreamId (ucast (fh_stream_id h))
      then Error_of kProtocolError
             (''Invalid HTTP/2 stream ID: '' @ dec (unat (fh_stream_id h)))
      else let length_err = ValidateFrameLength (ucast (fh_length h)) (fh_type h)
           in if \<not> IsSuccess length_err then length_err else Error_Success)"

definition decode_header :: "bytes \<Rightarrow> h2_frame_header" where
  "decode_header data =
     (let w = be32 (data ! 5) (data ! 6) (data ! 7) (data ! 8)
      in \<lparr>fh_length = ucast (be24 (data ! 0) (data ! 1) (data ! 2)),
          fh_type = data ! 3,
          fh_flags = data ! 4,
          fh_stream_id = ucast (w AND 0x7FFFFFFF),
          fh_reserved = ucast (drop_bit 31 w AND 1)\<rparr>)"

definition ParseHeader :: "bytes \<Rightarrow> h2_frame_header option" where
  "ParseHeader data =
     (if length data < 9 then None
      else let header = decode_header data
           in if \<not> IsSuccess (Validate header) then None else Some header)"

definition SerializeHeader :: "h2_frame_header \<Rightarrow> bytes" where
  "SerializeHeader h =
     (let l = (ucast (fh_length h) :: u32);
          sid = (ucast (fh_stream_id h) :: u32) AND 0x7FFFFFFF;
          w = (if fh_reserved h \<noteq> 0 then sid OR push_bit 31 1 else sid)
      in [byte_at 16 l, byte_at 8 l, byte_at 0 l, fh_type h, fh_flags h,
          byte_at 24 w, byte_at 16 w, byte_at 8 w, byte_at 0 w])"

definition ValidatePayloadLength :: "h2_frame_header \<Rightarrow> nat \<Rightarrow> error_obj" where
  "ValidatePayloadLength h payload_len =
     (if unat (fh_length h) \<noteq> payload_len
      then Error_of kProtocolError
             (''HTTP/2 frame payload length mismatch: header='' @ dec (unat (fh_length h))
              @ '', actual='' @ dec payload_len)
      else Error_Success)"

subsection \<open>Payloads\<close>

fun settings_items :: "bytes \<Rightarrow> (u16 \<times> u32) list" where
  "settings_items (a # b # c # d # e # f # rest) =
     (be16 a b, be32 c d e f) # settings_items rest"
| "settings_items _ = []"

definition ParseSettingsPayload :: "bytes \<Rightarrow> (u16 \<times> u32) list option" where
  "ParseSettingsPayload payload =
     (if length payload mod 6 \<noteq> 0 then None else Some (settings_items payload))"

definition ParsePingPayload :: "bytes \<Rightarrow> bytes option" where
  "ParsePingPayload payload = (if length payload \<noteq> 8 then None else Some (take 8 payload))"

definition ParseGoawayPayload :: "bytes \<Rightarrow> (u32 \<times> u32) option" where
  "ParseGoawayPayload payload =
     (if length payload < 8 then None
      else Some (be32 (payload ! 0) (payload ! 1) (payload ! 2) (payload ! 3),
                 be32 (payload ! 4) (payload ! 5) (payload ! 6) (payload ! 7)))"

text \<open>The payload bytes \<open>SendSettings\<close> and \<open>SendGoaway\<close> build.\<close>

fun encode_setting :: "u16 \<times> u32 \<Rightarrow> bytes" where
  "encode_setting (identifier, v) =
     [byte_at 8 identifier, byte_at 0 identifier,
      byte_at 24 v, byte_at 16 v, byte_at 8 v, byte_at 0 v]"

definition encode_settings :: "(u16 \<times> u32) list \<Rightarrow> bytes" where
  "encode_settings settings = concat (map encode_setting settings)"

definition encode_goaway :: "u32 \<Rightarrow> u32 \<Rightarrow> bytes \<Rightarrow> bytes" where
  "encode_goaway last_stream_id error_code debug_data =
     [byte_at 24 last_stream_id, byte_at 16 last_stream_id,
      byte_at 8 last_stream_id, byte_at 0 last_stream_id,
      byte_at 24 error_code, byte_at 16 error_code, byte_at 8 error_code, byte_at 0 error_code]
     @ debug_data"

subsection \<open>Bits of the header words\<close>

lemma mask31: "(0x7FFFFFFF :: u32) = mask 31"
  by (simp add: mask_eq_exp_minus_1)

lemma bit_7F: "bit (0x7FFFFFFF :: u32) n \<longleftrightarrow> n < 31"
  by (simp only: mask31 bit_mask_iff) auto

lemma len31: "n < LENGTH(31) \<longleftrightarrow> n < 31"
  by simp

lemma bit_top32: "bit (2147483648 :: int) n \<longleftrightarrow> n = 31"
proof -
  have "(2147483648 :: int) = 2 ^ 31" by simp
  then show ?thesis by (simp only: bit_exp_iff) auto
qed

lemma word1_neq_0: "(w :: 1 word) \<noteq> 0 \<longleftrightarrow> bit w 0"
proof
  assume "w \<noteq> 0"
  then obtain n where "bit w n" by (auto simp: bit_eq_iff)
  then show "bit w 0" by (metis bit_imp_le_length len_num1 less_one)
qed auto

subsection \<open>Frame types\<close>

lemma as_frame_type_code [simp]: "as_frame_type (frame_type_code ft) = Some ft"
  by (cases ft) (simp_all add: as_frame_type_def)

lemma as_frame_type_Some: "as_frame_type t = Some ft \<Longrightarrow> frame_type_code ft = t"
  unfolding as_frame_type_def find_Some_iff by auto

lemma as_frame_type_eq: "as_frame_type t = Some ft \<longleftrightarrow> t = frame_type_code ft"
  using as_frame_type_Some as_frame_type_code by metis

lemma StringToFrameType_name [simp]: "StringToFrameType (FrameTypeName ft) = Some ft"
  by (cases ft) (simp_all add: StringToFrameType_def)

lemma FrameTypeToString_code [simp]:
  "StringToFrameType (FrameTypeToString (frame_type_code ft)) = Some ft"
  by (simp add: FrameTypeToString_def)

subsection \<open>The header round trip\<close>

lemma length_SerializeHeader [simp]: "length (SerializeHeader h) = 9"
  by (simp add: SerializeHeader_def Let_def)

lemma decode_header_append: "9 \<le> length xs \<Longrightarrow> decode_header (xs @ ys) = decode_header xs"
  by (cases xs) (auto simp: decode_header_def nth_append)

lemma decode_SerializeHeader: "decode_header (SerializeHeader h) = h"
proof -
  let ?l = "ucast (fh_length h) :: u32"
  let ?sid = "(ucast (fh_stream_id h) :: u32) AND 0x7FFFFFFF"
  let ?w = "if fh_reserved h \<noteq> 0 then ?sid OR push_bit 31 1 else ?sid"
  have l: "ucast (be24 (byte_at 16 ?l) (byte_at 8 ?l) (byte_at 0 ?l)) = fh_length h"
    unfolding be24_byte_at by (rule bit_word_eqI) (auto simp: bit_simps)
  have bits: "bit ?w n \<longleftrightarrow> bit (fh_stream_id h) n \<or> n = 31 \<and> fh_reserved h \<noteq> 0" for n
    unfolding mask31
    by (cases "fh_reserved h = 0") (auto simp: bit_simps bit_top32 dest: bit_imp_le_length)
  have sid: "ucast (?w AND 0x7FFFFFFF) = fh_stream_id h"
    by (rule bit_word_eqI) (auto simp only: bit_ucast_iff bit_and_iff bit_7F bits len31)
  have b31: "bit ?w 31 \<longleftrightarrow> fh_reserved h \<noteq> 0"
    unfolding bits by (auto dest: bit_imp_le_length)
  have res: "ucast (drop_bit 31 ?w AND 1) = fh_reserved h"
  proof (rule bit_word_eqI)
    fix n assume "n < LENGTH(1)"
    then have n: "n = 0" by simp
    show "bit (ucast (drop_bit 31 ?w AND 1) :: 1 word) n = bit (fh_reserved h) n"
      unfolding n
      by (simp only: bit_ucast_iff bit_and_iff bit_drop_bit_eq o_apply add_0_right b31 bit_1_iff)
         (auto simp: word1_neq_0)
  qed
  show ?thesis
    using l sid res by (simp add: decode_header_def SerializeHeader_def Let_def del: be24_byte_at)
qed

lemma SerializeHeader_decode:
  assumes "9 \<le> length d"
  shows "SerializeHeader (decode_header d) = take 9 d"
proof -
  obtain a b c t f e g i j r where d: "d = a # b # c # t # f # e # g # i # j # r"
    using assms by (auto simp: eval_nat_numeral Suc_le_length_iff)
  have l: "ucast (ucast (be24 a b c) :: 24 word) = be24 a b c"
    by (rule bit_word_eqI) (auto simp: bit_simps be24_def dest: bit_imp_le_length)
  let ?w = "be32 e g i j"
  have w: "(if (ucast (drop_bit 31 ?w AND 1) :: 1 word) \<noteq> 0
        then (ucast (ucast (?w AND 0x7FFFFFFF) :: 31 word) AND 0x7FFFFFFF) OR push_bit 31 1
        else (ucast (ucast (?w AND 0x7FFFFFFF) :: 31 word) AND 0x7FFFFFFF)) = ?w"
  proof -
    have "(ucast (drop_bit 31 ?w AND 1) :: 1 word) \<noteq> 0 \<longleftrightarrow> bit ?w 31"
      by (auto simp: word1_neq_0 bit_simps)
    moreover have "ucast (ucast (?w AND 0x7FFFFFFF) :: 31 word) AND 0x7FFFFFFF = ?w AND mask 31"
      unfolding mask31 by (rule bit_word_eqI) (auto simp: bit_simps)
    moreover have "n < 32 \<Longrightarrow> n < 31 \<or> n = 31" for n :: nat by arith
    ultimately show ?thesis
      by (intro bit_word_eqI) (auto simp: bit_simps bit_top32)
  qed
  show ?thesis
    using l w by (simp add: d SerializeHeader_def decode_header_def Let_def)
qed

lemma ParseHeader_eq:
  "ParseHeader d = Some h \<longleftrightarrow> 9 \<le> length d \<and> h = decode_header d \<and> IsSuccess (Validate h)"
  by (auto simp: ParseHeader_def Let_def)

lemma ParseHeader_append: "9 \<le> length d \<Longrightarrow> ParseHeader (d @ e) = ParseHeader d"
  by (simp add: ParseHeader_def decode_header_append)

lemma ParseHeader_Serialize:
  "ParseHeader (SerializeHeader h @ rest) = (if IsSuccess (Validate h) then Some h else None)"
  by (simp add: ParseHeader_def decode_header_append decode_SerializeHeader Let_def)

subsection \<open>The payload round trips\<close>

lemma length_encode_settings [simp]: "length (encode_settings s) = 6 * length s"
  by (induction s) (auto simp: encode_settings_def)

lemma settings_items_of_encode [simp]: "settings_items (encode_settings s) = s"
  by (induction s) (auto simp: encode_settings_def)

lemma encode_settings_items: "length p mod 6 = 0 \<Longrightarrow> encode_settings (settings_items p) = p"
proof (induction p rule: settings_items.induct)
  case (1 a b c d e f rest)
  then show ?case by (auto simp: encode_settings_def)
qed (auto simp: encode_settings_def)

lemma ParseSettings_encode [simp]: "ParseSettingsPayload (encode_settings s) = Some s"
  by (simp add: ParseSettingsPayload_def)

lemma ParseGoaway_encode [simp]: "ParseGoawayPayload (encode_goaway l e dbg) = Some (l, e)"
  by (simp add: ParseGoawayPayload_def encode_goaway_def)

lemma Validate_small_frame:
  assumes "as_frame_type t = Some ft" "ft \<in> {FT_DATA, FT_HEADERS, FT_PUSH_PROMISE, FT_CONTINUATION}"
  shows "IsSuccess (ValidateFrameLength len t)"
  using assms by (auto simp: ValidateFrameLength_def)

subsection \<open>Properties\<close>

text \<open>The frame header codec is a bijection between the valid headers and their nine-byte forms: a
  serialised header, whatever follows it, is parsed back to itself exactly when it is valid, and a
  header that was parsed serialises to the bytes it was parsed from.\<close>

theorem frame_header_roundtrip:
  "ParseHeader (SerializeHeader h @ rest) = (if IsSuccess (Validate h) then Some h else None) \<and>
   (ParseHeader d = Some h \<longrightarrow> SerializeHeader h = take 9 d)"
  using ParseHeader_Serialize SerializeHeader_decode by (auto simp: ParseHeader_eq)

theorem frame_header_roundtrip_witness:
  "SerializeHeader \<lparr>fh_length = 8, fh_type = 6, fh_flags = 1, fh_stream_id = 0, fh_reserved = 0\<rparr>
   = [0, 0, 8, 6, 1, 0, 0, 0, 0]"
proof -
  have "ParseHeader [0, 0, 8, 6, 1, 0, 0, 0, 0, 42] = Some
      \<lparr>fh_length = 8, fh_type = 6, fh_flags = 1, fh_stream_id = 0, fh_reserved = 0\<rparr>"
    by (simp add: ParseHeader_def decode_header_def be24_def be32_def Validate_def Let_def
        IsValidStreamId_def ValidateFrameLength_def as_frame_type_def)
  with frame_header_roundtrip [THEN conjunct2] show ?thesis by force
qed

text \<open>The SETTINGS payload codec is a bijection between lists of entries and the payloads whose
  length is a multiple of six: a payload is parsed to a list exactly when it is that list's
  encoding.\<close>

theorem settings_payload_bijection:
  "ParseSettingsPayload p = Some st \<longleftrightarrow> p = encode_settings st"
  by (auto simp: ParseSettingsPayload_def encode_settings_items split: if_splits)

end
