(* ===== verification/StateMachine.thy ===== *)
theory StateMachine
  imports Prelude
begin

text \<open>
  The transition discipline the stateful classes share: a \<open>CanTransition\<close> table and a
  \<open>TransitionState\<close> that ignores a request for the current state, refuses one the table does not
  allow, and stores the new state otherwise. The interface is stated twice: a machine with a
  terminal state, and a machine whose transitions also climb a rank, so that no state is ever
  entered twice.
\<close>

definition transition_to :: "('s \<Rightarrow> 's \<Rightarrow> bool) \<Rightarrow> 's \<Rightarrow> 's \<Rightarrow> 's" where
  "transition_to can cur new = (if cur = new then cur else if can cur new then new else cur)"

definition transitions :: "('s \<Rightarrow> 's \<Rightarrow> bool) \<Rightarrow> 's \<Rightarrow> 's list \<Rightarrow> 's" where
  "transitions can cur requests = fold (\<lambda>new s. transition_to can s new) requests cur"

lemma transition_to_cases:
  "transition_to can cur new = cur \<or> transition_to can cur new = new \<and> can cur new"
  by (simp add: transition_to_def)

lemma transitions_Nil [simp]: "transitions can s [] = s"
  by (simp add: transitions_def)

lemma transitions_Cons [simp]:
  "transitions can s (r # rs) = transitions can (transition_to can s r) rs"
  by (simp add: transitions_def)

locale terminal_machine =
  fixes can :: "'s \<Rightarrow> 's \<Rightarrow> bool" and terminal :: 's
  assumes terminal_stuck: "can terminal s \<Longrightarrow> s = terminal"
begin

lemma transition_terminal [simp]: "transition_to can terminal s = terminal"
  using terminal_stuck by (auto simp: transition_to_def)

lemma transitions_terminal [simp]: "transitions can terminal rs = terminal"
  by (induction rs) simp_all

end

locale ranked_machine = terminal_machine +
  fixes rank :: "'s \<Rightarrow> nat"
  assumes can_rank: "can a b \<Longrightarrow> rank a < rank b"
begin

lemma transition_rank: "rank s \<le> rank (transition_to can s r)"
  using can_rank by (auto simp: transition_to_def intro: less_imp_le)

lemma transition_rank_eq: "rank (transition_to can s r) = rank s \<Longrightarrow> transition_to can s r = s"
  using can_rank by (fastforce simp: transition_to_def split: if_splits)

lemma transitions_rank: "rank s \<le> rank (transitions can s rs)"
  by (induction rs arbitrary: s) (auto intro: order_trans [OF transition_rank])

lemma transitions_rank_eq: "rank (transitions can s rs) = rank s \<Longrightarrow> transitions can s rs = s"
proof (induction rs arbitrary: s)
  case (Cons r rs)
  let ?t = "transition_to can s r"
  have "rank s \<le> rank ?t" "rank ?t \<le> rank (transitions can ?t rs)"
    by (rule transition_rank, rule transitions_rank)
  with Cons.prems have "rank ?t = rank s" "rank (transitions can ?t rs) = rank ?t"
    by simp_all
  with Cons.IH [of ?t] show ?case by (simp add: transition_rank_eq)
qed simp

text \<open>A state that has been left is never entered again.\<close>

lemma no_return:
  assumes "transitions can s rs = t" "t \<noteq> s"
  shows "transitions can t qs \<noteq> s"
proof
  assume again: "transitions can t qs = s"
  have "rank s \<le> rank t" "rank t \<le> rank s"
    using transitions_rank [of s rs] transitions_rank [of t qs] assms(1) again by simp_all
  then show False
    using transitions_rank_eq [of s rs] assms by simp
qed

end

end
