(* ===== verification/H2Stream.thy ===== *)
theory H2Stream
  imports StateMachine WebError
begin

text \<open>
  One HTTP/2 stream (include/http2/h2_stream.h, src/http2/h2_stream.cpp).

  A header map is a map from names to values; \<open>insert(begin, end)\<close> of \<open>unordered_map\<close> keeps the
  entries that are there already, which is \<open>new ++ old\<close>. The three callbacks are user code: the
  record keeps whether each is set, and \<open>hs_calls\<close> is the sequence of calls made to them so far.
\<close>

type_synonym header_map = "string \<rightharpoonup> string"

datatype h2_stream_state =
    SS_IDLE | SS_RESERVED_LOCAL | SS_RESERVED_REMOTE | SS_OPEN
  | SS_HALF_CLOSED_LOCAL | SS_HALF_CLOSED_REMOTE | SS_CLOSED

fun stream_state_int :: "h2_stream_state \<Rightarrow> nat" where
  "stream_state_int SS_IDLE = 0"
| "stream_state_int SS_RESERVED_LOCAL = 1"
| "stream_state_int SS_RESERVED_REMOTE = 2"
| "stream_state_int SS_OPEN = 3"
| "stream_state_int SS_HALF_CLOSED_LOCAL = 4"
| "stream_state_int SS_HALF_CLOSED_REMOTE = 5"
| "stream_state_int SS_CLOSED = 6"

record h2_priority =
  pr_exclusive :: bool
  pr_stream_dependency :: u32
  pr_weight :: u8

datatype stream_call =
    CallHeaders header_map bool
  | CallData bytes bool
  | CallClose u32

record h2_stream =
  hs_stream_id :: u32
  hs_state :: h2_stream_state
  hs_priority :: h2_priority
  hs_request_headers :: header_map
  hs_response_headers :: header_map
  hs_request_body :: bytes
  hs_response_body :: bytes
  hs_send_window :: int
  hs_recv_window :: int
  hs_data_callback :: bool
  hs_headers_callback :: bool
  hs_close_callback :: bool
  hs_calls :: "stream_call list"

definition default_priority :: h2_priority where
  "default_priority = \<lparr>pr_exclusive = False, pr_stream_dependency = 0, pr_weight = 16\<rparr>"

definition new_stream :: "u32 \<Rightarrow> h2_stream" where
  "new_stream stream_id =
     \<lparr>hs_stream_id = stream_id, hs_state = SS_IDLE, hs_priority = default_priority,
      hs_request_headers = Map.empty, hs_response_headers = Map.empty,
      hs_request_body = [], hs_response_body = [],
      hs_send_window = 65535, hs_recv_window = 65535,
      hs_data_callback = False, hs_headers_callback = False, hs_close_callback = False,
      hs_calls = []\<rparr>"

fun stream_CanTransition :: "h2_stream_state \<Rightarrow> h2_stream_state \<Rightarrow> bool" where
  "stream_CanTransition SS_IDLE n =
     (n = SS_OPEN \<or> n = SS_RESERVED_LOCAL \<or> n = SS_RESERVED_REMOTE \<or> n = SS_CLOSED)"
| "stream_CanTransition SS_OPEN n =
     (n = SS_HALF_CLOSED_LOCAL \<or> n = SS_HALF_CLOSED_REMOTE \<or> n = SS_CLOSED)"
| "stream_CanTransition SS_HALF_CLOSED_LOCAL n = (n = SS_CLOSED)"
| "stream_CanTransition SS_HALF_CLOSED_REMOTE n = (n = SS_CLOSED)"
| "stream_CanTransition SS_RESERVED_LOCAL n = (n = SS_HALF_CLOSED_REMOTE \<or> n = SS_CLOSED)"
| "stream_CanTransition SS_RESERVED_REMOTE n = (n = SS_HALF_CLOSED_REMOTE \<or> n = SS_CLOSED)"
| "stream_CanTransition SS_CLOSED n = False"

definition stream_ValidateTransition :: "h2_stream \<Rightarrow> h2_stream_state \<Rightarrow> error_obj" where
  "stream_ValidateTransition s new =
     (if \<not> stream_CanTransition (hs_state s) new
      then Error_of kProtocolError
             (''Invalid stream state transition: '' @ dec (stream_state_int (hs_state s))
              @ '' -> '' @ dec (stream_state_int new))
      else Error_Success)"

definition stream_TransitionState :: "h2_stream \<Rightarrow> h2_stream_state \<Rightarrow> h2_stream" where
  "stream_TransitionState s new =
     (if hs_state s = new then s
      else if \<not> stream_CanTransition (hs_state s) new then s
      else s\<lparr>hs_state := new\<rparr>)"

definition HandleHeaders ::
  "h2_stream \<Rightarrow> header_map \<Rightarrow> bool \<Rightarrow> error_obj \<times> h2_stream" where
  "HandleHeaders s headers end_stream =
     (let target = (if end_stream then SS_HALF_CLOSED_REMOTE else SS_OPEN);
          err = stream_ValidateTransition s target
      in if \<not> IsSuccess err then (err, s)
         else let s = s\<lparr>hs_request_headers := headers ++ hs_request_headers s\<rparr>;
                  s = stream_TransitionState s target;
                  s = (if hs_headers_callback s
                       then s\<lparr>hs_calls := hs_calls s @ [CallHeaders headers end_stream]\<rparr> else s)
              in (Error_Success, s))"

definition HandleData :: "h2_stream \<Rightarrow> bytes \<Rightarrow> bool \<Rightarrow> error_obj \<times> h2_stream" where
  "HandleData s data end_stream =
     (let err = (if end_stream then stream_ValidateTransition s SS_HALF_CLOSED_REMOTE
                 else Error_Success)
      in if \<not> IsSuccess err then (err, s)
         else let s = s\<lparr>hs_request_body := hs_request_body s @ data\<rparr>;
                  s = (if end_stream then stream_TransitionState s SS_HALF_CLOSED_REMOTE else s);
                  s = (if hs_data_callback s
                       then s\<lparr>hs_calls := hs_calls s @ [CallData data end_stream]\<rparr> else s)
              in (Error_Success, s))"

definition SendHeaders ::
  "h2_stream \<Rightarrow> header_map \<Rightarrow> bool \<Rightarrow> error_obj \<times> h2_stream" where
  "SendHeaders s headers end_stream =
     (let target = (if end_stream then SS_HALF_CLOSED_LOCAL else SS_OPEN);
          err = stream_ValidateTransition s target
      in if \<not> IsSuccess err then (err, s)
         else let s = s\<lparr>hs_response_headers := headers ++ hs_response_headers s\<rparr>;
                  s = stream_TransitionState s target
              in (Error_Success, s))"

definition SendData :: "h2_stream \<Rightarrow> bytes \<Rightarrow> bool \<Rightarrow> error_obj \<times> h2_stream" where
  "SendData s data end_stream =
     (let err = (if end_stream then stream_ValidateTransition s SS_HALF_CLOSED_LOCAL
                 else Error_Success)
      in if \<not> IsSuccess err then (err, s)
         else let s = s\<lparr>hs_response_body := hs_response_body s @ data\<rparr>;
                  s = (if end_stream then stream_TransitionState s SS_HALF_CLOSED_LOCAL else s)
              in (Error_Success, s))"

definition stream_Close :: "h2_stream \<Rightarrow> u32 \<Rightarrow> h2_stream" where
  "stream_Close s error_code =
     (if hs_state s = SS_CLOSED then s
      else let s = stream_TransitionState s SS_CLOSED
           in if hs_close_callback s
              then s\<lparr>hs_calls := hs_calls s @ [CallClose error_code]\<rparr> else s)"

definition SendRstStream :: "h2_stream \<Rightarrow> u32 \<Rightarrow> error_obj \<times> h2_stream" where
  "SendRstStream s error_code = (Error_Success, stream_Close s error_code)"

definition UpdatePriority :: "h2_stream \<Rightarrow> h2_priority \<Rightarrow> error_obj \<times> h2_stream" where
  "UpdatePriority s priority = (Error_Success, s\<lparr>hs_priority := priority\<rparr>)"

definition stream_IsReadable :: "h2_stream \<Rightarrow> bool" where
  "stream_IsReadable s \<longleftrightarrow> hs_state s = SS_OPEN \<or> hs_state s = SS_HALF_CLOSED_LOCAL"

definition stream_IsWritable :: "h2_stream \<Rightarrow> bool" where
  "stream_IsWritable s \<longleftrightarrow> hs_state s = SS_OPEN \<or> hs_state s = SS_HALF_CLOSED_REMOTE"

text \<open>The public operations as one step function, and a run of them.\<close>

datatype stream_op =
    OpHandleHeaders header_map bool
  | OpHandleData bytes bool
  | OpSendHeaders header_map bool
  | OpSendData bytes bool
  | OpSendRst u32
  | OpClose u32
  | OpUpdatePriority h2_priority

fun stream_exec :: "h2_stream \<Rightarrow> stream_op \<Rightarrow> error_obj \<times> h2_stream" where
  "stream_exec s (OpHandleHeaders h e) = HandleHeaders s h e"
| "stream_exec s (OpHandleData d e) = HandleData s d e"
| "stream_exec s (OpSendHeaders h e) = SendHeaders s h e"
| "stream_exec s (OpSendData d e) = SendData s d e"
| "stream_exec s (OpSendRst c) = SendRstStream s c"
| "stream_exec s (OpClose c) = (Error_Success, stream_Close s c)"
| "stream_exec s (OpUpdatePriority p) = UpdatePriority s p"

definition stream_run :: "h2_stream \<Rightarrow> stream_op list \<Rightarrow> h2_stream" where
  "stream_run s ops = fold (\<lambda>x s. snd (stream_exec s x)) ops s"

subsection \<open>The state table as a ranked machine\<close>

fun stream_rank :: "h2_stream_state \<Rightarrow> nat" where
  "stream_rank SS_IDLE = 0"
| "stream_rank SS_RESERVED_LOCAL = 1"
| "stream_rank SS_RESERVED_REMOTE = 1"
| "stream_rank SS_OPEN = 1"
| "stream_rank SS_HALF_CLOSED_LOCAL = 2"
| "stream_rank SS_HALF_CLOSED_REMOTE = 2"
| "stream_rank SS_CLOSED = 3"

interpretation stream_machine: ranked_machine stream_CanTransition SS_CLOSED stream_rank
proof unfold_locales
  show "stream_CanTransition a b \<Longrightarrow> stream_rank a < stream_rank b" for a b
    by (cases a) auto
qed simp

lemma stream_TransitionState_state [simp]:
  "hs_state (stream_TransitionState s n) = transition_to stream_CanTransition (hs_state s) n"
  by (simp add: stream_TransitionState_def transition_to_def)

lemma stream_TransitionState_frame [simp]:
  "hs_calls (stream_TransitionState s n) = hs_calls s"
  "hs_request_body (stream_TransitionState s n) = hs_request_body s"
  "hs_response_body (stream_TransitionState s n) = hs_response_body s"
  "hs_request_headers (stream_TransitionState s n) = hs_request_headers s"
  "hs_response_headers (stream_TransitionState s n) = hs_response_headers s"
  "hs_close_callback (stream_TransitionState s n) = hs_close_callback s"
  "hs_data_callback (stream_TransitionState s n) = hs_data_callback s"
  "hs_headers_callback (stream_TransitionState s n) = hs_headers_callback s"
  by (simp_all add: stream_TransitionState_def)

lemma ValidateTransition_success [simp]:
  "IsSuccess (stream_ValidateTransition s n) \<longleftrightarrow> stream_CanTransition (hs_state s) n"
  by (simp add: stream_ValidateTransition_def)

lemmas stream_op_defs =
  HandleHeaders_def HandleData_def SendHeaders_def SendData_def SendRstStream_def
  UpdatePriority_def stream_Close_def Let_def

text \<open>Every operation asks for at most one transition.\<close>

lemma stream_exec_transition:
  "hs_state (snd (stream_exec s x)) = hs_state s
   \<or> (\<exists>r. hs_state (snd (stream_exec s x)) = transition_to stream_CanTransition (hs_state s) r)"
  by (cases x) (auto simp: stream_op_defs)

lemma stream_run_simps [simp]:
  "stream_run s [] = s"
  "stream_run s (x # xs) = stream_run (snd (stream_exec s x)) xs"
  by (simp_all add: stream_run_def)

lemma stream_run_append: "stream_run s (xs @ ys) = stream_run (stream_run s xs) ys"
  by (simp add: stream_run_def)

lemma stream_run_transitions:
  "\<exists>rs. hs_state (stream_run s xs) = transitions stream_CanTransition (hs_state s) rs"
proof (induction xs arbitrary: s)
  case Nil
  show ?case by (intro exI [of _ "[]"]) simp
next
  case (Cons x xs)
  let ?s' = "snd (stream_exec s x)"
  from Cons.IH obtain rs where
    "hs_state (stream_run ?s' xs) = transitions stream_CanTransition (hs_state ?s') rs" by blast
  with stream_exec_transition [of s x] show ?case
    by (metis stream_run_simps(2) transitions_Cons)
qed

text \<open>A refused operation leaves the stream as it was.\<close>

lemma stream_exec_refused:
  "\<not> IsSuccess (fst (stream_exec s x)) \<Longrightarrow> snd (stream_exec s x) = s"
  by (cases x) (auto simp: stream_op_defs)

subsection \<open>The close callback\<close>

definition close_calls :: "h2_stream \<Rightarrow> nat" where
  "close_calls s = length (filter (\<lambda>c. \<exists>e. c = CallClose e) (hs_calls s))"

definition close_inv :: "h2_stream \<Rightarrow> bool" where
  "close_inv s \<longleftrightarrow>
     close_calls s = (if hs_state s = SS_CLOSED \<and> hs_close_callback s then 1 else 0)"

lemma stream_exec_callbacks [simp]:
  "hs_close_callback (snd (stream_exec s x)) = hs_close_callback s"
  by (cases x) (auto simp: stream_op_defs)

lemma close_inv_exec [inv_lemmas]: "close_inv s \<Longrightarrow> close_inv (snd (stream_exec s x))"
proof (cases x)
  case (OpSendRst c)
  then show "close_inv s \<Longrightarrow> ?thesis"
    by (cases "hs_state s") (auto simp: stream_op_defs close_inv_def close_calls_def transition_to_def)
next
  case (OpClose c)
  then show "close_inv s \<Longrightarrow> ?thesis"
    by (cases "hs_state s") (auto simp: stream_op_defs close_inv_def close_calls_def transition_to_def)
qed (cases "hs_state s"; auto simp: stream_op_defs close_inv_def close_calls_def transition_to_def)+

lemma close_inv_run [inv_lemmas]: "close_inv s \<Longrightarrow> close_inv (stream_run s xs)"
  by (induction xs arbitrary: s) (auto intro: close_inv_exec)

lemma close_callback_run [simp]: "hs_close_callback (stream_run s xs) = hs_close_callback s"
  by (induction xs arbitrary: s) simp_all

subsection \<open>Ending a stream\<close>

text \<open>Whether an operation carries END_STREAM, and how many of a run's operations that do succeed.\<close>

fun ends_stream :: "stream_op \<Rightarrow> bool" where
  "ends_stream (OpHandleHeaders h e) = e"
| "ends_stream (OpHandleData d e) = e"
| "ends_stream (OpSendHeaders h e) = e"
| "ends_stream (OpSendData d e) = e"
| "ends_stream _ = False"

fun ended :: "h2_stream \<Rightarrow> stream_op list \<Rightarrow> nat" where
  "ended s [] = 0"
| "ended s (x # xs) =
     (if ends_stream x \<and> IsSuccess (fst (stream_exec s x)) then 1 else 0)
     + ended (snd (stream_exec s x)) xs"

lemma ended_step_rank:
  assumes "ends_stream x" "IsSuccess (fst (stream_exec s x))"
  shows "stream_rank (hs_state s) < 2" "stream_rank (hs_state (snd (stream_exec s x))) = 2"
  using assms
  by (cases x; cases "hs_state s"; auto simp: stream_op_defs transition_to_def split: if_splits)+

lemma stream_exec_rank: "stream_rank (hs_state s) \<le> stream_rank (hs_state (snd (stream_exec s x)))"
  using stream_exec_transition [of s x] stream_machine.transition_rank by auto

lemma ended_late: "2 \<le> stream_rank (hs_state s) \<Longrightarrow> ended s xs = 0"
proof (induction xs arbitrary: s)
  case (Cons x xs)
  then show ?case
    using ended_step_rank(1) [of x s] stream_exec_rank [of s x] by fastforce
qed simp

lemma ended_le_1: "ended s xs \<le> 1"
proof (induction xs arbitrary: s)
  case (Cons x xs)
  then show ?case
    using ended_step_rank(2) [of x s] ended_late [of "snd (stream_exec s x)" xs] by auto
qed simp

lemma half_closed_remote_stays:
  "hs_state s \<in> {SS_HALF_CLOSED_REMOTE, SS_CLOSED} \<Longrightarrow>
   hs_state (stream_run s xs) \<in> {SS_HALF_CLOSED_REMOTE, SS_CLOSED}"
proof (induction xs arbitrary: s)
  case (Cons x xs)
  have "hs_state (snd (stream_exec s x)) \<in> {SS_HALF_CLOSED_REMOTE, SS_CLOSED}"
    using stream_exec_transition [of s x] Cons.prems by (auto simp: transition_to_def split: if_splits)
  then show ?case using Cons.IH by simp
qed simp

subsection \<open>Bodies\<close>

fun received :: "h2_stream \<Rightarrow> stream_op list \<Rightarrow> bytes" where
  "received s [] = []"
| "received s (x # xs) =
     (case x of
        OpHandleData d e \<Rightarrow> (if IsSuccess (fst (stream_exec s x)) then d else [])
      | _ \<Rightarrow> [])
     @ received (snd (stream_exec s x)) xs"

lemma request_body_exec:
  "hs_request_body (snd (stream_exec s x)) =
   hs_request_body s @ (case x of
        OpHandleData d e \<Rightarrow> (if IsSuccess (fst (stream_exec s x)) then d else [])
      | _ \<Rightarrow> [])"
  by (cases x) (auto simp: stream_op_defs)

lemma request_body_run: "hs_request_body (stream_run s xs) = hs_request_body s @ received s xs"
  by (induction xs arbitrary: s) (simp_all add: request_body_exec)

subsection \<open>Properties\<close>

text \<open>C31: a run of operations, from any stream, never brings it back to a state it has left, and a
  closed stream stays closed whatever is called on it.\<close>

theorem stream_lifecycle:
  assumes "hs_state (stream_run s xs) \<noteq> hs_state s"
  shows "hs_state (stream_run (stream_run s xs) ys) \<noteq> hs_state s
    \<and> (hs_state (stream_run s xs) = SS_CLOSED \<longrightarrow>
         hs_state (stream_run (stream_run s xs) ys) = SS_CLOSED)"
proof -
  obtain rs qs where
    "hs_state (stream_run s xs) = transitions stream_CanTransition (hs_state s) rs"
    "hs_state (stream_run (stream_run s xs) ys)
     = transitions stream_CanTransition (hs_state (stream_run s xs)) qs"
    using stream_run_transitions by meson
  with assms stream_machine.no_return show ?thesis by force
qed

theorem stream_lifecycle_witness:
  "hs_state (stream_run (stream_run (new_stream 1) [OpHandleHeaders Map.empty False, OpClose 0])
     [OpHandleData [1] False]) = SS_CLOSED"
proof -
  have closed: "hs_state (stream_run (new_stream 1)
      [OpHandleHeaders Map.empty False, OpClose 0]) = SS_CLOSED"
    by (simp add: stream_op_defs new_stream_def transition_to_def)
  then have "hs_state (stream_run (new_stream 1)
      [OpHandleHeaders Map.empty False, OpClose 0]) \<noteq> hs_state (new_stream 1)"
    by (simp add: new_stream_def)
  from stream_lifecycle [OF this, of "[OpHandleData [1] False]"] closed show ?thesis by blast
qed

text \<open>Over the whole life of a stream the close callback runs at most once: exactly once when the
  stream has been closed and a callback is set, and never before.\<close>

theorem stream_close_once:
  "close_calls (stream_run ((new_stream i)\<lparr>hs_close_callback := cb\<rparr>) xs) =
   (if hs_state (stream_run ((new_stream i)\<lparr>hs_close_callback := cb\<rparr>) xs) = SS_CLOSED \<and> cb
    then 1 else 0)"
proof -
  have "close_inv ((new_stream i)\<lparr>hs_close_callback := cb\<rparr>)"
    by (simp add: close_inv_def close_calls_def new_stream_def)
  from close_inv_run [OF this, of xs] show ?thesis
    by (simp add: close_inv_def)
qed

text \<open>Of all the operations with END_STREAM in a run, at most one succeeds. A request that has
  ended can therefore not be answered by a response that ends: in the half-closed (remote) state
  and after it, every \<open>SendHeaders\<close> and every final \<open>SendData\<close> is refused. RFC 7540 section 5.1,
  which the state table cites, lets both sides end.\<close>

theorem stream_single_end:
  "ended s xs \<le> 1 \<and>
   (hs_state s = SS_HALF_CLOSED_REMOTE \<longrightarrow>
      \<not> IsSuccess (fst (SendHeaders (stream_run s xs) h e)) \<and>
      \<not> IsSuccess (fst (SendData (stream_run s xs) d True)))"
proof (intro conjI impI ended_le_1)
  assume "hs_state s = SS_HALF_CLOSED_REMOTE"
  then have "hs_state (stream_run s xs) \<in> {SS_HALF_CLOSED_REMOTE, SS_CLOSED}"
    using half_closed_remote_stays by simp
  then show "\<not> IsSuccess (fst (SendHeaders (stream_run s xs) h e))"
    and "\<not> IsSuccess (fst (SendData (stream_run s xs) d True))"
    by (auto simp: SendHeaders_def SendData_def Let_def)
qed

theorem stream_single_end_witness:
  "hs_state (stream_run (new_stream 1)
      [OpHandleHeaders Map.empty False, OpHandleData [] True]) = SS_HALF_CLOSED_REMOTE \<and>
   \<not> IsSuccess (fst (SendHeaders (stream_run (stream_run (new_stream 1)
      [OpHandleHeaders Map.empty False, OpHandleData [] True]) []) Map.empty True))"
proof -
  have "hs_state (stream_run (new_stream 1)
      [OpHandleHeaders Map.empty False, OpHandleData [] True]) = SS_HALF_CLOSED_REMOTE"
    by (simp add: stream_op_defs new_stream_def transition_to_def)
  with stream_single_end show ?thesis by blast
qed

text \<open>The request body is the concatenation, in order, of the data of exactly those DATA frames
  the stream accepted; no other operation touches it, and a refused operation changes nothing of
  the stream.\<close>

theorem stream_body_accumulates:
  "hs_request_body (stream_run s xs) = hs_request_body s @ received s xs \<and>
   (\<not> IsSuccess (fst (stream_exec s x)) \<longrightarrow> stream_exec s x = (fst (stream_exec s x), s))"
  using stream_exec_refused [of s x] by (simp add: request_body_run prod_eq_iff)

theorem stream_body_accumulates_witness:
  "\<not> IsSuccess (fst (HandleHeaders (new_stream 1) Map.empty True)) \<and>
   snd (stream_exec (new_stream 1) (OpHandleHeaders Map.empty True)) = new_stream 1"
proof -
  have "\<not> IsSuccess (fst (stream_exec (new_stream 1) (OpHandleHeaders Map.empty True)))"
    by (simp add: HandleHeaders_def new_stream_def Let_def)
  with stream_body_accumulates [of "new_stream 1" "[]" "OpHandleHeaders Map.empty True"]
  show ?thesis by (simp add: prod_eq_iff)
qed

end
