(* ===== verification/Chunked.thy ===== *)
theory Chunked
  imports Prelude
begin

text \<open>
  Incremental consumers of a byte stream. Both the HTTP/2 connection and the HTTP/1 parser append
  what arrives to a buffer and then take complete units (frames, lines) off its front until one
  is incomplete or fails. \<open>consume\<close> is that loop over a step function; the interface
  \<open>chunked_consumer\<close> states what a step promises (it takes at least one byte and at most what is
  there, and later bytes do not change what it does with earlier ones), and its theorem says that
  the way the stream is cut into reads cannot be observed.
\<close>

datatype ('s, 'e) unit_step = Wait | Failed 'e 's | Taken nat 's

function consume ::
  "('s \<Rightarrow> 'b list \<Rightarrow> ('s, 'e) unit_step) \<Rightarrow> 's \<Rightarrow> 'b list \<Rightarrow> 'e option \<times> 's \<times> 'b list" where
  "consume f s xs =
     (case f s xs of
        Wait \<Rightarrow> (None, s, xs)
      | Failed e s' \<Rightarrow> (Some e, s', xs)
      | Taken n s' \<Rightarrow>
          (if 0 < n \<and> n \<le> length xs then consume f s' (drop n xs) else (None, s', xs)))"
  by pat_completeness auto
termination
  by (relation "measure (\<lambda>(f, s, xs). length xs)") auto

declare consume.simps [simp del]

locale chunked_consumer =
  fixes step :: "'s \<Rightarrow> 'b list \<Rightarrow> ('s, 'e) unit_step"
  assumes taken_bounds: "step s xs = Taken n s' \<Longrightarrow> 0 < n \<and> n \<le> length xs"
    and taken_extend: "step s xs = Taken n s' \<Longrightarrow> step s (xs @ ys) = Taken n s'"
    and failed_extend: "step s xs = Failed e s' \<Longrightarrow> step s (xs @ ys) = Failed e s'"
begin

lemma consume_wait: "step s xs = Wait \<Longrightarrow> consume step s xs = (None, s, xs)"
  by (subst consume.simps) simp

lemma consume_failed: "step s xs = Failed e s' \<Longrightarrow> consume step s xs = (Some e, s', xs)"
  by (subst consume.simps) simp

lemma consume_taken:
  "step s xs = Taken n s' \<Longrightarrow> consume step s xs = consume step s' (drop n xs)"
  using taken_bounds by (subst consume.simps) simp

text \<open>Cutting the input: what the first part leaves over is continued with the second.\<close>

theorem consume_append:
  "consume step s (xs @ ys) =
     (case consume step s xs of
        (None, s', rest) \<Rightarrow> consume step s' (rest @ ys)
      | (Some e, s', rest) \<Rightarrow> (Some e, s', rest @ ys))"
proof (induction "length xs" arbitrary: s xs rule: less_induct)
  case less
  show ?case
  proof (cases "step s xs")
    case Wait
    then show ?thesis by (simp add: consume_wait)
  next
    case (Failed e s')
    then show ?thesis by (simp add: consume_failed failed_extend)
  next
    case (Taken n s')
    with taken_bounds have n: "0 < n" "n \<le> length xs" by blast+
    then have shorter: "length (drop n xs) < length xs" by simp
    from Taken n show ?thesis
      using less.hyps [OF shorter, of s'] by (simp add: consume_taken taken_extend)
  qed
qed

text \<open>Nothing of what is left over is a complete unit.\<close>

lemma consume_done: "consume step s xs = (None, s', rest) \<Longrightarrow> step s' rest = Wait"
proof (induction "length xs" arbitrary: s xs rule: less_induct)
  case less
  show ?case
  proof (cases "step s xs")
    case (Taken n t)
    with taken_bounds have n: "0 < n" "n \<le> length xs" by blast+
    then have shorter: "length (drop n xs) < length xs" by simp
    from Taken less.prems less.hyps [OF shorter, of t] show ?thesis by (simp add: consume_taken)
  qed (use less.prems in \<open>simp_all add: consume_wait consume_failed\<close>)
qed

text \<open>What is left over is a suffix of the input.\<close>

lemma consume_suffix: "consume step s xs = (r, s', rest) \<Longrightarrow> \<exists>taken. xs = taken @ rest"
proof (induction "length xs" arbitrary: s xs rule: less_induct)
  case less
  show ?case
  proof (cases "step s xs")
    case (Taken n t)
    with taken_bounds have n: "0 < n" "n \<le> length xs" by blast+
    then have shorter: "length (drop n xs) < length xs" by simp
    from Taken less.prems less.hyps [OF shorter, of t]
    obtain taken where "drop n xs = taken @ rest" by (auto simp: consume_taken)
    then have "xs = (take n xs @ taken) @ rest" by (metis append.assoc append_take_drop_id)
    then show ?thesis ..
  qed (use less.prems in \<open>simp_all add: consume_wait consume_failed\<close>)
qed

end

end
