(* ===== verification/H2Connection.thy ===== *)
theory H2Connection
  imports H2Frame H2Stream Chunked
begin

text \<open>
  One HTTP/2 connection (include/http2/h2_connection.h, src/http2/h2_connection.cpp).

  The stream table \<open>streams_\<close> is an association list with distinct keys: its order stands for the
  iteration order of the \<open>unordered_map\<close>, and no result depends on it. A stream that leaves the
  table is kept in \<open>hc_released\<close>, so that the calls made to its callbacks stay visible. Frames handed
  to \<open>frame_callback_\<close> are appended to \<open>hc_sent\<close>, calls of \<open>close_callback_\<close> to \<open>hc_close_calls\<close>.
  Locks are left out: every operation holds \<open>streams_mutex_\<close> around its whole access to the table.

  \<open>ProcessData\<close> advances the pointer it was given past the preface. Where it advances beyond the end
  of the data, the code reads out of bounds and its result is \<open>None\<close>.
\<close>

datatype h2_conn_state = H2_IDLE | H2_PREFACE_SENT | H2_OPEN | H2_CLOSING | H2_CLOSED

record h2_settings =
  se_header_table_size :: u32
  se_enable_push :: u32
  se_max_concurrent_streams :: u32
  se_initial_window_size :: u32
  se_max_frame_size :: u32
  se_max_header_list_size :: u32

definition default_settings :: h2_settings where
  "default_settings =
     \<lparr>se_header_table_size = 4096, se_enable_push = 1, se_max_concurrent_streams = 100,
      se_initial_window_size = 65535, se_max_frame_size = 16384,
      se_max_header_list_size = 65536\<rparr>"

record h2_connection =
  hc_fd :: int
  hc_is_server :: bool
  hc_state :: h2_conn_state
  hc_settings :: h2_settings
  hc_streams :: "(u32 \<times> h2_stream) list"
  hc_released :: "(u32 \<times> h2_stream) list"
  hc_read_buffer :: bytes
  hc_preface_remaining :: nat
  hc_frame_callback :: bool
  hc_close_callback :: bool
  hc_sent :: "(h2_frame_header \<times> bytes) list"
  hc_close_calls :: "error_obj list"

text \<open>\<open>"PRI * HTTP/2.0\r\n\r\nSM\r\n\r\n"\<close>\<close>

definition CLIENT_PREFACE :: bytes where
  "CLIENT_PREFACE =
     [0x50, 0x52, 0x49, 0x20, 0x2A, 0x20, 0x48, 0x54, 0x54, 0x50, 0x2F, 0x32, 0x2E, 0x30,
      0x0D, 0x0A, 0x0D, 0x0A, 0x53, 0x4D, 0x0D, 0x0A, 0x0D, 0x0A]"

abbreviation CLIENT_PREFACE_LEN :: nat where "CLIENT_PREFACE_LEN \<equiv> 24"

fun conn_CanTransition :: "h2_conn_state \<Rightarrow> h2_conn_state \<Rightarrow> bool" where
  "conn_CanTransition H2_IDLE n = (n = H2_OPEN \<or> n = H2_CLOSED)"
| "conn_CanTransition H2_PREFACE_SENT n = (n = H2_OPEN \<or> n = H2_CLOSED)"
| "conn_CanTransition H2_OPEN n = (n = H2_CLOSING \<or> n = H2_CLOSED)"
| "conn_CanTransition H2_CLOSING n = (n = H2_CLOSED)"
| "conn_CanTransition H2_CLOSED n = False"

definition conn_TransitionState :: "h2_connection \<Rightarrow> h2_conn_state \<Rightarrow> h2_connection" where
  "conn_TransitionState c new =
     (if hc_state c = new then c
      else if \<not> conn_CanTransition (hc_state c) new then c
      else c\<lparr>hc_state := new\<rparr>)"

definition new_connection :: "int \<Rightarrow> bool \<Rightarrow> h2_connection" where
  "new_connection fd is_server =
     (let c = \<lparr>hc_fd = fd, hc_is_server = is_server, hc_state = H2_IDLE,
               hc_settings = default_settings, hc_streams = [], hc_released = [],
               hc_read_buffer = [],
               hc_preface_remaining = (if is_server then CLIENT_PREFACE_LEN else 0),
               hc_frame_callback = False, hc_close_callback = False,
               hc_sent = [], hc_close_calls = []\<rparr>
      in if is_server then c else conn_TransitionState c H2_PREFACE_SENT)"

definition conn_IsClosed :: "h2_connection \<Rightarrow> bool" where
  "conn_IsClosed c \<longleftrightarrow> hc_state c = H2_CLOSED"

definition conn_IsOpen :: "h2_connection \<Rightarrow> bool" where
  "conn_IsOpen c \<longleftrightarrow> hc_state c = H2_OPEN"

subsection \<open>Sending\<close>

definition SendFrame ::
  "h2_connection \<Rightarrow> h2_frame_type \<Rightarrow> u8 \<Rightarrow> u32 \<Rightarrow> bytes \<Rightarrow> error_obj \<times> h2_connection" where
  "SendFrame c ftype flags stream_id payload =
     (if conn_IsClosed c then (Error_of kProtocolError ''Connection is closed'', c)
      else let header = \<lparr>fh_length = ucast (of_nat (length payload) :: u32),
                         fh_type = frame_type_code ftype, fh_flags = flags,
                         fh_stream_id = ucast stream_id, fh_reserved = 0\<rparr>;
               err = Validate header
           in if \<not> IsSuccess err then (err, c)
              else if hc_frame_callback c
              then (Error_Success, c\<lparr>hc_sent := hc_sent c @ [(header, payload)]\<rparr>)
              else (Error_of kInternalError ''No frame callback'', c))"

definition SendSettings ::
  "h2_connection \<Rightarrow> (u16 \<times> u32) list \<Rightarrow> bool \<Rightarrow> error_obj \<times> h2_connection" where
  "SendSettings c settings ack =
     SendFrame c FT_SETTINGS (if ack then FLAG_ACK else 0) 0 (encode_settings settings)"

definition SendGoaway ::
  "h2_connection \<Rightarrow> u32 \<Rightarrow> u32 \<Rightarrow> bytes \<Rightarrow> error_obj \<times> h2_connection" where
  "SendGoaway c last_stream_id error_code debug_data =
     SendFrame c FT_GOAWAY 0 0 (encode_goaway last_stream_id error_code debug_data)"

definition SendPing :: "h2_connection \<Rightarrow> bytes \<Rightarrow> bool \<Rightarrow> error_obj \<times> h2_connection" where
  "SendPing c opaque_data ack =
     SendFrame c FT_PING (if ack then FLAG_ACK else 0) 0 opaque_data"

subsection \<open>Streams\<close>

definition GetOrCreateStream :: "h2_connection \<Rightarrow> u32 \<Rightarrow> h2_stream \<times> h2_connection" where
  "GetOrCreateStream c stream_id =
     (case map_of (hc_streams c) stream_id of
        Some s \<Rightarrow> (s, c)
      | None \<Rightarrow> (let s = new_stream stream_id
                 in (s, c\<lparr>hc_streams := hc_streams c @ [(stream_id, s)]\<rparr>)))"

definition RemoveStream :: "h2_connection \<Rightarrow> u32 \<Rightarrow> h2_connection" where
  "RemoveStream c stream_id =
     c\<lparr>hc_streams := filter (\<lambda>(i, s). i \<noteq> stream_id) (hc_streams c),
       hc_released := hc_released c @ filter (\<lambda>(i, s). i = stream_id) (hc_streams c)\<rparr>"

text \<open>Closing, through its shared pointer, every stream the table holds for an id.\<close>

definition close_stream_in ::
  "u32 \<Rightarrow> u32 \<Rightarrow> (u32 \<times> h2_stream) list \<Rightarrow> (u32 \<times> h2_stream) list" where
  "close_stream_in stream_id error_code ss =
     map (\<lambda>(i, s). (i, if i = stream_id then stream_Close s error_code else s)) ss"

definition CloseAllStreams :: "h2_connection \<Rightarrow> h2_connection" where
  "CloseAllStreams c =
     c\<lparr>hc_streams := [],
       hc_released := hc_released c @ map (\<lambda>(i, s). (i, stream_Close s 1)) (hc_streams c)\<rparr>"

definition GetActiveStreamCount :: "h2_connection \<Rightarrow> nat" where
  "GetActiveStreamCount c = length (hc_streams c)"

definition conn_Close :: "h2_connection \<Rightarrow> error_obj \<Rightarrow> h2_connection" where
  "conn_Close c reason =
     (if conn_IsClosed c then c
      else let c = (if conn_IsOpen c then snd (SendGoaway c 0 1 []) else c);
               c = conn_TransitionState c H2_CLOSED;
               c = CloseAllStreams c
           in if hc_close_callback c
              then c\<lparr>hc_close_calls := hc_close_calls c @ [reason]\<rparr> else c)"

definition UpdateSettings :: "h2_connection \<Rightarrow> h2_settings \<Rightarrow> h2_connection" where
  "UpdateSettings c new_settings = c\<lparr>hc_settings := new_settings\<rparr>"

subsection \<open>Frame handlers\<close>

fun apply_setting :: "u16 \<times> u32 \<Rightarrow> h2_settings \<Rightarrow> h2_settings" where
  "apply_setting (identifier, v) s =
     (if identifier = 1 then s\<lparr>se_header_table_size := v\<rparr>
      else if identifier = 2 then s\<lparr>se_enable_push := v\<rparr>
      else if identifier = 3 then s\<lparr>se_max_concurrent_streams := v\<rparr>
      else if identifier = 4 then s\<lparr>se_initial_window_size := v\<rparr>
      else if identifier = 5 then s\<lparr>se_max_frame_size := v\<rparr>
      else if identifier = 6 then s\<lparr>se_max_header_list_size := v\<rparr>
      else s)"

definition HandleSettingsFrame ::
  "h2_connection \<Rightarrow> h2_frame_header \<Rightarrow> bytes \<Rightarrow> error_obj \<times> h2_connection" where
  "HandleSettingsFrame c header payload =
     (if HasFlag header FLAG_ACK
      then (if fh_length header \<noteq> 0
            then (Error_of kProtocolError ''SETTINGS ACK frame must have zero length'', c)
            else (Error_Success, c))
      else case ParseSettingsPayload payload of
             None \<Rightarrow> (Error_of kProtocolError ''Invalid SETTINGS payload'', c)
           | Some items \<Rightarrow>
               SendSettings (c\<lparr>hc_settings := fold apply_setting items (hc_settings c)\<rparr>) [] True)"

definition HandlePingFrame ::
  "h2_connection \<Rightarrow> h2_frame_header \<Rightarrow> bytes \<Rightarrow> error_obj \<times> h2_connection" where
  "HandlePingFrame c header payload =
     (case ParsePingPayload payload of
        None \<Rightarrow> (Error_of kProtocolError ''Invalid PING payload'', c)
      | Some ping_data \<Rightarrow>
          if \<not> HasFlag header FLAG_ACK then SendPing c ping_data True else (Error_Success, c))"

definition HandleGoawayFrame ::
  "h2_connection \<Rightarrow> h2_frame_header \<Rightarrow> bytes \<Rightarrow> error_obj \<times> h2_connection" where
  "HandleGoawayFrame c header payload =
     (case ParseGoawayPayload payload of
        None \<Rightarrow> (Error_of kProtocolError ''Invalid GOAWAY payload'', c)
      | Some (last_stream_id, error_code) \<Rightarrow>
          let c = conn_TransitionState c H2_CLOSING
          in (Error_Success,
              c\<lparr>hc_streams := filter (\<lambda>(i, s). \<not> i > last_stream_id) (hc_streams c),
                hc_released := hc_released c
                  @ map (\<lambda>(i, s). (i, stream_Close s error_code))
                      (filter (\<lambda>(i, s). i > last_stream_id) (hc_streams c))\<rparr>))"

definition HandleRstStreamFrame ::
  "h2_connection \<Rightarrow> h2_frame_header \<Rightarrow> bytes \<Rightarrow> error_obj \<times> h2_connection" where
  "HandleRstStreamFrame c header payload =
     (if fh_length header \<noteq> 4
      then (Error_of kProtocolError ''RST_STREAM frame must have 4-byte payload'', c)
      else let error_code = be32 (payload ! 0) (payload ! 1) (payload ! 2) (payload ! 3);
               sid = ucast (fh_stream_id header);
               c = snd (GetOrCreateStream c sid);
               c = c\<lparr>hc_streams := close_stream_in sid error_code (hc_streams c)\<rparr>
           in (Error_Success, RemoveStream c sid))"

text \<open>
  The handlers of DATA, HEADERS, WINDOW_UPDATE, PRIORITY, PUSH_PROMISE and CONTINUATION frames are
  placeholders in the source: they log and return success.
\<close>

definition HandlePlaceholderFrame :: "h2_connection \<Rightarrow> error_obj \<times> h2_connection" where
  "HandlePlaceholderFrame c = (Error_Success, c)"

definition HandleFrame ::
  "h2_connection \<Rightarrow> h2_frame_header \<Rightarrow> bytes \<Rightarrow> error_obj \<times> h2_connection" where
  "HandleFrame c header payload =
     (let length_err = ValidatePayloadLength header (unat (fh_length header))
      in if \<not> IsSuccess length_err then (length_err, c)
         else case as_frame_type (fh_type header) of
                Some FT_DATA \<Rightarrow> HandlePlaceholderFrame c
              | Some FT_HEADERS \<Rightarrow> HandlePlaceholderFrame c
              | Some FT_SETTINGS \<Rightarrow> HandleSettingsFrame c header payload
              | Some FT_PING \<Rightarrow> HandlePingFrame c header payload
              | Some FT_GOAWAY \<Rightarrow> HandleGoawayFrame c header payload
              | Some FT_WINDOW_UPDATE \<Rightarrow> HandlePlaceholderFrame c
              | Some FT_RST_STREAM \<Rightarrow> HandleRstStreamFrame c header payload
              | Some FT_PRIORITY \<Rightarrow> HandlePlaceholderFrame c
              | Some FT_PUSH_PROMISE \<Rightarrow> HandlePlaceholderFrame c
              | Some FT_CONTINUATION \<Rightarrow> HandlePlaceholderFrame c
              | None \<Rightarrow> (Error_Success, c))"

subsection \<open>Receiving\<close>

definition initial_settings :: "h2_settings \<Rightarrow> (u16 \<times> u32) list" where
  "initial_settings s =
     [(1, se_header_table_size s), (2, se_enable_push s), (3, se_max_concurrent_streams s),
      (4, se_initial_window_size s), (5, se_max_frame_size s), (6, se_max_header_list_size s)]"

definition ProcessPreface :: "h2_connection \<Rightarrow> bytes \<Rightarrow> bool \<times> h2_connection" where
  "ProcessPreface c data =
     (if hc_preface_remaining c = 0 then (True, c)
      else let to_compare = min (length data) (hc_preface_remaining c)
           in if take to_compare data \<noteq>
                 take to_compare (drop (CLIENT_PREFACE_LEN - hc_preface_remaining c) CLIENT_PREFACE)
              then (False, c)
              else let c = c\<lparr>hc_preface_remaining := hc_preface_remaining c - to_compare\<rparr>
                   in if hc_preface_remaining c = 0
                      then let c = conn_TransitionState c H2_OPEN
                           in (True, snd (SendSettings c (initial_settings (hc_settings c)) False))
                      else (True, c))"

text \<open>
  The frame loop of \<open>ProcessData\<close>. No handler touches \<open>read_buffer_\<close>, so the buffer a frame is erased
  from after it was handled is the one it was read from.
\<close>

function process_frames :: "h2_connection \<Rightarrow> error_obj \<times> h2_connection" where
  "process_frames c =
     (let buf = hc_read_buffer c
      in if length buf < 9 then (Error_Success, c)
         else case ParseHeader buf of
                None \<Rightarrow> (Error_of kProtocolError ''Failed to parse HTTP/2 frame header'', c)
              | Some header \<Rightarrow>
                  let frame_size = 9 + unat (fh_length header)
                  in if length buf < frame_size then (Error_Success, c)
                     else let (err, c') =
                            HandleFrame c header (take (unat (fh_length header)) (drop 9 buf))
                          in if \<not> IsSuccess err then (err, c')
                             else process_frames (c'\<lparr>hc_read_buffer := drop frame_size buf\<rparr>))"
  by pat_completeness auto
termination
  by (relation "measure (\<lambda>c. length (hc_read_buffer c))") auto

declare process_frames.simps [simp del]

definition ProcessData :: "h2_connection \<Rightarrow> bytes \<Rightarrow> (error_obj \<times> h2_connection) option" where
  "ProcessData c data =
     (if conn_IsClosed c then Some (Error_of kProtocolError ''Connection is closed'', c)
      else if hc_state c = H2_IDLE \<and> hc_is_server c
      then (case ProcessPreface c data of
              (False, c') \<Rightarrow> Some (Error_of kProtocolError ''Invalid HTTP/2 preface'', c')
            | (True, c') \<Rightarrow>
                let preface_consumed = CLIENT_PREFACE_LEN - hc_preface_remaining c'
                in if length data < preface_consumed then None
                   else Some (process_frames
                          (c'\<lparr>hc_read_buffer := hc_read_buffer c' @ drop preface_consumed data\<rparr>)))
      else Some (process_frames (c\<lparr>hc_read_buffer := hc_read_buffer c @ data\<rparr>)))"

subsection \<open>The state table as a ranked machine\<close>

fun conn_rank :: "h2_conn_state \<Rightarrow> nat" where
  "conn_rank H2_IDLE = 0"
| "conn_rank H2_PREFACE_SENT = 0"
| "conn_rank H2_OPEN = 1"
| "conn_rank H2_CLOSING = 2"
| "conn_rank H2_CLOSED = 3"

interpretation conn_machine: ranked_machine conn_CanTransition H2_CLOSED conn_rank
proof unfold_locales
  show "conn_CanTransition a b \<Longrightarrow> conn_rank a < conn_rank b" for a b
    by (cases a) auto
qed simp

lemma conn_TransitionState_eq:
  "conn_TransitionState c n = c\<lparr>hc_state := transition_to conn_CanTransition (hc_state c) n\<rparr>"
  by (simp add: conn_TransitionState_def transition_to_def)

lemma to_closed [simp]: "transition_to conn_CanTransition s H2_CLOSED = H2_CLOSED"
  by (cases s) (simp_all add: transition_to_def)

lemmas handler_defs =
  HandleSettingsFrame_def HandlePingFrame_def HandleGoawayFrame_def HandleRstStreamFrame_def
  HandlePlaceholderFrame_def SendFrame_def SendSettings_def SendGoaway_def SendPing_def
  GetOrCreateStream_def RemoveStream_def conn_IsClosed_def conn_IsOpen_def
  conn_TransitionState_eq Let_def

subsection \<open>Frame handling does not depend on the read buffer\<close>

lemma HandleFrame_buffer:
  "HandleFrame (c\<lparr>hc_read_buffer := b\<rparr>) h p =
   (fst (HandleFrame c h p), (snd (HandleFrame c h p))\<lparr>hc_read_buffer := b\<rparr>)"
  by (auto simp: HandleFrame_def handler_defs split: option.split h2_frame_type.split)

lemma HandleFrame_fields:
  "hc_read_buffer (snd (HandleFrame c h p)) = hc_read_buffer c"
  "hc_is_server (snd (HandleFrame c h p)) = hc_is_server c"
  "hc_close_callback (snd (HandleFrame c h p)) = hc_close_callback c"
  "hc_close_calls (snd (HandleFrame c h p)) = hc_close_calls c"
  "hc_preface_remaining (snd (HandleFrame c h p)) = hc_preface_remaining c"
  by (auto simp: HandleFrame_def handler_defs split: option.split h2_frame_type.split)

lemma HandleFrame_state:
  "hc_state (snd (HandleFrame c h p)) = hc_state c \<or>
   hc_state c = H2_OPEN \<and> hc_state (snd (HandleFrame c h p)) = H2_CLOSING"
  by (cases "hc_state c")
     (auto simp: HandleFrame_def handler_defs transition_to_def
       split: option.split h2_frame_type.split)

text \<open>One turn of the frame loop, as a step that consumes the buffer.\<close>

definition frame_step :: "h2_connection \<Rightarrow> bytes \<Rightarrow> (h2_connection, error_obj) unit_step" where
  "frame_step c buf =
     (if length buf < 9 then Wait
      else case ParseHeader buf of
             None \<Rightarrow> Failed (Error_of kProtocolError ''Failed to parse HTTP/2 frame header'') c
           | Some h \<Rightarrow>
               let n = unat (fh_length h)
               in if length buf < 9 + n then Wait
                  else let r = HandleFrame c h (take n (drop 9 buf))
                       in if \<not> IsSuccess (fst r) then Failed (fst r) (snd r)
                          else Taken (9 + n) (snd r))"

lemma take_drop_append: "9 + n \<le> length xs \<Longrightarrow> take n (drop 9 (xs @ ys)) = take n (drop 9 xs)"
  by simp

interpretation frames: chunked_consumer frame_step
proof unfold_locales
  fix c xs ys n c'
  assume t: "frame_step c xs = Taken n c'"
  show "0 < n \<and> n \<le> length xs"
    using t by (auto simp: frame_step_def Let_def split: if_splits option.splits)
  show "frame_step c (xs @ ys) = Taken n c'"
    using t by (auto simp: frame_step_def Let_def ParseHeader_append take_drop_append
      split: if_splits option.splits)
next
  fix c xs ys e c'
  assume t: "frame_step c xs = Failed e c'"
  show "frame_step c (xs @ ys) = Failed e c'"
    using t by (auto simp: frame_step_def Let_def ParseHeader_append take_drop_append
      split: if_splits option.splits)
qed

definition finish_frames ::
  "error_obj option \<times> h2_connection \<times> bytes \<Rightarrow> error_obj \<times> h2_connection" where
  "finish_frames r =
     (case r of (e, c, rest) \<Rightarrow>
        ((case e of None \<Rightarrow> Error_Success | Some e \<Rightarrow> e), c\<lparr>hc_read_buffer := rest\<rparr>))"

lemma process_frames_consume:
  "process_frames (c\<lparr>hc_read_buffer := xs\<rparr>) = finish_frames (consume frame_step c xs)"
proof (induction "length xs" arbitrary: c xs rule: less_induct)
  case less
  show ?case
  proof (cases "frame_step c xs")
    case Wait
    then show ?thesis
      by (subst process_frames.simps)
         (auto simp: frames.consume_wait finish_frames_def frame_step_def Let_def
           split: if_splits option.splits)
  next
    case (Failed e c')
    then show ?thesis
      by (subst process_frames.simps)
         (auto simp: frames.consume_failed finish_frames_def frame_step_def Let_def
           HandleFrame_buffer split: if_splits option.splits)
  next
    case (Taken n c')
    then have bounds: "0 < n" "n \<le> length xs" using frames.taken_bounds by blast+
    then have shorter: "length (drop n xs) < length xs" by simp
    from Taken have "process_frames (c\<lparr>hc_read_buffer := xs\<rparr>)
        = process_frames (c'\<lparr>hc_read_buffer := drop n xs\<rparr>)"
      by (subst process_frames.simps)
         (auto simp: frame_step_def Let_def HandleFrame_buffer split: if_splits option.splits)
    with Taken less.hyps [OF shorter, of c'] show ?thesis
      by (simp add: frames.consume_taken)
  qed
qed

text \<open>What holds of a connection and survives every frame survives the frame loop.\<close>

lemma process_frames_invariant:
  assumes "\<And>c h p. P c \<Longrightarrow> P (snd (HandleFrame c h p))"
    and "\<And>c b. P c \<Longrightarrow> P (c\<lparr>hc_read_buffer := b\<rparr>)"
    and "P c"
  shows "P (snd (process_frames c))"
  using assms(3)
proof (induction "length (hc_read_buffer c)" arbitrary: c rule: less_induct)
  case less
  have handled: "P c'" if "HandleFrame c h p = (e, c')" for h p e c'
    using assms(1) [OF less.prems, of h p] that by simp
  have again: "P (snd (process_frames (c'\<lparr>hc_read_buffer := drop (9 + n) (hc_read_buffer c)\<rparr>)))"
    if "HandleFrame c h p = (e, c')" "\<not> length (hc_read_buffer c) < 9" for h p e c' n
    using handled [OF that(1)] that(2) by (intro less.hyps) (auto intro: assms(2))
  show ?case
    by (subst process_frames.simps)
       (auto simp: Let_def less.prems split: option.split prod.split
         intro: handled again [simplified])
qed

end
