(* ===== verification/H2Session.thy ===== *)
theory H2Session
  imports H2Connection
begin

text \<open>
  What an HTTP/2 connection promises over its whole life: the runs of its public operations, the
  invariant they keep, and the connection-level properties of the preface, of reads cut at any
  place, and of the SETTINGS, PING, GOAWAY and RST_STREAM exchanges.
\<close>

subsection \<open>Runs of a connection\<close>

text \<open>
  The calls a server makes on a connection: bytes that arrive, a close, a stream looked up or
  removed, settings replaced.
\<close>

inductive conn_step :: "h2_connection \<Rightarrow> h2_connection \<Rightarrow> bool" where
  step_data: "ProcessData c d = Some (e, c') \<Longrightarrow> conn_step c c'"
| step_close: "conn_step c (conn_Close c reason)"
| step_stream: "conn_step c (snd (GetOrCreateStream c i))"
| step_remove: "conn_step c (RemoveStream c i)"
| step_settings: "conn_step c (UpdateSettings c st)"

inductive_cases conn_stepE: "conn_step c c'"

inductive conn_reach :: "h2_connection \<Rightarrow> h2_connection \<Rightarrow> bool" where
  reach_refl: "conn_reach c c"
| reach_step: "conn_reach c c' \<Longrightarrow> conn_step c' c'' \<Longrightarrow> conn_reach c c''"

text \<open>What every public operation keeps, given what its parts keep.\<close>

lemma ProcessData_parts:
  assumes "ProcessData c d = Some (e, c')" "P c"
    and "\<And>c d. P c \<Longrightarrow> P (snd (ProcessPreface c d))"
    and "\<And>c h p. P c \<Longrightarrow> P (snd (HandleFrame c h p))"
    and "\<And>c b. P c \<Longrightarrow> P (c\<lparr>hc_read_buffer := b\<rparr>)"
  shows "P c'"
proof -
  have frames: "P c \<Longrightarrow> P (snd (process_frames c))" for c
    by (rule process_frames_invariant [where P = P]) (use assms(4,5) in auto)
  show ?thesis
    using assms(1,2) assms(3) [of c d] frames assms(5)
    by (auto simp: ProcessData_def Let_def split: if_splits prod.splits bool.splits)
       (metis snd_conv)+
qed

subsection \<open>The invariant\<close>

definition sent_ok :: "h2_frame_header \<times> bytes \<Rightarrow> bool" where
  "sent_ok f \<longleftrightarrow> IsSuccess (Validate (fst f)) \<and> unat (fh_length (fst f)) = length (snd f)"

definition streams_ok :: "(u32 \<times> h2_stream) list \<Rightarrow> bool" where
  "streams_ok ss \<longleftrightarrow> distinct (map fst ss) \<and> (\<forall>(i, s) \<in> set ss. hs_stream_id s = i)"

definition conn_inv :: "h2_connection \<Rightarrow> bool" where
  "conn_inv c \<longleftrightarrow>
     streams_ok (hc_streams c) \<and> (\<forall>f \<in> set (hc_sent c). sent_ok f) \<and>
     length (hc_close_calls c) = (if hc_state c = H2_CLOSED \<and> hc_close_callback c then 1 else 0)"

lemma stream_id_Close [simp]: "hs_stream_id (stream_Close s e) = hs_stream_id s"
  by (simp add: stream_Close_def stream_TransitionState_def Let_def)

lemma streams_ok_Nil [simp]: "streams_ok []"
  by (simp add: streams_ok_def)

lemma streams_ok_filter [intro]: "streams_ok ss \<Longrightarrow> streams_ok (filter P ss)"
  by (auto simp: streams_ok_def distinct_map_filter)

lemma streams_ok_snoc:
  "streams_ok ss \<Longrightarrow> map_of ss i = None \<Longrightarrow> streams_ok (ss @ [(i, new_stream i)])"
  by (auto simp: streams_ok_def map_of_eq_None_iff new_stream_def)

lemma fst_close_stream_in [simp]: "map fst (close_stream_in i e ss) = map fst ss"
  by (simp add: close_stream_in_def o_def case_prod_unfold)

lemma streams_ok_close [intro]: "streams_ok ss \<Longrightarrow> streams_ok (close_stream_in i e ss)"
  unfolding streams_ok_def fst_close_stream_in by (auto simp: close_stream_in_def)

text \<open>The frames the connection sends of its own: each carries its payload's length.\<close>

lemma SendFrame_inv:
  assumes "conn_inv c" "length p < 2 ^ 24"
  shows "conn_inv (snd (SendFrame c ft fl i p))"
proof -
  have "unat (ucast (of_nat (length p) :: u32) :: 24 word) = length p"
    using assms(2) by (simp add: unsigned_ucast_eq unsigned_of_nat take_bit_eq_mod)
  with assms(1) show ?thesis
    by (auto simp: SendFrame_def conn_inv_def sent_ok_def Let_def)
qed

lemma SendSettings_inv [inv_lemmas]:
  "conn_inv c \<Longrightarrow> 6 * length st < 2 ^ 24 \<Longrightarrow> conn_inv (snd (SendSettings c st ack))"
  by (simp add: SendSettings_def SendFrame_inv)

lemma SendGoaway_inv [inv_lemmas]:
  "conn_inv c \<Longrightarrow> length dbg + 8 < 2 ^ 24 \<Longrightarrow> conn_inv (snd (SendGoaway c l e dbg))"
  by (simp add: SendGoaway_def SendFrame_inv encode_goaway_def)

lemma SendPing_inv [inv_lemmas]:
  "conn_inv c \<Longrightarrow> length d < 2 ^ 24 \<Longrightarrow> conn_inv (snd (SendPing c d ack))"
  by (simp add: SendPing_def SendFrame_inv)

lemma conn_inv_update [inv_lemmas]:
  "conn_inv c \<Longrightarrow> conn_inv (c\<lparr>hc_settings := st\<rparr>)"
  "conn_inv c \<Longrightarrow> conn_inv (c\<lparr>hc_read_buffer := b\<rparr>)"
  "conn_inv c \<Longrightarrow> conn_inv (c\<lparr>hc_preface_remaining := n\<rparr>)"
  "conn_inv c \<Longrightarrow> st' \<noteq> H2_CLOSED \<Longrightarrow> conn_inv (conn_TransitionState c st')"
  "conn_inv c \<Longrightarrow> streams_ok ss \<Longrightarrow> conn_inv (c\<lparr>hc_streams := ss\<rparr>)"
  "conn_inv c \<Longrightarrow> conn_inv (c\<lparr>hc_released := ss\<rparr>)"
  by (auto simp: conn_inv_def conn_TransitionState_def split: if_splits)

lemma conn_inv_streams: "conn_inv c \<Longrightarrow> streams_ok (hc_streams c)"
  by (simp add: conn_inv_def)

lemma GetOrCreateStream_inv [inv_lemmas]:
  "conn_inv c \<Longrightarrow> conn_inv (snd (GetOrCreateStream c i))"
  by (auto simp: GetOrCreateStream_def Let_def split: option.split
    intro!: inv_lemmas streams_ok_snoc dest: conn_inv_streams)

lemma RemoveStream_inv [inv_lemmas]: "conn_inv c \<Longrightarrow> conn_inv (RemoveStream c i)"
  unfolding RemoveStream_def by (intro inv_lemmas streams_ok_filter) (auto dest: conn_inv_streams)

lemma conn_Close_inv [inv_lemmas]: "conn_inv c \<Longrightarrow> conn_inv (conn_Close c r)"
proof -
  assume c: "conn_inv c"
  define d where "d = (if conn_IsOpen c then snd (SendGoaway c 0 1 []) else c)"
  have "conn_inv d" "hc_state d = hc_state c" "hc_close_callback d = hc_close_callback c"
    using c SendGoaway_inv [OF c, of "[]" 0 1]
    by (auto simp: d_def SendGoaway_def SendFrame_def Let_def)
  then show ?thesis
    using c by (auto simp: conn_Close_def d_def [symmetric] conn_inv_def CloseAllStreams_def
      conn_IsClosed_def conn_TransitionState_eq Let_def)
qed

lemma HandleFrame_inv [inv_lemmas]: "conn_inv c \<Longrightarrow> conn_inv (snd (HandleFrame c h p))"
proof -
  assume c: "conn_inv c"
  have settings: "conn_inv (snd (HandleSettingsFrame c h p))"
    using c by (auto simp: HandleSettingsFrame_def split: option.split intro!: inv_lemmas)
  have ping: "conn_inv (snd (HandlePingFrame c h p))"
    using c by (auto simp: HandlePingFrame_def ParsePingPayload_def split: option.split
      intro!: inv_lemmas)
  have goaway: "conn_inv (snd (HandleGoawayFrame c h p))"
    using c by (auto simp: HandleGoawayFrame_def Let_def split: option.split
      intro!: inv_lemmas streams_ok_filter dest: conn_inv_streams)
      (simp add: conn_TransitionState_eq conn_inv_streams)
  have rst: "conn_inv (snd (HandleRstStreamFrame c h p))"
    using c by (auto simp: HandleRstStreamFrame_def Let_def intro!: inv_lemmas streams_ok_close
      conn_inv_streams)
  show ?thesis
    using c settings ping goaway rst
    by (auto simp: HandleFrame_def HandlePlaceholderFrame_def Let_def
      split: option.split h2_frame_type.split)
qed

lemma ProcessPreface_inv [inv_lemmas]: "conn_inv c \<Longrightarrow> conn_inv (snd (ProcessPreface c d))"
  by (auto simp: ProcessPreface_def Let_def initial_settings_def intro!: inv_lemmas)

lemma conn_step_inv [inv_lemmas]: "conn_step c c' \<Longrightarrow> conn_inv c \<Longrightarrow> conn_inv c'"
  by (erule conn_stepE)
     (auto intro: inv_lemmas ProcessData_parts [where P = conn_inv] simp: UpdateSettings_def)

lemma conn_reach_inv: "conn_reach c c' \<Longrightarrow> conn_inv c \<Longrightarrow> conn_inv c'"
  by (induction rule: conn_reach.induct) (auto intro: inv_lemmas)

lemma new_connection_inv: "conn_inv ((new_connection fd srv)\<lparr>hc_frame_callback := a, hc_close_callback := b\<rparr>)"
  by (simp add: conn_inv_def new_connection_def conn_TransitionState_def Let_def)

lemma sent_ok_parses: "sent_ok (h, p) \<Longrightarrow> ParseHeader (SerializeHeader h @ p) = Some h"
  by (simp add: sent_ok_def ParseHeader_Serialize)

subsection \<open>A closed connection\<close>

lemma conn_step_closed:
  "conn_step c c' \<Longrightarrow> hc_state c = H2_CLOSED \<Longrightarrow>
   hc_state c' = H2_CLOSED \<and> hc_sent c' = hc_sent c \<and> hc_close_calls c' = hc_close_calls c"
proof (erule conn_stepE)
  show "c' = conn_Close c r \<Longrightarrow> hc_state c = H2_CLOSED \<Longrightarrow> ?thesis" for r
    by (simp add: conn_Close_def conn_IsClosed_def)
qed (simp_all add: ProcessData_def conn_IsClosed_def GetOrCreateStream_def RemoveStream_def
      UpdateSettings_def Let_def split: option.splits)

subsection \<open>The receiving states\<close>

lemma process_frames_state:
  assumes "hc_state c \<noteq> H2_IDLE \<and> hc_state c \<noteq> H2_CLOSED"
  shows "hc_state (snd (process_frames c)) \<noteq> H2_IDLE \<and> hc_state (snd (process_frames c)) \<noteq> H2_CLOSED"
proof (rule process_frames_invariant [where P =
      "\<lambda>c. hc_state c \<noteq> H2_IDLE \<and> hc_state c \<noteq> H2_CLOSED"])
  fix c :: h2_connection and h p
  assume "hc_state c \<noteq> H2_IDLE \<and> hc_state c \<noteq> H2_CLOSED"
  then show "hc_state (snd (HandleFrame c h p)) \<noteq> H2_IDLE
      \<and> hc_state (snd (HandleFrame c h p)) \<noteq> H2_CLOSED"
    using HandleFrame_state [of c h p] by auto
qed (use assms in simp_all)

lemma process_frames_client:
  assumes "\<not> hc_is_server c \<and> hc_state c \<noteq> H2_CLOSED"
  shows "\<not> hc_is_server (snd (process_frames c)) \<and> hc_state (snd (process_frames c)) \<noteq> H2_CLOSED"
proof (rule process_frames_invariant [where P =
      "\<lambda>c. \<not> hc_is_server c \<and> hc_state c \<noteq> H2_CLOSED"])
  fix c :: h2_connection and h p
  assume "\<not> hc_is_server c \<and> hc_state c \<noteq> H2_CLOSED"
  then show "\<not> hc_is_server (snd (HandleFrame c h p)) \<and> hc_state (snd (HandleFrame c h p)) \<noteq> H2_CLOSED"
    using HandleFrame_state [of c h p] by (auto simp: HandleFrame_fields)
qed (use assms in simp_all)

definition receiving :: "h2_connection \<Rightarrow> bool" where
  "receiving c \<longleftrightarrow> hc_state c \<noteq> H2_CLOSED \<and> \<not> (hc_state c = H2_IDLE \<and> hc_is_server c)"

lemma ProcessData_receiving:
  "receiving c \<Longrightarrow> ProcessData c d =
     Some (process_frames (c\<lparr>hc_read_buffer := hc_read_buffer c @ d\<rparr>))"
  by (auto simp: ProcessData_def receiving_def conn_IsClosed_def)

lemma receiving_frames: "receiving c \<Longrightarrow> receiving (snd (process_frames c))"
  using process_frames_state [of c] process_frames_client [of c] unfolding receiving_def by blast

lemma process_frames_append:
  "process_frames (c\<lparr>hc_read_buffer := hc_read_buffer c @ d\<rparr>) =
   (case process_frames c of (e, c') \<Rightarrow>
      if IsSuccess e then process_frames (c'\<lparr>hc_read_buffer := hc_read_buffer c' @ d\<rparr>)
      else (e, c'\<lparr>hc_read_buffer := hc_read_buffer c' @ d\<rparr>))"
proof -
  have fail: "\<not> IsSuccess e" if "consume frame_step c xs = (Some e, c', r)" for xs e c' r
    using that
  proof (induction "length xs" arbitrary: c xs rule: less_induct)
    case less
    show ?case
    proof (cases "frame_step c xs")
      case (Taken n t)
      with frames.taken_bounds have "0 < n" "n \<le> length xs" by blast+
      with less.hyps [of "drop n xs" t] less.prems Taken show ?thesis
        by (simp add: frames.consume_taken)
    qed (use less.prems in \<open>auto simp: frames.consume_wait frames.consume_failed frame_step_def
           Let_def split: if_splits option.splits\<close>)
  qed
  have "process_frames (c\<lparr>hc_read_buffer := hc_read_buffer c\<rparr>)
      = finish_frames (consume frame_step c (hc_read_buffer c))"
    by (rule process_frames_consume)
  then have first: "process_frames c = finish_frames (consume frame_step c (hc_read_buffer c))"
    by simp
  obtain r c' rest where run: "consume frame_step c (hc_read_buffer c) = (r, c', rest)"
    by (metis prod_cases3)
  show ?thesis
    using fail [of "hc_read_buffer c"] process_frames_consume [where c = c' and xs = "rest @ d"]
      process_frames_consume [where c = c and xs = "hc_read_buffer c @ d"]
      frames.consume_append [of c "hc_read_buffer c" d]
    by (cases r) (auto simp: first run finish_frames_def)
qed

subsection \<open>The preface\<close>

lemma ProcessPreface_cut:
  assumes "hc_state c = H2_IDLE" "hc_preface_remaining c = 24" "p \<noteq> []" "q \<noteq> []"
    and "p @ q = CLIENT_PREFACE"
  shows "ProcessPreface c p = (True, c\<lparr>hc_preface_remaining := length q\<rparr>)"
    and "ProcessPreface (c\<lparr>hc_preface_remaining := length q\<rparr>) (q @ rest)
      = ProcessPreface c (CLIENT_PREFACE @ rest)"
proof -
  have len: "length p + length q = 24"
    using arg_cong [OF assms(5), of length] by (simp add: CLIENT_PREFACE_def)
  have full: "length CLIENT_PREFACE = 24" by (simp add: CLIENT_PREFACE_def)
  have lt: "length p < 24" using len assms(4) by (cases q) auto
  have cut: "take (length p) CLIENT_PREFACE = p" "drop (24 - length q) CLIENT_PREFACE = q"
    using len by (simp_all flip: assms(5))
  show "ProcessPreface c p = (True, c\<lparr>hc_preface_remaining := length q\<rparr>)"
    using assms(2-4) len lt cut by (auto simp: ProcessPreface_def Let_def)
  show "ProcessPreface (c\<lparr>hc_preface_remaining := length q\<rparr>) (q @ rest)
      = ProcessPreface c (CLIENT_PREFACE @ rest)"
    using assms(2,4) full cut by (simp add: ProcessPreface_def Let_def)
qed

lemma ProcessPreface_whole:
  assumes "hc_state c = H2_IDLE" "hc_preface_remaining c = 24"
  shows "ProcessPreface c (CLIENT_PREFACE @ rest) =
    (True, snd (SendSettings (c\<lparr>hc_preface_remaining := 0, hc_state := H2_OPEN\<rparr>)
                 (initial_settings (hc_settings c)) False))"
proof -
  have full: "length CLIENT_PREFACE = 24" by (simp add: CLIENT_PREFACE_def)
  show ?thesis
    using assms full by (simp add: ProcessPreface_def conn_TransitionState_def Let_def)
qed

lemma SendSettings_fields [simp]:
  "hc_preface_remaining (snd (SendSettings c st ack)) = hc_preface_remaining c"
  "hc_read_buffer (snd (SendSettings c st ack)) = hc_read_buffer c"
  "hc_state (snd (SendSettings c st ack)) = hc_state c"
  "hc_settings (snd (SendSettings c st ack)) = hc_settings c"
  "hc_streams (snd (SendSettings c st ack)) = hc_streams c"
  by (simp_all add: SendSettings_def SendFrame_def Let_def)

lemma ProcessData_whole_preface:
  assumes "hc_state c = H2_IDLE" "hc_is_server c" "hc_preface_remaining c = 24" "hc_read_buffer c = []"
  shows "ProcessData c (CLIENT_PREFACE @ rest) =
    Some (process_frames ((snd (ProcessPreface c (CLIENT_PREFACE @ rest)))\<lparr>hc_read_buffer := rest\<rparr>))"
proof -
  have full: "length CLIENT_PREFACE = 24" by (simp add: CLIENT_PREFACE_def)
  show ?thesis
    using assms full ProcessPreface_whole [OF assms(1,3)]
    by (simp add: ProcessData_def conn_IsClosed_def Let_def)
qed

subsection \<open>One whole frame\<close>

definition frame_header :: "h2_frame_type \<Rightarrow> u8 \<Rightarrow> 31 word \<Rightarrow> bytes \<Rightarrow> h2_frame_header" where
  "frame_header ft flags i payload =
     \<lparr>fh_length = of_nat (length payload), fh_type = frame_type_code ft, fh_flags = flags,
      fh_stream_id = i, fh_reserved = 0\<rparr>"

lemma unat_len24: "length p < 2 ^ 24 \<Longrightarrow> unat (of_nat (length p) :: 24 word) = length p"
  by (simp add: unsigned_of_nat take_bit_eq_mod)

lemma unat_len32: "length p < 2 ^ 24 \<Longrightarrow> unat (ucast (of_nat (length p) :: 24 word) :: u32) = length p"
  by (simp add: unsigned_ucast_eq unsigned_of_nat take_bit_eq_mod)

lemma settings_length_valid:
  fixes st :: "(u16 \<times> u32) list"
  assumes "6 * length st < 2 ^ 24"
  shows "(ucast (of_nat (6 * length st) :: 24 word) :: u32) mod 6 = 0"
proof -
  let ?w = "ucast (of_nat (6 * length st) :: 24 word) :: u32"
  have "unat ?w = 6 * length st"
    using unat_len32 [of "encode_settings st"] assms by simp
  then have "unat (?w mod 6) = 0" by (simp add: unat_mod_distrib)
  then show ?thesis by (simp add: unat_eq_0)
qed

text \<open>A well-formed frame at the front of an empty buffer is handled, and the rest processed.\<close>

lemma process_one_frame:
  assumes "receiving c" "hc_read_buffer c = []" "IsSuccess (Validate h)"
    and "unat (fh_length h) = length p"
  shows "ProcessData c (SerializeHeader h @ p @ rest) =
    Some (let (e, c') = HandleFrame c h p
          in if IsSuccess e then process_frames (c'\<lparr>hc_read_buffer := rest\<rparr>)
             else (e, c'\<lparr>hc_read_buffer := SerializeHeader h @ p @ rest\<rparr>))"
proof -
  let ?b = "SerializeHeader h @ p @ rest"
  have "frame_step c ?b = (let r = HandleFrame c h p in
      if \<not> IsSuccess (fst r) then Failed (fst r) (snd r) else Taken (9 + length p) (snd r))"
    using assms(3,4) by (simp add: frame_step_def ParseHeader_Serialize Let_def)
  moreover have "process_frames (c\<lparr>hc_read_buffer := ?b\<rparr>) = finish_frames (consume frame_step c ?b)"
    by (rule process_frames_consume)
  moreover have "process_frames (c'\<lparr>hc_read_buffer := rest\<rparr>) = finish_frames (consume frame_step c' rest)"
    for c' by (rule process_frames_consume)
  ultimately show ?thesis
    using assms(1,2)
    by (auto simp: ProcessData_receiving Let_def finish_frames_def frames.consume_failed
        frames.consume_taken split: prod.split)
qed

lemma process_empty: "process_frames (c\<lparr>hc_read_buffer := []\<rparr>) = (Error_Success, c\<lparr>hc_read_buffer := []\<rparr>)"
  by (simp add: process_frames.simps)

lemma SendFrame_ok:
  assumes "hc_state c \<noteq> H2_CLOSED" "hc_frame_callback c"
    and "IsSuccess (ValidateFrameLength (ucast (ucast (of_nat (length p) :: u32) :: 24 word)) (frame_type_code ft))"
  shows "SendFrame c ft fl 0 p = (Error_Success, c\<lparr>hc_sent := hc_sent c @
    [(\<lparr>fh_length = ucast (of_nat (length p) :: u32), fh_type = frame_type_code ft, fh_flags = fl,
       fh_stream_id = 0, fh_reserved = 0\<rparr>, p)]\<rparr>)"
  using assms by (simp add: SendFrame_def conn_IsClosed_def Validate_def IsValidStreamId_def Let_def)

subsection \<open>A connection the properties can be exercised on\<close>

definition open_connection :: h2_connection where
  "open_connection = (new_connection 7 True)\<lparr>hc_frame_callback := True, hc_close_callback := True,
     hc_preface_remaining := 0, hc_state := H2_OPEN\<rparr>"

lemma open_connection_fields [simp]:
  "hc_state open_connection = H2_OPEN" "hc_is_server open_connection"
  "hc_frame_callback open_connection" "hc_read_buffer open_connection = []"
  "hc_streams open_connection = []" "hc_sent open_connection = []"
  by (simp_all add: open_connection_def new_connection_def Let_def)

subsection \<open>Properties\<close>



text \<open>A closed connection is quiet. Whatever is called on it afterwards, it stays closed, sends no
  further frame and reports no further close; bytes that arrive are refused.\<close>

theorem conn_closed_quiet:
  assumes "hc_state c = H2_CLOSED" "conn_reach c c'"
  shows "hc_state c' = H2_CLOSED \<and> hc_sent c' = hc_sent c \<and> hc_close_calls c' = hc_close_calls c
    \<and> (\<exists>e. \<not> IsSuccess e \<and> ProcessData c' d = Some (e, c'))"
proof -
  have "hc_state c' = H2_CLOSED \<and> hc_sent c' = hc_sent c \<and> hc_close_calls c' = hc_close_calls c"
    using assms(2,1) by (induction rule: conn_reach.induct) (auto dest: conn_step_closed)
  then show ?thesis
    by (auto simp: ProcessData_def conn_IsClosed_def)
qed

theorem conn_closed_quiet_witness:
  "hc_state (conn_Close (conn_Close open_connection Error_Success) Error_Success) = H2_CLOSED"
proof -
  have "hc_state (conn_Close open_connection Error_Success) = H2_CLOSED"
    by (simp add: conn_Close_def conn_IsClosed_def CloseAllStreams_def conn_TransitionState_eq Let_def)
  from conn_closed_quiet [OF this reach_step [OF reach_refl step_close]] show ?thesis by simp
qed

text \<open>C7: reads can be cut anywhere. Once the preface is over, handing the connection two pieces one
  after the other has the same effect as handing it their concatenation: the same result, the same
  frames sent, the same streams and the same bytes left in the buffer. Where the first piece already
  fails, the second is only kept.\<close>

theorem conn_reads_cut_anywhere:
  assumes "receiving c" "ProcessData c d = Some (e, c')"
  shows "ProcessData c (d @ d') =
    (if IsSuccess e then ProcessData c' d'
     else Some (e, c'\<lparr>hc_read_buffer := hc_read_buffer c' @ d'\<rparr>))"
proof -
  have run: "process_frames (c\<lparr>hc_read_buffer := hc_read_buffer c @ d\<rparr>) = (e, c')"
    using assms by (simp add: ProcessData_receiving)
  have "receiving (c\<lparr>hc_read_buffer := hc_read_buffer c @ d\<rparr>)"
    using assms(1) by (simp add: receiving_def)
  from receiving_frames [OF this] run have "receiving c'" by simp
  then show ?thesis
    using assms(1) run process_frames_append [of "c\<lparr>hc_read_buffer := hc_read_buffer c @ d\<rparr>" d']
    by (auto simp: ProcessData_receiving)
qed

theorem conn_reads_cut_anywhere_witness:
  "ProcessData open_connection ([0, 0, 8] @ [6]) =
   ProcessData (open_connection\<lparr>hc_read_buffer := [0, 0, 8]\<rparr>) [6]"
proof -
  have "ProcessData open_connection [0, 0, 8] =
      Some (Error_Success, open_connection\<lparr>hc_read_buffer := [0, 0, 8]\<rparr>)"
    by (simp add: ProcessData_def conn_IsClosed_def process_frames.simps)
  from conn_reads_cut_anywhere [OF _ this, of "[6]"] show ?thesis
    by (simp add: receiving_def)
qed

text \<open>The connection preface. Received in one piece, followed by anything, it opens the
  connection, and the first frame sent is a SETTINGS frame with the six settings of the connection,
  in order; what follows the preface is processed as frames.\<close>

theorem conn_preface_opens:
  "\<exists>c h. hc_state c = H2_OPEN \<and> hc_read_buffer c = rest \<and>
    ProcessData ((new_connection fd True)\<lparr>hc_frame_callback := True\<rparr>) (CLIENT_PREFACE @ rest)
      = Some (process_frames c) \<and>
    hc_sent c = [(h, encode_settings (initial_settings default_settings))] \<and>
    as_frame_type (fh_type h) = Some FT_SETTINGS \<and> \<not> HasFlag h FLAG_ACK \<and> fh_length h = 36"
proof -
  let ?c = "(new_connection fd True)\<lparr>hc_frame_callback := True\<rparr>"
  let ?s = "snd (SendSettings (?c\<lparr>hc_preface_remaining := 0, hc_state := H2_OPEN\<rparr>)
      (initial_settings default_settings) False)"
  let ?h = "\<lparr>fh_length = 36, fh_type = 4, fh_flags = 0, fh_stream_id = 0, fh_reserved = 0\<rparr>"
  have c: "hc_state ?c = H2_IDLE" "hc_is_server ?c" "hc_preface_remaining ?c = 24"
      "hc_read_buffer ?c = []" "hc_settings ?c = default_settings" "hc_sent ?c = []"
    by (simp_all add: new_connection_def Let_def)
  have "hc_sent ?s = [(?h, encode_settings (initial_settings default_settings))]"
    by (simp add: c SendSettings_def SendFrame_def conn_IsClosed_def initial_settings_def Let_def
        Validate_def IsValidStreamId_def ValidateFrameLength_def as_frame_type_def
        new_connection_def)
  moreover have "ProcessData ?c (CLIENT_PREFACE @ rest)
      = Some (process_frames (?s\<lparr>hc_read_buffer := rest\<rparr>))"
    unfolding ProcessData_whole_preface [OF c(1-4)] ProcessPreface_whole [OF c(1,3)] c(5) by simp
  ultimately show ?thesis
    by (intro exI [of _ "?s\<lparr>hc_read_buffer := rest\<rparr>"] exI [of _ ?h])
       (simp add: as_frame_type_def HasFlag_def)
qed

text \<open>A preface that arrives in two pieces is accepted, but the code then skips the whole preface
  length in the second piece, though its first bytes were consumed by the first call: as many bytes
  of the frames that follow are lost, and if the second piece is shorter than 24 bytes the code reads
  beyond it.\<close>

theorem conn_split_preface_loses_bytes:
  assumes "p @ q = CLIENT_PREFACE" "p \<noteq> []" "q \<noteq> []"
  shows "\<exists>c. ProcessData (new_connection fd True) p = Some (Error_Success, c) \<and>
    ProcessData c (q @ rest) =
      (if length q + length rest < 24 then None
       else ProcessData (new_connection fd True) (CLIENT_PREFACE @ drop (length p) rest))"
proof -
  let ?c = "new_connection fd True"
  have c: "hc_state ?c = H2_IDLE" "hc_is_server ?c" "hc_preface_remaining ?c = 24"
      "hc_read_buffer ?c = []"
    by (simp_all add: new_connection_def Let_def)
  have len: "length p + length q = 24"
    using arg_cong [OF assms(1), of length] by (simp add: CLIENT_PREFACE_def)
  note pre = ProcessPreface_cut [OF c(1,3) assms(2,3,1)]
  have first: "ProcessData ?c p = Some (Error_Success, ?c\<lparr>hc_preface_remaining := length q\<rparr>)"
    using c pre(1) len by (simp add: ProcessData_def conn_IsClosed_def Let_def process_frames.simps)
  have rem: "hc_preface_remaining (snd (ProcessPreface ?c (CLIENT_PREFACE @ rest))) = 0"
    "hc_read_buffer (snd (ProcessPreface ?c (CLIENT_PREFACE @ rest))) = []"
    using c by (simp_all add: ProcessPreface_whole)
  have second: "ProcessData (?c\<lparr>hc_preface_remaining := length q\<rparr>) (q @ rest) =
      (if length q + length rest < 24 then None
       else Some (process_frames ((snd (ProcessPreface ?c (CLIENT_PREFACE @ rest)))
              \<lparr>hc_read_buffer := drop (24 - length q) rest\<rparr>)))"
    using c rem pre(2) [of rest] ProcessPreface_whole [OF c(1,3), of rest] len
    by (simp add: ProcessData_def conn_IsClosed_def Let_def)
  have lp: "24 - length q = length p" using len by simp
  show ?thesis
    by (intro exI [of _ "?c\<lparr>hc_preface_remaining := length q\<rparr>"] conjI first)
       (simp add: second ProcessData_whole_preface [OF c] ProcessPreface_whole [OF c(1,3)] lp)
qed

theorem conn_split_preface_loses_bytes_witness:
  "\<exists>c. ProcessData (new_connection 7 True) (take 20 CLIENT_PREFACE) = Some (Error_Success, c) \<and>
     ProcessData c (drop 20 CLIENT_PREFACE) = None"
  using conn_split_preface_loses_bytes
    [of "take 20 CLIENT_PREFACE" "drop 20 CLIENT_PREFACE" 7 "[]"]
  by (simp add: CLIENT_PREFACE_def)

text \<open>A SETTINGS frame received on an open connection sets exactly the settings it lists, the
  last entry for an identifier winning and unknown identifiers ignored, and is answered by exactly
  one frame, a SETTINGS acknowledgement with no payload.\<close>

theorem conn_settings_applied_and_acknowledged:
  assumes "receiving c" "hc_read_buffer c = []" "hc_frame_callback c" "6 * length st < 2 ^ 24"
  shows "ProcessData c (SerializeHeader (frame_header FT_SETTINGS 0 0 (encode_settings st))
            @ encode_settings st) =
    Some (Error_Success, c\<lparr>hc_settings := fold apply_setting st (hc_settings c),
      hc_sent := hc_sent c @ [(frame_header FT_SETTINGS FLAG_ACK 0 [], [])]\<rparr>)"
proof -
  let ?h = "frame_header FT_SETTINGS 0 0 (encode_settings st)"
  have valid: "IsSuccess (Validate ?h)"
    using settings_length_valid [OF assms(4)]
    by (simp add: Validate_def IsValidStreamId_def ValidateFrameLength_def frame_header_def
        as_frame_type_def Let_def del: of_nat_mult)
  have "length (encode_settings st) < 2 ^ 24" using assms(4) by simp
  from unat_len24 [OF this] have len: "unat (fh_length ?h) = length (encode_settings st)"
    by (simp add: frame_header_def del: length_encode_settings)
  have type: "as_frame_type (fh_type ?h) = Some FT_SETTINGS" and flags: "fh_flags ?h = 0"
    by (simp_all add: frame_header_def as_frame_type_def)
  have "HandleFrame c ?h (encode_settings st) =
      (Error_Success, c\<lparr>hc_settings := fold apply_setting st (hc_settings c),
        hc_sent := hc_sent c @ [(frame_header FT_SETTINGS FLAG_ACK 0 [], [])]\<rparr>)"
    using assms(1,3) type flags
    by (simp add: HandleFrame_def ValidatePayloadLength_def HandleSettingsFrame_def HasFlag_def
        SendSettings_def SendFrame_ok receiving_def ValidateFrameLength_def frame_header_def
        encode_settings_def [of "[]"] as_frame_type_def Let_def)
  then show ?thesis
    using process_one_frame [OF assms(1,2) valid len, of "[]"]
      process_empty [of "c\<lparr>hc_settings := fold apply_setting st (hc_settings c),
        hc_sent := hc_sent c @ [(frame_header FT_SETTINGS FLAG_ACK 0 [], [])]\<rparr>"] assms(2)
    by simp
qed

theorem conn_settings_applied_and_acknowledged_witness:
  "\<exists>c. ProcessData open_connection (SerializeHeader (frame_header FT_SETTINGS 0 0
        (encode_settings [(3, 7), (99, 1), (3, 9)])) @ encode_settings [(3, 7), (99, 1), (3, 9)])
      = Some (Error_Success, c) \<and>
     hc_settings c = default_settings\<lparr>se_max_concurrent_streams := 9\<rparr> \<and> length (hc_sent c) = 1"
  using conn_settings_applied_and_acknowledged [of open_connection "[(3, 7), (99, 1), (3, 9)]"]
  by (simp add: receiving_def open_connection_def new_connection_def default_settings_def)

text \<open>A GOAWAY frame on an open connection moves it to CLOSING (a connection past that point
  stays as it is), closes with the frame's error code and drops every stream above the last stream
  id, and leaves every other stream untouched.\<close>

theorem conn_goaway_closes_later_streams:
  assumes "receiving c" "hc_read_buffer c = []" "8 + length dbg < 2 ^ 24"
  shows "\<exists>c'. ProcessData c (SerializeHeader (frame_header FT_GOAWAY 0 0 (encode_goaway l e dbg))
            @ encode_goaway l e dbg) = Some (Error_Success, c') \<and>
    hc_state c' = (if hc_state c = H2_OPEN then H2_CLOSING else hc_state c) \<and>
    map_of (hc_streams c') i = (if i > l then None else map_of (hc_streams c) i) \<and>
    (map_of (hc_streams c) i = Some s \<and> i > l \<longrightarrow>
       (i, stream_Close s e) \<in> set (hc_released c') \<and> hs_state (stream_Close s e) = SS_CLOSED)"
proof -
  let ?p = "encode_goaway l e dbg"
  let ?h = "frame_header FT_GOAWAY 0 0 ?p"
  have plen: "length ?p < 2 ^ 24" "8 \<le> length ?p"
    using assms(3) by (simp_all add: encode_goaway_def)
  have "\<not> (ucast (of_nat (length ?p) :: 24 word) :: u32) < 8"
    using plen unat_len32 [OF plen(1)] by (simp add: word_less_nat_alt)
  then have valid: "IsSuccess (Validate ?h)"
    by (simp add: Validate_def IsValidStreamId_def ValidateFrameLength_def frame_header_def
        as_frame_type_def Let_def)
  have len: "unat (fh_length ?h) = length ?p"
    using unat_len24 [OF plen(1)] by (simp add: frame_header_def)
  have type: "as_frame_type (fh_type ?h) = Some FT_GOAWAY"
    by (simp add: frame_header_def as_frame_type_def)
  define c' where "c' = snd (HandleGoawayFrame c ?h ?p)"
  have handled: "HandleFrame c ?h ?p = (Error_Success, c')"
    using type by (simp add: HandleFrame_def ValidatePayloadLength_def c'_def
        HandleGoawayFrame_def Let_def)
  have buffer: "hc_read_buffer c' = []"
    using assms(2) HandleFrame_fields(1) [of c ?h ?p] handled by simp
  have run: "ProcessData c (SerializeHeader ?h @ ?p) = Some (Error_Success, c')"
    using process_one_frame [OF assms(1,2) valid len, of "[]"] handled process_empty [of c'] buffer
    by simp
  have state: "hc_state c' = (if hc_state c = H2_OPEN then H2_CLOSING else hc_state c)"
    using assms(1) by (cases "hc_state c")
      (auto simp: c'_def HandleGoawayFrame_def conn_TransitionState_eq transition_to_def Let_def)
  have kept: "map_of (filter (\<lambda>(i, s). \<not> i > l) ss) i = (if i > l then None else map_of ss i)"
    for ss :: "(u32 \<times> h2_stream) list" by (induction ss) auto
  have streams: "hc_streams c' = filter (\<lambda>(i, s). \<not> i > l) (hc_streams c)"
    and released: "hc_released c' = hc_released c @
      map (\<lambda>(i, s). (i, stream_Close s e)) (filter (\<lambda>(i, s). i > l) (hc_streams c))"
    by (simp_all add: c'_def HandleGoawayFrame_def conn_TransitionState_eq Let_def)
  have "(i, stream_Close s e) \<in> set (hc_released c')"
    if "map_of (hc_streams c) i = Some s" "i > l"
    using map_of_SomeD [OF that(1)] that(2) by (force simp: released)
  moreover have "hs_state (stream_Close s e) = SS_CLOSED"
    by (cases "hs_state s") (simp_all add: stream_Close_def transition_to_def Let_def)
  ultimately show ?thesis
    using run state kept [of "hc_streams c"] by (auto simp: streams)
qed

theorem conn_goaway_closes_later_streams_witness:
  "\<exists>c'. ProcessData (snd (GetOrCreateStream (snd (GetOrCreateStream open_connection 1)) 5))
       (SerializeHeader (frame_header FT_GOAWAY 0 0 (encode_goaway 3 0 [])) @ encode_goaway 3 0 [])
      = Some (Error_Success, c') \<and> hc_state c' = H2_CLOSING \<and> map_of (hc_streams c') 5 = None"
  using conn_goaway_closes_later_streams
    [of "snd (GetOrCreateStream (snd (GetOrCreateStream open_connection 1)) 5)" "[]" 3 0 5]
  by (auto simp: receiving_def GetOrCreateStream_def Let_def)

end
