(* ===== verification/Evicting.thy ===== *)
theory Evicting
  imports Prelude
begin

text \<open>
  The bounded store two components share: entries newest first, the sum of their sizes kept beside
  them, and a loop that removes the oldest entry until a new one fits. \<open>shrink\<close> is that loop, with
  the number of entries as its fuel, which is enough because every turn removes one. The interface
  \<open>evicting_store\<close> states what removing an entry promises.
\<close>

fun shrink :: "('s \<Rightarrow> bool) \<Rightarrow> ('s \<Rightarrow> 's) \<Rightarrow> nat \<Rightarrow> 's \<Rightarrow> 's" where
  "shrink full evict 0 s = s"
| "shrink full evict (Suc n) s = (if full s then shrink full evict n (evict s) else s)"

definition weights :: "('e \<Rightarrow> nat) \<Rightarrow> 'e list \<Rightarrow> nat" where
  "weights w es = sum_list (map w es)"

lemma weights_simps [simp]:
  "weights w [] = 0" "weights w (e # es) = w e + weights w es"
  "weights w (es @ fs) = weights w es + weights w fs"
  by (simp_all add: weights_def)

lemma weights_take: "weights w (take k es) \<le> weights w es"
  by (metis append_take_drop_id le_add1 weights_simps(3))

locale evicting_store =
  fixes entries :: "'s \<Rightarrow> 'e list" and weight :: "'e \<Rightarrow> nat" and capacity :: "'s \<Rightarrow> nat"
    and evict :: "'s \<Rightarrow> 's" and full :: "'w \<Rightarrow> 's \<Rightarrow> bool" and need :: "'w \<Rightarrow> nat"
    and ok :: "'s \<Rightarrow> bool" and admissible :: "'w \<Rightarrow> 's \<Rightarrow> bool"
  assumes evict_entries: "ok s \<Longrightarrow> entries s \<noteq> [] \<Longrightarrow> entries (evict s) = butlast (entries s)"
    and evict_ok: "ok s \<Longrightarrow> ok (evict s)"
    and evict_capacity: "capacity (evict s) = capacity s"
    and evict_admissible: "admissible r s \<Longrightarrow> admissible r (evict s)"
    and full_iff: "ok s \<Longrightarrow> admissible r s \<Longrightarrow>
      full r s \<longleftrightarrow> entries s \<noteq> [] \<and> capacity s < weights weight (entries s) + need r"
begin

lemma shrink_ok: "ok s \<Longrightarrow> ok (shrink (full r) evict n s)"
  by (induction n arbitrary: s) (auto intro: evict_ok)

lemma shrink_capacity: "capacity (shrink (full r) evict n s) = capacity s"
  by (induction n arbitrary: s) (auto simp: evict_capacity)

text \<open>What the loop keeps: the newest entries, as many of them as fit.\<close>

lemma shrink_keeps:
  assumes "ok s" "admissible r s" "length (entries s) \<le> n"
  shows "\<exists>k \<le> length (entries s). entries (shrink (full r) evict n s) = take k (entries s) \<and>
    (weights weight (take k (entries s)) + need r \<le> capacity s \<or> k = 0) \<and>
    (k < length (entries s) \<longrightarrow> capacity s < weights weight (take (Suc k) (entries s)) + need r)"
  using assms
proof (induction n arbitrary: s)
  case 0
  then show ?case by simp
next
  case (Suc n)
  show ?case
  proof (cases "full r s")
    case False
    then show ?thesis
      using full_iff [OF Suc.prems(1,2)] by (intro exI [of _ "length (entries s)"]) auto
  next
    case True
    with full_iff [OF Suc.prems(1,2)] have ne: "entries s \<noteq> []"
      and over: "capacity s < weights weight (entries s) + need r" by auto
    have e: "entries (evict s) = butlast (entries s)"
      by (rule evict_entries [OF Suc.prems(1) ne])
    then have "length (entries (evict s)) \<le> n" using Suc.prems(3) by simp
    from Suc.IH [OF evict_ok [OF Suc.prems(1)] evict_admissible [OF Suc.prems(2)] this]
    obtain k where k: "k \<le> length (butlast (entries s))"
      "entries (shrink (full r) evict n (evict s)) = take k (butlast (entries s))"
      "weights weight (take k (butlast (entries s))) + need r \<le> capacity s \<or> k = 0"
      "k < length (butlast (entries s)) \<longrightarrow>
         capacity s < weights weight (take (Suc k) (butlast (entries s))) + need r"
      unfolding e evict_capacity by blast
    have "take k (butlast (entries s)) = take k (entries s)"
      using k(1) ne
      by (intro take_butlast) (metis One_nat_def diff_less le_less_trans length_butlast length_greater_0_conv zero_less_one)
    moreover have "capacity s < weights weight (take (Suc k) (entries s)) + need r"
    proof (cases "k < length (butlast (entries s))")
      case True
      then show ?thesis using k(4) take_butlast [of "Suc k" "entries s"] by simp
    next
      case False
      with k(1) ne have "Suc k = length (entries s)" by simp
      with over show ?thesis by simp
    qed
    ultimately show ?thesis
      using True k by (intro exI [of _ k]) auto
  qed
qed

end

end
