(* ===== verification/Hpack.thy ===== *)
theory Hpack
  imports WebError Evicting
begin

text \<open>
  The HPACK decoder (include/http2/hpack_decoder.h, src/http2/hpack_decoder.cpp).

  A decoding function takes the bytes that remain and returns what it decoded with the bytes after
  it (the code moves the pointer and the count), or the error, together with the decoder where it
  changes it. The static table has a placeholder at index 0. The dynamic table is the list the code
  has, newest entry first; its counters are 32-bit words. \<open>AddToDynamicTable\<close> evicts with \<open>shrink\<close>.
  The representations are read the way the code reads them, which is not everywhere the way of
  RFC 7541.
\<close>

record hpack_header =
  hp_name :: string
  hp_value :: string
  hp_sensitive :: bool

record hpack_entry =
  he_header :: hpack_header
  he_size :: u32

record hpack_decoder =
  hd_table :: "hpack_entry list"
  hd_max :: u32
  hd_size :: u32
  hd_usage :: u32
  hd_started :: bool

definition plain_header :: "string \<times> string \<Rightarrow> hpack_header" where
  "plain_header nv = \<lparr>hp_name = fst nv, hp_value = snd nv, hp_sensitive = False\<rparr>"

definition STATIC_TABLE :: "(string \<times> string) list" where
  "STATIC_TABLE =
     [([], []), ('':authority'', []), ('':method'', ''GET''), ('':method'', ''POST''),
      ('':path'', ''/''), ('':path'', ''/index.html''), ('':scheme'', ''http''),
      ('':scheme'', ''https''), ('':status'', ''200''), ('':status'', ''204''),
      ('':status'', ''206''), ('':status'', ''304''), ('':status'', ''400''),
      ('':status'', ''404''), ('':status'', ''500''), (''accept-charset'', []),
      (''accept-encoding'', ''gzip, deflate''), (''accept-language'', []),
      (''accept-ranges'', []), (''accept'', []), (''access-control-allow-origin'', []),
      (''age'', []), (''allow'', []), (''authorization'', []), (''cache-control'', []),
      (''content-disposition'', []), (''content-encoding'', []), (''content-language'', []),
      (''content-length'', []), (''content-location'', []), (''content-range'', []),
      (''content-type'', []), (''cookie'', []), (''date'', []), (''etag'', []), (''expect'', []),
      (''expires'', []), (''from'', []), (''host'', []), (''if-match'', []),
      (''if-modified-since'', []), (''if-none-match'', []), (''if-range'', []),
      (''if-unmodified-since'', []), (''last-modified'', []), (''link'', []), (''location'', []),
      (''max-forwards'', []), (''proxy-authenticate'', []), (''proxy-authorization'', []),
      (''range'', []), (''referer'', []), (''refresh'', []), (''retry-after'', []),
      (''server'', []), (''set-cookie'', []), (''strict-transport-security'', []),
      (''transfer-encoding'', []), (''user-agent'', []), (''vary'', []), (''via'', []),
      (''www-authenticate'', [])]"

abbreviation STATIC_TABLE_SIZE :: nat where "STATIC_TABLE_SIZE \<equiv> 61"

definition new_decoder :: "u32 \<Rightarrow> hpack_decoder" where
  "new_decoder max_size =
     \<lparr>hd_table = [], hd_max = max_size, hd_size = 0, hd_usage = 0, hd_started = False\<rparr>"

subsection \<open>Tables\<close>

definition GetStaticTableEntry :: "u32 \<Rightarrow> hpack_header option" where
  "GetStaticTableEntry index =
     (if index = 0 \<or> unat index > STATIC_TABLE_SIZE then None
      else Some (plain_header (STATIC_TABLE ! unat index)))"

definition GetDynamicTableEntry :: "hpack_decoder \<Rightarrow> u32 \<Rightarrow> hpack_header option" where
  "GetDynamicTableEntry d index =
     (if index = 0 \<or> unat index > length (hd_table d) then None
      else Some (he_header (hd_table d ! (unat index - 1))))"

definition GetTableEntry :: "hpack_decoder \<Rightarrow> u32 \<Rightarrow> hpack_header option" where
  "GetTableEntry d index =
     (if index \<le> 61 then GetStaticTableEntry index else GetDynamicTableEntry d (index - 61))"

definition EvictDynamicTable :: "hpack_decoder \<Rightarrow> hpack_decoder" where
  "EvictDynamicTable d =
     (if hd_table d = [] then d
      else d\<lparr>hd_usage := hd_usage d - he_size (last (hd_table d)),
             hd_size := hd_size d - 1,
             hd_table := butlast (hd_table d)\<rparr>)"

definition table_full :: "u32 \<Rightarrow> hpack_decoder \<Rightarrow> bool" where
  "table_full entry_size d \<longleftrightarrow> hd_table d \<noteq> [] \<and> hd_usage d + entry_size > hd_max d"

definition AddToDynamicTable :: "hpack_decoder \<Rightarrow> hpack_header \<Rightarrow> hpack_decoder" where
  "AddToDynamicTable d h =
     (let entry_size = of_nat (length (hp_name h) + length (hp_value h) + 32)
      in if entry_size > hd_max d then d
         else let d = shrink (table_full entry_size) EvictDynamicTable (length (hd_table d)) d
              in d\<lparr>hd_table := \<lparr>he_header = h, he_size = entry_size\<rparr> # hd_table d,
                   hd_usage := hd_usage d + entry_size,
                   hd_size := hd_size d + 1\<rparr>)"

definition UpdateDynamicTableSize :: "hpack_decoder \<Rightarrow> u32 \<Rightarrow> error_obj \<times> hpack_decoder" where
  "UpdateDynamicTableSize d new_size =
     (if new_size > hd_max d
      then (Error_of kProtocolError
              (''Dynamic table size exceeds maximum: '' @ dec (unat new_size) @ '' > ''
               @ dec (unat (hd_max d))), d)
      else (Error_Success, EvictDynamicTable (d\<lparr>hd_max := new_size\<rparr>)))"

definition ClearDynamicTable :: "hpack_decoder \<Rightarrow> hpack_decoder" where
  "ClearDynamicTable d = d\<lparr>hd_table := [], hd_size := 0, hd_usage := 0\<rparr>"

definition hpack_Reset :: "hpack_decoder \<Rightarrow> hpack_decoder" where
  "hpack_Reset d = (ClearDynamicTable d)\<lparr>hd_started := False\<rparr>"

subsection \<open>Integers and strings\<close>

fun integer_tail :: "u32 \<Rightarrow> nat \<Rightarrow> bytes \<Rightarrow> error_obj + u32 \<times> bytes" where
  "integer_tail result m [] = Inl (Error_of kParseError ''Incomplete multi-byte integer'')"
| "integer_tail result m (b # data) =
     (let result = result + push_bit m (ucast (b AND 0x7F));
          m = m + 7
      in if m > 28 then Inl (Error_of kParseError ''Integer too large'')
         else if b AND 0x80 \<noteq> 0 then integer_tail result m data
         else Inr (result, data))"

definition DecodeInteger :: "nat \<Rightarrow> bytes \<Rightarrow> error_obj + u32 \<times> bytes" where
  "DecodeInteger prefix_bits data =
     (case data of
        [] \<Rightarrow> Inl (Error_of kParseError ''No data for integer decoding'')
      | b # data \<Rightarrow>
          let prefix_mask = 2 ^ prefix_bits - 1 :: u8;
              result = b AND prefix_mask
          in if result = prefix_mask then integer_tail (ucast result) 0 data
             else Inr (ucast result, data))"

text \<open>A string with the Huffman bit set is taken as raw bytes too: both branches do the same.\<close>

definition DecodeString :: "bytes \<Rightarrow> error_obj + string \<times> bytes" where
  "DecodeString data =
     (if data = [] then Inl (Error_of kParseError ''No data for string decoding'')
      else case DecodeInteger 7 data of
             Inl err \<Rightarrow> Inl err
           | Inr (len, data) \<Rightarrow>
               if length data < unat len then Inl (Error_of kParseError ''Incomplete string data'')
               else Inr (chars_of (take (unat len) data), drop (unat len) data))"

lemma integer_tail_shorter: "integer_tail r m data = Inr (v, rest) \<Longrightarrow> length rest < length data"
  by (induction r m data rule: integer_tail.induct) (auto simp: Let_def less_SucI split: if_splits)

lemma DecodeInteger_shorter: "DecodeInteger p data = Inr (v, rest) \<Longrightarrow> length rest < length data"
  by (auto simp: DecodeInteger_def Let_def less_SucI split: list.splits if_splits
      dest: integer_tail_shorter)

lemma DecodeString_shorter: "DecodeString data = Inr (v, rest) \<Longrightarrow> length rest < length data"
  by (auto simp: DecodeString_def split: sum.splits if_splits dest!: DecodeInteger_shorter)

subsection \<open>Header fields\<close>

definition literal_value ::
  "hpack_decoder \<Rightarrow> string \<Rightarrow> bytes \<Rightarrow> (error_obj + hpack_header \<times> bytes) \<times> hpack_decoder" where
  "literal_value d nm data =
     (case DecodeString data of
        Inl err \<Rightarrow> (Inl err, d)
      | Inr (v, data) \<Rightarrow>
          let h = \<lparr>hp_name = nm, hp_value = v, hp_sensitive = False\<rparr>
          in (Inr (h, data), AddToDynamicTable d h))"

function DecodeHeaderField ::
  "hpack_decoder \<Rightarrow> bytes \<Rightarrow> (error_obj + hpack_header \<times> bytes) \<times> hpack_decoder" where
  "DecodeHeaderField d data =
     (case data of
        [] \<Rightarrow> (Inl (Error_of kParseError ''No data remaining for HPACK decoding''), d)
      | first_byte # _ \<Rightarrow>
          if first_byte AND 0x80 \<noteq> 0
          then (case DecodeInteger 7 data of
                  Inl err \<Rightarrow> (Inl err, d)
                | Inr (index, data) \<Rightarrow>
                    (case GetTableEntry d index of
                       None \<Rightarrow> (Inl (Error_of kParseError
                                 (''Invalid HPACK table index: '' @ dec (unat index))), d)
                     | Some entry \<Rightarrow> (Inr (entry, data), d)))
          else if first_byte AND 0xC0 = 0x40
          then (case DecodeInteger 6 data of
                  Inl err \<Rightarrow> (Inl err, d)
                | Inr (name_index, data) \<Rightarrow>
                    (case GetTableEntry d name_index of
                       None \<Rightarrow> (Inl (Error_of kParseError
                                 (''Invalid HPACK name index: '' @ dec (unat name_index))), d)
                     | Some name_entry \<Rightarrow> literal_value d (hp_name name_entry) data))
          else if first_byte AND 0xF0 = 0x00
          then (case DecodeString data of
                  Inl err \<Rightarrow> (Inl err, d)
                | Inr (nm, data) \<Rightarrow> literal_value d nm data)
          else if first_byte AND 0xE0 = 0x20
          then (if \<not> hd_started d
                then (Inl (Error_of kParseError
                        ''Dynamic table size update at invalid position''), d)
                else case DecodeInteger 5 data of
                       Inl err \<Rightarrow> (Inl err, d)
                     | Inr (new_size, data) \<Rightarrow>
                         (case UpdateDynamicTableSize d new_size of
                            (err, d) \<Rightarrow>
                              if \<not> IsSuccess err then (Inl err, d)
                              else DecodeHeaderField d data))
          else (Inl (Error_of kParseError
                  (''Unknown HPACK encoding: 0x'' @ dec (unat first_byte))), d))"
  by pat_completeness auto
termination
  by (relation "measure (\<lambda>(d, data). length data)") (auto dest: DecodeInteger_shorter)

declare DecodeHeaderField.simps [simp del]

lemma literal_value_shorter:
  "fst (literal_value d nm data) = Inr (h, rest) \<Longrightarrow> length rest < length data"
  by (auto simp: literal_value_def Let_def split: sum.splits dest: DecodeString_shorter)

lemma DecodeHeaderField_shorter:
  "fst (DecodeHeaderField d data) = Inr (h, rest) \<Longrightarrow> length rest < length data"
proof (induction "length data" arbitrary: d data rule: less_induct)
  case less
  show ?case
    using less.prems
    by (subst (asm) DecodeHeaderField.simps)
       (auto split: list.splits if_splits sum.splits option.splits prod.splits
         dest!: DecodeInteger_shorter DecodeString_shorter literal_value_shorter
         dest: less.hyps [rotated])
qed

function decode_fields ::
  "hpack_decoder \<Rightarrow> bytes \<Rightarrow> hpack_header list \<Rightarrow> hpack_header list option \<times> hpack_decoder" where
  "decode_fields d data headers =
     (if data = [] then (Some headers, d)
      else case DecodeHeaderField d data of
             (Inl err, d) \<Rightarrow> (None, d)
           | (Inr (h, data), d) \<Rightarrow> decode_fields d data (headers @ [h]))"
  by pat_completeness auto
termination
  by (relation "measure (\<lambda>(d, data, headers). length data)")
     (auto simp: prod_eq_iff dest!: sym [of "Inr _"] DecodeHeaderField_shorter)

declare decode_fields.simps [simp del]

definition Decode :: "hpack_decoder \<Rightarrow> bytes \<Rightarrow> hpack_header list option \<times> hpack_decoder" where
  "Decode d data = decode_fields (d\<lparr>hd_started := True\<rparr>) data []"

subsection \<open>Integers\<close>

lemma low7: "unat ((b :: u8) AND 0x7F) = unat b mod 128"
proof -
  have "(0x7F :: u8) = mask 7" by (simp add: mask_eq_exp_minus_1)
  then have "b AND 0x7F = take_bit 7 b" by (simp add: take_bit_eq_mask)
  then show ?thesis by (simp add: take_bit_eq_mod unat_mod_distrib)
qed

lemma high7: "(b :: u8) AND 0x80 \<noteq> 0 \<longleftrightarrow> 128 \<le> unat b"
proof -
  have "(0x80 :: u8) = push_bit 7 1" by (simp add: push_bit_of_1)
  then have "b AND 0x80 \<noteq> 0 \<longleftrightarrow> bit b 7"
    by (simp only: bit_iff_and_push_bit_not_eq_0)
  also have "\<dots> \<longleftrightarrow> bit (unat b) 7" by (simp add: bit_unsigned_iff)
  also have "\<dots> \<longleftrightarrow> 128 \<le> unat b"
  proof -
    have "unat b < 256" using unsigned_less [of b] by simp
    then have "unat b div 128 < 2" by (simp add: div_less_iff_less_mult)
    then show ?thesis by (auto simp: bit_iff_odd) (metis less_2_cases_iff One_nat_def div_less even_zero not_less)
  qed
  finally show ?thesis .
qed

text \<open>
  The encoding RFC 7541 section 5.1 prescribes for a value in a prefix of \<open>p\<close> bits, below the
  bits \<open>flags\<close> of the representation.
\<close>

fun encode_tail :: "nat \<Rightarrow> bytes" where
  "encode_tail n = (if n < 128 then [of_nat n] else of_nat (n mod 128 + 128) # encode_tail (n div 128))"

declare encode_tail.simps [simp del]

definition encode_integer :: "nat \<Rightarrow> u8 \<Rightarrow> nat \<Rightarrow> bytes" where
  "encode_integer p flags n =
     (if n < 2 ^ p - 1 then [flags OR of_nat n]
      else (flags OR (2 ^ p - 1)) # encode_tail (n - (2 ^ p - 1)))"

lemma unat_u8: "k < 256 \<Longrightarrow> unat (of_nat k :: u8) = k"
  by (simp add: unsigned_of_nat take_bit_eq_mod)

lemma unat_add_of_nat: "unat (r :: u32) + k < 2 ^ 32 \<Longrightarrow> unat (r + of_nat k) = unat r + k"
  by (simp add: unat_word_ariths(1) unsigned_of_nat take_bit_eq_mod)

lemma tail_step:
  assumes "unat r + 2 ^ m * (unat b mod 128) < 2 ^ 32"
  shows "unat (r + push_bit m (ucast ((b :: u8) AND 0x7F)) :: u32) = unat r + 2 ^ m * (unat b mod 128)"
proof -
  have w: "unat (ucast (b AND 0x7F) :: u32) = unat b mod 128"
    using low7 [of b] by (simp add: unsigned_ucast_eq take_bit_eq_mod)
  have "unat (push_bit m (ucast (b AND 0x7F) :: u32)) = take_bit 32 (push_bit m (unat b mod 128))"
    unfolding unsigned_push_bit_eq w by simp
  also have "\<dots> = 2 ^ m * (unat b mod 128)"
    using assms by (simp add: push_bit_eq_mult take_bit_eq_mod mult.commute)
  finally have "unat (push_bit m (ucast (b AND 0x7F) :: u32)) = 2 ^ m * (unat b mod 128)" .
  then show ?thesis
    using assms by (simp add: unat_word_ariths(1))
qed

lemma integer_tail_long: "data \<noteq> [] \<Longrightarrow> \<exists>e. integer_tail r 28 data = Inl e \<and> \<not> IsSuccess e"
  by (cases data) (simp_all add: Let_def)

text \<open>The continuation bytes of a value: decoded if there are at most four, refused otherwise.\<close>

lemma integer_tail_encode:
  assumes "m = 7 * k" "k \<le> 3" "unat r + 2 ^ m * n < 2 ^ 32"
  shows "if n < 2 ^ (28 - m)
    then integer_tail r m (encode_tail n @ rest) = Inr (r + of_nat (2 ^ m * n), rest)
    else \<exists>e. integer_tail r m (encode_tail n @ rest) = Inl e \<and> \<not> IsSuccess e"
  using assms
proof (induction n arbitrary: k m r rule: less_induct)
  case (less n)
  have cut: "2 ^ m * (n mod 128) + 2 ^ (m + 7) * (n div 128) = 2 ^ m * n"
    by (simp add: power_add mult.assoc flip: add_mult_distrib2)
  have one: "1 \<le> (2 :: nat) ^ m" by simp
  show ?case
  proof (cases "n < 128")
    case True
    then have b: "unat (of_nat n :: u8) = n" "\<not> 128 \<le> n"
      by (simp_all add: unsigned_of_nat take_bit_eq_mod)
    have "(2 :: nat) ^ 7 \<le> 2 ^ (28 - m)"
      using less.prems(1,2) by (intro power_increasing) auto
    with True have small: "n < 2 ^ (28 - m)" by simp
    have total: "r + push_bit m (ucast ((of_nat n :: u8) AND 0x7F)) = r + of_nat (2 ^ m * n)"
      using tail_step [of r m "of_nat n"] less.prems(3) True
      by (intro word_unat_eq_iff [THEN iffD2]) (simp add: b unat_add_of_nat del: of_nat_mult)
    show ?thesis
      using True b less.prems(1,2) high7 [of "of_nat n"] small total
      by (simp add: encode_tail.simps [of n] Let_def)
  next
    case False
    define b where "b = (of_nat (n mod 128 + 128) :: u8)"
    have b: "unat b = n mod 128 + 128"
      unfolding b_def by (rule unat_u8) (use mod_less_divisor [of 128 n] in simp)
    have enc: "encode_tail n = b # encode_tail (n div 128)"
      using False by (subst encode_tail.simps) (simp add: b_def)
    have div: "n div 128 < n" using False by simp
    let ?r = "r + push_bit m (ucast (b AND 0x7F))"
    have le: "unat r + 2 ^ m * (n mod 128) < 2 ^ 32"
      using less.prems(3) cut by simp
    have r: "unat ?r = unat r + 2 ^ m * (n mod 128)"
      using tail_step [of r m b] le by (simp add: b)
    have step: "integer_tail r m (encode_tail n @ rest) = integer_tail ?r (m + 7) (encode_tail (n div 128) @ rest)"
      using False less.prems(1,2) high7 [of b] b
      by (simp add: enc Let_def)
    show ?thesis
    proof (cases "k = 3")
      case True
      then have "m = 21" using less.prems(1) by simp
      moreover have "encode_tail (n div 128) @ rest \<noteq> []"
        by (subst encode_tail.simps) simp
      ultimately show ?thesis
        using step integer_tail_long [of "encode_tail (n div 128) @ rest" ?r] False by simp
    next
      case k: False
      then have k': "m + 7 = 7 * Suc k" "Suc k \<le> 3" using less.prems by auto
      have sum: "unat ?r + 2 ^ (m + 7) * (n div 128) < 2 ^ 32"
        unfolding r using cut less.prems(3) by simp
      have bound: "n div 128 < 2 ^ (28 - (m + 7)) \<longleftrightarrow> n < 2 ^ (28 - m)"
      proof -
        have "28 - m = (28 - (m + 7)) + 7" using k' by simp
        then have "(2 :: nat) ^ (28 - m) = 2 ^ (28 - (m + 7)) * 2 ^ 7" by (simp only: power_add)
        then show ?thesis by (simp add: div_less_iff_less_mult)
      qed
      have total: "?r + of_nat (2 ^ (m + 7) * (n div 128)) = r + of_nat (2 ^ m * n)"
      proof (rule word_unat_eq_iff [THEN iffD2])
        have "unat (?r + of_nat (2 ^ (m + 7) * (n div 128))) = unat ?r + 2 ^ (m + 7) * (n div 128)"
          using sum by (rule unat_add_of_nat)
        moreover have "unat (r + of_nat (2 ^ m * n)) = unat r + 2 ^ m * n"
          using less.prems(3) by (rule unat_add_of_nat)
        ultimately show "unat (?r + of_nat (2 ^ (m + 7) * (n div 128))) = unat (r + of_nat (2 ^ m * n))"
          using r cut by simp
      qed
      show ?thesis
        using less.IH [OF div k' sum] unfolding step bound total .
    qed
  qed
qed

lemma prefix_and:
  assumes "flags AND (2 ^ p - 1) = (0 :: u8)" "k < 2 ^ p" "p \<le> 7"
  shows "(flags OR of_nat k) AND (2 ^ p - 1) = (of_nat k :: u8)"
proof -
  have m: "(2 ^ p - 1 :: u8) = mask p" by (simp add: mask_eq_exp_minus_1)
  have "take_bit p (of_nat k :: u8) = of_nat (take_bit p k)" by (simp add: take_bit_of_nat)
  also have "take_bit p k = k" using assms(2) by (simp add: take_bit_nat_eq_self)
  finally have "(of_nat k :: u8) AND mask p = of_nat k" by (simp add: take_bit_eq_mask)
  then show ?thesis
    using assms(1) unfolding m by (simp add: bit.conj_disj_distrib2)
qed

lemma prefix_mask: "p \<le> 7 \<Longrightarrow> of_nat (2 ^ p - 1) = (2 ^ p - 1 :: u8)"
  by (simp add: of_nat_diff)

lemma prefix_lt: "(p :: nat) \<le> 7 \<Longrightarrow> (2 :: nat) ^ p \<le> 128"
  using power_increasing [of p 7 "2 :: nat"] by simp

lemma unat_prefix:
  assumes "p \<le> 7"
  shows "unat (2 ^ p - 1 :: u8) = 2 ^ p - 1"
proof -
  have "unat (of_nat (2 ^ p - 1) :: u8) = 2 ^ p - 1"
    by (rule unat_u8) (use prefix_lt [OF assms] in linarith)
  then show ?thesis unfolding prefix_mask [OF assms] .
qed

lemma DecodeInteger_encode:
  assumes "flags AND (2 ^ p - 1) = 0" "1 \<le> p" "p \<le> 7" "n < 2 ^ 32"
  shows "if n < 2 ^ p - 1 + 2 ^ 28
    then DecodeInteger p (encode_integer p flags n @ rest) = Inr (of_nat n, rest)
    else \<exists>e. DecodeInteger p (encode_integer p flags n @ rest) = Inl e \<and> \<not> IsSuccess e"
proof (cases "n < 2 ^ p - 1")
  case True
  then have n: "n < 2 ^ p" "n < 256" "n < 2 ^ p - 1 + 2 ^ 28"
    using prefix_lt [OF assms(3)] by auto
  have "(of_nat n :: u8) \<noteq> 2 ^ p - 1"
    using True unat_u8 [OF n(2)] unat_prefix [OF assms(3)] by auto
  moreover have "(ucast (of_nat n :: u8) :: u32) = of_nat n"
    using unat_u8 [OF n(2)] n(2)
    by (intro word_unat_eq_iff [THEN iffD2]) (simp add: unsigned_ucast_eq unsigned_of_nat take_bit_eq_mod)
  ultimately show ?thesis
    using True prefix_and [OF assms(1) n(1) assms(3)] n(3)
    by (simp add: encode_integer_def DecodeInteger_def Let_def)
next
  case False
  let ?k = "n - (2 ^ p - 1)"
  have pk: "(2 :: nat) ^ p - 1 < 2 ^ p" by simp
  have first: "(flags OR (2 ^ p - 1)) AND (2 ^ p - 1) = (2 ^ p - 1 :: u8)"
    using prefix_and [OF assms(1) pk assms(3)] unfolding prefix_mask [OF assms(3)] .
  have start: "unat (ucast (2 ^ p - 1 :: u8) :: u32) = 2 ^ p - 1"
    using unat_prefix [OF assms(3)] prefix_lt [OF assms(3)]
    by (simp add: unsigned_ucast_eq take_bit_eq_mod)
  have sum: "unat (ucast (2 ^ p - 1 :: u8) :: u32) + 2 ^ 0 * ?k < 2 ^ 32"
    unfolding start using False assms(4) by simp
  have total: "(ucast (2 ^ p - 1 :: u8) :: u32) + of_nat (2 ^ 0 * ?k) = of_nat n"
    using unat_add_of_nat [OF sum] start False assms(4)
    by (intro word_unat_eq_iff [THEN iffD2]) (simp add: unsigned_of_nat take_bit_eq_mod)
  have bound: "?k < 2 ^ (28 - 0) \<longleftrightarrow> n < 2 ^ p - 1 + 2 ^ 28"
    using False by auto
  have run: "DecodeInteger p (encode_integer p flags n @ rest)
      = integer_tail (ucast (2 ^ p - 1 :: u8)) 0 (encode_tail ?k @ rest)"
    using False first by (simp add: encode_integer_def DecodeInteger_def Let_def)
  show ?thesis
    using integer_tail_encode [of 0 0 "ucast (2 ^ p - 1 :: u8)" ?k rest, OF _ _ sum]
    unfolding run bound total by simp
qed

text \<open>What is decoded is small, whatever the bytes.\<close>

lemma integer_tail_bound:
  assumes "integer_tail r m data = Inr (v, rest)" "m = 7 * k" "k \<le> 4" "unat r < 2 ^ m + 127"
  shows "unat v < 2 ^ 28 + 127"
  using assms
proof (induction r m data arbitrary: k rule: integer_tail.induct)
  case (2 r m b data)
  let ?r = "r + push_bit m (ucast (b AND 0x7F))"
  have m: "m + 7 \<le> 28" using 2(2) by (auto simp: Let_def split: if_splits)
  have top: "(2 :: nat) ^ (m + 7) \<le> 2 ^ 28" using m by (intro power_increasing) auto
  have split: "(2 :: nat) ^ (m + 7) = 2 ^ m * 128" by (simp add: power_add)
  have digit: "2 ^ m * (unat b mod 128) \<le> 2 ^ m * 127" by (intro mult_le_mono2) linarith
  have small: "unat r + 2 ^ m * (unat b mod 128) < 2 ^ (m + 7) + 127"
    using 2(5) digit split by linarith
  then have fits: "unat r + 2 ^ m * (unat b mod 128) < 2 ^ 32"
    by (rule less_le_trans) (use top in \<open>simp del: power_Suc\<close>)
  have r: "unat ?r < 2 ^ (m + 7) + 127"
    using tail_step [OF fits] small by simp
  show ?case
  proof (cases "b AND 0x80 \<noteq> 0")
    case True
    then have tail: "integer_tail ?r (m + 7) data = Inr (v, rest)"
      using 2(2) m by (simp add: Let_def)
    have more: "\<not> m + 7 > 28" "m + 7 = 7 * Suc k" "Suc k \<le> 4" using m 2(3) by simp_all
    show ?thesis
      by (rule 2(1) [OF refl refl more(1) True tail more(2,3) r])
  next
    case False
    then have "v = ?r" using 2(2) m by (simp add: Let_def)
    then show ?thesis using r top by simp
  qed
qed simp

lemma DecodeInteger_bound:
  assumes "DecodeInteger p data = Inr (v, rest)" "p \<le> 7"
  shows "unat v < 2 ^ 28 + 127"
proof -
  obtain b data' where d: "data = b # data'" using assms(1) by (cases data) (auto simp: DecodeInteger_def)
  have "unat (b AND (2 ^ p - 1)) \<le> unat (2 ^ p - 1 :: u8)"
    by (simp add: word_and_le1 word_le_nat_alt [symmetric])
  then have b: "unat (b AND (2 ^ p - 1)) \<le> 127"
    using unat_prefix [OF assms(2)] prefix_lt [OF assms(2)] by simp
  then have u: "unat (ucast (b AND (2 ^ p - 1)) :: u32) \<le> 127"
    by (simp add: unsigned_ucast_eq take_bit_eq_mod)
  show ?thesis
    using assms(1) u integer_tail_bound [of "ucast (b AND (2 ^ p - 1))" 0 data' v rest 0]
    by (auto simp: d DecodeInteger_def Let_def split: if_splits)
qed

lemma DecodeString_bound: "DecodeString data = Inr (s, rest) \<Longrightarrow> length s < 2 ^ 28 + 127"
  by (auto simp: DecodeString_def split: if_splits sum.splits dest!: DecodeInteger_bound)

subsection \<open>The dynamic table as an evicting store\<close>

definition entry_ok :: "hpack_entry \<Rightarrow> bool" where
  "entry_ok e \<longleftrightarrow>
     unat (he_size e) = length (hp_name (he_header e)) + length (hp_value (he_header e)) + 32 \<and>
     length (hp_name (he_header e)) < 2 ^ 29"

abbreviation table_weight :: "hpack_entry \<Rightarrow> nat" where "table_weight e \<equiv> unat (he_size e)"

text \<open>The invariant; \<open>M\<close> is the size the decoder was created with.\<close>

definition dec_inv :: "nat \<Rightarrow> hpack_decoder \<Rightarrow> bool" where
  "dec_inv M d \<longleftrightarrow>
     unat (hd_size d) = length (hd_table d) \<and>
     unat (hd_usage d) = weights table_weight (hd_table d) \<and>
     (\<forall>e \<in> set (hd_table d). entry_ok e) \<and>
     unat (hd_usage d) \<le> M \<and> unat (hd_max d) \<le> M \<and> M < 2 ^ 31"

lemma length_le_weights:
  "\<forall>e \<in> set es. entry_ok e \<Longrightarrow> 32 * length es \<le> weights table_weight es"
  by (induction es) (auto simp: entry_ok_def)

lemma EvictDynamicTable_inv [inv_lemmas]:
  assumes "dec_inv M d"
  shows "dec_inv M (EvictDynamicTable d)"
proof (cases "hd_table d" rule: rev_cases)
  case Nil
  then show ?thesis using assms by (simp add: EvictDynamicTable_def)
next
  case (snoc es e)
  then have u: "unat (hd_usage d) = weights table_weight es + unat (he_size e)"
    and n: "unat (hd_size d) = Suc (length es)"
    using assms by (simp_all add: dec_inv_def)
  have "unat (hd_usage d - he_size e) = weights table_weight es"
    using u by (simp add: unat_sub word_le_nat_alt)
  moreover have "unat (hd_size d - 1) = length es"
    using n by (simp add: unat_sub word_le_nat_alt)
  ultimately show ?thesis
    using assms snoc by (auto simp: EvictDynamicTable_def dec_inv_def)
qed

interpretation dyn: evicting_store hd_table table_weight "\<lambda>d. unat (hd_max d)" EvictDynamicTable
  table_full unat "dec_inv M" "\<lambda>w d. w \<le> hd_max d" for M
proof unfold_locales
  fix d :: hpack_decoder and w :: u32
  assume d: "dec_inv M d" and w: "w \<le> hd_max d"
  have "unat (hd_usage d) + unat w < 2 ^ 32"
    using d w by (auto simp: dec_inv_def word_le_nat_alt)
  then have "unat (hd_usage d + w) = weights table_weight (hd_table d) + unat w"
    using d by (simp add: dec_inv_def unat_word_ariths(1))
  then show "table_full w d \<longleftrightarrow> hd_table d \<noteq> [] \<and>
      unat (hd_max d) < weights table_weight (hd_table d) + unat w"
    by (simp add: table_full_def word_less_nat_alt)
qed (auto intro: EvictDynamicTable_inv, auto simp: EvictDynamicTable_def)

text \<open>Adding an entry: what is kept, and the invariant.\<close>

definition header_ok :: "hpack_header \<Rightarrow> bool" where
  "header_ok h \<longleftrightarrow> length (hp_name h) < 2 ^ 29 \<and> length (hp_value h) < 2 ^ 29"

definition header_size :: "hpack_header \<Rightarrow> nat" where
  "header_size h = length (hp_name h) + length (hp_value h) + 32"

lemma header_size_word:
  "header_ok h \<Longrightarrow> unat (of_nat (header_size h) :: u32) = header_size h"
  by (simp add: header_ok_def header_size_def unsigned_of_nat take_bit_eq_mod del: of_nat_add)

lemma AddToDynamicTable_big:
  "header_ok h \<Longrightarrow> unat (hd_max d) < header_size h \<Longrightarrow> AddToDynamicTable d h = d"
  using header_size_word [of h]
  by (simp add: AddToDynamicTable_def header_size_def word_less_nat_alt Let_def del: of_nat_add)

lemma AddToDynamicTable_fits:
  assumes d: "dec_inv M d" and h: "header_ok h" and fits: "header_size h \<le> unat (hd_max d)"
  shows "\<exists>k \<le> length (hd_table d). hd_table (AddToDynamicTable d h)
      = \<lparr>he_header = h, he_size = of_nat (header_size h)\<rparr> # take k (hd_table d) \<and>
    header_size h + weights table_weight (take k (hd_table d)) \<le> unat (hd_max d) \<and>
    (k < length (hd_table d) \<longrightarrow>
       unat (hd_max d) < header_size h + weights table_weight (take (Suc k) (hd_table d))) \<and>
    hd_max (AddToDynamicTable d h) = hd_max d \<and> hd_started (AddToDynamicTable d h) = hd_started d \<and>
    dec_inv M (AddToDynamicTable d h)"
proof -
  let ?w = "of_nat (header_size h) :: u32"
  let ?s = "shrink (table_full ?w) EvictDynamicTable (length (hd_table d)) d"
  have w: "unat ?w = header_size h" by (rule header_size_word [OF h])
  have wle: "?w \<le> hd_max d" using fits w by (simp add: word_le_nat_alt)
  have add: "AddToDynamicTable d h = ?s\<lparr>hd_table := \<lparr>he_header = h, he_size = ?w\<rparr> # hd_table ?s,
      hd_usage := hd_usage ?s + ?w, hd_size := hd_size ?s + 1\<rparr>"
    using wle by (simp add: AddToDynamicTable_def header_size_def Let_def not_less del: of_nat_add)
  have inv: "dec_inv M ?s" by (rule dyn.shrink_ok [OF d])
  have cap: "unat (hd_max ?s) = unat (hd_max d)" by (rule dyn.shrink_capacity)
  have started: "hd_started (shrink f EvictDynamicTable n d') = hd_started d'" for f n d'
    by (induction n arbitrary: d') (auto simp: EvictDynamicTable_def)
  from dyn.shrink_keeps [OF d wle order_refl] obtain k where k: "k \<le> length (hd_table d)"
    "hd_table ?s = take k (hd_table d)"
    "weights table_weight (take k (hd_table d)) + unat ?w \<le> unat (hd_max d) \<or> k = 0"
    "k < length (hd_table d) \<longrightarrow>
       unat (hd_max d) < weights table_weight (take (Suc k) (hd_table d)) + unat ?w" by blast
  have room: "header_size h + weights table_weight (take k (hd_table d)) \<le> unat (hd_max d)"
    using k(3) fits by (auto simp: w)
  have M: "unat (hd_max d) \<le> M" "M < 2 ^ 31" using d by (simp_all add: dec_inv_def)
  have usage: "unat (hd_usage ?s) = weights table_weight (take k (hd_table d))"
    and sizes: "unat (hd_size ?s) = k"
    using inv k(1,2) by (simp_all add: dec_inv_def)
  have usage': "unat (hd_usage ?s + ?w) = header_size h + weights table_weight (take k (hd_table d))"
    using room M by (simp add: unat_word_ariths(1) usage w del: of_nat_add)
  have ok: "\<forall>e \<in> set (take k (hd_table d)). entry_ok e"
    using inv k(2) by (simp add: dec_inv_def)
  then have "32 * k \<le> unat (hd_max d)"
    using length_le_weights [OF ok] room k(1) by simp
  then have size': "unat (hd_size ?s + 1) = Suc k"
    using M sizes by (simp add: unat_word_ariths(1))
  have new: "entry_ok \<lparr>he_header = h, he_size = ?w\<rparr>"
    using h by (simp add: entry_ok_def w header_ok_def) (simp add: header_size_def)
  have "dec_inv M (AddToDynamicTable d h)"
    unfolding add dec_inv_def
    using usage' size' ok room M new k(1,2) cap by (simp add: w del: of_nat_add)
  then show ?thesis
    using k room cap by (intro exI [of _ k]) (auto simp: add w started word_unat_eq_iff ac_simps)
qed

lemma AddToDynamicTable_inv [inv_lemmas]:
  assumes "dec_inv M d" "header_ok h"
  shows "dec_inv M (AddToDynamicTable d h)"
  using AddToDynamicTable_fits [OF assms] AddToDynamicTable_big [OF assms(2), of d] assms(1)
  by (cases "header_size h \<le> unat (hd_max d)") auto

subsection \<open>Decoding keeps the invariant\<close>

lemma static_names: "\<forall>nv \<in> set STATIC_TABLE. length (fst nv) < 2 ^ 29"
  by (simp add: STATIC_TABLE_def)

lemma length_STATIC_TABLE: "length STATIC_TABLE = 62"
  by (simp add: STATIC_TABLE_def)

lemma static_name_short:
  assumes "i \<le> STATIC_TABLE_SIZE"
  shows "length (fst (STATIC_TABLE ! i)) < 2 ^ 29"
proof -
  have "i < length STATIC_TABLE" using assms by (simp add: length_STATIC_TABLE)
  then show ?thesis using static_names nth_mem by blast
qed

lemma GetTableEntry_name:
  assumes "dec_inv M d" "GetTableEntry d i = Some e"
  shows "length (hp_name e) < 2 ^ 29"
proof (cases "i \<le> 61")
  case True
  then show ?thesis
    using assms(2) static_name_short [of "unat i"]
    by (auto simp: GetTableEntry_def GetStaticTableEntry_def plain_header_def split: if_splits)
next
  case False
  let ?j = "unat (i - 61) - 1"
  from False assms(2) have i: "i - 61 \<noteq> 0" "unat (i - 61) \<le> length (hd_table d)"
    and e: "e = he_header (hd_table d ! ?j)"
    by (auto simp: GetTableEntry_def GetDynamicTableEntry_def split: if_splits)
  from i(1) have "unat (i - 61) \<noteq> 0" by (simp only: unat_eq_0) simp
  with i(2) have "?j < length (hd_table d)" by linarith
  then have "hd_table d ! ?j \<in> set (hd_table d)" by simp
  with assms(1) show ?thesis by (simp add: dec_inv_def entry_ok_def e)
qed

lemma literal_value_inv [inv_lemmas]:
  "dec_inv M d \<Longrightarrow> length nm < 2 ^ 29 \<Longrightarrow> dec_inv M (snd (literal_value d nm data))"
  by (auto simp: literal_value_def Let_def header_ok_def split: sum.split
      intro!: AddToDynamicTable_inv dest: DecodeString_bound)

lemma dec_inv_max: "dec_inv M d \<Longrightarrow> unat n \<le> M \<Longrightarrow> dec_inv M (d\<lparr>hd_max := n\<rparr>)"
  by (simp add: dec_inv_def)

lemma UpdateDynamicTableSize_inv [inv_lemmas]:
  "dec_inv M d \<Longrightarrow> dec_inv M (snd (UpdateDynamicTableSize d n))"
  by (auto simp: UpdateDynamicTableSize_def not_less word_le_nat_alt dec_inv_def [of M d]
      intro!: EvictDynamicTable_inv dec_inv_max)

lemma dec_inv_started [simp]: "dec_inv M (d\<lparr>hd_started := b\<rparr>) = dec_inv M d"
  by (simp add: dec_inv_def)

lemma DecodeHeaderField_inv_res:
  "DecodeHeaderField d data = (r, d') \<Longrightarrow> dec_inv M d \<Longrightarrow> dec_inv M d'"
proof (induction "length data" arbitrary: d data rule: less_induct)
  case less
  have upd: "dec_inv M d1" if "UpdateDynamicTableSize d n = (e, d1)" for n e d1
    using UpdateDynamicTableSize_inv [OF less.prems(2), of n] that by simp
  have lit: "dec_inv M d'" if "literal_value d nm rest = (r, d')" "length nm < 2 ^ 29" for nm rest
    using literal_value_inv [OF less.prems(2) that(2), of rest] that(1) by simp
  have str: "length nm < 2 ^ 29" if "DecodeString data = Inr (nm, b)" for nm b
    using DecodeString_bound [OF that] by simp
  note lit_str = lit [OF _ str] and lit_idx = lit [OF _ GetTableEntry_name [OF less.prems(2)]]
  have keep: "dec_inv M d'" if "d = d'" using less.prems(2) that by simp
  note again = less.hyps [OF DecodeInteger_shorter _ upd]
  show ?case
    using less.prems(1)
    by (subst (asm) DecodeHeaderField.simps)
       (auto split: list.splits if_splits sum.splits option.splits prod.splits
         intro: keep lit_str lit_idx upd again)
qed

lemma DecodeHeaderField_inv [inv_lemmas]:
  "dec_inv M d \<Longrightarrow> dec_inv M (snd (DecodeHeaderField d data))"
  by (rule DecodeHeaderField_inv_res) (rule prod.collapse [symmetric])

lemma decode_fields_inv [inv_lemmas]:
  "dec_inv M d \<Longrightarrow> dec_inv M (snd (decode_fields d data hs))"
proof (induction d data hs rule: decode_fields.induct)
  case (1 d data hs)
  have field: "dec_inv M d'" if "DecodeHeaderField d data = (r, d')" for r d'
    using DecodeHeaderField_inv [OF 1(2), of data] that by simp
  show ?case
    by (subst decode_fields.simps) (auto split: prod.split sum.split intro: field 1)
qed

lemma Decode_inv [inv_lemmas]: "dec_inv M d \<Longrightarrow> dec_inv M (snd (Decode d data))"
  unfolding Decode_def by (intro inv_lemmas) simp

text \<open>A decoder over its life: header blocks one after the other.\<close>

definition decode_blocks :: "u32 \<Rightarrow> bytes list \<Rightarrow> hpack_decoder" where
  "decode_blocks max_size blocks = fold (\<lambda>b d. snd (Decode d b)) blocks (new_decoder max_size)"

lemma decode_blocks_inv: "unat n < 2 ^ 31 \<Longrightarrow> dec_inv (unat n) (decode_blocks n blocks)"
proof (induction blocks rule: rev_induct)
  case Nil
  then show ?case by (simp add: decode_blocks_def dec_inv_def new_decoder_def)
next
  case (snoc b blocks)
  then show ?case by (simp add: decode_blocks_def Decode_inv)
qed

subsection \<open>Representations\<close>

definition encode_string :: "string \<Rightarrow> bytes" where
  "encode_string s = encode_integer 7 0 (length s) @ bytes_of s"

lemma DecodeString_encode:
  assumes "length s < 2 ^ 28 + 127"
  shows "DecodeString (encode_string s @ rest) = Inr (s, rest)"
proof -
  have len: "unat (of_nat (length s) :: u32) = length s"
    using assms by (simp add: unsigned_of_nat take_bit_eq_mod)
  have "DecodeInteger 7 (encode_string s @ rest) = Inr (of_nat (length s), bytes_of s @ rest)"
    using DecodeInteger_encode [of 0 7 "length s" "bytes_of s @ rest"] assms
    by (simp add: encode_string_def)
  moreover have "encode_string s @ rest \<noteq> []"
    by (simp add: encode_string_def encode_integer_def)
  ultimately show ?thesis by (simp add: DecodeString_def len)
qed

lemma first_byte:
  assumes "flags AND (2 ^ p - 1) = 0" "p \<le> 7" "1 \<le> p"
  shows "\<exists>x tl. encode_integer p flags n = (flags OR x) # tl \<and> x AND (2 ^ p - 1) = x"
proof (cases "n < 2 ^ p - 1")
  case True
  then show ?thesis
    using prefix_and [of 0 p n] assms by (auto simp: encode_integer_def)
next
  case False
  then show ?thesis by (auto simp: encode_integer_def intro!: exI [of _ "2 ^ p - 1"])
qed

lemma weights_headers:
  "\<forall>e \<in> set es. entry_ok e \<Longrightarrow> weights table_weight es = weights header_size (map he_header es)"
  by (induction es) (auto simp: entry_ok_def header_size_def)

lemma indexed_byte: "(0x80 OR x :: u8) AND 0x80 \<noteq> 0"
  by (simp add: bit.conj_disj_distrib2)

lemma literal_byte:
  assumes "(x :: u8) AND 0x3F = x"
  shows "(0x40 OR x) AND 0x80 = 0" "(0x40 OR x) AND 0xC0 = 0x40"
proof -
  have "x AND 0x80 = x AND (0x3F AND 0x80)" "x AND 0xC0 = x AND (0x3F AND 0xC0)"
    using assms by (metis and.assoc)+
  then have "x AND 0x80 = 0" "x AND 0xC0 = 0" by simp_all
  then show "(0x40 OR x) AND 0x80 = 0" "(0x40 OR x) AND 0xC0 = 0x40"
    by (simp_all add: bit.conj_disj_distrib2)
qed

lemma GetTableEntry_newest: "hd_table d \<noteq> [] \<Longrightarrow> GetTableEntry d 62 = Some (he_header (hd (hd_table d)))"
  by (cases "hd_table d") (simp_all add: GetTableEntry_def GetDynamicTableEntry_def)

subsection \<open>Properties\<close>

text \<open>C19: the integer decoder inverts the encoding of RFC 7541 section 5.1, with any representation
  bits above the prefix and any bytes after it, for every value below 2^28 plus the prefix limit;
  every larger 32-bit value is refused.\<close>

theorem hpack_integer_roundtrip:
  assumes "flags AND (2 ^ p - 1) = 0" "1 \<le> p" "p \<le> 7" "n < 2 ^ 32"
  shows "if n < 2 ^ p - 1 + 2 ^ 28
    then DecodeInteger p (encode_integer p flags n @ rest) = Inr (of_nat n, rest)
    else \<exists>e. DecodeInteger p (encode_integer p flags n @ rest) = Inl e \<and> \<not> IsSuccess e"
  by (rule DecodeInteger_encode [OF assms])

theorem hpack_integer_roundtrip_witness:
  "DecodeInteger 5 [0x3F, 0x9A, 0x0A, 7] = Inr (1337, [7])"
proof -
  have "encode_integer 5 0x20 1337 = [0x3F, 0x9A, 0x0A]"
    by (simp add: encode_integer_def encode_tail.simps)
  with hpack_integer_roundtrip [of "0x20" 5 1337 "[7]"] show ?thesis by simp
qed

text \<open>C23: accounting of the dynamic table. However many header blocks a decoder has processed,
  failed ones included, its element count is the number of entries, its usage is the sum over the
  entries of name length plus value length plus 32, without wrap-around, and both the usage and the
  current limit are within the size the decoder was created with.\<close>

theorem hpack_table_accounting:
  assumes "unat n < 2 ^ 31"
  shows "unat (hd_size (decode_blocks n blocks)) = length (hd_table (decode_blocks n blocks)) \<and>
    unat (hd_usage (decode_blocks n blocks))
      = weights header_size (map he_header (hd_table (decode_blocks n blocks))) \<and>
    hd_usage (decode_blocks n blocks) \<le> n \<and> hd_max (decode_blocks n blocks) \<le> n"
  using decode_blocks_inv [OF assms, of blocks] weights_headers [of "hd_table (decode_blocks n blocks)"]
  by (auto simp: dec_inv_def word_le_nat_alt)

theorem hpack_table_accounting_witness:
  "unat (hd_size (decode_blocks 4096 [[0x41, 1, 0x61], [0x82]])) =
   length (hd_table (decode_blocks 4096 [[0x41, 1, 0x61], [0x82]]))"
  using hpack_table_accounting [of 4096 "[[0x41, 1, 0x61], [0x82]]"] by simp

text \<open>Insertion. On any decoder that has processed header blocks, a header that fits the limit
  becomes the newest entry (index 62), the entries kept are the newest ones, as many as fit beside
  it and no fewer, and the table is within its limit. A header larger than the limit changes
  nothing.\<close>

theorem hpack_insert_evicts_oldest:
  assumes "unat n < 2 ^ 31" "d = decode_blocks n blocks"
    and "length (hp_name h) < 2 ^ 29" "length (hp_value h) < 2 ^ 29"
  shows "if unat (hd_max d) < header_size h then AddToDynamicTable d h = d
    else GetTableEntry (AddToDynamicTable d h) 62 = Some h \<and>
      (\<exists>k. map he_header (hd_table (AddToDynamicTable d h)) = h # take k (map he_header (hd_table d)) \<and>
        header_size h + weights header_size (take k (map he_header (hd_table d))) \<le> unat (hd_max d) \<and>
        (k < length (hd_table d) \<longrightarrow> unat (hd_max d)
           < header_size h + weights header_size (take (Suc k) (map he_header (hd_table d)))))"
proof (cases "unat (hd_max d) < header_size h")
  case True
  then show ?thesis using assms(3,4) by (simp add: AddToDynamicTable_big header_ok_def)
next
  case False
  have inv: "dec_inv (unat n) d" using decode_blocks_inv [OF assms(1)] assms(2) by simp
  have h: "header_ok h" using assms(3,4) by (simp add: header_ok_def)
  from AddToDynamicTable_fits [OF inv h] False obtain k where
    k: "hd_table (AddToDynamicTable d h)
        = \<lparr>he_header = h, he_size = of_nat (header_size h)\<rparr> # take k (hd_table d)"
    "header_size h + weights table_weight (take k (hd_table d)) \<le> unat (hd_max d)"
    "k < length (hd_table d) \<longrightarrow>
       unat (hd_max d) < header_size h + weights table_weight (take (Suc k) (hd_table d))"
    by (auto simp: not_less)
  have w: "weights table_weight (take j (hd_table d))
      = weights header_size (take j (map he_header (hd_table d)))" for j
    using inv weights_headers [of "take j (hd_table d)"]
    by (auto simp: dec_inv_def take_map dest: in_set_takeD)
  show ?thesis
    using False k GetTableEntry_newest [of "AddToDynamicTable d h"]
    by (auto simp: take_map [symmetric] simp flip: w)
qed

theorem hpack_insert_evicts_oldest_witness:
  "GetTableEntry (AddToDynamicTable (decode_blocks 4096 [])
      \<lparr>hp_name = ''a'', hp_value = ''b'', hp_sensitive = False\<rparr>) 62
   = Some \<lparr>hp_name = ''a'', hp_value = ''b'', hp_sensitive = False\<rparr>"
  using hpack_insert_evicts_oldest [of 4096 "decode_blocks 4096 []" "[]"
      "\<lparr>hp_name = ''a'', hp_value = ''b'', hp_sensitive = False\<rparr>"]
  by (simp add: decode_blocks_def new_decoder_def header_size_def)

text \<open>A size update evicts one entry only. When the table minus its oldest entry is still above
  the new limit, the update is reported as a success, the limit is lowered and the table stays above
  it.\<close>

theorem hpack_size_update_leaves_overfull_table:
  assumes "unat n < 2 ^ 31" "d = decode_blocks n blocks" "hd_table d \<noteq> []" "new_size \<le> hd_max d"
    and "unat new_size < weights header_size (map he_header (butlast (hd_table d)))"
  shows "IsSuccess (fst (UpdateDynamicTableSize d new_size)) \<and>
    hd_table (snd (UpdateDynamicTableSize d new_size)) = butlast (hd_table d) \<and>
    hd_max (snd (UpdateDynamicTableSize d new_size)) = new_size \<and>
    hd_usage (snd (UpdateDynamicTableSize d new_size)) > new_size"
proof -
  have inv: "dec_inv (unat n) d" using decode_blocks_inv [OF assms(1)] assms(2) by simp
  have upd: "UpdateDynamicTableSize d new_size = (Error_Success, EvictDynamicTable (d\<lparr>hd_max := new_size\<rparr>))"
    using assms(4) by (simp add: UpdateDynamicTableSize_def not_less [symmetric])
  have "dec_inv (unat n) (EvictDynamicTable (d\<lparr>hd_max := new_size\<rparr>))"
    using UpdateDynamicTableSize_inv [OF inv, of new_size] upd by simp
  then have "unat (hd_usage (EvictDynamicTable (d\<lparr>hd_max := new_size\<rparr>)))
      = weights header_size (map he_header (butlast (hd_table d)))"
    using assms(3) weights_headers [of "butlast (hd_table d)"]
    by (simp add: dec_inv_def EvictDynamicTable_def)
  then have "hd_usage (EvictDynamicTable (d\<lparr>hd_max := new_size\<rparr>)) > new_size"
    using assms(5) by (simp add: word_less_nat_alt)
  then show ?thesis
    using assms(3) upd by (simp add: EvictDynamicTable_def)
qed

theorem hpack_size_update_leaves_overfull_table_witness:
  "hd_usage (snd (UpdateDynamicTableSize
      (decode_blocks 4096 [[0x41, 1, 0x61, 0x41, 1, 0x62, 0x41, 1, 0x63]]) 40)) > 40"
proof -
  let ?d = "decode_blocks 4096 [[0x41, 1, 0x61, 0x41, 1, 0x62, 0x41, 1, 0x63]]"
  have "map he_header (hd_table ?d) =
      map (\<lambda>v. plain_header ('':authority'', v)) [''c'', ''b'', ''a'']" "hd_max ?d = 4096"
    by code_simp+
  then have "hd_table ?d \<noteq> []" "40 \<le> hd_max ?d"
      "unat (40 :: u32) < weights header_size (map he_header (butlast (hd_table ?d)))"
    by (auto simp: map_butlast plain_header_def header_size_def)
  from hpack_size_update_leaves_overfull_table [OF _ refl this] show ?thesis by simp
qed

text \<open>Indexed fields and indexed literals. With the index and the value encoded as RFC 7541
  prescribes, an indexed field yields the entry at that index of the static and dynamic tables, and
  a literal with an indexed name yields the name of that entry with the literal value, which is
  added to the dynamic table; both leave exactly the bytes that follow.\<close>

theorem hpack_decodes_indexed_fields:
  assumes "GetTableEntry d (of_nat i) = Some e" "i < 2 ^ 28" "length v < 2 ^ 28"
  shows "DecodeHeaderField d (encode_integer 7 0x80 i @ rest) = (Inr (e, rest), d) \<and>
    DecodeHeaderField d (encode_integer 6 0x40 i @ encode_string v @ rest)
      = (let h = \<lparr>hp_name = hp_name e, hp_value = v, hp_sensitive = False\<rparr>
         in (Inr (h, rest), AddToDynamicTable d h))"
proof
  obtain x tl where b: "encode_integer 7 0x80 i = (0x80 OR x) # tl"
    using first_byte [of "0x80" 7 i] by auto
  have "DecodeInteger 7 (encode_integer 7 0x80 i @ rest) = Inr (of_nat i, rest)"
    using DecodeInteger_encode [of "0x80" 7 i rest] assms(2) by simp
  then show "DecodeHeaderField d (encode_integer 7 0x80 i @ rest) = (Inr (e, rest), d)"
    unfolding b using assms(1) indexed_byte [of x] by (subst DecodeHeaderField.simps) simp
  obtain y tl' where c: "encode_integer 6 0x40 i = (0x40 OR y) # tl'" "y AND 0x3F = y"
    using first_byte [of "0x40" 6 i] by auto
  have "DecodeInteger 6 (encode_integer 6 0x40 i @ encode_string v @ rest)
      = Inr (of_nat i, encode_string v @ rest)"
    using DecodeInteger_encode [of "0x40" 6 i "encode_string v @ rest"] assms(2) by simp
  then show "DecodeHeaderField d (encode_integer 6 0x40 i @ encode_string v @ rest)
      = (let h = \<lparr>hp_name = hp_name e, hp_value = v, hp_sensitive = False\<rparr>
         in (Inr (h, rest), AddToDynamicTable d h))"
    unfolding c(1) using assms(1,3) literal_byte [OF c(2)] DecodeString_encode [of v rest]
    by (subst DecodeHeaderField.simps) (simp add: literal_value_def Let_def)
qed

theorem hpack_decodes_indexed_fields_witness:
  "fst (DecodeHeaderField (new_decoder 4096) [0x82, 0x99]) = Inr (plain_header ('':method'', ''GET''), [0x99])"
proof -
  have "GetTableEntry (new_decoder 4096) (of_nat 2) = Some (plain_header ('':method'', ''GET''))"
    by code_simp
  from hpack_decodes_indexed_fields [OF this, of "[]" "[0x99]"] show ?thesis
    by (simp add: encode_integer_def)
qed

text \<open>Literals with a new name are misread. RFC 7541 codes them as a byte (0x40, or 0x00 when the
  field is not indexed), the name, then the value. The code refuses the first form, because it looks
  up index 0; in the second it does not step over the byte, so the field it returns has an empty
  name and the name as its value, it is added to the table, and decoding goes on at the value.\<close>

theorem hpack_new_name_literals_misread:
  assumes "length nm < 2 ^ 28"
  shows "(\<exists>e. DecodeHeaderField d (0x40 # data) = (Inl e, d) \<and> \<not> IsSuccess e) \<and>
    DecodeHeaderField d (0x00 # encode_string nm @ encode_string v @ rest)
      = (let h = \<lparr>hp_name = [], hp_value = nm, hp_sensitive = False\<rparr>
         in (Inr (h, encode_string v @ rest), AddToDynamicTable d h))"
proof
  have "DecodeInteger 6 (0x40 # data) = Inr (0, data)"
    by (simp add: DecodeInteger_def Let_def)
  then show "\<exists>e. DecodeHeaderField d (0x40 # data) = (Inl e, d) \<and> \<not> IsSuccess e"
    by (subst DecodeHeaderField.simps) (simp add: GetTableEntry_def GetStaticTableEntry_def)
  have "DecodeString (0x00 # encode_string nm @ encode_string v @ rest)
      = Inr ([], encode_string nm @ encode_string v @ rest)"
    by (simp add: DecodeString_def DecodeInteger_def Let_def chars_of_def)
  then show "DecodeHeaderField d (0x00 # encode_string nm @ encode_string v @ rest)
      = (let h = \<lparr>hp_name = [], hp_value = nm, hp_sensitive = False\<rparr>
         in (Inr (h, encode_string v @ rest), AddToDynamicTable d h))"
    using DecodeString_encode [of nm "encode_string v @ rest"] assms
    by (subst DecodeHeaderField.simps) (simp add: literal_value_def Let_def)
qed

theorem hpack_new_name_literals_misread_witness:
  "fst (DecodeHeaderField (new_decoder 4096) (0x00 # encode_string ''x'' @ encode_string ''y'' @ []))
   = Inr (\<lparr>hp_name = [], hp_value = ''x'', hp_sensitive = False\<rparr>, encode_string ''y'')"
  using hpack_new_name_literals_misread [of "''x''" "new_decoder 4096" "[]" "''y''" "[]"]
  by (simp add: Let_def)

end
