(* ===== verification/HttpRequest.thy ===== *)
theory HttpRequest
  imports Chunked "HOL-Library.AList"
begin

text \<open>
  HTTP/1 request parsing: \<open>HttpRequest\<close> (include/http_request.h, src/http_request.cpp), which parses
  a buffer that holds a whole header block, and the incremental \<open>HttpParser\<close>
  (include/http_parser.h, src/http_parser.cpp).

  A header table is an association list with distinct keys, in the order of first insertion; no
  result depends on the order. \<open>istream >> word\<close> is modelled with the white space of the C locale:
  an extraction that finds no word leaves its variable as it was.
\<close>

type_synonym headers = "(string \<times> string) list"

abbreviation CR :: char where "CR \<equiv> CHR 0x0D"
abbreviation LF :: char where "LF \<equiv> CHR 0x0A"
abbreviation TAB :: char where "TAB \<equiv> CHR 0x09"

subsection \<open>Characters and strings\<close>

definition isspace :: "char \<Rightarrow> bool" where
  "isspace c \<longleftrightarrow> c \<in> {CHR '' '', TAB, LF, CHR 0x0B, CHR 0x0C, CR}"

definition tolower :: "char \<Rightarrow> char" where
  "tolower c = (let n = (of_char c :: nat) in if 65 \<le> n \<and> n \<le> 90 then char_of (n + 32) else c)"

definition blank :: "char \<Rightarrow> bool" where
  "blank c \<longleftrightarrow> c = CHR '' '' \<or> c = TAB"

text \<open>\<open>erase(0, find_first_not_of(" \t"))\<close> and \<open>erase(find_last_not_of(" \t") + 1)\<close>.\<close>

definition trim :: "string \<Rightarrow> string" where
  "trim s = rev (dropWhile blank (rev (dropWhile blank s)))"

text \<open>The next word of a stream, and what is left.\<close>

definition next_word :: "string \<Rightarrow> (string \<times> string) option" where
  "next_word s =
     (let s = dropWhile isspace s
      in if s = [] then None
         else Some (takeWhile (\<lambda>c. \<not> isspace c) s, dropWhile (\<lambda>c. \<not> isspace c) s))"

text \<open>\<open>iss >> a >> b >> c\<close>: success, and the three variables afterwards.\<close>

definition extract3 ::
  "string \<Rightarrow> string \<times> string \<times> string \<Rightarrow> bool \<times> string \<times> string \<times> string" where
  "extract3 line v =
     (case v of (a, b, c) \<Rightarrow>
        (case next_word line of
           None \<Rightarrow> (False, a, b, c)
         | Some (a, s) \<Rightarrow>
             (case next_word s of
                None \<Rightarrow> (False, a, b, c)
              | Some (b, s) \<Rightarrow>
                  (case next_word s of
                     None \<Rightarrow> (False, a, b, c)
                   | Some (c, s) \<Rightarrow> (True, a, b, c)))))"

definition isdigit :: "char \<Rightarrow> bool" where
  "isdigit c \<longleftrightarrow> 48 \<le> (of_char c :: nat) \<and> (of_char c :: nat) \<le> 57"

fun digits_value :: "nat \<Rightarrow> string \<Rightarrow> nat" where
  "digits_value acc [] = acc"
| "digits_value acc (c # cs) = digits_value (acc * 10 + (of_char c - 48)) cs"

text \<open>\<open>std::stoll\<close>: \<open>None\<close> where it throws, for no digits or a value out of range.\<close>

definition stoll :: "string \<Rightarrow> int option" where
  "stoll s =
     (let s = dropWhile isspace s;
          (neg, s) = (case s of c # cs \<Rightarrow> (if c = CHR ''-'' then (True, cs)
                                           else if c = CHR ''+'' then (False, cs) else (False, s))
                      | [] \<Rightarrow> (False, []));
          ds = takeWhile isdigit s;
          n = int (digits_value 0 ds);
          v = (if neg then - n else n)
      in if ds = [] \<or> v < - (2 ^ 63) \<or> v \<ge> 2 ^ 63 then None else Some v)"

subsection \<open>HttpRequest\<close>

record http_request =
  rq_path :: string
  rq_method :: string
  rq_version :: string
  rq_headers :: headers
  rq_finished :: bool

definition new_request :: http_request where
  "new_request = \<lparr>rq_path = [], rq_method = [], rq_version = [], rq_headers = [], rq_finished = False\<rparr>"

definition request_Reset :: "http_request \<Rightarrow> http_request" where
  "request_Reset r = r\<lparr>rq_path := [], rq_method := [], rq_version := [], rq_headers := [], rq_finished := False\<rparr>"

definition GetHeader :: "http_request \<Rightarrow> string \<Rightarrow> string" where
  "GetHeader r key = (case map_of (rq_headers r) key of None \<Rightarrow> [] | Some v \<Rightarrow> v)"

definition ParseRequestLine :: "http_request \<Rightarrow> string \<Rightarrow> bool \<times> http_request" where
  "ParseRequestLine r line =
     (case extract3 line (rq_method r, rq_path r, rq_version r) of
        (ok, method, path, version) \<Rightarrow>
          let r = r\<lparr>rq_method := method, rq_path := path, rq_version := version\<rparr>
          in if \<not> ok then (False, r)
             else (True, if path = [] \<or> path = ''/'' then r\<lparr>rq_path := ''/index.html''\<rparr> else r))"

definition ParseHeaderLine :: "http_request \<Rightarrow> string \<Rightarrow> bool \<times> http_request" where
  "ParseHeaderLine r line =
     (case find_char CHR '':'' line of
        None \<Rightarrow> (False, r)
      | Some colon_pos \<Rightarrow>
          let key = map tolower (trim (take colon_pos line));
              v = trim (drop (colon_pos + 1) line)
          in (True, r\<lparr>rq_headers := AList.update key v (rq_headers r)\<rparr>))"

definition strip_cr :: "string \<Rightarrow> string" where
  "strip_cr line = (if line \<noteq> [] \<and> last line = CR then butlast line else line)"

fun parse_header_lines :: "http_request \<Rightarrow> string list \<Rightarrow> bool \<times> http_request" where
  "parse_header_lines r [] = (True, r)"
| "parse_header_lines r (l # ls) =
     (let line = strip_cr l
      in if line = [] then (True, r)
         else case ParseHeaderLine r line of
                (ok, r) \<Rightarrow> if \<not> ok then (False, r) else parse_header_lines r ls)"

definition request_Parse :: "http_request \<Rightarrow> string \<Rightarrow> bool \<times> http_request" where
  "request_Parse r buffer =
     (case find_sub [CR, LF, CR, LF] buffer of
        None \<Rightarrow> (False, r)
      | Some header_end \<Rightarrow>
          (case getlines LF (take header_end buffer) of
             [] \<Rightarrow> (False, r)
           | l # ls \<Rightarrow>
               (case ParseRequestLine r (strip_cr l) of
                  (ok, r) \<Rightarrow>
                    if \<not> ok then (False, r)
                    else case parse_header_lines r ls of
                           (ok, r) \<Rightarrow> if \<not> ok then (False, r) else (True, r\<lparr>rq_finished := True\<rparr>))))"

definition GetContentLength :: "http_request \<Rightarrow> int" where
  "GetContentLength r =
     (case map_of (rq_headers r) ''content-length'' of
        None \<Rightarrow> - 1
      | Some v \<Rightarrow> (case stoll v of None \<Rightarrow> - 1 | Some n \<Rightarrow> n))"

definition IsKeepAlive :: "http_request \<Rightarrow> bool" where
  "IsKeepAlive r =
     (let connection = GetHeader r ''connection''
      in if rq_version r = ''HTTP/1.1''
         then connection = [] \<or> (connection \<noteq> ''close'' \<and> connection \<noteq> ''Close'')
         else if rq_version r = ''HTTP/1.0''
         then connection = ''keep-alive'' \<or> connection = ''Keep-Alive''
         else False)"

subsection \<open>HttpParser\<close>

datatype parse_state = PS_RequestLine | PS_Headers | PS_Done | PS_Error

record http_parser =
  hps_state :: parse_state
  hps_buffer :: string
  hps_method :: string
  hps_url :: string
  hps_version :: string
  hps_headers :: headers

definition new_parser :: http_parser where
  "new_parser = \<lparr>hps_state = PS_RequestLine, hps_buffer = [], hps_method = [], hps_url = [],
     hps_version = [], hps_headers = []\<rparr>"

definition parser_ParseRequestLine :: "http_parser \<Rightarrow> string \<Rightarrow> bool \<times> http_parser" where
  "parser_ParseRequestLine p line =
     (case extract3 line (hps_method p, hps_url p, hps_version p) of
        (ok, method, url, version) \<Rightarrow>
          let p = p\<lparr>hps_method := method, hps_url := url, hps_version := version\<rparr>
          in if \<not> ok then (False, p) else (True, p\<lparr>hps_state := PS_Headers\<rparr>))"

definition parser_ParseHeaderLine :: "http_parser \<Rightarrow> string \<Rightarrow> bool \<times> http_parser" where
  "parser_ParseHeaderLine p line =
     (case find_char CHR '':'' line of
        None \<Rightarrow> (False, p)
      | Some pos \<Rightarrow>
          (True, p\<lparr>hps_headers := AList.update (take pos line) (drop (pos + 1) line) (hps_headers p)\<rparr>))"

definition GetLine :: "http_parser \<Rightarrow> (string \<times> http_parser) option" where
  "GetLine p =
     (case find_sub [CR, LF] (hps_buffer p) of
        None \<Rightarrow> None
      | Some pos \<Rightarrow> Some (take pos (hps_buffer p), p\<lparr>hps_buffer := drop (pos + 2) (hps_buffer p)\<rparr>))"

lemma find_sub_Some: "find_sub p s = Some n \<Longrightarrow> n + length p \<le> length s"
proof (induction s arbitrary: n)
  case (Cons c cs)
  have pre: "is_prefix q t \<Longrightarrow> length q \<le> length t" for q t :: "'a list"
    by (induction q t rule: is_prefix.induct) auto
  show ?case using Cons pre [of p "c # cs"] by (auto split: if_splits)
qed (auto split: if_splits)

text \<open>What the loop does with one line.\<close>

definition parse_line :: "http_parser \<Rightarrow> string \<Rightarrow> http_parser" where
  "parse_line p line =
     (if hps_state p = PS_RequestLine
      then (case parser_ParseRequestLine p line of
              (ok, p) \<Rightarrow> if \<not> ok then p\<lparr>hps_state := PS_Error\<rparr> else p)
      else if hps_state p = PS_Headers
      then (if line = [] then p\<lparr>hps_state := PS_Done\<rparr>
            else case parser_ParseHeaderLine p line of
                   (ok, p) \<Rightarrow> if \<not> ok then p\<lparr>hps_state := PS_Error\<rparr> else p)
      else p)"

lemma parse_line_buffer [simp]: "hps_buffer (parse_line p line) = hps_buffer p"
  by (auto simp: parse_line_def parser_ParseRequestLine_def parser_ParseHeaderLine_def Let_def
      split: prod.split option.split)

lemma GetLine_shorter: "GetLine p = Some (line, p') \<Longrightarrow> length (hps_buffer p') < length (hps_buffer p)"
  by (auto simp: GetLine_def split: option.splits dest!: find_sub_Some)

function parse_lines :: "http_parser \<Rightarrow> bool \<times> http_parser" where
  "parse_lines p =
     (if hps_state p \<noteq> PS_Done \<and> hps_state p \<noteq> PS_Error
      then (case GetLine p of
              None \<Rightarrow> (False, p)
            | Some (line, p') \<Rightarrow> parse_lines (parse_line p' line))
      else (hps_state p = PS_Done, p))"
  by pat_completeness auto
termination
  by (relation "measure (\<lambda>p. length (hps_buffer p))") (auto dest: GetLine_shorter)

declare parse_lines.simps [simp del]

definition parser_Parse :: "http_parser \<Rightarrow> string \<Rightarrow> bool \<times> http_parser" where
  "parser_Parse p data = parse_lines (p\<lparr>hps_buffer := hps_buffer p @ data\<rparr>)"

definition parser_IsDone :: "http_parser \<Rightarrow> bool" where
  "parser_IsDone p \<longleftrightarrow> hps_state p = PS_Done"

subsection \<open>Finding and splitting\<close>

lemma is_prefix_append: "length p \<le> length s \<Longrightarrow> is_prefix p (s @ t) = is_prefix p s"
  by (induction p s rule: is_prefix.induct) auto

lemma find_sub_extend: "p \<noteq> [] \<Longrightarrow> find_sub p s = Some n \<Longrightarrow> find_sub p (s @ t) = Some n"
proof (induction s arbitrary: n)
  case (Cons c cs)
  have "length p \<le> length (c # cs)" using find_sub_Some [OF Cons.prems(2)] by simp
  then have "is_prefix p ((c # cs) @ t) = is_prefix p (c # cs)" by (rule is_prefix_append)
  then show ?case using Cons by (auto split: if_splits)
qed simp

lemma find_sub_skip:
  "x \<notin> set l \<Longrightarrow> find_sub (x # p) (l @ s) = map_option ((+) (length l)) (find_sub (x # p) s)"
proof (induction l)
  case Nil
  then show ?case by (cases "find_sub (x # p) s") auto
next
  case (Cons a l)
  then show ?case by (cases "find_sub (x # p) s") auto
qed

lemma getlines_line: "d \<notin> set a \<Longrightarrow> getlines d (a @ d # s) = a # getlines d s"
  by (induction a) auto

lemma getlines_last: "d \<notin> set a \<Longrightarrow> a \<noteq> [] \<Longrightarrow> getlines d a = [a]"
proof (induction a)
  case (Cons c a)
  then show ?case by (cases a) auto
qed simp

subsection \<open>HttpParser as a consumer of lines\<close>

definition line_step :: "http_parser \<Rightarrow> string \<Rightarrow> (http_parser, unit) unit_step" where
  "line_step p buf =
     (if hps_state p = PS_Done \<or> hps_state p = PS_Error then Wait
      else case find_sub [CR, LF] buf of
             None \<Rightarrow> Wait
           | Some pos \<Rightarrow> Taken (pos + 2) (parse_line p (take pos buf)))"

interpretation parser_lines: chunked_consumer line_step
proof unfold_locales
  fix p xs ys n p'
  assume t: "line_step p xs = Taken n p'"
  then obtain pos where pos: "find_sub [CR, LF] xs = Some pos" "n = pos + 2"
    "p' = parse_line p (take pos xs)" "hps_state p \<noteq> PS_Done" "hps_state p \<noteq> PS_Error"
    by (auto simp: line_step_def split: if_splits option.splits)
  have bound: "pos + 2 \<le> length xs" using find_sub_Some [OF pos(1)] by simp
  then show "0 < n \<and> n \<le> length xs" using pos(2) by simp
  show "line_step p (xs @ ys) = Taken n p'"
    using pos find_sub_extend [OF _ pos(1), of ys] bound by (simp add: line_step_def)
next
  show "line_step p xs = Failed e p' \<Longrightarrow> line_step p (xs @ ys) = Failed e p'" for p xs ys e p'
    by (auto simp: line_step_def split: if_splits option.splits)
qed

lemma parse_line_update:
  "parse_line (p\<lparr>hps_buffer := b\<rparr>) line = (parse_line p line)\<lparr>hps_buffer := b\<rparr>"
  by (auto simp: parse_line_def parser_ParseRequestLine_def parser_ParseHeaderLine_def Let_def
      split: prod.split option.split)

lemma parse_lines_consume:
  "parse_lines (p\<lparr>hps_buffer := xs\<rparr>) =
   (case consume line_step p xs of
      (e, p', rest) \<Rightarrow> (hps_state p' = PS_Done, p'\<lparr>hps_buffer := rest\<rparr>))"
proof (induction "length xs" arbitrary: p xs rule: less_induct)
  case less
  show ?case
  proof (cases "line_step p xs")
    case Wait
    then show ?thesis
      by (subst parse_lines.simps)
         (auto simp: parser_lines.consume_wait line_step_def GetLine_def split: if_splits option.splits)
  next
    case (Failed e p')
    then show ?thesis by (auto simp: line_step_def split: if_splits option.splits)
  next
    case (Taken n p')
    then have b: "0 < n" "n \<le> length xs" using parser_lines.taken_bounds by blast+
    have "parse_lines (p\<lparr>hps_buffer := xs\<rparr>) = parse_lines (p'\<lparr>hps_buffer := drop n xs\<rparr>)"
      using Taken by (subst parse_lines.simps)
        (auto simp: line_step_def GetLine_def parse_line_update split: if_splits option.splits)
    with Taken b less.hyps [of "drop n xs" p'] show ?thesis
      by (simp add: parser_lines.consume_taken)
  qed
qed

subsection \<open>Well-formed requests\<close>

definition render_request :: "string \<Rightarrow> string \<Rightarrow> string \<Rightarrow> headers \<Rightarrow> string" where
  "render_request method path version hs =
     method @ '' '' @ path @ '' '' @ version @ [CR, LF]
     @ concat (map (\<lambda>(k, v). k @ '': '' @ v @ [CR, LF]) hs) @ [CR, LF]"

definition token :: "string \<Rightarrow> bool" where
  "token t \<longleftrightarrow> t \<noteq> [] \<and> (\<forall>c \<in> set t. \<not> isspace c)"

definition field_ok :: "string \<times> string \<Rightarrow> bool" where
  "field_ok kv \<longleftrightarrow>
     CR \<notin> set (fst kv @ snd kv) \<and> LF \<notin> set (fst kv @ snd kv) \<and> CHR '':'' \<notin> set (fst kv) \<and>
     trim (fst kv) = fst kv \<and> trim (snd kv) = snd kv"

definition header_line :: "string \<times> string \<Rightarrow> string" where
  "header_line kv = fst kv @ '': '' @ snd kv"

definition set_header :: "string \<times> string \<Rightarrow> headers \<Rightarrow> headers" where
  "set_header kv h = AList.update (map tolower (fst kv)) (snd kv) h"

lemma next_word_token:
  assumes "token t" "s = [] \<or> isspace (hd s)"
  shows "next_word (t @ s) = Some (t, s)" "isspace c \<Longrightarrow> next_word (c # t @ s) = Some (t, s)"
proof -
  have d: "dropWhile isspace (t @ s) = t @ s" using assms(1) by (cases t) (auto simp: token_def)
  have t: "takeWhile (\<lambda>c. \<not> isspace c) (t @ s) = t" "dropWhile (\<lambda>c. \<not> isspace c) (t @ s) = s"
    using assms by (cases s; auto simp: token_def takeWhile_append2 dropWhile_append2)+
  show "next_word (t @ s) = Some (t, s)"
    using d t assms(1) by (simp add: next_word_def token_def)
  show "isspace c \<Longrightarrow> next_word (c # t @ s) = Some (t, s)"
    using d t assms(1) by (simp add: next_word_def token_def)
qed

lemma isspace_blank [simp]: "isspace CHR '' ''"
  by (simp add: isspace_def)

lemma extract3_line:
  "token a \<Longrightarrow> token b \<Longrightarrow> token c \<Longrightarrow> extract3 (a @ '' '' @ b @ '' '' @ c) v = (True, a, b, c)"
  using next_word_token(1) [of a "'' '' @ b @ '' '' @ c"] next_word_token(2) [of b "'' '' @ c" "CHR '' ''"]
    next_word_token(2) [of c "[]" "CHR '' ''"]
  by (cases v) (simp add: extract3_def)

lemma token_no_crlf: "token t \<Longrightarrow> CR \<notin> set t \<and> LF \<notin> set t"
  by (auto simp: token_def isspace_def)

lemma find_char_append: "x \<notin> set k \<Longrightarrow> find_char x (k @ x # s) = Some (length k)"
  by (induction k) auto

lemma ParseHeaderLine_field:
  assumes "field_ok kv"
  shows "ParseHeaderLine r (header_line kv) = (True, r\<lparr>rq_headers := set_header kv (rq_headers r)\<rparr>)"
proof -
  have "find_char CHR '':'' (header_line kv) = Some (length (fst kv))"
    using find_char_append [of "CHR '':''" "fst kv" "'' '' @ snd kv"] assms
    by (simp add: header_line_def field_ok_def)
  moreover have "trim (CHR '' '' # snd kv) = trim (snd kv)" by (simp add: trim_def blank_def)
  ultimately show ?thesis
    using assms by (simp add: ParseHeaderLine_def header_line_def field_ok_def set_header_def Let_def)
qed

text \<open>The header block of lines without CR and LF, and how it is found and split.\<close>

definition plain_line :: "string \<Rightarrow> bool" where
  "plain_line l \<longleftrightarrow> l \<noteq> [] \<and> CR \<notin> set l \<and> LF \<notin> set l"

definition block_tail :: "string list \<Rightarrow> string" where
  "block_tail ls = concat (map (\<lambda>l. CR # LF # l) ls)"

lemma find_block_end:
  "\<forall>l \<in> set ls. plain_line l \<Longrightarrow>
   find_sub [CR, LF, CR, LF] (block_tail ls @ [CR, LF, CR, LF] @ rest) = Some (length (block_tail ls))"
proof (induction ls)
  case (Cons l ls)
  let ?s = "block_tail ls @ [CR, LF, CR, LF] @ rest"
  have l: "plain_line l" using Cons.prems by simp
  then obtain c cs where c: "l = c # cs" "c \<noteq> CR" by (cases l) (auto simp: plain_line_def)
  have "find_sub [CR, LF, CR, LF] (l @ ?s) = Some (length l + length (block_tail ls))"
    using find_sub_skip [of CR l "[LF, CR, LF]" ?s] l Cons by (simp add: plain_line_def)
  then show ?case using c by (simp add: block_tail_def)
qed (simp add: block_tail_def)

lemma find_header_end:
  assumes "plain_line l0" "\<forall>l \<in> set ls. plain_line l"
  shows "find_sub [CR, LF, CR, LF] (l0 @ block_tail ls @ [CR, LF, CR, LF] @ rest)
    = Some (length (l0 @ block_tail ls))"
  using find_sub_skip [of CR l0 "[LF, CR, LF]" "block_tail ls @ [CR, LF, CR, LF] @ rest"]
    assms find_block_end [of ls rest] by (simp add: plain_line_def)

lemma strip_cr_plain [simp]: "plain_line l \<Longrightarrow> strip_cr l = l" "strip_cr (l @ [CR]) = l"
  unfolding strip_cr_def plain_line_def by (metis last_in_set, simp)

lemma block_lines:
  "plain_line l0 \<Longrightarrow> \<forall>l \<in> set ls. plain_line l \<Longrightarrow>
   map strip_cr (getlines LF (l0 @ block_tail ls)) = l0 # ls"
proof (induction ls arbitrary: l0)
  case Nil
  then show ?case
    using getlines_last [of LF l0] strip_cr_plain(1) [of l0] by (simp add: block_tail_def plain_line_def)
next
  case (Cons l ls)
  have "getlines LF (l0 @ block_tail (l # ls)) = (l0 @ [CR]) # getlines LF (l @ block_tail ls)"
    using getlines_line [of LF "l0 @ [CR]" "l @ block_tail ls"] Cons.prems
    by (simp add: block_tail_def plain_line_def)
  with Cons show ?case by simp
qed

lemma parse_header_lines_fields:
  "map strip_cr ls = map header_line hs \<Longrightarrow> \<forall>kv \<in> set hs. field_ok kv \<Longrightarrow>
   parse_header_lines r ls = (True, r\<lparr>rq_headers := fold set_header hs (rq_headers r)\<rparr>)"
proof (induction hs arbitrary: r ls)
  case (Cons kv hs)
  then obtain l ls' where ls: "ls = l # ls'" "strip_cr l = header_line kv"
    "map strip_cr ls' = map header_line hs" by auto
  have "header_line kv \<noteq> []" by (simp add: header_line_def)
  with Cons ls show ?case by (simp add: ParseHeaderLine_field)
qed simp

lemma plain_header_line: "field_ok kv \<Longrightarrow> plain_line (header_line kv)"
  by (auto simp: field_ok_def plain_line_def header_line_def)

lemma render_block:
  "render_request m p v hs @ rest =
   (m @ '' '' @ p @ '' '' @ v) @ block_tail (map header_line hs) @ [CR, LF, CR, LF] @ rest"
proof -
  have "[CR, LF] @ concat (map (\<lambda>(k, v). k @ '': '' @ v @ [CR, LF]) hs)
      = block_tail (map header_line hs) @ [CR, LF]"
    by (induction hs) (auto simp: block_tail_def header_line_def)
  then show ?thesis by (simp add: render_request_def)
qed

text \<open>A header block whose first line the parser accepts, whatever follows it.\<close>

lemma request_Parse_block:
  assumes "plain_line l0" "\<forall>kv \<in> set hs. field_ok kv" "ParseRequestLine r l0 = (True, r1)"
  shows "request_Parse r (l0 @ block_tail (map header_line hs) @ [CR, LF, CR, LF] @ rest)
    = (True, r1\<lparr>rq_headers := fold set_header hs (rq_headers r1), rq_finished := True\<rparr>)"
proof -
  let ?ls = "map header_line hs"
  have ls: "\<forall>l \<in> set ?ls. plain_line l" using assms(2) plain_header_line by auto
  obtain a as where lines: "getlines LF (l0 @ block_tail ?ls) = a # as" "strip_cr a = l0"
    "map strip_cr as = ?ls"
    using block_lines [OF assms(1) ls] by (cases "getlines LF (l0 @ block_tail ?ls)") auto
  show ?thesis
    unfolding request_Parse_def find_header_end [OF assms(1) ls]
    using lines assms(3) parse_header_lines_fields [OF lines(3) assms(2)] by simp
qed

lemma request_Parse_render:
  assumes "token m" "token p" "token v" "\<forall>kv \<in> set hs. field_ok kv"
  shows "request_Parse r (render_request m p v hs @ rest) =
    (True, r\<lparr>rq_method := m, rq_path := (if p = ''/'' then ''/index.html'' else p), rq_version := v,
       rq_headers := fold set_header hs (rq_headers r), rq_finished := True\<rparr>)"
    and "find_sub [CR, LF, CR, LF] (render_request m p v hs @ rest) = Some (length (render_request m p v hs) - 4)"
proof -
  let ?l0 = "m @ '' '' @ p @ '' '' @ v"
  have l0: "plain_line ?l0"
    using assms(1-3) token_no_crlf by (auto simp: plain_line_def token_def [of m])
  have "p \<noteq> []" using assms(2) by (simp add: token_def)
  then have "ParseRequestLine r ?l0 = (True, r\<lparr>rq_method := m,
      rq_path := (if p = ''/'' then ''/index.html'' else p), rq_version := v\<rparr>)"
    using extract3_line [OF assms(1-3)] by (simp add: ParseRequestLine_def Let_def)
  then show "request_Parse r (render_request m p v hs @ rest) =
    (True, r\<lparr>rq_method := m, rq_path := (if p = ''/'' then ''/index.html'' else p), rq_version := v,
       rq_headers := fold set_header hs (rq_headers r), rq_finished := True\<rparr>)"
    using request_Parse_block [of ?l0 hs r _ rest] l0 assms(4) unfolding render_block by simp
  have "length (render_request m p v hs) = length (?l0 @ block_tail (map header_line hs)) + 4"
    using arg_cong [OF render_block [of m p v hs "[]"], of length] by simp
  then show "find_sub [CR, LF, CR, LF] (render_request m p v hs @ rest) = Some (length (render_request m p v hs) - 4)"
    unfolding render_block using find_header_end [OF l0, of "map header_line hs" rest] assms(4) plain_header_line
    by simp
qed

subsection \<open>Properties\<close>



text \<open>C27: the incremental parser does not see how its input is cut. Feeding it two pieces one after the
  other leaves it in the same state, with the same fields and the same unread bytes, as feeding it
  their concatenation, and the answer is that of the last call.\<close>

theorem parser_input_cut_anywhere:
  "parser_Parse p (d @ d') = parser_Parse (snd (parser_Parse p d)) d'"
proof -
  obtain e p' rest where run: "consume line_step p (hps_buffer p @ d) = (e, p', rest)"
    by (metis prod_cases3)
  have none: "consume line_step q xs = (e', q', r') \<Longrightarrow> e' = None" for q xs e' q' r'
  proof (induction "length xs" arbitrary: q xs rule: less_induct)
    case less
    show ?case
    proof (cases "line_step q xs")
      case (Taken n t)
      with parser_lines.taken_bounds have "0 < n" "n \<le> length xs" by blast+
      with less.hyps [of "drop n xs" t] less.prems Taken show ?thesis
        by (simp add: parser_lines.consume_taken)
    qed (use less.prems in \<open>auto simp: parser_lines.consume_wait line_step_def
           split: if_splits option.splits\<close>)
  qed
  have "parser_Parse p d = (hps_state p' = PS_Done, p'\<lparr>hps_buffer := rest\<rparr>)"
    using parse_lines_consume [where p = p and xs = "hps_buffer p @ d"] run by (simp add: parser_Parse_def)
  moreover have "parser_Parse (p'\<lparr>hps_buffer := rest\<rparr>) d' =
      (case consume line_step p' (rest @ d') of (e, q, r) \<Rightarrow> (hps_state q = PS_Done, q\<lparr>hps_buffer := r\<rparr>))"
    using parse_lines_consume [where p = p' and xs = "rest @ d'"] by (simp add: parser_Parse_def)
  moreover have "consume line_step p (hps_buffer p @ d @ d') = consume line_step p' (rest @ d')"
    using parser_lines.consume_append [of p "hps_buffer p @ d" d'] run none [OF run] by simp
  ultimately show ?thesis
    using parse_lines_consume [where p = p and xs = "hps_buffer p @ d @ d'"] by (simp add: parser_Parse_def)
qed

end
