(* ===== verification/RequestValidator.thy ===== *)
theory RequestValidator
  imports HttpRequest WebError
begin

text \<open>
  Request validation (include/request_validator.h, src/request_validator.cpp): methods, paths and
  header sizes.

  \<open>std::filesystem::path\<close> of the C++ standard library is modelled for POSIX paths: whether a path
  starts at the root directory, and its components, with an empty last component for a trailing
  separator. \<open>lexically_normal\<close> removes dot components and pairs of a name and dot-dot, drops dot-dot
  at the root, and keeps a trailing separator except after dot-dot. The \<open>catch\<close> branch of
  \<open>IsPathWithinRoot\<close> cannot be taken: no operation it guards touches the file system.
\<close>

subsection \<open>Paths of the standard library\<close>

record fs_path =
  fp_rooted :: bool
  fp_comps :: "string list"

definition path_of :: "string \<Rightarrow> fs_path" where
  "path_of s =
     (let cs = filter (\<lambda>c. c \<noteq> []) (getlines CHR ''/'' s)
      in \<lparr>fp_rooted = (s \<noteq> [] \<and> hd s = CHR ''/''),
          fp_comps = (if cs \<noteq> [] \<and> last s = CHR ''/'' then cs @ [[]] else cs)\<rparr>)"

text \<open>One component: the names kept so far, and whether the last thing seen ends in a separator.\<close>

fun norm_step :: "bool \<Rightarrow> string \<Rightarrow> string list \<times> bool \<Rightarrow> string list \<times> bool" where
  "norm_step rooted c (st, dir) =
     (if c = [] \<or> c = ''.'' then (st, True)
      else if c = ''..''
      then (if st \<noteq> [] \<and> last st \<noteq> ''..'' then (butlast st, True)
            else if rooted then (st, True)
            else (st @ [''..''], False))
      else (st @ [c], False))"

definition lexically_normal :: "fs_path \<Rightarrow> fs_path" where
  "lexically_normal p =
     (if fp_comps p = [] then p
      else case fold (norm_step (fp_rooted p)) (fp_comps p) ([], False) of
             (st, dir) \<Rightarrow>
               \<lparr>fp_rooted = fp_rooted p,
                fp_comps =
                  (if st = [] then (if fp_rooted p then [] else [''.''])
                   else if dir \<and> last st \<noteq> ''..'' then st @ [[]] else st)\<rparr>)"

text \<open>\<open>p / q\<close> for a relative \<open>q\<close>; an absolute \<open>q\<close> replaces \<open>p\<close>.\<close>

definition path_append :: "fs_path \<Rightarrow> fs_path \<Rightarrow> fs_path" where
  "path_append p q =
     (if fp_rooted q then q
      else \<lparr>fp_rooted = fp_rooted p,
            fp_comps = (if fp_comps p \<noteq> [] \<and> last (fp_comps p) = [] then butlast (fp_comps p)
                        else fp_comps p) @ fp_comps q\<rparr>)"

text \<open>What iterating over a path yields.\<close>

definition path_elements :: "fs_path \<Rightarrow> string list" where
  "path_elements p = (if fp_rooted p then [''/''] else []) @ fp_comps p"

subsection \<open>The validator\<close>

record request_validator =
  rv_root_dir :: string
  rv_max_request_size :: nat
  rv_max_headers_size :: nat
  rv_allowed_methods :: "string list"

record validation_result =
  vr_valid :: bool
  vr_error :: error_obj
  vr_normalized_path :: string

definition new_validator :: "string \<Rightarrow> nat \<Rightarrow> nat \<Rightarrow> request_validator" where
  "new_validator root_dir max_request_size max_headers_size =
     \<lparr>rv_root_dir = root_dir, rv_max_request_size = max_request_size,
      rv_max_headers_size = max_headers_size,
      rv_allowed_methods = [''GET'', ''POST'', ''HEAD'', ''OPTIONS'']\<rparr>"

definition IsMethodAllowed :: "request_validator \<Rightarrow> string \<Rightarrow> bool" where
  "IsMethodAllowed v method \<longleftrightarrow> method \<in> set (rv_allowed_methods v)"

definition SetAllowedMethods :: "request_validator \<Rightarrow> string list \<Rightarrow> request_validator" where
  "SetAllowedMethods v methods = v\<lparr>rv_allowed_methods := methods\<rparr>"

definition SetRootDir :: "request_validator \<Rightarrow> string \<Rightarrow> request_validator" where
  "SetRootDir v root_dir = v\<lparr>rv_root_dir := root_dir\<rparr>"

definition cut_at :: "char \<Rightarrow> string \<Rightarrow> string" where
  "cut_at c s = (case find_char c s of None \<Rightarrow> s | Some n \<Rightarrow> take n s)"

text \<open>The loop over the parts of a path: the stack of names, \<open>None\<close> where it leaves the root.\<close>

fun path_parts :: "string list \<Rightarrow> string list \<Rightarrow> string list option" where
  "path_parts [] parts = Some parts"
| "path_parts (part # rest) parts =
     (if part = [] \<or> part = ''.'' then path_parts rest parts
      else if part = ''..''
      then (if parts \<noteq> [] then path_parts rest (butlast parts) else None)
      else path_parts rest (parts @ [part]))"

fun join_slash :: "string list \<Rightarrow> string" where
  "join_slash [] = []"
| "join_slash [p] = p"
| "join_slash (p # q # ps) = p @ CHR ''/'' # join_slash (q # ps)"

definition NormalizePath :: "string \<Rightarrow> string" where
  "NormalizePath path =
     (if path = [] then []
      else let clean_path = cut_at CHR ''#'' (cut_at CHR ''?'' path)
           in if clean_path = [] \<or> clean_path = ''/'' then ''.''
              else case path_parts (getlines CHR ''/'' clean_path) [] of
                     None \<Rightarrow> []
                   | Some parts \<Rightarrow> if parts = [] then ''.'' else join_slash parts)"

definition IsPathWithinRoot :: "request_validator \<Rightarrow> string \<Rightarrow> bool" where
  "IsPathWithinRoot v normalized_path =
     (let root_path = lexically_normal (path_of (rv_root_dir v));
          request_path = lexically_normal (path_append root_path (path_of normalized_path))
      in is_prefix (path_elements root_path) (path_elements request_path))"

definition valid_result :: "string \<Rightarrow> validation_result" where
  "valid_result path = \<lparr>vr_valid = True, vr_error = Error_Success, vr_normalized_path = path\<rparr>"

definition invalid_result :: "web_error \<Rightarrow> string \<Rightarrow> validation_result" where
  "invalid_result code message =
     \<lparr>vr_valid = False, vr_error = Error_of code message, vr_normalized_path = []\<rparr>"

definition ValidatePath :: "request_validator \<Rightarrow> string \<Rightarrow> validation_result" where
  "ValidatePath v path =
     (let normalized = NormalizePath path
      in if normalized = [] then invalid_result kInvalidPath (''Invalid path: '' @ path)
         else if \<not> IsPathWithinRoot v normalized
         then invalid_result kInvalidPath (''Path traversal attempt detected: '' @ path)
         else valid_result normalized)"

definition CalculateHeadersSize :: "headers \<Rightarrow> nat" where
  "CalculateHeadersSize hs = sum_list (map (\<lambda>(k, v). length k + length v + 4) hs) + 2"

definition ValidateHeaders :: "request_validator \<Rightarrow> headers \<Rightarrow> int \<Rightarrow> validation_result" where
  "ValidateHeaders v hs content_length =
     (let headers_size = CalculateHeadersSize hs
      in if headers_size > rv_max_headers_size v
         then invalid_result kRequestTooLarge
                (''HTTP headers too large: '' @ dec headers_size @ '' > '' @ dec (rv_max_headers_size v))
         else if content_length > 0 \<and> nat content_length > rv_max_request_size v
         then invalid_result kRequestTooLarge
                (''Request body too large: '' @ dec_int content_length @ '' > ''
                 @ dec (rv_max_request_size v))
         else valid_result [])"

definition ValidateRequest :: "request_validator \<Rightarrow> http_request \<Rightarrow> validation_result" where
  "ValidateRequest v r =
     (if \<not> IsMethodAllowed v (rq_method r)
      then invalid_result kUnsupportedMethod (''HTTP method not allowed: '' @ rq_method r)
      else let path_result = ValidatePath v (rq_path r)
           in if \<not> vr_valid path_result then path_result
              else let headers_result = ValidateHeaders v (rq_headers r) (GetContentLength r)
                   in if \<not> vr_valid headers_result then headers_result
                      else valid_result (vr_normalized_path path_result))"

lemma result_fields [simp]:
  "vr_valid (valid_result p)" "\<not> vr_valid (invalid_result c m)"
  "vr_normalized_path (valid_result p) = p" "err_code (vr_error (invalid_result c m)) = c"
  by (simp_all add: valid_result_def invalid_result_def)

subsection \<open>Ordinary names\<close>

definition ordinary :: "string \<Rightarrow> bool" where
  "ordinary p \<longleftrightarrow> p \<noteq> [] \<and> p \<noteq> ''.'' \<and> p \<noteq> ''..'' \<and> CHR ''/'' \<notin> set p"

lemma getlines_no_delim: "p \<in> set (getlines d s) \<Longrightarrow> d \<notin> set p"
  by (induction s arbitrary: p) (auto split: list.splits if_splits)

lemma path_parts_ordinary:
  "path_parts ps parts = Some qs \<Longrightarrow> \<forall>p \<in> set ps. CHR ''/'' \<notin> set p \<Longrightarrow>
   \<forall>p \<in> set parts. ordinary p \<Longrightarrow> \<forall>p \<in> set qs. ordinary p"
proof (induction ps parts rule: path_parts.induct)
  case (2 part rest parts)
  have "part = [] \<or> part = ''.'' \<or> part = ''..'' \<or> ordinary part"
    using "2.prems"(2) unfolding ordinary_def by fastforce
  then consider "part = [] \<or> part = ''.''" | "part = ''..''" | "ordinary part" by blast
  then show ?case
  proof cases
    case 1
    with 2 show ?thesis by auto
  next
    case 2
    with "2.prems" have "parts \<noteq> []" "path_parts rest (butlast parts) = Some qs"
      by (simp_all split: if_splits)
    moreover have "\<forall>p \<in> set (butlast parts). ordinary p"
      using "2.prems" by (simp add: in_set_butlastD)
    ultimately show ?thesis using "2.IH"(2) "2.prems" 2 by simp
  next
    case 3
    with "2.prems" have "path_parts rest (parts @ [part]) = Some qs"
      by (simp add: ordinary_def)
    moreover have "\<forall>p \<in> set (parts @ [part]). ordinary p"
      using "2.prems" 3 by simp
    ultimately show ?thesis using "2.IH"(3) "2.prems" 3 by (simp add: ordinary_def)
  qed
qed simp

lemma path_parts_all_ordinary: "\<forall>p \<in> set ps. ordinary p \<Longrightarrow> path_parts ps parts = Some (parts @ ps)"
  by (induction ps arbitrary: parts) (auto simp: ordinary_def)

lemma getlines_line_slash: "d \<notin> set a \<Longrightarrow> getlines d (a @ d # s) = a # getlines d s"
  by (rule getlines_line)

lemma getlines_join: "\<forall>p \<in> set ps. ordinary p \<Longrightarrow> getlines CHR ''/'' (join_slash ps) = ps"
proof (induction ps rule: join_slash.induct)
  case (2 p)
  then show ?case by (auto simp: ordinary_def intro: getlines_last)
next
  case (3 p q ps)
  then show ?case by (auto simp: ordinary_def getlines_line)
qed simp

lemma join_slash_last: "\<forall>p \<in> set ps. ordinary p \<Longrightarrow> ps \<noteq> [] \<Longrightarrow>
   join_slash ps \<noteq> [] \<and> last (join_slash ps) \<noteq> CHR ''/'' \<and> hd (join_slash ps) \<noteq> CHR ''/''"
proof (induction ps rule: join_slash.induct)
  case (2 p)
  then show ?case by (cases p) (auto simp: ordinary_def dest: last_in_set)
next
  case (3 p q ps)
  then show ?case by (cases p) (auto simp: ordinary_def)
qed simp

lemma path_of_join:
  "\<forall>p \<in> set ps. ordinary p \<Longrightarrow> ps \<noteq> [] \<Longrightarrow> path_of (join_slash ps) = \<lparr>fp_rooted = False, fp_comps = ps\<rparr>"
proof -
  assume ps: "\<forall>p \<in> set ps. ordinary p" "ps \<noteq> []"
  then have "filter (\<lambda>c. c \<noteq> []) ps = ps" by (auto simp: filter_id_conv ordinary_def)
  then show ?thesis
    using getlines_join [OF ps(1)] join_slash_last [OF ps] by (simp add: path_of_def Let_def)
qed

lemma norm_ordinary:
  "\<forall>p \<in> set ps. ordinary p \<Longrightarrow> ps \<noteq> [] \<Longrightarrow> fold (norm_step rooted) ps (st, dir) = (st @ ps, False)"
proof (induction ps arbitrary: st dir)
  case (Cons p ps)
  then show ?case by (cases "ps = []") (auto simp: ordinary_def)
qed simp


subsection \<open>Normalised request paths\<close>

lemma path_parts_subset: "path_parts ps parts = Some qs \<Longrightarrow> set qs \<subseteq> set ps \<union> set parts"
proof (induction ps parts rule: path_parts.induct)
  case (2 part rest parts)
  have "set (butlast parts) \<subseteq> set parts" by (auto dest: in_set_butlastD)
  with 2 show ?case by (fastforce split: if_splits)
qed simp

lemma getlines_chars: "p \<in> set (getlines d s) \<Longrightarrow> set p \<subseteq> set s"
  by (induction s arbitrary: p) (fastforce split: list.splits if_splits)+

lemma cut_at_chars: "set (cut_at c s) \<subseteq> set s"
  by (auto simp: cut_at_def split: option.splits dest: in_set_takeD)

lemma find_char_none: "find_char c s = None \<longleftrightarrow> c \<notin> set s"
  by (induction s) auto

lemma cut_at_id: "c \<notin> set s \<Longrightarrow> cut_at c s = s"
  using find_char_none [of c s] by (simp add: cut_at_def)

lemma take_find_char: "find_char c s = Some n \<Longrightarrow> c \<notin> set (take n s)"
proof (induction s arbitrary: n)
  case (Cons a s)
  then show ?case by (auto split: if_splits)
qed simp

lemma cut_at_none: "c \<notin> set (cut_at c s)"
  using find_char_none [of c s] take_find_char [of c s] by (auto simp: cut_at_def split: option.splits)

lemma join_slash_chars: "set (join_slash ps) \<subseteq> {CHR ''/''} \<union> \<Union> (set (map set ps))"
  by (induction ps rule: join_slash.induct) auto

lemma normalize_cases:
  obtains (bad) "NormalizePath path = []"
    | (here) "NormalizePath path = ''.''"
    | (inside) ps where "NormalizePath path = join_slash ps" "ps \<noteq> []" "\<forall>p \<in> set ps. ordinary p"
        "CHR ''?'' \<notin> set (join_slash ps)" "CHR ''#'' \<notin> set (join_slash ps)"
proof -
  let ?c = "cut_at CHR ''#'' (cut_at CHR ''?'' path)"
  have marks: "CHR ''?'' \<notin> set ?c" "CHR ''#'' \<notin> set ?c"
    using cut_at_none [of "CHR ''#''" "cut_at CHR ''?'' path"] cut_at_none [of "CHR ''?''" path]
      cut_at_chars [of "CHR ''#''" "cut_at CHR ''?'' path"] by auto
  consider "NormalizePath path = [] \<or> NormalizePath path = ''.''"
    | qs where "path_parts (getlines CHR ''/'' ?c) [] = Some qs" "qs \<noteq> []" "NormalizePath path = join_slash qs"
  proof (cases "path_parts (getlines CHR ''/'' ?c) []")
    case None
    then show ?thesis by (intro that(1)) (simp add: NormalizePath_def Let_def)
  next
    case (Some qs)
    then have "NormalizePath path = (if path = [] then [] else if ?c = [] \<or> ?c = ''/'' \<or> qs = []
        then ''.'' else join_slash qs)"
      by (simp add: NormalizePath_def Let_def)
    then show ?thesis using that Some by (metis)
  qed
  then show thesis
  proof cases
    case 1
    then show ?thesis using bad here by blast
  next
    case (2 qs)
    have "\<forall>p \<in> set qs. ordinary p"
      using path_parts_ordinary [OF 2(1)] getlines_no_delim [of _ "CHR ''/''" ?c] by simp
    moreover have "set q \<subseteq> set ?c" if "q \<in> set qs" for q
      using path_parts_subset [OF 2(1)] getlines_chars that by fastforce
    then have "set (join_slash qs) \<subseteq> {CHR ''/''} \<union> set ?c"
      using join_slash_chars [of qs] by fastforce
    ultimately show ?thesis using inside [of qs] 2 marks by auto
  qed
qed

lemma normalize_join:
  assumes "ps \<noteq> []" "\<forall>p \<in> set ps. ordinary p" "CHR ''?'' \<notin> set (join_slash ps)"
    "CHR ''#'' \<notin> set (join_slash ps)"
  shows "NormalizePath (join_slash ps) = join_slash ps"
  using join_slash_last [OF assms(2,1)] getlines_join [OF assms(2)] assms
    path_parts_all_ordinary [OF assms(2), of "[]"]
  by (auto simp: NormalizePath_def Let_def cut_at_id)

text \<open>\<open>NormalizePath\<close> gives the empty string, a dot, or ordinary names joined by slashes, so what it
  gives never climbs, is never absolute and has no query or fragment; and normalising it again
  changes nothing.\<close>
theorem normalized_path_is_confined:
  "(NormalizePath path = [] \<or> NormalizePath path = ''.'' \<or>
    (\<exists>ps. ps \<noteq> [] \<and> list_all ordinary ps \<and> NormalizePath path = join_slash ps \<and>
      CHR ''?'' \<notin> set (NormalizePath path) \<and> CHR ''#'' \<notin> set (NormalizePath path))) \<and>
   NormalizePath (NormalizePath path) = NormalizePath path"
proof
  show "NormalizePath path = [] \<or> NormalizePath path = ''.'' \<or>
   (\<exists>ps. ps \<noteq> [] \<and> list_all ordinary ps \<and> NormalizePath path = join_slash ps \<and>
      CHR ''?'' \<notin> set (NormalizePath path) \<and> CHR ''#'' \<notin> set (NormalizePath path))"
    by (cases rule: normalize_cases [of path]) (auto simp: list_all_iff)
  show "NormalizePath (NormalizePath path) = NormalizePath path"
  proof (cases rule: normalize_cases [of path])
    case bad
    then show ?thesis by (simp add: NormalizePath_def)
  next
    case here
    then show ?thesis by (simp add: NormalizePath_def cut_at_id)
  next
    case (inside ps)
    then show ?thesis using normalize_join by simp
  qed
qed

subsection \<open>Which paths are rejected\<close>

text \<open>How a part of a path changes the depth.\<close>

definition level :: "string \<Rightarrow> int" where
  "level p = (if p = [] \<or> p = ''.'' then 0 else if p = ''..'' then -1 else 1)"

lemma path_parts_none:
  "path_parts ps parts = None \<longleftrightarrow> (\<exists>k. int (length parts) + sum_list (map level (take k ps)) < 0)"
proof (induction ps parts rule: path_parts.induct)
  case (1 parts)
  then show ?case by simp
next
  case (2 part rest parts)
  have step: "(\<exists>k. int (length parts) + sum_list (map level (take k (part # rest))) < 0) \<longleftrightarrow>
    (\<exists>k. int (length parts) + level part + sum_list (map level (take k rest)) < 0)" (is "?L \<longleftrightarrow> ?R")
  proof
    assume ?L
    then obtain k where k: "int (length parts) + sum_list (map level (take k (part # rest))) < 0" by blast
    then obtain j where "k = Suc j" by (cases k) auto
    with k show ?R by (auto intro!: exI [of _ j])
  next
    assume ?R
    then obtain k where k: "int (length parts) + level part + sum_list (map level (take k rest)) < 0" by blast
    then show ?L by (intro exI [of _ "Suc k"]) simp
  qed
  consider "part = [] \<or> part = ''.''" | "part = ''..''" "parts = []" | "part = ''..''" "parts \<noteq> []"
    | "part \<noteq> []" "part \<noteq> ''.''" "part \<noteq> ''..''" by blast
  then show ?case
  proof cases
    case 1
    then have "level part = 0" by (auto simp: level_def)
    then show ?thesis using step 2(1) 1 by simp
  next
    case 2
    then have "\<exists>k. int (length parts) + level part + sum_list (map level (take k rest)) < 0"
      by (intro exI [of _ 0]) (simp add: level_def)
    then show ?thesis using step 2 by simp
  next
    case 3
    then have "int (length (butlast parts)) = int (length parts) + level part"
      by (cases parts rule: rev_cases) (simp_all add: level_def)
    then show ?thesis using step "2.IH"(2) 3 by simp
  next
    case 4
    then have "int (length (parts @ [part])) = int (length parts) + level part"
      by (simp add: level_def)
    then show ?thesis using step "2.IH"(3) 4 by (simp add: add.commute)
  qed
qed

text \<open>The path is rejected exactly when it is empty or some prefix of it, query and fragment cut
  off, has more steps up than names: no path that stays below the root is refused and no path that
  leaves it, even to come back, is taken.\<close>
theorem normalize_rejects_exactly_escapes:
  "NormalizePath path = [] \<longleftrightarrow>
   path = [] \<or>
   (\<exists>k. sum_list (map level (take k
      (getlines CHR ''/'' (cut_at CHR ''#'' (cut_at CHR ''?'' path))))) < 0)"
proof -
  let ?c = "cut_at CHR ''#'' (cut_at CHR ''?'' path)"
  have none: "path_parts (getlines CHR ''/'' ?c) [] = None \<longleftrightarrow>
    (\<exists>k. sum_list (map level (take k (getlines CHR ''/'' ?c))) < 0)"
    using path_parts_none [of _ "[]"] by simp
  have joined: "join_slash qs \<noteq> []" if "path_parts (getlines CHR ''/'' ?c) [] = Some qs" "qs \<noteq> []" for qs
    using path_parts_ordinary [OF that(1)] getlines_no_delim [of _ "CHR ''/''" ?c]
      join_slash_last [of qs] that(2) by simp
  have root: "path_parts (getlines CHR ''/'' ?c) [] = Some []" if "?c = [] \<or> ?c = ''/''"
    using that by auto
  show ?thesis
  proof (cases "path_parts (getlines CHR ''/'' ?c) []")
    case None
    then have "?c \<noteq> []" "?c \<noteq> ''/''" using root by auto
    then show ?thesis using None none by (simp add: NormalizePath_def Let_def)
  next
    case (Some qs)
    then show ?thesis using none joined [OF Some]
      by (auto simp: NormalizePath_def Let_def)
  qed
qed

subsection \<open>Paths within the root directory\<close>

text \<open>The names kept by normalisation: dot-dots, none under a root directory, then names.\<close>

definition kept :: "bool \<Rightarrow> string list \<Rightarrow> bool" where
  "kept rooted st \<longleftrightarrow> (\<exists>n ps. st = replicate n ''..'' @ ps \<and> (\<forall>p \<in> set ps. ordinary p) \<and> (rooted \<longrightarrow> n = 0))"

lemma keptI:
  "\<forall>p \<in> set ps. ordinary p \<Longrightarrow> (rooted \<Longrightarrow> n = 0) \<Longrightarrow> kept rooted (replicate n ''..'' @ ps)"
  by (auto simp: kept_def)

lemma kept_last: "kept rooted (st @ [c]) \<Longrightarrow> kept rooted st \<and>
   (c = ''..'' \<longrightarrow> \<not> rooted \<and> (st = [] \<or> last st = ''..'')) \<and> (c \<noteq> ''..'' \<longrightarrow> ordinary c)"
proof -
  assume "kept rooted (st @ [c])"
  then obtain n ps where k: "st @ [c] = replicate n ''..'' @ ps" "\<forall>p \<in> set ps. ordinary p" "rooted \<longrightarrow> n = 0"
    by (auto simp: kept_def)
  show ?thesis
  proof (cases ps rule: rev_cases)
    case Nil
    then obtain j where j: "n = Suc j" using k(1) by (cases n) auto
    then have "st @ [c] = replicate j ''..'' @ [''..'']"
      using k(1) Nil by (simp add: replicate_append_same)
    then have "st = replicate j ''..''" "c = ''..''" by simp_all
    moreover have "\<not> rooted" using j k(3) by auto
    moreover have "kept rooted (replicate j ''..'')" using keptI [of "[]" rooted j] \<open>\<not> rooted\<close> by simp
    moreover have "replicate j ''..'' = [] \<or> last (replicate j ''..'') = ''..''" by (cases j) simp_all
    ultimately show ?thesis by simp
  next
    case (snoc qs q)
    then have "st = replicate n ''..'' @ qs" "c = q" using k(1) by simp_all
    moreover have "ordinary q" "\<forall>p \<in> set qs. ordinary p" using k(2) snoc by simp_all
    moreover have "kept rooted (replicate n ''..'' @ qs)" using calculation k(3) by (intro keptI) auto
    moreover have "q \<noteq> ''..''" using \<open>ordinary q\<close> by (simp add: ordinary_def)
    ultimately show ?thesis by simp
  qed
qed

lemma kept_name: "kept rooted st \<Longrightarrow> ordinary c \<Longrightarrow> kept rooted (st @ [c])"
proof -
  assume "kept rooted st" and c: "ordinary c"
  then obtain n ps where "st = replicate n ''..'' @ ps" "\<forall>p \<in> set ps. ordinary p" "rooted \<longrightarrow> n = 0"
    by (auto simp: kept_def)
  then show ?thesis using keptI [of "ps @ [c]" rooted n] c by simp
qed

lemma kept_up: "kept False st \<Longrightarrow> st = [] \<or> last st = ''..'' \<Longrightarrow> kept False (st @ [''..''])"
proof -
  assume "kept False st" and up: "st = [] \<or> last st = ''..''"
  then obtain n ps where k: "st = replicate n ''..'' @ ps" "\<forall>p \<in> set ps. ordinary p"
    by (auto simp: kept_def)
  have "ps = []"
    using up k by (cases ps rule: rev_cases) (auto simp: ordinary_def)
  then show ?thesis using k keptI [of "[]" False "Suc n"] by (simp add: replicate_append_same)
qed

lemma norm_step_kept:
  "kept rooted st \<Longrightarrow> CHR ''/'' \<notin> set c \<Longrightarrow> kept rooted (fst (norm_step rooted c (st, dir)))"
proof -
  assume st: "kept rooted st" and c: "CHR ''/'' \<notin> set c"
  consider "c = [] \<or> c = ''.''" | "c = ''..''" "st \<noteq> []" "last st \<noteq> ''..''"
    | "c = ''..''" "st = [] \<or> last st = ''..''" | "ordinary c"
    using c by (auto simp: ordinary_def)
  then show ?thesis
  proof cases
    case 1
    then show ?thesis using st by auto
  next
    case 2
    then show ?thesis using kept_last [of rooted "butlast st" "last st"] st by simp
  next
    case 3
    then show ?thesis using st kept_up [of st] by (cases rooted) auto
  next
    case 4
    then show ?thesis using kept_name [OF st] by (simp add: ordinary_def)
  qed
qed

lemma norm_fold_kept:
  "\<forall>c \<in> set cs. CHR ''/'' \<notin> set c \<Longrightarrow> kept rooted st \<Longrightarrow>
   kept rooted (fst (fold (norm_step rooted) cs (st, dir)))"
proof (induction cs arbitrary: st dir)
  case (Cons c cs)
  then show ?case
    using norm_step_kept [of rooted st c dir] by (cases "norm_step rooted c (st, dir)") simp
qed simp

lemma norm_kept: "kept rooted st \<Longrightarrow> fst (fold (norm_step rooted) st ([], dir)) = st"
proof (induction st rule: rev_induct)
  case (snoc c st)
  obtain d where d: "fold (norm_step rooted) st ([], dir) = (st, d)"
    using snoc kept_last by (metis prod.collapse)
  show ?case using kept_last [OF snoc.prems] d by (cases "c = ''..''") (auto simp: ordinary_def)
qed simp

text \<open>The normal form of a root directory: what is kept, a dot, or what is kept with a separator.\<close>

lemma normal_root:
  obtains st where "kept (fp_rooted (path_of s)) st"
    "fp_comps (lexically_normal (path_of s)) = st \<or>
     (st = [] \<and> \<not> fp_rooted (path_of s) \<and> fp_comps (lexically_normal (path_of s)) = [''.'']) \<or>
     (st \<noteq> [] \<and> last st \<noteq> ''..'' \<and> fp_comps (lexically_normal (path_of s)) = st @ [[]])"
    "fp_rooted (lexically_normal (path_of s)) = fp_rooted (path_of s)"
proof -
  let ?p = "path_of s"
  have comps: "\<forall>c \<in> set (fp_comps ?p). CHR ''/'' \<notin> set c"
    using getlines_no_delim [of _ "CHR ''/''" s] by (auto simp: path_of_def Let_def)
  have none: "kept (fp_rooted ?p) []" using keptI [of "[]" "fp_rooted ?p" 0] by simp
  obtain st dir where st: "fold (norm_step (fp_rooted ?p)) (fp_comps ?p) ([], False) = (st, dir)"
    by fastforce
  then have kst: "kept (fp_rooted ?p) st"
    using norm_fold_kept [OF comps none, of False] by simp
  show thesis
  proof (cases "fp_comps ?p = []")
    case True
    then show ?thesis using that [OF none] by (simp add: lexically_normal_def)
  next
    case False
    then show ?thesis using that [OF kst] st by (auto simp: lexically_normal_def)
  qed
qed

lemma kept_last_name: "kept rooted st \<Longrightarrow> st \<noteq> [] \<Longrightarrow> last st \<noteq> [] \<and> last st \<noteq> ''.''"
  using kept_last [of rooted "butlast st" "last st"] by (auto simp: ordinary_def)

lemma is_prefix_self: "is_prefix xs (xs @ ys)"
  by (induction xs) auto

lemma is_prefix_drop: "is_prefix (xs @ ys) (xs @ zs) = is_prefix ys zs"
  by (induction xs) auto

lemma root_append:
  assumes st: "kept (fp_rooted root) st"
    and comps: "fp_comps root = st \<or> (st = [] \<and> fp_comps root = [''.'']) \<or> fp_comps root = st @ [[]]"
    and q: "\<not> fp_rooted q" "fp_comps q \<noteq> []"
  obtains d where "fp_rooted (path_append root q) = fp_rooted root" "fp_comps (path_append root q) \<noteq> []"
    "fold (norm_step (fp_rooted root)) (fp_comps (path_append root q)) ([], False) =
     fold (norm_step (fp_rooted root)) (fp_comps q) (st, d)"
proof -
  obtain d where d: "fold (norm_step (fp_rooted root)) st ([], False) = (st, d)"
    using norm_kept [OF st, of False] by (metis prod.collapse)
  consider "fp_comps root = st" | "st = []" "fp_comps root = [''.'']" | "fp_comps root = st @ [[]]"
    using comps by blast
  then show thesis
  proof cases
    case 1
    then have "fp_comps (path_append root q) = st @ fp_comps q"
      using q kept_last_name [OF st] by (auto simp: path_append_def)
    then show ?thesis using that [of d] d q by (simp add: path_append_def)
  next
    case 2
    then show ?thesis using that [of True] q by (simp add: path_append_def)
  next
    case 3
    then have "fp_comps (path_append root q) = st @ fp_comps q"
      using q by (simp add: path_append_def)
    then show ?thesis using that [of d] d q by (simp add: path_append_def)
  qed
qed

lemma path_of_dot: "path_of ''.'' = \<lparr>fp_rooted = False, fp_comps = [''.'']\<rparr>"
  by (simp add: path_of_def)

lemma normal_rooted: "fp_rooted (lexically_normal p) = fp_rooted p"
  by (simp add: lexically_normal_def split: prod.split)

lemma normal_comps:
  "fp_comps p \<noteq> [] \<Longrightarrow> fold (norm_step (fp_rooted p)) (fp_comps p) ([], False) = (st, dir) \<Longrightarrow>
   fp_comps (lexically_normal p) =
     (if st = [] then (if fp_rooted p then [] else [''.''])
      else if dir \<and> last st \<noteq> ''..'' then st @ [[]] else st)"
  by (simp add: lexically_normal_def)

lemma within_root:
  fixes v :: request_validator
  assumes q: "q = ''.'' \<or> (\<exists>ps. ps \<noteq> [] \<and> (\<forall>p \<in> set ps. ordinary p) \<and> q = join_slash ps)"
  defines "comps \<equiv> fp_comps (lexically_normal (path_of (rv_root_dir v)))"
  shows "IsPathWithinRoot v q \<longleftrightarrow> q = ''.'' \<or> comps = [] \<or> (last comps \<noteq> [] \<and> last comps \<noteq> ''.'')"
proof -
  define root where "root = lexically_normal (path_of (rv_root_dir v))"
  have comps: "comps = fp_comps root" by (simp add: comps_def root_def)
  obtain st where st: "kept (fp_rooted root) st"
    and cs: "comps = st \<or> (st = [] \<and> \<not> fp_rooted root \<and> comps = [''.'']) \<or>
     (st \<noteq> [] \<and> last st \<noteq> ''..'' \<and> comps = st @ [[]])"
    using normal_root [of "rv_root_dir v"] unfolding comps root_def by metis
  have rel: "\<not> fp_rooted (path_of q)" "fp_comps (path_of q) \<noteq> []"
    using q path_of_join by (auto simp: path_of_dot)
  obtain d where d: "fp_rooted (path_append root (path_of q)) = fp_rooted root"
    "fp_comps (path_append root (path_of q)) \<noteq> []"
    "fold (norm_step (fp_rooted root)) (fp_comps (path_append root (path_of q))) ([], False) =
     fold (norm_step (fp_rooted root)) (fp_comps (path_of q)) (st, d)"
    using root_append [OF st _ rel] cs unfolding comps by blast
  have within: "IsPathWithinRoot v q \<longleftrightarrow>
      is_prefix comps (fp_comps (lexically_normal (path_append root (path_of q))))"
    using d(1) by (simp add: IsPathWithinRoot_def Let_def path_elements_def comps normal_rooted
        flip: root_def)
  show ?thesis
  proof (cases "q = ''.''")
    case True
    then have "fold (norm_step (fp_rooted root)) (fp_comps (path_of q)) (st, d) = (st, True)"
      by (simp add: path_of_dot)
    then have "fp_comps (lexically_normal (path_append root (path_of q))) =
        (if st = [] then (if fp_rooted root then [] else [''.''])
         else if last st \<noteq> ''..'' then st @ [[]] else st)"
      using normal_comps [of "path_append root (path_of q)" st True] d by simp
    then show ?thesis using within cs True is_prefix_self [of st "[]"] is_prefix_self [of st "[[]]"]
        is_prefix_self [of "st @ [[]]" "[]"] by auto
  next
    case False
    then obtain ps where ps: "ps \<noteq> []" "\<forall>p \<in> set ps. ordinary p" "q = join_slash ps" using q by blast
    then have "fold (norm_step (fp_rooted root)) (fp_comps (path_of q)) (st, d) = (st @ ps, False)"
      using norm_ordinary path_of_join by simp
    then have "fp_comps (lexically_normal (path_append root (path_of q))) = st @ ps"
      using normal_comps [of "path_append root (path_of q)" "st @ ps" False] d ps(1) by simp
    moreover have "hd ps \<noteq> []" "hd ps \<noteq> ''.''" using ps(1,2) by (auto simp: ordinary_def)
    moreover have "st = [] \<or> (last st \<noteq> [] \<and> last st \<noteq> ''.'')" using kept_last_name [OF st] by blast
    ultimately show ?thesis
      using within False cs is_prefix_self [of st ps] is_prefix_drop [of st "[[]]" ps] ps(1)
      by (cases ps) auto
  qed
qed

text \<open>C15: a path is valid exactly when its normal form is not empty and either it names the root
  itself or the root directory, normalised, does not end in a separator and is not a dot; the result
  carries the normal form. So with a root such as ./public every path below the root is taken and
  nothing else, and with ./public/ or a dot every file is refused.\<close>
theorem path_valid_iff:
  "vr_valid (ValidatePath v path) \<longleftrightarrow>
     NormalizePath path \<noteq> [] \<and>
     (NormalizePath path = ''.'' \<or>
      (let root = fp_comps (lexically_normal (path_of (rv_root_dir v)))
       in root = [] \<or> (last root \<noteq> [] \<and> last root \<noteq> ''.'')))"
proof (cases "NormalizePath path = []")
  case True
  then show ?thesis by (simp add: ValidatePath_def)
next
  case False
  then have "NormalizePath path = ''.'' \<or>
      (\<exists>ps. ps \<noteq> [] \<and> (\<forall>p \<in> set ps. ordinary p) \<and> NormalizePath path = join_slash ps)"
    by (cases rule: normalize_cases [of path]) auto
  from within_root [OF this, of v] False show ?thesis
    by (simp add: ValidatePath_def Let_def)
qed

subsection \<open>The whole validation\<close>

lemma ValidatePath_result:
  "vr_valid (ValidatePath v p) \<Longrightarrow> vr_normalized_path (ValidatePath v p) = NormalizePath p"
  "\<not> vr_valid (ValidatePath v p) \<Longrightarrow> err_code (vr_error (ValidatePath v p)) = kInvalidPath"
  unfolding ValidatePath_def Let_def invalid_result_def valid_result_def
  by (auto split: if_splits)

lemma ValidateHeaders_result:
  "vr_valid (ValidateHeaders v hs n) \<longleftrightarrow>
     CalculateHeadersSize hs \<le> rv_max_headers_size v \<and> n \<le> int (rv_max_request_size v)"
  "\<not> vr_valid (ValidateHeaders v hs n) \<Longrightarrow> err_code (vr_error (ValidateHeaders v hs n)) = kRequestTooLarge"
  by (auto simp: ValidateHeaders_def Let_def)

text \<open>What the verdict on a request means. It is valid exactly when the method is in the set,
  the path is valid, and the headers and the announced body fit their limits; the first of these that
  fails decides the error, in the order method, path, sizes; and a valid result carries the normalised
  path.\<close>
theorem validate_request_verdict:
  "(vr_valid (ValidateRequest v r) \<longleftrightarrow>
      IsMethodAllowed v (rq_method r) \<and> vr_valid (ValidatePath v (rq_path r)) \<and>
      CalculateHeadersSize (rq_headers r) \<le> rv_max_headers_size v \<and>
      GetContentLength r \<le> int (rv_max_request_size v)) \<and>
   vr_normalized_path (ValidateRequest v r) =
     (if vr_valid (ValidateRequest v r) then NormalizePath (rq_path r) else []) \<and>
   err_code (vr_error (ValidateRequest v r)) =
     (if \<not> IsMethodAllowed v (rq_method r) then kUnsupportedMethod
      else if \<not> vr_valid (ValidatePath v (rq_path r)) then kInvalidPath
      else if \<not> vr_valid (ValidateRequest v r) then kRequestTooLarge
      else kSuccess)"
proof -
  have path: "\<not> vr_valid (ValidatePath v p) \<Longrightarrow> vr_normalized_path (ValidatePath v p) = []" for p
    by (auto simp: ValidatePath_def Let_def invalid_result_def valid_result_def split: if_splits)
  have headers: "\<not> vr_valid (ValidateHeaders v hs n) \<Longrightarrow> vr_normalized_path (ValidateHeaders v hs n) = []"
    for hs n
    by (auto simp: ValidateHeaders_def Let_def invalid_result_def valid_result_def split: if_splits)
  show ?thesis
    using path headers ValidatePath_result [of v "rq_path r"]
      ValidateHeaders_result [of v "rq_headers r" "GetContentLength r"]
    by (auto simp: ValidateRequest_def Let_def valid_result_def invalid_result_def Error_Success_def)
qed

end
