(* ===== verification/BatchIO.thy ===== *)
theory BatchIO
  imports Prelude
begin

text \<open>
  The grouping of epoll events (include/reactor/batch_io_handler.h, reactor/batch_io_handler.cpp):
  the events one \<open>epoll_wait\<close> returned are sorted into readable, writable and failed descriptors, and
  the callbacks are called group by group.

  A callback is a function on the state it works on, \<open>None\<close> where it is undefined; one that throws is a
  function to the state it leaves, because the handler catches and only logs. An empty
  \<open>std::function\<close> is no function.
\<close>

unbundle bit_operations_syntax

abbreviation EPOLLIN :: "32 word" where "EPOLLIN \<equiv> 0x1"
abbreviation EPOLLPRI :: "32 word" where "EPOLLPRI \<equiv> 0x2"
abbreviation EPOLLOUT :: "32 word" where "EPOLLOUT \<equiv> 0x4"
abbreviation EPOLLERR :: "32 word" where "EPOLLERR \<equiv> 0x8"
abbreviation EPOLLHUP :: "32 word" where "EPOLLHUP \<equiv> 0x10"
abbreviation EPOLLRDHUP :: "32 word" where "EPOLLRDHUP \<equiv> 0x2000"
abbreviation EPOLLET :: "32 word" where "EPOLLET \<equiv> 0x80000000"

record epoll_event =
  ev_fd :: int
  ev_events :: "32 word"

record batch_result =
  br_total :: nat
  br_read :: nat
  br_write :: nat
  br_error :: nat

definition IsReadable :: "32 word \<Rightarrow> bool" where
  "IsReadable events \<longleftrightarrow> events AND (EPOLLIN OR EPOLLPRI) \<noteq> 0"

definition IsWritable :: "32 word \<Rightarrow> bool" where
  "IsWritable events \<longleftrightarrow> events AND EPOLLOUT \<noteq> 0"

definition IsError :: "32 word \<Rightarrow> bool" where
  "IsError events \<longleftrightarrow> events AND (EPOLLERR OR EPOLLHUP OR EPOLLRDHUP) \<noteq> 0"

fun group_loop :: "epoll_event list \<Rightarrow> int list \<times> int list \<times> int list \<Rightarrow> int list \<times> int list \<times> int list" where
  "group_loop [] groups = groups"
| "group_loop (e # es) (readable, writable, errors) =
     (let fd = ev_fd e; revents = ev_events e
      in if IsError revents then group_loop es (readable, writable, errors @ [fd])
         else if IsReadable revents then group_loop es (readable @ [fd], writable, errors)
         else if IsWritable revents then group_loop es (readable, writable @ [fd], errors)
         else group_loop es (readable, writable, errors @ [fd]))"

definition remove_duplicates :: "int list \<Rightarrow> int list" where
  "remove_duplicates v = remdups_adj (sort v)"

definition GroupEvents :: "epoll_event list \<Rightarrow> int list \<times> int list \<times> int list" where
  "GroupEvents events =
     (let (readable, writable, errors) = group_loop events ([], [], []);
          readable = remove_duplicates readable;
          writable = remove_duplicates writable;
          errors = remove_duplicates errors
      in (filter (\<lambda>fd. fd \<notin> set errors) readable, filter (\<lambda>fd. fd \<notin> set errors) writable, errors))"

fun batch_calls :: "(int \<Rightarrow> 's \<Rightarrow> 's option) \<Rightarrow> int list \<Rightarrow> 's \<Rightarrow> 's option" where
  "batch_calls callback [] s = Some s"
| "batch_calls callback (fd # fds) s =
     (case callback fd s of None \<Rightarrow> None | Some s \<Rightarrow> batch_calls callback fds s)"

text \<open>One group: nothing is called, and nothing counted, without descriptors or without a callback.\<close>

definition batch_group ::
  "(int \<Rightarrow> 's \<Rightarrow> 's option) option \<Rightarrow> int list \<Rightarrow> 's \<Rightarrow> (nat \<times> 's) option" where
  "batch_group callback fds s =
     (if fds = [] then Some (0, s)
      else case callback of
             None \<Rightarrow> Some (0, s)
           | Some f \<Rightarrow> map_option (\<lambda>s. (length fds, s)) (batch_calls f fds s))"

definition ProcessBatch ::
  "epoll_event list \<Rightarrow> (int \<Rightarrow> 's \<Rightarrow> 's option) option \<Rightarrow> (int \<Rightarrow> 's \<Rightarrow> 's option) option \<Rightarrow>
   (int \<Rightarrow> 's \<Rightarrow> 's option) option \<Rightarrow> 's \<Rightarrow> (batch_result \<times> 's) option" where
  "ProcessBatch events read_callback write_callback error_callback s =
     (if events = [] then Some (\<lparr>br_total = 0, br_read = 0, br_write = 0, br_error = 0\<rparr>, s)
      else let (readable, writable, errors) = GroupEvents events
           in case batch_group read_callback readable s of
                None \<Rightarrow> None
              | Some (r, s) \<Rightarrow>
                  (case batch_group write_callback writable s of
                     None \<Rightarrow> None
                   | Some (w, s) \<Rightarrow>
                       (case batch_group error_callback errors s of
                          None \<Rightarrow> None
                        | Some (e, s) \<Rightarrow>
                            Some (\<lparr>br_total = length events, br_read = r, br_write = w, br_error = e\<rparr>, s))))"

subsection \<open>What callbacks keep, a batch keeps\<close>

definition keeps :: "('s \<Rightarrow> bool) \<Rightarrow> ('s \<Rightarrow> 's option) \<Rightarrow> bool" where
  "keeps P f \<longleftrightarrow> (\<forall>s. P s \<longrightarrow> (\<exists>s'. f s = Some s' \<and> P s'))"

lemma keepsD: "keeps P f \<Longrightarrow> P s \<Longrightarrow> \<exists>s'. f s = Some s' \<and> P s'"
  by (simp add: keeps_def)

lemma batch_calls_keeps: "\<forall>fd. keeps P (f fd) \<Longrightarrow> keeps P (batch_calls f fds)"
  proof (unfold keeps_def, induction fds)
  case (Cons fd fds)
  show ?case
  proof (intro allI impI)
    fix s assume "P s"
    then obtain s1 where "f fd s = Some s1" "P s1" using Cons.prems by blast
    then show "\<exists>s'. batch_calls f (fd # fds) s = Some s' \<and> P s'" using Cons by auto
  qed
qed simp

lemma batch_group_keeps:
  "\<forall>fd. keeps P (f fd) \<Longrightarrow> P s \<Longrightarrow> \<exists>n s'. batch_group (Some f) fds s = Some (n, s') \<and> P s'"
  using keepsD [OF batch_calls_keeps, of P f s fds] by (auto simp: batch_group_def)

lemma ProcessBatch_keeps:
  assumes "\<forall>fd. keeps P (r fd)" "\<forall>fd. keeps P (w fd)" "\<forall>fd. keeps P (x fd)" "P s"
  shows "\<exists>n s'. ProcessBatch es (Some r) (Some w) (Some x) s = Some (n, s') \<and> P s'"
proof (cases "es = []")
  case True
  then show ?thesis using assms(4) by (simp add: ProcessBatch_def)
next
  case False
  obtain rs ws xs where g: "GroupEvents es = (rs, ws, xs)" using prod_cases3 by blast
  from batch_group_keeps [OF assms(1,4), of rs] obtain n1 s1 where 1: "batch_group (Some r) rs s = Some (n1, s1)" "P s1" by blast
  from batch_group_keeps [OF assms(2) 1(2), of ws] obtain n2 s2 where 2: "batch_group (Some w) ws s1 = Some (n2, s2)" "P s2" by blast
  from batch_group_keeps [OF assms(3) 2(2), of xs] obtain n3 s3 where 3: "batch_group (Some x) xs s2 = Some (n3, s3)" "P s3" by blast
  show ?thesis using False by (simp add: ProcessBatch_def g 1(1) 2(1) 3(1) 3(2))
qed

subsection \<open>Which callbacks a batch makes\<close>

text \<open>The kind of an event: failed, readable or writable.\<close>

definition failed :: "32 word \<Rightarrow> bool" where
  "failed ev \<longleftrightarrow> IsError ev \<or> \<not> IsReadable ev \<and> \<not> IsWritable ev"

lemma group_loop_sets:
  "group_loop es (r, w, x) =
    (r @ map ev_fd (filter (\<lambda>e. \<not> failed (ev_events e) \<and> IsReadable (ev_events e)) es),
     w @ map ev_fd (filter (\<lambda>e. \<not> failed (ev_events e) \<and> \<not> IsReadable (ev_events e)) es),
     x @ map ev_fd (filter (\<lambda>e. failed (ev_events e)) es))"
  by (induction es arbitrary: r w x) (auto simp: failed_def Let_def)

lemma remove_duplicates_set [simp]: "set (remove_duplicates v) = set v"
  by (simp add: remove_duplicates_def)

lemma sorted_remdups_adj_distinct: "sorted v \<Longrightarrow> distinct (remdups_adj v)"
  by (induction v rule: remdups_adj.induct) (auto simp: order_le_less)

lemma remove_duplicates_distinct: "distinct (remove_duplicates v) \<and> sorted (remove_duplicates v)"
  by (simp add: remove_duplicates_def sorted_remdups_adj_distinct sorted_remdups_adj)

definition recording :: "'k \<Rightarrow> int \<Rightarrow> ('k \<times> int) list \<Rightarrow> ('k \<times> int) list option" where
  "recording k fd calls = Some (calls @ [(k, fd)])"

lemma recording_calls: "batch_calls (recording k) fds calls = Some (calls @ map (Pair k) fds)"
  by (induction fds arbitrary: calls) (simp_all add: recording_def)

lemma recording_group: "batch_group (Some (recording k)) fds calls = Some (length fds, calls @ map (Pair k) fds)"
  by (simp add: batch_group_def recording_calls)

datatype io_kind = Reading | Writing | Failing

text \<open>What a batch calls. All read callbacks come before all write callbacks and these before all
  error callbacks, each group in ascending order of descriptors and without repetition. The error
  callback gets exactly the descriptors with an event that has an error or no known flag; the read
  callback those of the others with a readable event; the write callback those of the others with an
  event that is writable and not readable. So an event that is both readable and writable never
  reaches the write callback.\<close>
theorem batch_dispatch:
  "\<exists>readable writable errors n.
     ProcessBatch es (Some (recording Reading)) (Some (recording Writing)) (Some (recording Failing)) [] =
       Some (n, map (Pair Reading) readable @ map (Pair Writing) writable @ map (Pair Failing) errors) \<and>
     sorted readable \<and> distinct readable \<and> sorted writable \<and> distinct writable \<and>
     sorted errors \<and> distinct errors \<and>
     set errors = ev_fd ` {e \<in> set es. failed (ev_events e)} \<and>
     set readable = ev_fd ` {e \<in> set es. \<not> failed (ev_events e) \<and> IsReadable (ev_events e)} - set errors \<and>
     set writable = ev_fd ` {e \<in> set es. \<not> failed (ev_events e) \<and> \<not> IsReadable (ev_events e)} - set errors"
proof (cases "es = []")
  case True
  then show ?thesis by (simp add: ProcessBatch_def)
next
  case False
  obtain r w x where g: "GroupEvents es = (r, w, x)" using prod_cases3 by blast
  have sets: "set x = ev_fd ` {e \<in> set es. failed (ev_events e)}"
    "set r = ev_fd ` {e \<in> set es. \<not> failed (ev_events e) \<and> IsReadable (ev_events e)} - set x"
    "set w = ev_fd ` {e \<in> set es. \<not> failed (ev_events e) \<and> \<not> IsReadable (ev_events e)} - set x"
    using g unfolding GroupEvents_def group_loop_sets by auto
  have order: "sorted r" "distinct r" "sorted w" "distinct w" "sorted x" "distinct x"
    using g remove_duplicates_distinct unfolding GroupEvents_def group_loop_sets
    by (auto intro: sorted_wrt_filter)
  obtain n where run: "ProcessBatch es (Some (recording Reading)) (Some (recording Writing)) (Some (recording Failing)) [] =
       Some (n, map (Pair Reading) r @ map (Pair Writing) w @ map (Pair Failing) x)"
    using False by (simp add: ProcessBatch_def g recording_group)
  show ?thesis
    using run order sets(2,3) by (intro exI [of _ r] exI [of _ w] exI [of _ x] exI [of _ n] conjI) (rule sets(1) | assumption)+
qed

end
