(* ===== verification/TimerWheel.thy ===== *)
theory TimerWheel
  imports WebError
begin

text \<open>
  The timer wheel (include/timer/timer_wheel.h, src/timer/timer_wheel.cpp): a ring of task lists, a
  map from descriptors to list iterators, and a current slot that advances at every tick.

  An iterator is the slot its task is in; with the descriptor it determines the task, because a
  descriptor has at most one. Erasing an iterator from a list it does not belong to is undefined
  behaviour, and so is the remainder by a wheel without slots: the result is then \<open>None\<close>. Callbacks
  are numbers, \<open>None\<close> for an empty function; calls are appended to \<open>tw_fired\<close> (the code makes them with
  its mutex locked, so they cannot call back into the wheel). Creation times are left out: nothing
  reads them. Sizes are those for which the casts of the wheel size to \<open>int\<close> are exact.
\<close>

record timer_task =
  tt_fd :: int
  tt_cb :: "nat option"
  tt_remaining :: nat

record timer_wheel =
  tw_slots :: "timer_task list list"
  tw_timers :: "int \<rightharpoonup> nat"
  tw_current :: nat
  tw_size :: nat
  tw_interval :: int
  tw_added :: nat
  tw_triggered :: nat
  tw_cancelled :: nat
  tw_fired :: "nat list"

abbreviation kMaxCycles :: nat where "kMaxCycles \<equiv> 10"

definition new_wheel :: "nat \<Rightarrow> int \<Rightarrow> timer_wheel" where
  "new_wheel wheel_size tick_interval_ms =
     \<lparr>tw_slots = replicate wheel_size [], tw_timers = Map.empty, tw_current = 0,
      tw_size = (if wheel_size > 0 then wheel_size else 60),
      tw_interval = (if tick_interval_ms > 0 then tick_interval_ms else 1000),
      tw_added = 0, tw_triggered = 0, tw_cancelled = 0, tw_fired = []\<rparr>"

definition CalculateSlot :: "timer_wheel \<Rightarrow> int \<Rightarrow> error_obj + nat \<times> nat" where
  "CalculateSlot w timeout_seconds =
     (if timeout_seconds \<le> 0 then Inl (Error_of kInvalidArgument ''Timeout must be positive'')
      else let ticks = nat timeout_seconds
           in if ticks \<le> tw_size w then Inr ((tw_current w + ticks) mod tw_size w, 0)
              else let cycles = ticks div tw_size w
                   in if cycles > kMaxCycles
                      then Inl (Error_of kInvalidArgument ''Timeout exceeds maximum cycles'')
                      else let offset = ticks mod tw_size w
                           in Inr ((tw_current w + offset) mod tw_size w, cycles))"

definition AddTaskToSlot :: "nat \<Rightarrow> timer_task \<Rightarrow> timer_wheel \<Rightarrow> timer_wheel option" where
  "AddTaskToSlot slot task w =
     (if slot \<ge> length (tw_slots w) \<and> tw_slots w = [] then None
      else let slot = (if slot \<ge> length (tw_slots w) then slot mod length (tw_slots w) else slot)
           in Some (w\<lparr>tw_slots := (tw_slots w)[slot := task # tw_slots w ! slot],
                      tw_timers := (tw_timers w)(tt_fd task \<mapsto> slot)\<rparr>))"

text \<open>\<open>wheel_[slot].erase(it)\<close> for the iterator of \<open>fd\<close>, which is in list \<open>s\<close>.\<close>

definition erase_task :: "nat \<Rightarrow> nat \<Rightarrow> int \<Rightarrow> timer_wheel \<Rightarrow> timer_wheel option" where
  "erase_task slot s fd w =
     (if slot \<noteq> s then None
      else Some (w\<lparr>tw_slots := (tw_slots w)[s := filter (\<lambda>t. tt_fd t \<noteq> fd) (tw_slots w ! s)]\<rparr>))"

definition task_remaining :: "timer_wheel \<Rightarrow> nat \<Rightarrow> int \<Rightarrow> nat" where
  "task_remaining w s fd =
     (case find (\<lambda>t. tt_fd t = fd) (tw_slots w ! s) of None \<Rightarrow> 0 | Some t \<Rightarrow> tt_remaining t)"

definition cancel_task :: "int \<Rightarrow> nat \<Rightarrow> timer_wheel \<Rightarrow> timer_wheel option" where
  "cancel_task fd s w =
     (let slot = (tw_current w + task_remaining w s fd) mod tw_size w
      in map_option (\<lambda>w. w\<lparr>tw_timers := (tw_timers w)(fd := None), tw_cancelled := tw_cancelled w + 1\<rparr>)
           (erase_task slot s fd w))"

definition AddTimeout ::
  "timer_wheel \<Rightarrow> int \<Rightarrow> int \<Rightarrow> nat option \<Rightarrow> (error_obj \<times> timer_wheel) option" where
  "AddTimeout w fd timeout_seconds callback =
     (if fd < 0 then Some (Error_of kInvalidArgument ''Invalid file descriptor'', w)
      else if timeout_seconds \<le> 0
      then Some (Error_of kInvalidArgument ''Timeout must be positive'', w)
      else if callback = None
      then Some (Error_of kInvalidArgument ''Callback function cannot be null'', w)
      else let max_timeout = int (tw_size w * kMaxCycles)
           in if timeout_seconds > max_timeout
              then Some (Error_of kInvalidArgument
                     (''Timeout '' @ dec_int timeout_seconds @ ''s exceeds maximum ''
                      @ dec_int max_timeout @ ''s''), w)
              else case (case tw_timers w fd of None \<Rightarrow> Some w | Some s \<Rightarrow> cancel_task fd s w) of
                     None \<Rightarrow> None
                   | Some w \<Rightarrow>
                       (case CalculateSlot w timeout_seconds of
                          Inl err \<Rightarrow> Some (err, w)
                        | Inr (slot, remaining) \<Rightarrow>
                            map_option (\<lambda>w. (Error_Success, w\<lparr>tw_added := tw_added w + 1\<rparr>))
                              (AddTaskToSlot slot
                                 \<lparr>tt_fd = fd, tt_cb = callback, tt_remaining = remaining\<rparr> w)))"

definition RemoveTimeout :: "timer_wheel \<Rightarrow> int \<Rightarrow> (error_obj \<times> timer_wheel) option" where
  "RemoveTimeout w fd =
     (if fd < 0 then Some (Error_of kInvalidArgument ''Invalid file descriptor'', w)
      else case tw_timers w fd of
             None \<Rightarrow> Some (Error_Success, w)
           | Some s \<Rightarrow> map_option (\<lambda>w. (Error_Success, w)) (cancel_task fd s w))"

text \<open>The loop of \<open>ProcessSlot\<close> over the tasks that are in the slot when it starts.\<close>

definition take_out :: "nat \<Rightarrow> int \<Rightarrow> timer_wheel \<Rightarrow> timer_wheel" where
  "take_out slot fd w =
     w\<lparr>tw_slots := (tw_slots w)[slot := filter (\<lambda>t. tt_fd t \<noteq> fd) (tw_slots w ! slot)],
       tw_timers := (tw_timers w)(fd := None)\<rparr>"

fun process_tasks :: "nat \<Rightarrow> timer_task list \<Rightarrow> timer_wheel \<Rightarrow> timer_wheel option" where
  "process_tasks slot [] w = Some w"
| "process_tasks slot (t # ts) w =
     (if tt_remaining t > 0
      then let next_slot = (slot + 1) mod tw_size w
           in case AddTaskToSlot next_slot (t\<lparr>tt_remaining := tt_remaining t - 1\<rparr>)
                     (take_out slot (tt_fd t) w) of
                None \<Rightarrow> None
              | Some w \<Rightarrow> process_tasks slot ts w
      else process_tasks slot ts
             ((take_out slot (tt_fd t) w)
                \<lparr>tw_fired := tw_fired w @ (case tt_cb t of None \<Rightarrow> [] | Some c \<Rightarrow> [c]),
                 tw_triggered := tw_triggered w + 1\<rparr>))"

definition ProcessSlot :: "nat \<Rightarrow> timer_wheel \<Rightarrow> (nat \<times> timer_wheel) option" where
  "ProcessSlot slot w =
     (if slot \<ge> length (tw_slots w) then Some (0, w)
      else map_option (\<lambda>w'. (tw_triggered w' - tw_triggered w, w'))
             (process_tasks slot (tw_slots w ! slot) w))"

definition Tick :: "timer_wheel \<Rightarrow> (nat \<times> timer_wheel) option" where
  "Tick w =
     map_option (\<lambda>(n, w). (n, w\<lparr>tw_current := (tw_current w + 1) mod tw_size w\<rparr>))
       (ProcessSlot (tw_current w) w)"

definition GetNextTickTimeout :: "timer_wheel \<Rightarrow> int" where
  "GetNextTickTimeout w = (if dom (tw_timers w) = {} then - 1 else tw_interval w)"

definition GetActiveTimerCount :: "timer_wheel \<Rightarrow> nat" where
  "GetActiveTimerCount w = card (dom (tw_timers w))"

definition HasTimer :: "timer_wheel \<Rightarrow> int \<Rightarrow> bool" where
  "HasTimer w fd \<longleftrightarrow> fd \<ge> 0 \<and> tw_timers w fd \<noteq> None"

text \<open>\<open>Clear\<close> adds the size of the map after it has emptied it.\<close>

definition wheel_Clear :: "timer_wheel \<Rightarrow> timer_wheel" where
  "wheel_Clear w =
     w\<lparr>tw_slots := map (\<lambda>_. []) (tw_slots w), tw_timers := Map.empty, tw_current := 0,
       tw_cancelled := tw_cancelled w + 0\<rparr>"

subsection \<open>Tasks and countdowns\<close>

definition placed :: "timer_wheel \<Rightarrow> (nat \<times> timer_task) set" where
  "placed w = {(s, t). s < length (tw_slots w) \<and> t \<in> set (tw_slots w ! s)}"

definition wheel_ok :: "timer_wheel \<Rightarrow> bool" where
  "wheel_ok w \<longleftrightarrow>
     length (tw_slots w) = tw_size w \<and> 0 < tw_size w \<and> tw_current w < tw_size w \<and>
     (\<forall>fd s. tw_timers w fd = Some s \<longleftrightarrow> (\<exists>t. (s, t) \<in> placed w \<and> tt_fd t = fd)) \<and>
     (\<forall>s t t'. (s, t) \<in> placed w \<and> (s, t') \<in> placed w \<and> tt_fd t = tt_fd t' \<longrightarrow> t = t') \<and>
     (\<forall>s < tw_size w. distinct (map tt_fd (tw_slots w ! s)))"

lemma wheel_ok_unique:
  "wheel_ok w \<Longrightarrow> (s, t) \<in> placed w \<Longrightarrow> (s', t') \<in> placed w \<Longrightarrow> tt_fd t = tt_fd t' \<Longrightarrow> s = s' \<and> t = t'"
  unfolding wheel_ok_def by (metis option.inject)

text \<open>The number of ticks before the tick that fires a task.\<close>

definition ticks_to :: "timer_wheel \<Rightarrow> nat \<Rightarrow> nat" where
  "ticks_to w s = (s + tw_size w - tw_current w) mod tw_size w"

definition due :: "timer_wheel \<Rightarrow> int \<Rightarrow> nat option" where
  "due w fd = map_option (\<lambda>s. ticks_to w s + task_remaining w s fd) (tw_timers w fd)"

lemma find_task:
  "wheel_ok w \<Longrightarrow> (s, t) \<in> placed w \<Longrightarrow> find (\<lambda>x. tt_fd x = tt_fd t) (tw_slots w ! s) = Some t"
proof -
  assume w: "wheel_ok w" and t: "(s, t) \<in> placed w"
  then obtain x where x: "find (\<lambda>x. tt_fd x = tt_fd t) (tw_slots w ! s) = Some x"
    by (cases "find (\<lambda>x. tt_fd x = tt_fd t) (tw_slots w ! s)") (auto simp: find_None_iff placed_def)
  then have "x \<in> set (tw_slots w ! s)" "tt_fd x = tt_fd t" by (auto simp: find_Some_iff)
  with w t x show ?thesis using wheel_ok_unique [OF w, of s x s t] by (auto simp: placed_def)
qed

lemma due_Some:
  assumes "wheel_ok w"
  shows "due w fd = Some n \<longleftrightarrow>
    (\<exists>s t. (s, t) \<in> placed w \<and> tt_fd t = fd \<and> n = ticks_to w s + tt_remaining t)"
proof
  assume "due w fd = Some n"
  then obtain s where s: "tw_timers w fd = Some s" "n = ticks_to w s + task_remaining w s fd"
    by (auto simp: due_def)
  then obtain t where t: "(s, t) \<in> placed w" "tt_fd t = fd" using assms by (auto simp: wheel_ok_def)
  with s find_task [OF assms t(1)]
  show "\<exists>s t. (s, t) \<in> placed w \<and> tt_fd t = fd \<and> n = ticks_to w s + tt_remaining t"
    by (auto simp: task_remaining_def)
next
  assume "\<exists>s t. (s, t) \<in> placed w \<and> tt_fd t = fd \<and> n = ticks_to w s + tt_remaining t"
  then obtain s t where t: "(s, t) \<in> placed w" "tt_fd t = fd" "n = ticks_to w s + tt_remaining t" by blast
  moreover have "tw_timers w fd = Some s" using assms t(1,2) unfolding wheel_ok_def by blast
  ultimately show "due w fd = Some n"
    using find_task [OF assms t(1)] by (auto simp: due_def task_remaining_def)
qed

subsection \<open>Taking out and adding tasks\<close>

lemma take_out_lemma:
  assumes w: "wheel_ok w" and t: "(s, t) \<in> placed w"
  shows "wheel_ok (take_out s (tt_fd t) w) \<and> placed (take_out s (tt_fd t) w) = placed w - {(s, t)}"
proof -
  let ?w = "take_out s (tt_fd t) w"
  have s: "s < length (tw_slots w)" using t by (simp add: placed_def)
  have u: "t' = t \<longleftrightarrow> tt_fd t' = tt_fd t" if "t' \<in> set (tw_slots w ! s)" for t'
    using wheel_ok_unique [OF w, of s t' s t] that s t by (auto simp: placed_def)
  have p: "placed ?w = placed w - {(s, t)}"
    using s u by (auto simp: placed_def take_out_def nth_list_update split: if_splits)
  have tmr: "tw_timers ?w = (tw_timers w)(tt_fd t := None)" by (simp add: take_out_def)
  have "tw_timers ?w fd = Some s' \<longleftrightarrow> (\<exists>t. (s', t) \<in> placed ?w \<and> tt_fd t = fd)" for fd s'
  proof (cases "fd = tt_fd t")
    case True
    then show ?thesis using wheel_ok_unique [OF w _ t] by (auto simp: p tmr)
  next
    case False
    then show ?thesis using w unfolding p tmr wheel_ok_def by auto
  qed
  moreover have "distinct (map tt_fd (tw_slots ?w ! k))" if "k < tw_size w" for k
    using w that s by (auto simp: wheel_ok_def take_out_def nth_list_update distinct_map_filter)
  ultimately have "wheel_ok ?w"
    using w unfolding wheel_ok_def p by (auto simp: take_out_def)
  with p show ?thesis by blast
qed

lemma AddTaskToSlot_lemma:
  assumes w: "wheel_ok w" and s: "s < tw_size w" and new: "tw_timers w (tt_fd task) = None"
  shows "\<exists>w'. AddTaskToSlot s task w = Some w' \<and> wheel_ok w' \<and> placed w' = insert (s, task) (placed w) \<and>
    tw_size w' = tw_size w \<and> tw_current w' = tw_current w \<and> tw_fired w' = tw_fired w \<and>
    tw_triggered w' = tw_triggered w \<and> tw_timers w' = (tw_timers w)(tt_fd task \<mapsto> s)"
proof -
  let ?w = "w\<lparr>tw_slots := (tw_slots w)[s := task # tw_slots w ! s], tw_timers := (tw_timers w)(tt_fd task \<mapsto> s)\<rparr>"
  have len: "length (tw_slots w) = tw_size w" using w by (simp add: wheel_ok_def)
  have p: "placed ?w = insert (s, task) (placed w)"
    using s len by (auto simp: placed_def nth_list_update split: if_splits)
  have none: "tt_fd t \<noteq> tt_fd task" if "(k, t) \<in> placed w" for k t
    using w new that unfolding wheel_ok_def by (metis option.distinct(1))
  have fresh: "tt_fd task \<notin> tt_fd ` set (tw_slots w ! s)"
    using none s len by (force simp: placed_def)
  have "tw_timers ?w fd = Some k \<longleftrightarrow> (\<exists>t. (k, t) \<in> placed ?w \<and> tt_fd t = fd)" for fd k
    using w none unfolding p wheel_ok_def by auto
  moreover have "distinct (map tt_fd (tw_slots ?w ! k))" if "k < tw_size w" for k
    using w that fresh len s by (auto simp: wheel_ok_def nth_list_update)
  moreover have "t = t'" if "(k, t) \<in> placed ?w" "(k, t') \<in> placed ?w" "tt_fd t = tt_fd t'" for k t t'
    using that none wheel_ok_unique [OF w] unfolding p by (metis Pair_inject insert_iff)
  ultimately have "wheel_ok ?w"
    using w len unfolding wheel_ok_def by auto
  with p show ?thesis using s len by (simp add: AddTaskToSlot_def)
qed

definition dec_task :: "timer_task \<Rightarrow> timer_task" where
  "dec_task t = t\<lparr>tt_remaining := tt_remaining t - 1\<rparr>"

lemma dec_task_fields [simp]:
  "tt_fd (dec_task t) = tt_fd t" "tt_cb (dec_task t) = tt_cb t"
  "tt_remaining (dec_task t) = tt_remaining t - 1"
  by (simp_all add: dec_task_def)

definition task_calls :: "timer_task list \<Rightarrow> nat list" where
  "task_calls ts = concat (map (\<lambda>t. case tt_cb t of None \<Rightarrow> [] | Some c \<Rightarrow> [c]) ts)"

lemma take_out_fields [simp]:
  "tw_size (take_out s fd w) = tw_size w" "tw_current (take_out s fd w) = tw_current w"
  "tw_fired (take_out s fd w) = tw_fired w" "tw_triggered (take_out s fd w) = tw_triggered w"
  "tw_timers (take_out s fd w) fd = None"
  by (simp_all add: take_out_def)

text \<open>What visiting a list of tasks of a slot does to the placed tasks.\<close>

lemma process_tasks_lemma:
  assumes "wheel_ok w" "s < tw_size w" "\<forall>t \<in> set ts. (s, t) \<in> placed w" "distinct (map tt_fd ts)"
  shows "\<exists>w'. process_tasks s ts w = Some w' \<and> wheel_ok w' \<and> tw_size w' = tw_size w \<and>
    tw_current w' = tw_current w \<and>
    placed w' = (placed w - {(s, t) | t. t \<in> set ts})
      \<union> {((s + 1) mod tw_size w, dec_task t) | t. t \<in> set ts \<and> 0 < tt_remaining t} \<and>
    tw_fired w' = tw_fired w @ task_calls (filter (\<lambda>t. tt_remaining t = 0) ts) \<and>
    tw_triggered w' = tw_triggered w + length (filter (\<lambda>t. tt_remaining t = 0) ts)"
  using assms
proof (induction ts arbitrary: w)
  case Nil
  then show ?case by (simp add: task_calls_def)
next
  case (Cons t ts)
  let ?n = "(s + 1) mod tw_size w"
  let ?u = "take_out s (tt_fd t) w"
  have t: "(s, t) \<in> placed w" using Cons.prems(3) by simp
  have u: "wheel_ok ?u" "placed ?u = placed w - {(s, t)}"
    using take_out_lemma [OF Cons.prems(1) t] by auto
  have fresh: "tt_fd x \<noteq> tt_fd t" if "x \<in> set ts" for x
    using Cons.prems(4) imageI [OF that, of tt_fd] unfolding list.map set_map distinct.simps by metis
  have rest: "\<forall>x \<in> set ts. (s, x) \<in> placed ?u" using Cons.prems(3) fresh by (auto simp: u(2))
  have d: "distinct (map tt_fd ts)" using Cons.prems(4) by simp
  show ?case
  proof (cases "tt_remaining t > 0")
    case True
    have n: "?n < tw_size ?u" using Cons.prems(1) by (simp add: wheel_ok_def)
    from AddTaskToSlot_lemma [OF u(1) n, of "dec_task t"] obtain v where
      v: "AddTaskToSlot ?n (dec_task t) ?u = Some v" "wheel_ok v"
        "placed v = insert (?n, dec_task t) (placed ?u)" "tw_size v = tw_size w"
        "tw_current v = tw_current w" "tw_fired v = tw_fired w" "tw_triggered v = tw_triggered w"
      by auto
    have "\<forall>x \<in> set ts. (s, x) \<in> placed v" using rest v(3) by auto
    from Cons.IH [OF v(2) _ this d] Cons.prems(2) v(4) obtain w' where
      w': "process_tasks s ts v = Some w'" "wheel_ok w'" "tw_size w' = tw_size w"
        "tw_current w' = tw_current w"
        "placed w' = (placed v - {(s, t) | t. t \<in> set ts})
           \<union> {(?n, dec_task t) | t. t \<in> set ts \<and> 0 < tt_remaining t}"
        "tw_fired w' = tw_fired w @ task_calls (filter (\<lambda>t. tt_remaining t = 0) ts)"
        "tw_triggered w' = tw_triggered w + length (filter (\<lambda>t. tt_remaining t = 0) ts)"
      using v(5-7) by auto
    have "dec_task t \<notin> set ts" using fresh by fastforce
    then have "placed w' = (placed w - {(s, x) | x. x \<in> set (t # ts)})
        \<union> {(?n, dec_task x) | x. x \<in> set (t # ts) \<and> 0 < tt_remaining x}"
      unfolding w'(5) v(3) u(2) using True by auto
    moreover have "process_tasks s (t # ts) w = Some w'"
      using True v(1) w'(1) by (simp add: Let_def dec_task_def)
    ultimately show ?thesis using w' True by auto
  next
    case False
    let ?v = "?u\<lparr>tw_fired := tw_fired w @ (case tt_cb t of None \<Rightarrow> [] | Some c \<Rightarrow> [c]),
        tw_triggered := tw_triggered w + 1\<rparr>"
    have v: "wheel_ok ?v" "placed ?v = placed ?u"
      using u(1) by (auto simp: wheel_ok_def placed_def)
    have "\<forall>x \<in> set ts. (s, x) \<in> placed ?v" using rest v(2) by auto
    from Cons.IH [OF v(1) _ this d] Cons.prems(2) obtain w' where
      w': "process_tasks s ts ?v = Some w'" "wheel_ok w'" "tw_size w' = tw_size w"
        "tw_current w' = tw_current w"
        "placed w' = (placed ?u - {(s, t) | t. t \<in> set ts})
           \<union> {(?n, dec_task t) | t. t \<in> set ts \<and> 0 < tt_remaining t}"
        "tw_fired w' = tw_fired ?v @ task_calls (filter (\<lambda>t. tt_remaining t = 0) ts)"
        "tw_triggered w' = tw_triggered ?v + length (filter (\<lambda>t. tt_remaining t = 0) ts)"
      unfolding v(2) by auto
    have "placed w' = (placed w - {(s, x) | x. x \<in> set (t # ts)})
        \<union> {(?n, dec_task x) | x. x \<in> set (t # ts) \<and> 0 < tt_remaining x}"
      unfolding w'(5) u(2) using False by auto
    then show ?thesis using w' False by (auto simp: task_calls_def)
  qed
qed

subsection \<open>A tick is one step of every countdown\<close>

fun count_down :: "nat option \<Rightarrow> nat option" where
  "count_down (Some (Suc n)) = Some n"
| "count_down _ = None"

lemma ticks_to_0: "wheel_ok w \<Longrightarrow> ticks_to w (tw_current w) = 0"
  by (simp add: ticks_to_def)

lemma ticks_to_step:
  assumes "wheel_ok w" "s < tw_size w" "w' = w'" "tw_size w' = tw_size w"
    and "tw_current w' = (tw_current w + 1) mod tw_size w"
  shows "s \<noteq> tw_current w \<Longrightarrow> ticks_to w s = Suc (ticks_to w' s)"
    and "ticks_to w' ((tw_current w + 1) mod tw_size w) = 0"
proof -
  let ?c = "tw_current w" and ?n = "tw_size w"
  have c: "?c < ?n" using assms(1) by (simp add: wheel_ok_def)
  show "ticks_to w' ((?c + 1) mod ?n) = 0" using assms(4,5) by (simp add: ticks_to_def)
  have m: "(a + ?n) mod ?n = a" if "a < ?n" for a using that by simp
  show "ticks_to w s = Suc (ticks_to w' s)" if "s \<noteq> ?c"
  proof (cases "s < ?c")
    case True
    then have "ticks_to w s = s + ?n - ?c" using c by (simp add: ticks_to_def)
    moreover have "ticks_to w' s = s + ?n - (?c + 1)"
    proof (cases "?c + 1 = ?n")
      case True
      then show ?thesis using assms(2,4,5) m [of s] \<open>s < ?c\<close> by (simp add: ticks_to_def)
    next
      case False
      then show ?thesis using assms(4,5) c True by (simp add: ticks_to_def)
    qed
    ultimately show ?thesis using True c by simp
  next
    case False
    then have sc: "?c < s" using that by simp
    then have c1: "?c + 1 < ?n" using assms(2) by simp
    have "ticks_to w s = (s - ?c + ?n) mod ?n" using sc by (simp add: ticks_to_def)
    also have "\<dots> = s - ?c" using assms(2) by (intro m) simp
    finally have a: "ticks_to w s = s - ?c" .
    have "ticks_to w' s = (s - (?c + 1) + ?n) mod ?n" using sc c1 assms(4,5) by (simp add: ticks_to_def)
    also have "\<dots> = s - (?c + 1)" using assms(2) by (intro m) simp
    finally show ?thesis using a sc by simp
  qed
qed

lemma Tick_lemma:
  assumes w: "wheel_ok w"
  shows "\<exists>n w'. Tick w = Some (n, w') \<and> wheel_ok w' \<and> tw_size w' = tw_size w \<and>
    due w' = (\<lambda>fd. count_down (due w fd)) \<and>
    tw_fired w' = tw_fired w @
      task_calls (filter (\<lambda>t. tt_remaining t = 0) (tw_slots w ! tw_current w)) \<and>
    n = card {fd. due w fd = Some 0}"
proof -
  let ?c = "tw_current w" and ?n = "tw_size w"
  let ?ts = "tw_slots w ! ?c"
  have c: "?c < ?n" "length (tw_slots w) = ?n" "distinct (map tt_fd ?ts)"
    using w by (auto simp: wheel_ok_def)
  have pl: "(?c, t) \<in> placed w \<longleftrightarrow> t \<in> set ?ts" for t using c by (auto simp: placed_def)
  from process_tasks_lemma [OF w c(1) _ c(3)] pl obtain v where
    v: "process_tasks ?c ?ts w = Some v" "wheel_ok v" "tw_size v = ?n" "tw_current v = ?c"
      "placed v = (placed w - {(?c, t) | t. t \<in> set ?ts})
         \<union> {((?c + 1) mod ?n, dec_task t) | t. t \<in> set ?ts \<and> 0 < tt_remaining t}"
      "tw_fired v = tw_fired w @ task_calls (filter (\<lambda>t. tt_remaining t = 0) ?ts)"
      "tw_triggered v = tw_triggered w + length (filter (\<lambda>t. tt_remaining t = 0) ?ts)" by auto
  let ?w = "v\<lparr>tw_current := (?c + 1) mod ?n\<rparr>"
  have tick: "Tick w = Some (length (filter (\<lambda>t. tt_remaining t = 0) ?ts), ?w)"
    using c v by (simp add: Tick_def ProcessSlot_def)
  have ok: "wheel_ok ?w" and pw: "placed ?w = placed v"
    using v(2,3) c(1) by (auto simp: wheel_ok_def placed_def)
  note steps = ticks_to_step [OF w _ refl, of _ ?w]
  have "due ?w fd = Some k \<longleftrightarrow> count_down (due w fd) = Some k" for fd k
  proof -
    have cd: "count_down x = Some k \<longleftrightarrow> x = Some (Suc k)" for x by (cases x rule: count_down.cases) auto
    show ?thesis
      unfolding cd due_Some [OF ok] due_Some [OF w]
    proof
      assume "\<exists>s t. (s, t) \<in> placed ?w \<and> tt_fd t = fd \<and> k = ticks_to ?w s + tt_remaining t"
      then obtain s t where st: "(s, t) \<in> placed v" "tt_fd t = fd" "k = ticks_to ?w s + tt_remaining t"
        unfolding pw by blast
      then consider "(s, t) \<in> placed w" "s \<noteq> ?c"
        | t0 where "s = (?c + 1) mod ?n" "t = dec_task t0" "t0 \<in> set ?ts" "0 < tt_remaining t0"
        unfolding v(5) using pl by fastforce
      then show "\<exists>s t. (s, t) \<in> placed w \<and> tt_fd t = fd \<and> Suc k = ticks_to w s + tt_remaining t"
      proof cases
        case 1
        then have "s < ?n" using c by (simp add: placed_def)
        then show ?thesis using 1 st steps(1) [of s] v(3) by (intro exI [of _ s] exI [of _ t]) simp
      next
        case 2
        then show ?thesis using st steps(2) [OF c(1)] v(3) ticks_to_0 [OF w] pl
          by (intro exI [of _ ?c] exI [of _ t0]) simp
      qed
    next
      assume "\<exists>s t. (s, t) \<in> placed w \<and> tt_fd t = fd \<and> Suc k = ticks_to w s + tt_remaining t"
      then obtain s t where st: "(s, t) \<in> placed w" "tt_fd t = fd" "Suc k = ticks_to w s + tt_remaining t"
        by blast
      then have s: "s < ?n" using c by (simp add: placed_def)
      show "\<exists>s t. (s, t) \<in> placed ?w \<and> tt_fd t = fd \<and> k = ticks_to ?w s + tt_remaining t"
      proof (cases "s = ?c")
        case True
        then have "((?c + 1) mod ?n, dec_task t) \<in> placed v" "0 < tt_remaining t"
          unfolding v(5) using st pl ticks_to_0 [OF w] by auto
        then show ?thesis
          using st True steps(2) [OF c(1)] v(3) ticks_to_0 [OF w]
          unfolding pw by (intro exI [of _ "(?c + 1) mod ?n"] exI [of _ "dec_task t"]) simp
      next
        case False
        then show ?thesis
          using st steps(1) [OF s] v(3) unfolding pw v(5)
          by (intro exI [of _ s] exI [of _ t]) auto
      qed
    qed
  qed
  then have due': "due ?w = (\<lambda>fd. count_down (due w fd))"
    by (intro ext) (metis option.exhaust)
  have "due w fd = Some 0 \<longleftrightarrow> fd \<in> tt_fd ` set (filter (\<lambda>t. tt_remaining t = 0) ?ts)" for fd
  proof -
    have z: "ticks_to w s = 0 \<longleftrightarrow> s = ?c" if "s < ?n" for s
      using steps(1) [OF that] v(3) ticks_to_0 [OF w] by (cases "s = ?c") auto
    show ?thesis
      unfolding due_Some [OF w] using z pl c(1) by (auto simp: placed_def c(2) image_iff) 
  qed
  then have "{fd. due w fd = Some 0} = set (map tt_fd (filter (\<lambda>t. tt_remaining t = 0) ?ts))"
    by auto
  then have "card {fd. due w fd = Some 0} = length (filter (\<lambda>t. tt_remaining t = 0) ?ts)"
    using distinct_card [of "map tt_fd (filter (\<lambda>t. tt_remaining t = 0) ?ts)"] c(3)
    by (simp add: distinct_map_filter)
  then show ?thesis
    using tick ok due' v(3,6) by (intro exI [of _ "length (filter (\<lambda>t. tt_remaining t = 0) ?ts)"] exI [of _ ?w]) simp
qed

subsection \<open>Adding and cancelling\<close>

lemma wheel_ok_counters [simp]:
  "wheel_ok (w\<lparr>tw_added := k\<rparr>) = wheel_ok w" "wheel_ok (w\<lparr>tw_cancelled := k\<rparr>) = wheel_ok w"
  by (simp_all add: wheel_ok_def placed_def)

lemma due_None: "due w fd = None \<longleftrightarrow> tw_timers w fd = None"
  by (simp add: due_def)

definition first_countdown :: "nat \<Rightarrow> nat \<Rightarrow> nat" where
  "first_countdown n t = (if t \<le> n then t mod n else t mod n + t div n)"

lemma ticks_to_ahead:
  assumes "wheel_ok w"
  shows "ticks_to w ((tw_current w + k) mod tw_size w) = k mod tw_size w"
proof -
  let ?n = "tw_size w" and ?c = "tw_current w"
  have c: "?c < ?n" using assms by (simp add: wheel_ok_def)
  have "((?c + k) mod ?n + ?n - ?c) mod ?n = ((?c + k) mod ?n + (?n - ?c)) mod ?n"
    using c by (simp add: add_diff_assoc2)
  also have "\<dots> = (?c + k + (?n - ?c)) mod ?n" by (rule mod_add_left_eq)
  also have "?c + k + (?n - ?c) = k + ?n" using c by simp
  finally show ?thesis by (simp add: ticks_to_def)
qed

lemma AddTimeout_new:
  assumes w: "wheel_ok w" and new: "tw_timers w fd = None" and fd: "0 \<le> fd"
    and t: "0 < t" "t \<le> int (tw_size w * kMaxCycles)"
  shows "\<exists>w'. AddTimeout w fd t (Some c) = Some (Error_Success, w') \<and> wheel_ok w' \<and>
    tw_size w' = tw_size w \<and> tw_current w' = tw_current w \<and>
    due w' = (due w)(fd \<mapsto> first_countdown (tw_size w) (nat t)) \<and>
    (\<exists>r. tw_timers w' fd = Some ((tw_current w + nat t mod tw_size w) mod tw_size w) \<and>
       task_remaining w' ((tw_current w + nat t mod tw_size w) mod tw_size w) fd = r \<and>
       (nat t \<le> tw_size w \<longrightarrow> r = 0))"
proof -
  let ?n = "tw_size w" and ?t = "nat t"
  let ?slot = "(tw_current w + ?t mod ?n) mod ?n"
  let ?r = "if ?t \<le> ?n then 0 else ?t div ?n"
  have n: "0 < ?n" using w by (simp add: wheel_ok_def)
  have tn: "?t \<le> ?n * 10" using t by linarith
  have cycles: "?t div ?n \<le> 10" using div_le_mono [OF tn, of ?n] n by simp
  have calc: "CalculateSlot w t = Inr (?slot, ?r)"
    using t cycles by (auto simp: CalculateSlot_def Let_def mod_add_right_eq)
  let ?task = "\<lparr>tt_fd = fd, tt_cb = Some c, tt_remaining = ?r\<rparr>"
  have sl: "?slot < ?n" using n by simp
  from AddTaskToSlot_lemma [OF w sl, of ?task] new obtain v where
    v: "AddTaskToSlot ?slot ?task w = Some v" "wheel_ok v" "placed v = insert (?slot, ?task) (placed w)"
      "tw_size v = ?n" "tw_current v = tw_current w" "tw_timers v = (tw_timers w)(fd \<mapsto> ?slot)" by auto
  define u where "u = v\<lparr>tw_added := tw_added v + 1\<rparr>"
  have add: "AddTimeout w fd t (Some c) = Some (Error_Success, u)"
    using fd t new calc v(1) by (simp add: AddTimeout_def u_def Let_def)
  have ok: "wheel_ok u" and pw: "placed u = placed v"
    using v(2) by (auto simp: u_def placed_def)
  have tick: "ticks_to u s = ticks_to w s" for s using v(4,5) by (simp add: u_def ticks_to_def)
  have first: "ticks_to w ?slot + ?r = first_countdown ?n ?t"
    using ticks_to_ahead [OF w, of "?t mod ?n"] by (simp add: first_countdown_def)
  have none: "\<not> (\<exists>s t. (s, t) \<in> placed w \<and> tt_fd t = fd)"
    using w new unfolding wheel_ok_def by (metis option.distinct(1))
  have "due u f = Some k \<longleftrightarrow> ((due w)(fd \<mapsto> first_countdown ?n ?t)) f = Some k" for f k
  proof (cases "f = fd")
    case True
    have "due u fd = Some (first_countdown ?n ?t)"
      unfolding due_Some [OF ok] pw v(3)
      by (intro exI [of _ ?slot] exI [of _ ?task]) (use tick [of ?slot] first in simp)
    then show ?thesis using True by auto
  next
    case False
    then show ?thesis unfolding due_Some [OF ok] pw v(3) tick by (auto simp: due_Some [OF w])
  qed
  then have due': "due u = (due w)(fd \<mapsto> first_countdown ?n ?t)"
    by (intro ext) (metis option.exhaust)
  have "find (\<lambda>x. tt_fd x = tt_fd ?task) (tw_slots u ! ?slot) = Some ?task"
    by (rule find_task [OF ok]) (simp add: pw v(3))
  then have "task_remaining u ?slot fd = ?r" by (simp add: task_remaining_def)
  moreover have "tw_size u = ?n" "tw_current u = tw_current w" "tw_timers u = (tw_timers w)(fd \<mapsto> ?slot)"
    using v(4-6) by (simp_all add: u_def)
  ultimately show ?thesis
    using add ok due' by (intro exI [of _ u]) simp
qed

lemma cancel_task_ok [inv_lemmas]:
  assumes w: "wheel_ok w" "tw_timers w fd = Some s" and c: "cancel_task fd s w = Some w'"
  shows "wheel_ok w' \<and> tw_timers w' fd = None \<and> tw_size w' = tw_size w"
proof -
  obtain t where t: "(s, t) \<in> placed w" "tt_fd t = fd" using w by (auto simp: wheel_ok_def)
  have "wheel_ok (take_out s fd w)" using take_out_lemma [OF w(1) t(1)] t(2) by simp
  moreover have "w' = (take_out s fd w)\<lparr>tw_cancelled := tw_cancelled w + 1\<rparr>"
    using c by (auto simp: cancel_task_def erase_task_def take_out_def Let_def split: if_splits)
  ultimately show ?thesis by (auto simp: wheel_ok_def placed_def)
qed

lemma RemoveTimeout_ok [inv_lemmas]:
  "wheel_ok w \<Longrightarrow> RemoveTimeout w fd = Some (e, w') \<Longrightarrow> wheel_ok w'"
  by (auto simp: RemoveTimeout_def split: if_splits option.splits dest: cancel_task_ok)

lemma AddTimeout_ok [inv_lemmas]:
  assumes w: "wheel_ok w" and a: "AddTimeout w fd t cb = Some (e, w')"
  shows "wheel_ok w'"
proof -
  have slot: "s < tw_size v" if "wheel_ok v" "CalculateSlot v t = Inr (s, r)" for v s r
    using that by (auto simp: CalculateSlot_def Let_def wheel_ok_def split: if_splits)
  have added: "wheel_ok v'"
    if v: "wheel_ok v" "tw_timers v fd = None" and s: "CalculateSlot v t = Inr (s, r)"
      and r: "AddTaskToSlot s \<lparr>tt_fd = fd, tt_cb = f, tt_remaining = r\<rparr> v = Some v'" for v v' s r f
    using AddTaskToSlot_lemma [OF v(1) slot [OF v(1) s], of "\<lparr>tt_fd = fd, tt_cb = f, tt_remaining = r\<rparr>"] v(2) r
    by auto
  have again: "wheel_ok v'" if "tw_timers w fd = Some s0" "cancel_task fd s0 w = Some v"
    "CalculateSlot v t = Inr (s, r)"
    "AddTaskToSlot s \<lparr>tt_fd = fd, tt_cb = f, tt_remaining = r\<rparr> v = Some v'" for s0 v v' s r f
    using added [OF _ _ that(3,4)] cancel_task_ok [OF w that(1,2)] by simp
  show ?thesis
    using a w
    by (auto simp: AddTimeout_def Let_def split: if_splits option.splits sum.splits
        dest: cancel_task_ok [OF w] again intro: added)
qed

lemma Tick_ok [inv_lemmas]: "wheel_ok w \<Longrightarrow> Tick w = Some (n, w') \<Longrightarrow> wheel_ok w'"
  using Tick_lemma [of w] by auto

lemma new_wheel_ok: "0 < n \<Longrightarrow> wheel_ok (new_wheel n i)"
  by (auto simp: wheel_ok_def new_wheel_def placed_def)

subsection \<open>Runs\<close>

datatype wheel_op = WAdd int int "nat option" | WRemove int | WTick

fun wheel_run :: "wheel_op list \<Rightarrow> timer_wheel \<Rightarrow> timer_wheel option" where
  "wheel_run [] w = Some w"
| "wheel_run (WAdd fd t cb # ops) w =
     (case AddTimeout w fd t cb of None \<Rightarrow> None | Some (e, w) \<Rightarrow> wheel_run ops w)"
| "wheel_run (WRemove fd # ops) w =
     (case RemoveTimeout w fd of None \<Rightarrow> None | Some (e, w) \<Rightarrow> wheel_run ops w)"
| "wheel_run (WTick # ops) w = (case Tick w of None \<Rightarrow> None | Some (n, w) \<Rightarrow> wheel_run ops w)"

lemma wheel_run_ok: "wheel_run ops w = Some w' \<Longrightarrow> wheel_ok w \<Longrightarrow> wheel_ok w'"
proof (induction ops arbitrary: w)
  case (Cons x ops)
  then show ?case
    by (cases x) (auto split: option.splits dest: AddTimeout_ok RemoveTimeout_ok Tick_ok)
qed simp

fun count_down_by :: "nat \<Rightarrow> nat option \<Rightarrow> nat option" where
  "count_down_by k None = None"
| "count_down_by k (Some n) = (if k \<le> n then Some (n - k) else None)"

lemma ticks_run:
  "wheel_ok w \<Longrightarrow> \<exists>w'. wheel_run (replicate k WTick) w = Some w' \<and> wheel_ok w' \<and>
     due w' = (\<lambda>fd. count_down_by k (due w fd))"
proof (induction k arbitrary: w)
  case 0
  have "count_down_by 0 x = x" for x by (cases x) auto
  with 0 show ?case by simp
next
  case (Suc k)
  from Tick_lemma [OF Suc.prems] obtain n v where
    v: "Tick w = Some (n, v)" "wheel_ok v" "due v = (\<lambda>fd. count_down (due w fd))" by blast
  from Suc.IH [OF v(2)] obtain w' where
    w': "wheel_run (replicate k WTick) v = Some w'" "wheel_ok w'"
      "due w' = (\<lambda>fd. count_down_by k (due v fd))" by blast
  have "count_down_by k (count_down x) = count_down_by (Suc k) x" for x
    by (cases x rule: count_down.cases) auto
  with v w' show ?case by simp
qed

text \<open>Touching a timer whose slot has not come up.\<close>

lemma fresh_timer_stuck:
  assumes w: "wheel_ok w" and "due w fd = None" "0 \<le> fd" "0 < t" "t < int (tw_size w)" "0 < t'" "t' \<le> int (tw_size w * kMaxCycles)"
  shows "\<exists>w'. AddTimeout w fd t (Some c) = Some (Error_Success, w') \<and>
    RemoveTimeout w' fd = None \<and> AddTimeout w' fd t' (Some c') = None"
proof -
  let ?n = "tw_size w" and ?c = "tw_current w"
  have t: "t \<le> int (?n * kMaxCycles)" "nat t mod ?n = nat t" "nat t \<le> ?n" "nat t < ?n" "0 < nat t"
    using assms(4,5) by auto
  have c: "?c < ?n" using w by (simp add: wheel_ok_def)
  from AddTimeout_new [OF w _ assms(3,4) t(1), of c] assms(2) t obtain w' where
    w': "AddTimeout w fd t (Some c) = Some (Error_Success, w')" "tw_size w' = ?n" "tw_current w' = ?c"
      "tw_timers w' fd = Some ((?c + nat t) mod ?n)" "task_remaining w' ((?c + nat t) mod ?n) fd = 0"
    by (auto simp: due_None)
  have "(?c + nat t) mod ?n \<noteq> ?c"
    using c t(4,5) by (cases "?c + nat t < ?n") (auto simp: mod_if)
  then have "cancel_task fd ((?c + nat t) mod ?n) w' = None"
    using w' c by (simp add: cancel_task_def erase_task_def)
  with w' assms(3,6,7) show ?thesis
    by (intro exI [of _ w']) (simp add: RemoveTimeout_def AddTimeout_def Let_def)
qed

subsection \<open>Properties\<close>

text \<open>C3: a tick is one step of every countdown. On a wheel reached by any run that stays defined, a
  tick is defined; it fires exactly the timers whose countdown is zero, as many as it reports, and
  every other countdown is one less. So no timer is lost, whatever slots and rounds it is in.\<close>

theorem wheel_tick_counts_down:
  assumes "0 < sz" "wheel_run ops (new_wheel sz interval) = Some w"
  shows "\<exists>n w'. Tick w = Some (n, w') \<and> due w' = (\<lambda>fd. count_down (due w fd)) \<and>
    n = card {fd. due w fd = Some 0} \<and>
    tw_fired w' = tw_fired w @
      task_calls (filter (\<lambda>t. tt_remaining t = 0) (tw_slots w ! tw_current w))"
  using Tick_lemma [OF wheel_run_ok [OF assms(2) new_wheel_ok [OF assms(1)]]] by blast

theorem wheel_tick_counts_down_witness:
  "\<exists>n w'. Tick (new_wheel 60 1000) = Some (n, w')"
  using wheel_tick_counts_down [of 60 "[]" 1000 "new_wheel 60 1000"] by auto

text \<open>When a timeout fires. A timer added for a descriptor that has none is still pending after
  \<open>k\<close> ticks exactly while \<open>k\<close> is at most its first countdown: the timeout modulo the wheel size, plus
  one tick per full round. For timeouts below the wheel size it therefore fires at tick timeout + 1;
  a timeout equal to the size fires at the very next tick; and a timeout of one round and \<open>r\<close> more
  seconds fires after \<open>r + 1\<close> ticks, not after a round.\<close>

theorem wheel_timeout_fires_after:
  assumes "0 < sz" "wheel_run ops (new_wheel sz interval) = Some w"
    and "due w fd = None" "0 \<le> fd" "0 < t" "t \<le> int (tw_size w * kMaxCycles)"
  shows "\<exists>w'. AddTimeout w fd t (Some c) = Some (Error_Success, w') \<and>
    (\<forall>k. \<exists>v. wheel_run (replicate k WTick) w' = Some v \<and>
       (HasTimer v fd \<longleftrightarrow> k \<le> first_countdown (tw_size w) (nat t)))"
proof -
  have w: "wheel_ok w" by (rule wheel_run_ok [OF assms(2) new_wheel_ok [OF assms(1)]])
  from AddTimeout_new [OF w _ assms(4-6), of c] assms(3) obtain w' where
    w': "AddTimeout w fd t (Some c) = Some (Error_Success, w')" "wheel_ok w'"
      "due w' fd = Some (first_countdown (tw_size w) (nat t))" by (auto simp: due_None)
  have "\<exists>v. wheel_run (replicate k WTick) w' = Some v \<and>
       (HasTimer v fd \<longleftrightarrow> k \<le> first_countdown (tw_size w) (nat t))" for k
    using ticks_run [OF w'(2), of k] w'(3) assms(4) by (auto simp: HasTimer_def simp flip: due_None)
  with w' show ?thesis by blast
qed

theorem wheel_timeout_fires_after_witness:
  "\<exists>w'. AddTimeout (new_wheel 60 1000) 5 61 (Some 0) = Some (Error_Success, w') \<and>
    (\<exists>v. wheel_run (replicate 3 WTick) w' = Some v \<and> \<not> HasTimer v 5)"
proof -
  have "due (new_wheel 60 1000) 5 = None" by (simp add: due_def new_wheel_def)
  from wheel_timeout_fires_after [of 60 "[]" 1000, OF _ _ this, of 61 0] obtain w' where
    w': "AddTimeout (new_wheel 60 1000) 5 61 (Some 0) = Some (Error_Success, w')"
      "\<And>k. \<exists>v. wheel_run (replicate k WTick) w' = Some v \<and>
       (HasTimer v 5 \<longleftrightarrow> k \<le> first_countdown (tw_size (new_wheel 60 1000)) (nat 61))"
    by (auto simp: new_wheel_def)
  from w'(1) w'(2) [of 3] show ?thesis by (auto simp: first_countdown_def new_wheel_def)
qed

text \<open>Cancelling a fresh timer is undefined behaviour. The code looks for the task in the slot the
  wheel is at, plus the rounds left, and not in the slot the task was put in: for a timeout below the
  wheel size, removing the timer before its slot has come up erases a list element through the wrong
  list, and so does setting the descriptor's timer anew.\<close>

theorem wheel_cancel_is_undefined:
  assumes "0 < sz" "wheel_run ops (new_wheel sz interval) = Some w"
    and "due w fd = None" "0 \<le> fd" "0 < t" "t < int (tw_size w)" "0 < t'" "t' \<le> int (tw_size w * kMaxCycles)"
  shows "\<exists>w'. AddTimeout w fd t (Some c) = Some (Error_Success, w') \<and>
    RemoveTimeout w' fd = None \<and> AddTimeout w' fd t' (Some c') = None"
  by (rule fresh_timer_stuck [OF wheel_run_ok [OF assms(2) new_wheel_ok [OF assms(1)]] assms(3-8)])

theorem wheel_cancel_is_undefined_witness:
  "\<exists>w'. AddTimeout (new_wheel 60 1000) 5 30 (Some 0) = Some (Error_Success, w') \<and> RemoveTimeout w' 5 = None"
proof -
  have "due (new_wheel 60 1000) 5 = None" by (simp add: due_def new_wheel_def)
  from wheel_cancel_is_undefined [of 60 "[]" 1000, OF _ _ this, of 30 30 0 0] show ?thesis
    by (auto simp: new_wheel_def)
qed

end
