(* ===== verification/EventLoop.thy ===== *)
theory EventLoop
  imports BatchIO TimerWheel
begin

text \<open>
  The event loop (include/reactor/event_loop.h, reactor/event_loop.cpp): one thread that ticks its
  timer wheel, waits for events, calls the callbacks of the ready descriptors and then runs the
  functors other threads have queued.

  The state is an extensible record: what callbacks and functors work on (a connection, say) extends it, and
  the operations here apply to every extension. A functor is a value, and \<open>exec\<close> says what calling it
  does; a callback of the wheel is a number, and \<open>fire\<close> says what it does. \<open>None\<close> is undefined
  behaviour. The answers of the kernel are arguments: whether \<open>epoll_ctl\<close> succeeded, what
  \<open>epoll_wait\<close> returned. \<open>in_thread\<close> is the answer of \<open>IsInLoopThread\<close>.

  The wheel calls its callbacks with its mutex locked, and the mutex is not recursive: while they run
  \<open>el_wheel_locked\<close> is set, and a call into the wheel from the loop thread is undefined. They run here
  after the whole slot has been processed instead of task by task, which they cannot tell apart since
  they cannot look at the wheel.
\<close>

record 'f event_loop =
  el_looping :: bool
  el_quit :: bool
  el_calling :: bool
  el_wakeup_fd :: int
  el_wakeups :: nat
  el_pending :: "'f list"
  el_registered :: "int \<rightharpoonup> 32 word"
  el_read_fds :: "int set"
  el_write_fds :: "int set"
  el_timers :: timer_wheel
  el_wheel_locked :: bool

definition Wakeup :: "('f, 'z) event_loop_scheme \<Rightarrow> ('f, 'z) event_loop_scheme" where
  "Wakeup l = l\<lparr>el_wakeups := el_wakeups l + 1\<rparr>"

definition HandleReadForWakeup :: "('f, 'z) event_loop_scheme \<Rightarrow> ('f, 'z) event_loop_scheme" where
  "HandleReadForWakeup l = l\<lparr>el_wakeups := 0\<rparr>"

definition Quit :: "bool \<Rightarrow> ('f, 'z) event_loop_scheme \<Rightarrow> ('f, 'z) event_loop_scheme" where
  "Quit in_thread l = (let l = l\<lparr>el_quit := True\<rparr> in if in_thread then l else Wakeup l)"

definition QueueInLoop :: "bool \<Rightarrow> 'f \<Rightarrow> ('f, 'z) event_loop_scheme \<Rightarrow> ('f, 'z) event_loop_scheme" where
  "QueueInLoop in_thread cb l =
     (let l = l\<lparr>el_pending := el_pending l @ [cb]\<rparr>
      in if \<not> in_thread \<or> el_calling l then Wakeup l else l)"

definition RunInLoop ::
  "('f \<Rightarrow> ('f, 'z) event_loop_scheme \<Rightarrow> ('f, 'z) event_loop_scheme option) \<Rightarrow> bool \<Rightarrow> 'f \<Rightarrow>
   ('f, 'z) event_loop_scheme \<Rightarrow> ('f, 'z) event_loop_scheme option" where
  "RunInLoop exec in_thread cb l = (if in_thread then exec cb l else Some (QueueInLoop in_thread cb l))"

text \<open>\<open>UpdateEvent\<close> from another thread queues itself, as the functor \<open>again\<close>.\<close>

definition UpdateEvent ::
  "bool \<Rightarrow> 'f \<Rightarrow> bool \<Rightarrow> int \<Rightarrow> 32 word \<Rightarrow> ('f, 'z) event_loop_scheme \<Rightarrow> ('f, 'z) event_loop_scheme" where
  "UpdateEvent in_thread again ctl_ok fd events l =
     (if in_thread
      then (case el_registered l fd of
              None \<Rightarrow> if \<not> ctl_ok then l else l\<lparr>el_registered := (el_registered l)(fd \<mapsto> events)\<rparr>
            | Some _ \<Rightarrow> if \<not> ctl_ok then l else l\<lparr>el_registered := (el_registered l)(fd \<mapsto> events)\<rparr>)
      else QueueInLoop in_thread again l)"

definition RemoveEvent :: "int \<Rightarrow> ('f, 'z) event_loop_scheme \<Rightarrow> ('f, 'z) event_loop_scheme" where
  "RemoveEvent fd l =
     (if el_registered l fd \<noteq> None then l\<lparr>el_registered := (el_registered l)(fd := None)\<rparr> else l)"

definition SetReadCallback :: "int \<Rightarrow> ('f, 'z) event_loop_scheme \<Rightarrow> ('f, 'z) event_loop_scheme" where
  "SetReadCallback fd l = l\<lparr>el_read_fds := insert fd (el_read_fds l)\<rparr>"

definition SetWriteCallback :: "int \<Rightarrow> ('f, 'z) event_loop_scheme \<Rightarrow> ('f, 'z) event_loop_scheme" where
  "SetWriteCallback fd l = l\<lparr>el_write_fds := insert fd (el_write_fds l)\<rparr>"

definition new_event_loop :: "bool \<Rightarrow> 'f \<Rightarrow> int \<Rightarrow> 'f event_loop" where
  "new_event_loop ctl_ok again wakeup_fd =
     UpdateEvent True again ctl_ok wakeup_fd EPOLLIN
       \<lparr>el_looping = False, el_quit = False, el_calling = False, el_wakeup_fd = wakeup_fd, el_wakeups = 0,
        el_pending = [], el_registered = Map.empty, el_read_fds = {}, el_write_fds = {},
        el_timers = new_wheel 60 1000, el_wheel_locked = False\<rparr>"

text \<open>Setting a timer from another thread stores the result in a variable that is gone when the
  functor runs.\<close>

definition loop_AddTimer ::
  "bool \<Rightarrow> int \<Rightarrow> int \<Rightarrow> nat option \<Rightarrow> ('f, 'z) event_loop_scheme \<Rightarrow>
   (error_obj \<times> ('f, 'z) event_loop_scheme) option" where
  "loop_AddTimer in_thread fd timeout_seconds callback l =
     (if \<not> in_thread \<or> el_wheel_locked l then None
      else map_option (\<lambda>(e, w). (e, l\<lparr>el_timers := w\<rparr>))
             (AddTimeout (el_timers l) fd timeout_seconds callback))"

definition loop_RemoveTimer ::
  "bool \<Rightarrow> int \<Rightarrow> ('f, 'z) event_loop_scheme \<Rightarrow> (error_obj \<times> ('f, 'z) event_loop_scheme) option" where
  "loop_RemoveTimer in_thread fd l =
     (if \<not> in_thread \<or> el_wheel_locked l then None
      else map_option (\<lambda>(e, w). (e, l\<lparr>el_timers := w\<rparr>)) (RemoveTimeout (el_timers l) fd))"

fun run_functors :: "('f \<Rightarrow> 's \<Rightarrow> 's option) \<Rightarrow> 'f list \<Rightarrow> 's \<Rightarrow> 's option" where
  "run_functors exec [] s = Some s"
| "run_functors exec (f # fs) s =
     (case exec f s of None \<Rightarrow> None | Some s \<Rightarrow> run_functors exec fs s)"

definition ProcessTimers ::
  "(nat \<Rightarrow> ('f, 'z) event_loop_scheme \<Rightarrow> ('f, 'z) event_loop_scheme option) \<Rightarrow>
   ('f, 'z) event_loop_scheme \<Rightarrow> ('f, 'z) event_loop_scheme option" where
  "ProcessTimers fire l =
     (case Tick (el_timers l) of
        None \<Rightarrow> None
      | Some (triggered, w) \<Rightarrow>
          map_option (\<lambda>l. l\<lparr>el_wheel_locked := False\<rparr>)
            (run_functors fire (drop (length (tw_fired (el_timers l))) (tw_fired w))
               (l\<lparr>el_timers := w, el_wheel_locked := True\<rparr>)))"

definition poll_timeout :: "('f, 'z) event_loop_scheme \<Rightarrow> int" where
  "poll_timeout l =
     (let next_timeout = GetNextTickTimeout (el_timers l)
      in if next_timeout < 0 then 100
         else if next_timeout = 0 then 0
         else if next_timeout > 1000 then 1000
         else next_timeout)"

text \<open>What \<open>epoll_wait\<close> returned: \<open>None\<close> for an error.\<close>

definition ProcessEvents ::
  "(int \<Rightarrow> ('f, 'z) event_loop_scheme \<Rightarrow> ('f, 'z) event_loop_scheme option) \<Rightarrow>
   (int \<Rightarrow> ('f, 'z) event_loop_scheme \<Rightarrow> ('f, 'z) event_loop_scheme option) \<Rightarrow>
   epoll_event list option \<Rightarrow> ('f, 'z) event_loop_scheme \<Rightarrow> ('f, 'z) event_loop_scheme option" where
  "ProcessEvents on_read on_write answer l =
     (case answer of
        None \<Rightarrow> Some l
      | Some [] \<Rightarrow> Some l
      | Some events \<Rightarrow>
          map_option
            (\<lambda>(result, l).
               fold (\<lambda>e l. if ev_fd e = el_wakeup_fd l \<and> ev_events e AND EPOLLIN \<noteq> 0
                            then HandleReadForWakeup l else l) events l)
            (ProcessBatch events
               (Some (\<lambda>fd l. if fd \<in> el_read_fds l then on_read fd l else Some l))
               (Some (\<lambda>fd l. if fd \<in> el_write_fds l then on_write fd l else Some l))
               (Some (\<lambda>fd l. Some (RemoveEvent fd l)))
               l))"

definition HandleEvent ::
  "(int \<Rightarrow> ('f, 'z) event_loop_scheme \<Rightarrow> ('f, 'z) event_loop_scheme option) \<Rightarrow>
   (int \<Rightarrow> ('f, 'z) event_loop_scheme \<Rightarrow> ('f, 'z) event_loop_scheme option) \<Rightarrow>
   int \<Rightarrow> 32 word \<Rightarrow> ('f, 'z) event_loop_scheme \<Rightarrow> ('f, 'z) event_loop_scheme option" where
  "HandleEvent on_read on_write fd events l =
     (case (if events AND EPOLLIN \<noteq> 0 \<and> fd \<in> el_read_fds l then on_read fd l else Some l) of
        None \<Rightarrow> None
      | Some l \<Rightarrow>
          (case (if events AND EPOLLOUT \<noteq> 0 \<and> fd \<in> el_write_fds l then on_write fd l else Some l) of
             None \<Rightarrow> None
           | Some l \<Rightarrow>
               Some (if events AND (EPOLLERR OR EPOLLHUP) \<noteq> 0 then RemoveEvent fd l else l)))"

text \<open>\<open>DoPendingFunctors\<close>: the swap under the lock, the calls, the end.\<close>

definition swap_pending :: "('f, 'z) event_loop_scheme \<Rightarrow> 'f list \<times> ('f, 'z) event_loop_scheme" where
  "swap_pending l = (el_pending l, l\<lparr>el_calling := True, el_pending := []\<rparr>)"

definition end_calling :: "('f, 'z) event_loop_scheme \<Rightarrow> ('f, 'z) event_loop_scheme" where
  "end_calling l = l\<lparr>el_calling := False\<rparr>"

definition DoPendingFunctors ::
  "('f \<Rightarrow> ('f, 'z) event_loop_scheme \<Rightarrow> ('f, 'z) event_loop_scheme option) \<Rightarrow>
   ('f, 'z) event_loop_scheme \<Rightarrow> ('f, 'z) event_loop_scheme option" where
  "DoPendingFunctors exec l =
     (let (functors, l) = swap_pending l in map_option end_calling (run_functors exec functors l))"

text \<open>A turn of the loop, with what other threads queue while it waits.\<close>

definition loop_turn ::
  "(nat \<Rightarrow> ('f, 'z) event_loop_scheme \<Rightarrow> ('f, 'z) event_loop_scheme option) \<Rightarrow>
   (int \<Rightarrow> ('f, 'z) event_loop_scheme \<Rightarrow> ('f, 'z) event_loop_scheme option) \<Rightarrow>
   (int \<Rightarrow> ('f, 'z) event_loop_scheme \<Rightarrow> ('f, 'z) event_loop_scheme option) \<Rightarrow>
   ('f \<Rightarrow> ('f, 'z) event_loop_scheme \<Rightarrow> ('f, 'z) event_loop_scheme option) \<Rightarrow>
   'f list \<times> epoll_event list option \<Rightarrow>
   ('f, 'z) event_loop_scheme \<Rightarrow> (int \<times> ('f, 'z) event_loop_scheme) option" where
  "loop_turn fire on_read on_write exec answer l =
     (case ProcessTimers fire l of
        None \<Rightarrow> None
      | Some l \<Rightarrow>
          (let next_timeout = poll_timeout l
           in case ProcessEvents on_read on_write (snd answer) (fold (QueueInLoop False) (fst answer) l) of
                None \<Rightarrow> None
              | Some l \<Rightarrow> map_option (Pair next_timeout) (DoPendingFunctors exec l)))"

text \<open>\<open>Loop\<close> on the answers it gets until it quits; it returns the timeouts it waited with.\<close>

fun turns ::
  "(('f list \<times> epoll_event list option) \<Rightarrow>
     ('f, 'z) event_loop_scheme \<Rightarrow> (int \<times> ('f, 'z) event_loop_scheme) option) \<Rightarrow>
   ('f list \<times> epoll_event list option) list \<Rightarrow>
   ('f, 'z) event_loop_scheme \<Rightarrow> (int list \<times> ('f, 'z) event_loop_scheme) option" where
  "turns turn [] l = Some ([], l)"
| "turns turn (a # as) l =
     (if el_quit l then Some ([], l\<lparr>el_looping := False\<rparr>)
      else case turn a l of
             None \<Rightarrow> None
           | Some (t, l) \<Rightarrow> map_option (\<lambda>(ts, l). (t # ts, l)) (turns turn as l))"

definition Loop ::
  "(('f list \<times> epoll_event list option) \<Rightarrow>
     ('f, 'z) event_loop_scheme \<Rightarrow> (int \<times> ('f, 'z) event_loop_scheme) option) \<Rightarrow>
   ('f list \<times> epoll_event list option) list \<Rightarrow>
   ('f, 'z) event_loop_scheme \<Rightarrow> (int list \<times> ('f, 'z) event_loop_scheme) option" where
  "Loop turn answers l = turns turn answers (l\<lparr>el_looping := True, el_quit := False\<rparr>)"

subsection \<open>Functors of other threads\<close>

text \<open>
  The loop with other threads, step by step. A turn goes through its timers, the wait, the handling of
  events and the draining of the functors; between any two steps another thread may queue a functor.
  Callbacks and functors of the loop thread may queue some too. \<open>lp_queued\<close> and \<open>lp_ran\<close> are the
  functors queued and called since the start, \<open>lp_late\<close> counts those the timer callbacks of the turn
  have queued.
\<close>

datatype phase = Timers | Waiting | Handling | Draining

record 'f loop_process = "'f event_loop" +
  lp_phase :: phase
  lp_batch :: "'f list"
  lp_queued :: "'f list"
  lp_ran :: "'f list"
  lp_late :: nat

definition start_process :: "'f event_loop \<Rightarrow> 'f loop_process" where
  "start_process l = event_loop.extend l
     \<lparr>lp_phase = Timers, lp_batch = [], lp_queued = [], lp_ran = [], lp_late = 0\<rparr>"

inductive loop_step :: "'f loop_process \<Rightarrow> 'f loop_process \<Rightarrow> bool" where
  other_thread: "loop_step s ((QueueInLoop False f s)\<lparr>lp_queued := lp_queued s @ [f]\<rparr>)"
| timer_callback: "lp_phase s = Timers \<Longrightarrow>
    loop_step s ((QueueInLoop True f s)\<lparr>lp_queued := lp_queued s @ [f], lp_late := lp_late s + 1\<rparr>)"
| event_callback: "lp_phase s = Handling \<or> lp_phase s = Draining \<Longrightarrow>
    loop_step s ((QueueInLoop True f s)\<lparr>lp_queued := lp_queued s @ [f]\<rparr>)"
| wait: "lp_phase s = Timers \<Longrightarrow> loop_step s (s\<lparr>lp_phase := Waiting\<rparr>)"
| wake: "lp_phase s = Waiting \<Longrightarrow> loop_step s (s\<lparr>lp_phase := Handling\<rparr>)"
| read_wakeup: "lp_phase s = Handling \<Longrightarrow> loop_step s (HandleReadForWakeup s)"
| drain: "lp_phase s = Handling \<Longrightarrow> swap_pending s = (fs, s') \<Longrightarrow>
    loop_step s (s'\<lparr>lp_phase := Draining, lp_batch := fs\<rparr>)"
| call: "lp_phase s = Draining \<Longrightarrow> lp_batch s = f # fs \<Longrightarrow>
    loop_step s (s\<lparr>lp_batch := fs, lp_ran := lp_ran s @ [f]\<rparr>)"
| turn: "lp_phase s = Draining \<Longrightarrow> lp_batch s = [] \<Longrightarrow>
    loop_step s ((end_calling s)\<lparr>lp_phase := Timers, lp_late := 0\<rparr>)"

inductive loop_reaches :: "'f loop_process \<Rightarrow> 'f loop_process \<Rightarrow> bool" where
  here: "loop_reaches s s"
| there: "loop_reaches s t \<Longrightarrow> loop_step t u \<Longrightarrow> loop_reaches s u"

definition process_inv :: "'f loop_process \<Rightarrow> bool" where
  "process_inv s \<longleftrightarrow>
     lp_ran s @ lp_batch s @ el_pending s = lp_queued s \<and>
     (el_calling s \<longleftrightarrow> lp_phase s = Draining) \<and>
     (lp_phase s \<noteq> Draining \<longrightarrow> lp_batch s = []) \<and>
     (lp_phase s = Draining \<longrightarrow> el_wakeups s = 0 \<longrightarrow> el_pending s = []) \<and>
     (lp_phase s = Timers \<or> lp_phase s = Waiting \<longrightarrow> el_wakeups s = 0 \<longrightarrow> length (el_pending s) \<le> lp_late s)"

lemmas loop_ops = QueueInLoop_def Wakeup_def HandleReadForWakeup_def swap_pending_def end_calling_def Let_def

lemma loop_step_inv: "loop_step s t \<Longrightarrow> process_inv s \<Longrightarrow> process_inv t"
  by (induction rule: loop_step.induct) (auto simp: process_inv_def loop_ops)

lemma loop_reaches_inv: "loop_reaches s t \<Longrightarrow> process_inv s \<Longrightarrow> process_inv t"
  by (induction rule: loop_reaches.induct) (auto intro: loop_step_inv)

lemma start_inv: "process_inv (start_process (new_event_loop ok again fd))"
  by (simp add: process_inv_def start_process_def event_loop.defs new_event_loop_def UpdateEvent_def)


lemma drains_pending:
  "lp_phase s = Draining \<Longrightarrow> loop_reaches s0 s \<Longrightarrow>
   loop_reaches s0 (s\<lparr>lp_batch := [], lp_ran := lp_ran s @ lp_batch s\<rparr>)"
proof (induction "lp_batch s" arbitrary: s)
  case Nil
  then have "s\<lparr>lp_batch := [], lp_ran := lp_ran s @ lp_batch s\<rparr> = s" by (cases s) simp
  with Nil.prems show ?case by metis
next
  case (Cons f fs)
  let ?s = "s\<lparr>lp_batch := fs, lp_ran := lp_ran s @ [f]\<rparr>"
  have "loop_reaches s0 ?s"
    using Cons.prems Cons.hyps(2) by (intro loop_reaches.there [OF Cons.prems(2)] loop_step.call) auto
  from Cons.hyps(1) [of ?s] this Cons.prems Cons.hyps(2) [symmetric] show ?case by simp
qed

text \<open>Every functor gets its turn: from any state the loop reaches it can, without any further
  event and whatever was queued, reach one in which everything queued so far has been called.\<close>
theorem queued_functors_get_called:
  assumes "loop_reaches (start_process (new_event_loop ok again fd)) s"
  shows "\<exists>t. loop_reaches s t \<and> lp_phase t = Draining \<and> lp_ran t = lp_queued s \<and> lp_queued t = lp_queued s"
proof -
  have inv: "process_inv s" by (rule loop_reaches_inv [OF assms start_inv])
  have handling: "\<exists>t. loop_reaches s t \<and> lp_phase t = Draining \<and> lp_ran t = lp_queued s \<and> lp_queued t = lp_queued s"
    if u: "loop_reaches s u" "lp_phase u = Handling" "lp_queued u = lp_queued s" "process_inv u" for u
  proof -
    let ?v = "(snd (swap_pending u))\<lparr>lp_phase := Draining, lp_batch := el_pending u\<rparr>"
    have v: "loop_reaches s ?v"
      by (rule loop_reaches.there [OF u(1)]) (use u(2) in \<open>auto intro: loop_step.drain simp: swap_pending_def\<close>)
    from drains_pending [OF _ v] show ?thesis
      using u(2,3,4) by (auto simp: process_inv_def swap_pending_def)
  qed
  have waiting: "\<exists>t. loop_reaches s t \<and> lp_phase t = Draining \<and> lp_ran t = lp_queued s \<and> lp_queued t = lp_queued s"
    if u: "loop_reaches s u" "lp_phase u = Waiting" "lp_queued u = lp_queued s" "process_inv u" for u
    using handling [of "u\<lparr>lp_phase := Handling\<rparr>"] loop_reaches.there [OF u(1) loop_step.wake [OF u(2)]] u
    by (auto simp: process_inv_def)
  have timers: "\<exists>t. loop_reaches s t \<and> lp_phase t = Draining \<and> lp_ran t = lp_queued s \<and> lp_queued t = lp_queued s"
    if u: "loop_reaches s u" "lp_phase u = Timers" "lp_queued u = lp_queued s" "process_inv u" for u
    using waiting [of "u\<lparr>lp_phase := Waiting\<rparr>"] loop_reaches.there [OF u(1) loop_step.wait [OF u(2)]] u
    by (auto simp: process_inv_def)
  show ?thesis
  proof (cases "lp_phase s")
    case Draining
    let ?t = "s\<lparr>lp_batch := [], lp_ran := lp_ran s @ lp_batch s\<rparr>"
    let ?u = "(end_calling ?t)\<lparr>lp_phase := Timers, lp_late := 0\<rparr>"
    have t: "loop_reaches s ?t" by (rule drains_pending [OF Draining here])
    have "loop_reaches s ?u"
      by (rule loop_reaches.there [OF t loop_step.turn]) (use Draining in simp_all)
    moreover have "process_inv ?u" by (rule loop_reaches_inv [OF calculation inv])
    ultimately show ?thesis using timers [of ?u] by (simp add: end_calling_def)
  qed (use inv handling waiting timers here in blast)+
qed


theorem queued_functors_get_called_witness:
  "\<exists>t. loop_reaches (start_process (new_event_loop True (0::nat) 3)) t \<and> lp_phase t = Draining"
  using queued_functors_get_called [OF here, of True "0::nat" 3] by blast

subsection \<open>Time is counted in turns\<close>

lemma run_functors_keeps: "\<forall>f. keeps P (exec f) \<Longrightarrow> keeps P (run_functors exec fs)"
  proof (unfold keeps_def, induction fs)
  case (Cons f fs)
  show ?case
  proof (intro allI impI)
    fix s assume "P s"
    then obtain s1 where "exec f s = Some s1" "P s1" using Cons.prems by blast
    then show "\<exists>s'. run_functors exec (f # fs) s = Some s' \<and> P s'" using Cons by auto
  qed
qed simp

lemma fold_keeps: "(\<And>e l. P l \<Longrightarrow> P (f e l)) \<Longrightarrow> P l \<Longrightarrow> P (fold f es l)"
  by (induction es arbitrary: l) auto

text \<open>Callbacks and functors that keep the timers and do not quit.\<close>

definition timers_are ::
  "timer_wheel \<Rightarrow> ('f, 'z) event_loop_scheme \<Rightarrow> bool" where
  "timers_are w l \<longleftrightarrow> el_timers l = w \<and> \<not> el_quit l"

definition quiet :: "'a \<Rightarrow> 's \<Rightarrow> 's option" where
  "quiet a l = Some l"

lemma quiet_keeps: "keeps P (quiet a)"
  by (simp add: keeps_def quiet_def)

lemma loop_ops_timers:
  "timers_are w (QueueInLoop b f l) = timers_are w l" "timers_are w (HandleReadForWakeup l) = timers_are w l"
  "timers_are w (RemoveEvent fd l) = timers_are w l" "timers_are w (end_calling l) = timers_are w l"
  "timers_are w (snd (swap_pending l)) = timers_are w l"
  by (simp_all add: timers_are_def loop_ops RemoveEvent_def)

lemma ProcessEvents_timers:
  assumes "timers_are w l"
  shows "\<exists>l'. ProcessEvents quiet quiet answer l = Some l' \<and> timers_are w l'"
proof -
  let ?P = "timers_are w"
  have "\<forall>fd. keeps ?P (\<lambda>l. if fd \<in> el_read_fds l then quiet fd l else Some l)"
    "\<forall>fd. keeps ?P (\<lambda>l. if fd \<in> el_write_fds l then quiet fd l else Some l)"
    "\<forall>fd. keeps ?P (\<lambda>l. Some (RemoveEvent fd l))"
    by (simp_all add: keeps_def quiet_def loop_ops_timers)
  note batch = ProcessBatch_keeps [OF this assms]
  show ?thesis
  proof (cases "answer = None \<or> answer = Some []")
    case True
    then show ?thesis using assms by (auto simp: ProcessEvents_def)
  next
    case False
    then obtain e es where a: "answer = Some (e # es)" by (cases answer; cases "the answer") auto
    from batch [of "e # es"] obtain n l1 where
      "ProcessBatch (e # es) (Some (\<lambda>fd l. if fd \<in> el_read_fds l then quiet fd l else Some l))
       (Some (\<lambda>fd l. if fd \<in> el_write_fds l then quiet fd l else Some l))
       (Some (\<lambda>fd l. Some (RemoveEvent fd l))) l = Some (n, l1)" "?P l1" by blast
    moreover have "?P (fold (\<lambda>e l. if ev_fd e = el_wakeup_fd l \<and> ev_events e AND EPOLLIN \<noteq> 0
        then HandleReadForWakeup l else l) (e # es) l1)"
      by (rule fold_keeps [where P = ?P]) (simp_all add: loop_ops_timers calculation(2))
    ultimately show ?thesis by (simp add: ProcessEvents_def a del: fold_simps)
  qed
qed

lemma quiet_turn:
  assumes "wheel_ok (el_timers l)" "\<not> el_quit l" "Tick (el_timers l) = Some (n, w)"
  shows "\<exists>t l'. loop_turn quiet quiet quiet quiet a l = Some (t, l') \<and> timers_are w l' \<and>
    t = poll_timeout (l\<lparr>el_timers := w\<rparr>)"
proof -
  let ?l = "l\<lparr>el_timers := w, el_wheel_locked := False\<rparr>"
  have run: "run_functors quiet fs s = Some s" for fs :: "'x list" and s :: 's
    by (induction fs) (simp_all add: quiet_def)
  have p: "ProcessTimers quiet l = Some ?l"
    by (simp add: ProcessTimers_def assms(3) run)
  have "timers_are w (fold (QueueInLoop False) (fst a) ?l)"
    using assms(2) by (subst fold_keeps [where P = "timers_are w"]) (simp_all add: loop_ops_timers, simp add: timers_are_def)
  from ProcessEvents_timers [OF this, of "snd a"] obtain l2 where
    l2: "ProcessEvents quiet quiet (snd a) (fold (QueueInLoop False) (fst a) ?l) = Some l2" "timers_are w l2"
    by blast
  have "DoPendingFunctors quiet l2 = Some (end_calling (snd (swap_pending l2)))"
    by (simp add: DoPendingFunctors_def run split: prod.split)
  then show ?thesis
    using l2 p by (simp add: loop_turn_def Let_def loop_ops_timers poll_timeout_def)
qed

lemma quiet_turns:
  "wheel_ok (el_timers l) \<Longrightarrow> \<not> el_quit l \<Longrightarrow>
   \<exists>ts l' w. turns (loop_turn quiet quiet quiet quiet) as l = Some (ts, l') \<and> timers_are w l' \<and>
     wheel_run (replicate (length as) WTick) (el_timers l) = Some w"
proof (induction as arbitrary: l)
  case Nil
  then show ?case by (simp add: timers_are_def)
next
  case (Cons a as)
  obtain n w where t: "Tick (el_timers l) = Some (n, w)" "wheel_ok w"
    using Tick_lemma [OF Cons.prems(1)] by blast
  from quiet_turn [OF Cons.prems t(1), of a] obtain x l2 where
    l2: "loop_turn quiet quiet quiet quiet a l = Some (x, l2)" "timers_are w l2" by blast
  then have "wheel_ok (el_timers l2)" "\<not> el_quit l2" using t(2) by (simp_all add: timers_are_def)
  from Cons.IH [OF this] l2 t(1) Cons.prems(2) show ?case by (fastforce simp: timers_are_def)
qed

text \<open>The loop ticks its wheel once per turn, not once per second. A timer of \<open>t\<close> seconds set on a
  new loop is still set after \<open>n\<close> turns exactly while \<open>n \<le> t\<close>, whatever \<open>epoll_wait\<close> returned in
  those turns and however fast: under traffic a timeout of fifteen seconds is over after sixteen
  turns.\<close>
theorem timers_count_turns:
  assumes "0 \<le> fd" "0 < t" "t < 60"
  shows "\<exists>l. loop_AddTimer True fd t (Some c) (new_event_loop ok again wfd) = Some (Error_Success, l) \<and>
    (\<exists>ts l'. turns (loop_turn quiet quiet quiet quiet) answers l = Some (ts, l') \<and>
       (HasTimer (el_timers l') fd \<longleftrightarrow> length answers \<le> nat t))"
proof -
  let ?w = "new_wheel 60 1000"
  have ok: "wheel_ok ?w" by (rule new_wheel_ok) simp
  have new: "tw_timers ?w fd = None" and size: "tw_size ?w = 60" by (simp_all add: new_wheel_def)
  from AddTimeout_new [OF ok new assms(1,2), of c] assms(3) size obtain w where
    w: "AddTimeout ?w fd t (Some c) = Some (Error_Success, w)" "wheel_ok w" "due w fd = Some (nat t)"
    by (auto simp: first_countdown_def)
  define l where "l = (new_event_loop ok again wfd)\<lparr>el_timers := w\<rparr>"
  have l: "loop_AddTimer True fd t (Some c) (new_event_loop ok again wfd) = Some (Error_Success, l)"
    "el_timers l = w" "\<not> el_quit l"
    using w(1) by (simp_all add: loop_AddTimer_def new_event_loop_def UpdateEvent_def l_def)
  from quiet_turns [of l answers] w(2) l obtain ts l' w' where
    r: "turns (loop_turn quiet quiet quiet quiet) answers l = Some (ts, l')" "timers_are w' l'"
      "wheel_run (replicate (length answers) WTick) w = Some w'" by auto
  then have "due w' fd = count_down_by (length answers) (Some (nat t))"
    using ticks_run [OF w(2), of "length answers"] w(3) by auto
  then have "HasTimer w' fd \<longleftrightarrow> length answers \<le> nat t"
    using assms(1) by (auto simp: HasTimer_def simp flip: due_None)
  then show ?thesis using l(1) r by (auto simp: timers_are_def)
qed

theorem timers_count_turns_witness:
  "\<exists>l. loop_AddTimer True 5 15 (Some 2) (new_event_loop True (0::nat) 3) = Some (Error_Success, l) \<and>
    (\<exists>ts l'. turns (loop_turn quiet quiet quiet quiet) (replicate 16 ([], Some [])) l = Some (ts, l') \<and>
       \<not> HasTimer (el_timers l') 5)"
  using timers_count_turns [of 5 15 2 True "0::nat" 3 "replicate 16 ([], Some [])"] by auto

text \<open>The loop never waits for long, and never spins: it waits the interval of the wheel, a second,
  while there are timers and a tenth of a second while there are none.\<close>
theorem waits_are_bounded:
  "poll_timeout l = (if dom (tw_timers (el_timers l)) = {} then 100
     else let i = tw_interval (el_timers l) in if i < 0 then 100 else min i 1000) \<and>
   poll_timeout (new_event_loop ok again fd) = 100 \<and> 0 \<le> poll_timeout l \<and> poll_timeout l \<le> 1000"
  by (auto simp: poll_timeout_def GetNextTickTimeout_def Let_def new_event_loop_def UpdateEvent_def new_wheel_def)

end
