(* ===== verification/StaticCache.thy ===== *)
theory StaticCache
  imports Evicting
begin

text \<open>
  The cache of static files (include/static_resource_manager.h, src/static_resource_manager.cpp):
  mapped files in a list from the most to the least recently used one, a map from paths to iterators
  of that list, and the sum of the sizes.

  A list node has an identity, which is what an iterator of it holds; using an iterator whose node is
  gone is undefined, the result \<open>None\<close>. A resource owns the bytes its address points to. What the file
  system answers to one \<open>Load\<close> is the parameter \<open>file_probe\<close>. \<open>GetResource\<close> locks its mutex twice, and
  each locked section is an operation of its own, because other threads may run between them. Sizes
  and counters are natural numbers: the sizes of files that are mapped at the same time cannot
  overflow \<open>size_t\<close>.
\<close>

record static_resource =
  sr_addr :: bytes
  sr_size :: nat
  sr_path :: string

record cache_item =
  ci_node :: nat
  ci_path :: string
  ci_resource :: static_resource

record resource_cache =
  rc_max :: nat
  rc_current :: nat
  rc_lru :: "cache_item list"
  rc_map :: "string \<rightharpoonup> nat"
  rc_requests :: nat
  rc_hits :: nat
  rc_fresh :: nat

definition new_cache :: resource_cache where
  "new_cache = \<lparr>rc_max = 1024 * 1024 * 512, rc_current = 0, rc_lru = [], rc_map = Map.empty,
     rc_requests = 0, rc_hits = 0, rc_fresh = 0\<rparr>"

definition SetCacheLimit :: "resource_cache \<Rightarrow> nat \<Rightarrow> resource_cache" where
  "SetCacheLimit c max_mem_bytes = c\<lparr>rc_max := max_mem_bytes\<rparr>"

text \<open>The answers of \<open>open\<close>, \<open>fstat\<close> (the size) and \<open>mmap\<close>.\<close>

record file_probe =
  fp_opens :: bool
  fp_stat :: "nat option"
  fp_mmap :: "bytes option"

definition Load :: "file_probe \<Rightarrow> string \<Rightarrow> static_resource option" where
  "Load os path =
     (if \<not> fp_opens os then None
      else case fp_stat os of
             None \<Rightarrow> None
           | Some st_size \<Rightarrow>
               if st_size = 0 then None
               else case fp_mmap os of
                      None \<Rightarrow> None
                    | Some addr \<Rightarrow> Some \<lparr>sr_addr = addr, sr_size = st_size, sr_path = path\<rparr>)"

definition Evict :: "resource_cache \<Rightarrow> resource_cache" where
  "Evict c =
     (if rc_lru c = [] then c
      else let node = last (rc_lru c)
           in c\<lparr>rc_current := rc_current c - sr_size (ci_resource node),
                rc_map := (rc_map c)(ci_path node := None),
                rc_lru := butlast (rc_lru c)\<rparr>)"

definition node_at :: "nat \<Rightarrow> resource_cache \<Rightarrow> cache_item option" where
  "node_at i c = find (\<lambda>x. ci_node x = i) (rc_lru c)"

text \<open>The first locked section: the resource of a hit, which becomes the most recently used one.\<close>

definition lookup_section :: "string \<Rightarrow> resource_cache \<Rightarrow> (static_resource option \<times> resource_cache) option" where
  "lookup_section path c =
     (let c = c\<lparr>rc_requests := rc_requests c + 1\<rparr>
      in case rc_map c path of
           None \<Rightarrow> Some (None, c)
         | Some it \<Rightarrow>
             (case node_at it c of
                None \<Rightarrow> None
              | Some node \<Rightarrow>
                  Some (Some (ci_resource node),
                        c\<lparr>rc_lru := node # filter (\<lambda>x. ci_node x \<noteq> it) (rc_lru c),
                          rc_hits := rc_hits c + 1\<rparr>)))"

definition over_limit :: "static_resource \<Rightarrow> resource_cache \<Rightarrow> bool" where
  "over_limit r c \<longleftrightarrow> rc_current c + sr_size r > rc_max c \<and> rc_lru c \<noteq> []"

definition push_item :: "string \<Rightarrow> static_resource \<Rightarrow> resource_cache \<Rightarrow> resource_cache" where
  "push_item path r c =
     c\<lparr>rc_lru := \<lparr>ci_node = rc_fresh c, ci_path = path, ci_resource = r\<rparr> # rc_lru c,
       rc_map := (rc_map c)(path \<mapsto> rc_fresh c),
       rc_current := rc_current c + sr_size r,
       rc_fresh := rc_fresh c + 1\<rparr>"

text \<open>The second locked section, after a miss.\<close>

definition load_section ::
  "file_probe \<Rightarrow> string \<Rightarrow> resource_cache \<Rightarrow> (static_resource option \<times> resource_cache) option" where
  "load_section os path c =
     (case rc_map c path of
        Some it \<Rightarrow> map_option (\<lambda>node. (Some (ci_resource node), c)) (node_at it c)
      | None \<Rightarrow>
          (case Load os path of
             None \<Rightarrow> Some (None, c)
           | Some r \<Rightarrow>
               Some (Some r, push_item path r (shrink (over_limit r) Evict (length (rc_lru c)) c))))"

definition GetResource ::
  "file_probe \<Rightarrow> string \<Rightarrow> resource_cache \<Rightarrow> (static_resource option \<times> resource_cache) option" where
  "GetResource os path c =
     (case lookup_section path c of
        None \<Rightarrow> None
      | Some (Some r, c) \<Rightarrow> Some (Some r, c)
      | Some (None, c) \<Rightarrow> load_section os path c)"

record cache_status =
  cs_memory_usage :: nat
  cs_files_count :: nat
  cs_requests :: nat
  cs_hits :: nat

definition cache_GetStatus :: "resource_cache \<Rightarrow> cache_status" where
  "cache_GetStatus c =
     \<lparr>cs_memory_usage = rc_current c, cs_files_count = card (dom (rc_map c)),
      cs_requests = rc_requests c, cs_hits = rc_hits c\<rparr>"

subsection \<open>Well-formed caches\<close>

abbreviation item_size :: "cache_item \<Rightarrow> nat" where
  "item_size x \<equiv> sr_size (ci_resource x)"

definition cache_ok :: "resource_cache \<Rightarrow> bool" where
  "cache_ok c \<longleftrightarrow>
     rc_current c = weights item_size (rc_lru c) \<and>
     distinct (map ci_path (rc_lru c)) \<and> distinct (map ci_node (rc_lru c)) \<and>
     (\<forall>x \<in> set (rc_lru c). ci_node x < rc_fresh c) \<and>
     (\<forall>p i. rc_map c p = Some i \<longleftrightarrow> (\<exists>x \<in> set (rc_lru c). ci_path x = p \<and> ci_node x = i))"

lemma cache_ok_new: "cache_ok new_cache"
  by (simp add: cache_ok_def new_cache_def)

lemma cache_ok_limit: "cache_ok c \<Longrightarrow> cache_ok (SetCacheLimit c n)"
  by (simp add: cache_ok_def SetCacheLimit_def)

lemma distinct_map_eq: "distinct (map f xs) \<Longrightarrow> x \<in> set xs \<Longrightarrow> y \<in> set xs \<Longrightarrow> f x = f y \<Longrightarrow> x = y"
  by (auto simp: distinct_map inj_on_def)

lemma node_at_ok:
  assumes "cache_ok c" "rc_map c p = Some i"
  obtains x where "node_at i c = Some x" "x \<in> set (rc_lru c)" "ci_path x = p" "ci_node x = i"
proof -
  obtain x where x: "x \<in> set (rc_lru c)" "ci_path x = p" "ci_node x = i"
    using assms by (auto simp: cache_ok_def)
  then obtain y where y: "node_at i c = Some y"
    by (cases "node_at i c") (auto simp: node_at_def find_None_iff)
  then have "y \<in> set (rc_lru c)" "ci_node y = i" by (auto simp: node_at_def find_Some_iff)
  then have "y = x"
    using x assms(1) distinct_map_eq [of ci_node "rc_lru c" y x] by (simp add: cache_ok_def)
  with x y show thesis using that by blast
qed

lemma map_none: "cache_ok c \<Longrightarrow> rc_map c p = None \<longleftrightarrow> p \<notin> ci_path ` set (rc_lru c)"
  unfolding cache_ok_def by (metis (no_types, lifting) image_iff not_None_eq)

lemma Evict_ok: "cache_ok c \<Longrightarrow> cache_ok (Evict c)"
proof (cases "rc_lru c" rule: rev_cases)
  case Nil
  then show "cache_ok c \<Longrightarrow> ?thesis" by (simp add: Evict_def)
next
  case (snoc xs x)
  assume ok: "cache_ok c"
  have "ci_path y \<noteq> ci_path x" if "y \<in> set xs" for y
    using ok snoc imageI [OF that, of ci_path] unfolding cache_ok_def by force
  then have "((rc_map c)(ci_path x := None)) p = Some i \<longleftrightarrow> (\<exists>y \<in> set xs. ci_path y = p \<and> ci_node y = i)" for p i
    using ok snoc unfolding cache_ok_def by auto
  then show ?thesis
    using ok snoc by (auto simp: cache_ok_def Evict_def Let_def)
qed

lemma Evict_fields [simp]:
  "rc_max (Evict c) = rc_max c" "rc_fresh (Evict c) = rc_fresh c" "rc_requests (Evict c) = rc_requests c"
  "rc_hits (Evict c) = rc_hits c" "rc_lru (Evict c) = butlast (rc_lru c)"
  by (simp_all add: Evict_def Let_def)

lemma over_limit_iff:
  "cache_ok c \<Longrightarrow> over_limit r c \<longleftrightarrow> rc_lru c \<noteq> [] \<and> rc_max c < weights item_size (rc_lru c) + sr_size r"
  by (auto simp: over_limit_def cache_ok_def)

interpretation cache: evicting_store rc_lru item_size rc_max Evict over_limit sr_size cache_ok "\<lambda>_ _. True"
  by unfold_locales (simp_all add: Evict_ok over_limit_iff)

lemma lookup_ok:
  assumes ok: "cache_ok c"
  obtains (miss) "lookup_section p c = Some (None, c\<lparr>rc_requests := rc_requests c + 1\<rparr>)"
      "p \<notin> ci_path ` set (rc_lru c)"
    | (hit) x where "x \<in> set (rc_lru c)" "ci_path x = p"
      "lookup_section p c = Some (Some (ci_resource x),
         c\<lparr>rc_requests := rc_requests c + 1, rc_lru := x # filter (\<lambda>y. ci_node y \<noteq> ci_node x) (rc_lru c),
           rc_hits := rc_hits c + 1\<rparr>)"
proof (cases "rc_map c p")
  case None
  then have "p \<notin> ci_path ` set (rc_lru c)" by (simp add: map_none [OF ok])
  then show thesis using miss None by (simp add: lookup_section_def Let_def)
next
  case (Some i)
  from node_at_ok [OF ok Some] obtain x where
    x: "node_at i c = Some x" "x \<in> set (rc_lru c)" "ci_path x = p" "ci_node x = i" .
  then have "node_at i (c\<lparr>rc_requests := rc_requests c + 1\<rparr>) = Some x" by (simp add: node_at_def)
  then show thesis using hit [of x] x Some by (simp add: lookup_section_def Let_def)
qed

lemma filter_node_path:
  assumes "cache_ok c" "x \<in> set (rc_lru c)"
  shows "filter (\<lambda>y. ci_node y \<noteq> ci_node x) (rc_lru c) = filter (\<lambda>y. ci_path y \<noteq> ci_path x) (rc_lru c)"
proof (rule filter_cong)
  fix y assume "y \<in> set (rc_lru c)"
  then show "(ci_node y \<noteq> ci_node x) = (ci_path y \<noteq> ci_path x)"
    using assms distinct_map_eq [of ci_node "rc_lru c" y x] distinct_map_eq [of ci_path "rc_lru c" y x]
    by (auto simp: cache_ok_def)
qed simp

lemma weights_move:
  "distinct (map f xs) \<Longrightarrow> x \<in> set xs \<Longrightarrow> w x + weights w (filter (\<lambda>y. f y \<noteq> f x) xs) = weights w xs"
proof (induction xs)
  case (Cons a xs)
  show ?case
  proof (cases "a = x")
    case True
    then have "filter (\<lambda>y. f y \<noteq> f x) xs = xs"
      using Cons.prems(1) by (auto simp: filter_id_conv image_iff)
    then show ?thesis using True by simp
  next
    case False
    then have "f a \<noteq> f x" "x \<in> set xs" using Cons.prems by auto
    then show ?thesis using Cons by simp
  qed
qed simp

lemma lookup_cache_ok:
  assumes ok: "cache_ok c"
  shows "\<exists>r c'. lookup_section p c = Some (r, c') \<and> cache_ok c'"
proof (cases rule: lookup_ok [OF ok, of p])
  case 1
  then show ?thesis using ok by (simp add: cache_ok_def)
next
  case (2 x)
  have "weights item_size (x # filter (\<lambda>y. ci_node y \<noteq> ci_node x) (rc_lru c)) = weights item_size (rc_lru c)"
    using weights_move [of ci_node "rc_lru c" x item_size] ok 2(1) by (simp add: cache_ok_def)
  moreover have "set (x # filter (\<lambda>y. ci_node y \<noteq> ci_node x) (rc_lru c)) = set (rc_lru c)"
    using ok 2(1) distinct_map_eq [of ci_node "rc_lru c" _ x] by (auto simp: cache_ok_def)
  moreover have "distinct (map ci_path (x # filter (\<lambda>y. ci_node y \<noteq> ci_node x) (rc_lru c)))"
    using ok 2(1) unfolding filter_node_path [OF ok 2(1)]
    by (auto simp: cache_ok_def distinct_map_filter)
  moreover have "distinct (map ci_node (x # filter (\<lambda>y. ci_node y \<noteq> ci_node x) (rc_lru c)))"
    using ok by (auto simp: cache_ok_def distinct_map_filter)
  ultimately show ?thesis
    using 2(3) ok unfolding cache_ok_def by (simp del: set_simps list.map weights_simps)
qed

lemma push_ok: "cache_ok c \<Longrightarrow> p \<notin> ci_path ` set (rc_lru c) \<Longrightarrow> cache_ok (push_item p r c)"
  unfolding cache_ok_def push_item_def by (auto simp: less_Suc_eq)

lemma shrunk_subset: "set (rc_lru (shrink f Evict n c)) \<subseteq> set (rc_lru c)"
proof (induction n arbitrary: c)
  case (Suc n)
  have "set (butlast (rc_lru c)) \<subseteq> set (rc_lru c)" by (auto dest: in_set_butlastD)
  then show ?case using Suc.IH [of "Evict c"] by auto
qed simp

lemma load_ok:
  assumes ok: "cache_ok c"
  obtains (hit) x where "x \<in> set (rc_lru c)" "ci_path x = p" "load_section os p c = Some (Some (ci_resource x), c)"
    | (failed) "p \<notin> ci_path ` set (rc_lru c)" "Load os p = None" "load_section os p c = Some (None, c)"
    | (loaded) r where "p \<notin> ci_path ` set (rc_lru c)" "Load os p = Some r"
        "load_section os p c =
           Some (Some r, push_item p r (shrink (over_limit r) Evict (length (rc_lru c)) c))"
proof (cases "rc_map c p")
  case None
  then have "p \<notin> ci_path ` set (rc_lru c)" by (simp add: map_none [OF ok])
  then show thesis using failed loaded None by (cases "Load os p") (simp_all add: load_section_def)
next
  case (Some i)
  from node_at_ok [OF ok Some] obtain x where
    x: "node_at i c = Some x" "x \<in> set (rc_lru c)" "ci_path x = p" "ci_node x = i" .
  then show thesis using hit [of x] Some by (simp add: load_section_def)
qed

lemma load_cache_ok:
  assumes ok: "cache_ok c"
  shows "\<exists>r c'. load_section os p c = Some (r, c') \<and> cache_ok c'"
proof (cases rule: load_ok [OF ok, of p os])
  case (3 r)
  have "p \<notin> ci_path ` set (rc_lru (shrink (over_limit r) Evict (length (rc_lru c)) c))"
    using 3(1) shrunk_subset by fastforce
  then show ?thesis using 3(3) push_ok [OF cache.shrink_ok [OF ok]] by simp
qed (use ok in simp_all)

subsection \<open>The abstract cache: paths and resources by recency\<close>

datatype cache_step = Lookup string | LoadFile file_probe string | Limit nat

fun run_cache :: "cache_step list \<Rightarrow> resource_cache \<Rightarrow> resource_cache option" where
  "run_cache [] c = Some c"
| "run_cache (Lookup p # xs) c =
     (case lookup_section p c of None \<Rightarrow> None | Some (_, c) \<Rightarrow> run_cache xs c)"
| "run_cache (LoadFile os p # xs) c =
     (case load_section os p c of None \<Rightarrow> None | Some (_, c) \<Rightarrow> run_cache xs c)"
| "run_cache (Limit n # xs) c = run_cache xs (SetCacheLimit c n)"

type_synonym recency = "(string \<times> static_resource) list"

fun kept_front :: "nat \<Rightarrow> nat \<Rightarrow> recency \<Rightarrow> recency" where
  "kept_front limit used [] = []"
| "kept_front limit used (e # es) =
     (if used + sr_size (snd e) \<le> limit then e # kept_front limit (used + sr_size (snd e)) es else [])"

definition promote :: "string \<Rightarrow> recency \<Rightarrow> recency" where
  "promote p es =
     (case map_of es p of None \<Rightarrow> es | Some r \<Rightarrow> (p, r) # filter (\<lambda>e. fst e \<noteq> p) es)"

definition load_spec :: "file_probe \<Rightarrow> nat \<Rightarrow> string \<Rightarrow> recency \<Rightarrow> recency" where
  "load_spec os limit p es =
     (case map_of es p of
        Some r \<Rightarrow> es
      | None \<Rightarrow>
          (case Load os p of
             None \<Rightarrow> es
           | Some r \<Rightarrow> (p, r) # kept_front limit (sr_size r) es))"

fun run_spec :: "cache_step list \<Rightarrow> nat \<times> recency \<Rightarrow> nat \<times> recency" where
  "run_spec [] s = s"
| "run_spec (Lookup p # xs) (limit, es) = run_spec xs (limit, promote p es)"
| "run_spec (LoadFile os p # xs) (limit, es) = run_spec xs (limit, load_spec os limit p es)"
| "run_spec (Limit n # xs) (limit, es) = run_spec xs (n, es)"

definition recency_of :: "resource_cache \<Rightarrow> nat \<times> recency" where
  "recency_of c = (rc_max c, map (\<lambda>x. (ci_path x, ci_resource x)) (rc_lru c))"

lemma map_of_recency:
  "cache_ok c \<Longrightarrow> x \<in> set (rc_lru c) \<Longrightarrow> map_of (snd (recency_of c)) (ci_path x) = Some (ci_resource x)"
  unfolding recency_of_def by (auto simp: cache_ok_def comp_def intro!: map_of_is_SomeI)

lemma map_of_recency_none: "p \<notin> ci_path ` set (rc_lru c) \<Longrightarrow> map_of (snd (recency_of c)) p = None"
  by (auto simp: recency_of_def map_of_eq_None_iff comp_def)

lemma kept_front_take:
  "k \<le> length es \<Longrightarrow> used + weights (\<lambda>e. sr_size (snd e)) (take k es) \<le> limit \<or> k = 0 \<Longrightarrow>
   (k < length es \<longrightarrow> limit < used + weights (\<lambda>e. sr_size (snd e)) (take (Suc k) es)) \<Longrightarrow>
   kept_front limit used es = take k es"
proof (induction es arbitrary: k used)
  case (Cons e es)
  show ?case
  proof (cases k)
    case 0
    then show ?thesis using Cons.prems by simp
  next
    case (Suc j)
    then have "used + sr_size (snd e) \<le> limit" using Cons.prems(2) by simp
    moreover have "kept_front limit (used + sr_size (snd e)) es = take j es"
      using Cons.prems Suc by (intro Cons.IH) (auto simp: add.assoc)
    ultimately show ?thesis using Suc by simp
  qed
qed simp

lemma shrink_recency:
  assumes "cache_ok c"
  shows "recency_of (shrink (over_limit r) Evict (length (rc_lru c)) c) =
    (rc_max c, kept_front (rc_max c) (sr_size r) (snd (recency_of c)))"
proof -
  let ?g = "\<lambda>x. (ci_path x, ci_resource x)"
  from cache.shrink_keeps [where r = r and n = "length (rc_lru c)", OF assms] obtain k where
    k: "k \<le> length (rc_lru c)" "rc_lru (shrink (over_limit r) Evict (length (rc_lru c)) c) = take k (rc_lru c)"
      "weights item_size (take k (rc_lru c)) + sr_size r \<le> rc_max c \<or> k = 0"
      "k < length (rc_lru c) \<longrightarrow> rc_max c < weights item_size (take (Suc k) (rc_lru c)) + sr_size r"
    by auto
  have w: "weights (\<lambda>e. sr_size (snd e)) (take j (map ?g (rc_lru c))) = weights item_size (take j (rc_lru c))" for j
    by (simp add: weights_def take_map comp_def)
  have "kept_front (rc_max c) (sr_size r) (map ?g (rc_lru c)) = take k (map ?g (rc_lru c))"
    using k by (intro kept_front_take) (simp_all add: w add.commute)
  then show ?thesis using k(2) by (simp add: recency_of_def take_map cache.shrink_capacity)
qed

lemma lookup_recency:
  assumes ok: "cache_ok c"
  shows "\<exists>c'. lookup_section p c = Some (map_of (snd (recency_of c)) p, c') \<and> cache_ok c' \<and>
    recency_of c' = (rc_max c, promote p (snd (recency_of c)))"
proof (cases rule: lookup_ok [OF ok, of p])
  case 1
  then show ?thesis
    using lookup_cache_ok [OF ok, of p] map_of_recency_none [OF 1(2)]
    by (simp add: promote_def) (simp add: recency_of_def)
next
  case (2 x)
  then show ?thesis
    using lookup_cache_ok [OF ok, of p] map_of_recency [OF ok 2(1)] filter_node_path [OF ok 2(1)]
    by (simp add: promote_def) (simp add: recency_of_def filter_map comp_def)
qed

lemma load_recency:
  assumes ok: "cache_ok c"
  shows "\<exists>c'. load_section os p c =
      Some (case map_of (snd (recency_of c)) p of None \<Rightarrow> Load os p | Some r \<Rightarrow> Some r, c') \<and> cache_ok c' \<and>
    recency_of c' = (rc_max c, load_spec os (rc_max c) p (snd (recency_of c)))"
proof (cases rule: load_ok [OF ok, of p os])
  case (1 x)
  then show ?thesis
    using load_cache_ok [OF ok, of os p] map_of_recency [OF ok 1(1)]
    by (simp add: load_spec_def) (simp add: recency_of_def)
next
  case 2
  then show ?thesis
    using load_cache_ok [OF ok, of os p] map_of_recency_none [OF 2(1)]
    by (simp add: load_spec_def) (simp add: recency_of_def)
next
  case (3 r)
  have "recency_of (push_item p r c') = (fst (recency_of c'), (p, r) # snd (recency_of c'))" for c'
    by (simp add: recency_of_def push_item_def)
  then show ?thesis
    using load_cache_ok [OF ok, of os p] map_of_recency_none [OF 3(1)] 3(2,3) shrink_recency [OF ok, of r]
    by (simp add: load_spec_def)
qed

lemma cache_ok_paths: "cache_ok c \<Longrightarrow> distinct (map ci_path (rc_lru c))"
  unfolding cache_ok_def by blast

lemma cache_ok_sizes:
  "cache_ok c \<Longrightarrow> rc_current c = weights (\<lambda>e. sr_size (snd e)) (snd (recency_of c))"
proof -
  assume "cache_ok c"
  then have "rc_current c = weights item_size (rc_lru c)" unfolding cache_ok_def by blast
  then show ?thesis by (simp add: recency_of_def weights_def comp_def)
qed

lemma run_cache_lemma:
  "cache_ok c \<Longrightarrow> \<exists>c'. run_cache xs c = Some c' \<and> cache_ok c' \<and> recency_of c' = run_spec xs (recency_of c)"
proof (induction xs arbitrary: c)
  case (Cons x xs)
  obtain es where es: "recency_of c = (rc_max c, es)" by (simp add: recency_of_def)
  show ?case
  proof (cases x)
    case (Lookup p)
    from lookup_recency [OF Cons.prems, of p] obtain r c' where
      "lookup_section p c = Some (r, c')" "cache_ok c'" "recency_of c' = (rc_max c, promote p es)"
      unfolding es by auto
    then show ?thesis using Cons.IH [of c'] Lookup es by simp
  next
    case (LoadFile os p)
    from load_recency [OF Cons.prems, of os p] obtain r c' where
      "load_section os p c = Some (r, c')" "cache_ok c'" "recency_of c' = (rc_max c, load_spec os (rc_max c) p es)"
      unfolding es by auto
    then show ?thesis using Cons.IH [of c'] LoadFile es by simp
  next
    case (Limit n)
    have "recency_of (SetCacheLimit c n) = (n, es)"
      using es by (simp add: recency_of_def SetCacheLimit_def)
    then show ?thesis using Cons.IH [OF cache_ok_limit [OF Cons.prems], of n] Limit es by simp
  qed
qed simp


lemma GetResource_answer:
  assumes ok: "cache_ok c"
  shows "\<exists>c'. GetResource os path c =
      Some (case map_of (snd (recency_of c)) path of None \<Rightarrow> Load os path | Some r \<Rightarrow> Some r, c') \<and> cache_ok c' \<and>
    snd (recency_of c') =
      (case map_of (snd (recency_of c)) path of
         None \<Rightarrow> load_spec os (rc_max c) path (snd (recency_of c))
       | Some r \<Rightarrow> promote path (snd (recency_of c)))"
proof (cases "map_of (snd (recency_of c)) path")
  case (Some r)
  then show ?thesis using lookup_recency [OF ok, of path] by (auto simp: GetResource_def)
next
  case None
  then obtain c1 where c1: "lookup_section path c = Some (None, c1)" "cache_ok c1"
    "recency_of c1 = recency_of c"
    using lookup_recency [OF ok, of path] by (auto simp: promote_def recency_of_def)
  then show ?thesis using load_recency [OF c1(2), of os path] None
    by (auto simp: GetResource_def recency_of_def)
qed

text \<open>A request on any cache reached that way gives the cached resource, or else what loading gives;
  and after a load the files kept fit the limit together, unless the new file alone does not, when it
  is the only one kept.\<close>
theorem get_resource_within_limit:
  assumes "run_cache steps new_cache = Some c"
  shows "\<exists>c'. GetResource os path c =
      Some (case map_of (snd (recency_of c)) path of None \<Rightarrow> Load os path | Some r \<Rightarrow> Some r, c') \<and>
    (map_of (snd (recency_of c)) path = None \<longrightarrow> Load os path \<noteq> None \<longrightarrow>
       rc_current c' \<le> rc_max c' \<or> map fst (snd (recency_of c')) = [path])"
proof -
  have ok: "cache_ok c" using run_cache_lemma [OF cache_ok_new, of steps] assms by auto
  have fits: "used + weights (\<lambda>e. sr_size (snd e)) (kept_front limit used es) \<le> limit \<or>
      kept_front limit used es = []" for limit used es
  proof (induction es arbitrary: used)
    case (Cons e es)
    then show ?case using Cons.IH [of "used + sr_size (snd e)"] by (auto simp: add.assoc)
  qed simp
  show ?thesis
  proof (cases "map_of (snd (recency_of c)) path")
    case (Some r)
    then show ?thesis using lookup_recency [OF ok, of path] by (auto simp: GetResource_def)
  next
    case None
    then obtain c1 where c1: "lookup_section path c = Some (None, c1)" "cache_ok c1"
      "recency_of c1 = recency_of c"
      using lookup_recency [OF ok, of path] by (auto simp: promote_def recency_of_def)
    obtain c2 where c2: "load_section os path c1 = Some (Load os path, c2)" "cache_ok c2"
      "recency_of c2 = (rc_max c1, load_spec os (rc_max c1) path (snd (recency_of c1)))"
      using load_recency [OF c1(2), of os path] None c1(3) by auto
    have size: "rc_current c2 = weights (\<lambda>e. sr_size (snd e)) (snd (recency_of c2))"
      by (rule cache_ok_sizes [OF c2(2)])
    have max: "rc_max c2 = rc_max c1" using c2(3) by (simp add: recency_of_def)
    have "rc_current c2 \<le> rc_max c2 \<or> map fst (snd (recency_of c2)) = [path]"
      if "Load os path = Some r" for r
      using fits [of "sr_size r" "rc_max c1" "snd (recency_of c1)"] that size max None c1(3) c2(3)
      by (auto simp: load_spec_def)
    then show ?thesis using None c1(1) c2(1) by (auto simp: GetResource_def)
  qed
qed

theorem get_resource_within_limit_witness:
  "let c = the (run_cache [LoadFile \<lparr>fp_opens = True, fp_stat = Some 2, fp_mmap = Some [1, 2]\<rparr> ''a'',
       Limit 3] new_cache)
   in run_cache [LoadFile \<lparr>fp_opens = True, fp_stat = Some 2, fp_mmap = Some [1, 2]\<rparr> ''a'', Limit 3] new_cache
        = Some c \<and>
      (\<exists>c'. GetResource \<lparr>fp_opens = True, fp_stat = Some 3, fp_mmap = Some [7, 8, 9]\<rparr> ''b'' c =
         Some (Some \<lparr>sr_addr = [7, 8, 9], sr_size = 3, sr_path = ''b''\<rparr>, c'))"
proof -
  let ?a = "\<lparr>fp_opens = True, fp_stat = Some 2, fp_mmap = Some [1, 2]\<rparr>"
  let ?b = "\<lparr>fp_opens = True, fp_stat = Some 3, fp_mmap = Some [7, 8, 9]\<rparr>"
  obtain c where c: "run_cache [LoadFile ?a ''a'', Limit 3] new_cache = Some c"
    "recency_of c = (3, [(''a'', \<lparr>sr_addr = [1, 2], sr_size = 2, sr_path = ''a''\<rparr>)])"
    using run_cache_lemma [OF cache_ok_new, of "[LoadFile ?a ''a'', Limit 3]"]
    by (auto simp: recency_of_def new_cache_def load_spec_def Load_def)
  then show ?thesis
    using get_resource_within_limit [OF c(1), of ?b "''b''"] by (auto simp: Load_def)
qed

end
