(* ===== verification/BufferChain.thy ===== *)
theory BufferChain
  imports StaticCache
begin

text \<open>
  The chained output buffer (include/buffer_chain.h): strings and mapped files in the order they are
  to be sent, each with the offset up to which it has been sent, and the number of bytes left. An
  \<open>iovec\<close> is the bytes it points to. Buffer sizes are natural numbers: the limits of the connection
  keep them far below the range of \<open>size_t\<close>.
\<close>

datatype buffer_data = STRING bytes | MMAP "static_resource option"

record buffer_node =
  bn_data :: buffer_data
  bn_offset :: nat

record buffer_chain =
  bc_queue :: "buffer_node list"
  bc_total :: nat

definition new_chain :: buffer_chain where
  "new_chain = \<lparr>bc_queue = [], bc_total = 0\<rparr>"

definition LeftSize :: "buffer_node \<Rightarrow> nat" where
  "LeftSize n =
     (case bn_data n of
        STRING str_data \<Rightarrow> length str_data - bn_offset n
      | MMAP (Some res) \<Rightarrow> sr_size res - bn_offset n
      | MMAP None \<Rightarrow> 0)"

text \<open>The bytes from \<open>CurrentPtr\<close> on.\<close>

definition CurrentPtr :: "buffer_node \<Rightarrow> bytes" where
  "CurrentPtr n =
     (case bn_data n of
        STRING str_data \<Rightarrow> drop (bn_offset n) str_data
      | MMAP (Some res) \<Rightarrow> drop (bn_offset n) (sr_addr res)
      | MMAP None \<Rightarrow> [])"

definition chain_Append :: "bytes \<Rightarrow> buffer_chain \<Rightarrow> buffer_chain" where
  "chain_Append data c =
     (if data = [] then c
      else c\<lparr>bc_queue := bc_queue c @ [\<lparr>bn_data = STRING data, bn_offset = 0\<rparr>],
             bc_total := bc_total c + length data\<rparr>)"

definition chain_Append_res :: "static_resource option \<Rightarrow> buffer_chain \<Rightarrow> buffer_chain" where
  "chain_Append_res res c =
     (case res of
        None \<Rightarrow> c
      | Some r \<Rightarrow>
          if sr_size r > 0
          then c\<lparr>bc_queue := bc_queue c @ [\<lparr>bn_data = MMAP (Some r), bn_offset = 0\<rparr>],
                 bc_total := bc_total c + sr_size r\<rparr>
          else c)"

definition chain_IsEmpty :: "buffer_chain \<Rightarrow> bool" where
  "chain_IsEmpty c \<longleftrightarrow> bc_queue c = []"

definition TotalBytes :: "buffer_chain \<Rightarrow> nat" where
  "TotalBytes c = bc_total c"

fun gather :: "buffer_node list \<Rightarrow> nat \<Rightarrow> bytes list" where
  "gather [] left = []"
| "gather (n # ns) 0 = []"
| "gather (n # ns) (Suc left) =
     (let len = LeftSize n
      in if len > 0 then take len (CurrentPtr n) # gather ns left else gather ns (Suc left))"

definition GetIov :: "buffer_chain \<Rightarrow> nat \<Rightarrow> bytes list" where
  "GetIov c max_count = gather (bc_queue c) max_count"

fun pop_sent :: "nat \<Rightarrow> buffer_node list \<Rightarrow> buffer_node list" where
  "pop_sent len [] = []"
| "pop_sent len (front # rest) =
     (if len = 0 then front # rest
      else let left = LeftSize front
           in if len \<ge> left then pop_sent (len - left) rest
              else front\<lparr>bn_offset := bn_offset front + len\<rparr> # rest)"

definition Advance :: "nat \<Rightarrow> buffer_chain \<Rightarrow> buffer_chain" where
  "Advance len c =
     (if len > bc_total c then c\<lparr>bc_queue := [], bc_total := 0\<rparr>
      else c\<lparr>bc_queue := pop_sent len (bc_queue c), bc_total := bc_total c - len\<rparr>)"

definition chain_Clear :: "buffer_chain \<Rightarrow> buffer_chain" where
  "chain_Clear c = c\<lparr>bc_queue := [], bc_total := 0\<rparr>"

subsection \<open>The bytes still to be sent\<close>

definition node_bytes :: "buffer_node \<Rightarrow> bytes" where
  "node_bytes n = take (LeftSize n) (CurrentPtr n)"

definition pending :: "buffer_chain \<Rightarrow> bytes" where
  "pending c = concat (map node_bytes (bc_queue c))"

definition node_ok :: "buffer_node \<Rightarrow> bool" where
  "node_ok n \<longleftrightarrow> 0 < LeftSize n \<and> length (node_bytes n) = LeftSize n"

definition chain_ok :: "buffer_chain \<Rightarrow> bool" where
  "chain_ok c \<longleftrightarrow> (\<forall>n \<in> set (bc_queue c). node_ok n) \<and> bc_total c = length (pending c)"

lemma chain_ok_new: "chain_ok new_chain" "pending new_chain = []"
  by (simp_all add: chain_ok_def new_chain_def pending_def)

lemma string_node [simp]:
  "LeftSize \<lparr>bn_data = STRING d, bn_offset = 0\<rparr> = length d"
  "node_bytes \<lparr>bn_data = STRING d, bn_offset = 0\<rparr> = d"
  by (simp_all add: LeftSize_def node_bytes_def CurrentPtr_def)

lemma mmap_node [simp]:
  "LeftSize \<lparr>bn_data = MMAP (Some r), bn_offset = 0\<rparr> = sr_size r"
  "node_bytes \<lparr>bn_data = MMAP (Some r), bn_offset = 0\<rparr> = take (sr_size r) (sr_addr r)"
  by (simp_all add: LeftSize_def node_bytes_def CurrentPtr_def)

lemma Append_pending: "chain_ok c \<Longrightarrow> chain_ok (chain_Append d c) \<and> pending (chain_Append d c) = pending c @ d"
  by (auto simp: chain_ok_def chain_Append_def pending_def node_ok_def)

lemma Append_res_pending:
  "chain_ok c \<Longrightarrow> length (sr_addr r) = sr_size r \<Longrightarrow>
   chain_ok (chain_Append_res (Some r) c) \<and> pending (chain_Append_res (Some r) c) = pending c @ sr_addr r"
  by (auto simp: chain_ok_def chain_Append_res_def pending_def node_ok_def)

lemma gather_prefix:
  "\<forall>n \<in> set ns. node_ok n \<Longrightarrow> gather ns k = map node_bytes (take k ns)"
proof (induction ns arbitrary: k)
  case (Cons n ns)
  then show ?case by (cases k) (auto simp: node_ok_def node_bytes_def Let_def)
qed simp

lemma skip_bytes:
  assumes "len < LeftSize n" "node_ok n"
  shows "node_ok (n\<lparr>bn_offset := bn_offset n + len\<rparr>) \<and>
    node_bytes (n\<lparr>bn_offset := bn_offset n + len\<rparr>) = drop len (node_bytes n)"
  using assms
  by (auto simp: node_ok_def node_bytes_def LeftSize_def CurrentPtr_def drop_take add.commute
      split: buffer_data.splits option.splits)

lemma pop_sent_pending:
  "\<forall>n \<in> set ns. node_ok n \<Longrightarrow> len \<le> length (concat (map node_bytes ns)) \<Longrightarrow>
   (\<forall>n \<in> set (pop_sent len ns). node_ok n) \<and>
   concat (map node_bytes (pop_sent len ns)) = drop len (concat (map node_bytes ns))"
proof (induction len ns rule: pop_sent.induct)
  case (2 len front rest)
  have len: "length (node_bytes front) = LeftSize front" using "2.prems"(1) by (simp add: node_ok_def)
  consider "len = 0" | "len \<noteq> 0" "LeftSize front \<le> len" | "len \<noteq> 0" "len < LeftSize front" by linarith
  then show ?case
  proof cases
    case 1
    then show ?thesis using "2.prems" by simp
  next
    case 2
    then show ?thesis using "2.IH" [OF 2(1) refl 2(2)] "2.prems" len by simp
  next
    case 3
    then show ?thesis using skip_bytes [OF 3(2)] "2.prems" len by simp
  qed
qed simp

lemma Advance_pending:
  "chain_ok c \<Longrightarrow> len \<le> length (pending c) \<Longrightarrow>
   chain_ok (Advance len c) \<and> pending (Advance len c) = drop len (pending c)"
  using pop_sent_pending [of "bc_queue c" len]
  by (auto simp: chain_ok_def Advance_def pending_def)

lemma IsEmpty_pending: "chain_ok c \<Longrightarrow> chain_IsEmpty c \<longleftrightarrow> pending c = []"
  by (cases "bc_queue c") (auto simp: chain_ok_def chain_IsEmpty_def pending_def node_ok_def)

lemma GetIov_pending:
  assumes "chain_ok c"
  shows "\<exists>rest. pending c = concat (GetIov c k) @ rest" "pending c \<noteq> [] \<Longrightarrow> 0 < k \<Longrightarrow> GetIov c k \<noteq> []"
    "[] \<notin> set (GetIov c k)" "length (GetIov c k) \<le> k"
proof -
  have iov: "GetIov c k = map node_bytes (take k (bc_queue c))"
    using assms gather_prefix by (simp add: GetIov_def chain_ok_def)
  have "pending c = concat (GetIov c k) @ concat (map node_bytes (drop k (bc_queue c)))"
    unfolding iov pending_def by (metis append_take_drop_id concat_append map_append)
  then show "\<exists>rest. pending c = concat (GetIov c k) @ rest" by blast
  show "pending c \<noteq> [] \<Longrightarrow> 0 < k \<Longrightarrow> GetIov c k \<noteq> []" by (auto simp: iov pending_def)
  show "[] \<notin> set (GetIov c k)"
    using assms by (fastforce simp: iov chain_ok_def node_ok_def dest: in_set_takeD)
  show "length (GetIov c k) \<le> k" by (simp add: iov)
qed

subsection \<open>The buffer is a queue of bytes\<close>

datatype chain_op = Append_string bytes | Append_file static_resource | Write nat

text \<open>One operation, with the bytes that went out: a \<open>writev\<close> of up to 16 blocks that takes at most
  \<open>k\<close> bytes, and the advance by what it took.\<close>

definition chain_step :: "chain_op \<Rightarrow> buffer_chain \<Rightarrow> bytes \<times> buffer_chain" where
  "chain_step x c =
     (case x of
        Append_string d \<Rightarrow> ([], chain_Append d c)
      | Append_file r \<Rightarrow> ([], chain_Append_res (Some r) c)
      | Write k \<Rightarrow>
          let out = take k (concat (GetIov c 16)) in (out, Advance (length out) c))"

fun run_chain :: "chain_op list \<Rightarrow> buffer_chain \<Rightarrow> bytes \<times> buffer_chain" where
  "run_chain [] c = ([], c)"
| "run_chain (x # xs) c =
     (let (out, c) = chain_step x c; (outs, c) = run_chain xs c in (out @ outs, c))"

definition appended :: "chain_op list \<Rightarrow> bytes" where
  "appended xs = concat (map (\<lambda>x. case x of Append_string d \<Rightarrow> d | Append_file r \<Rightarrow> sr_addr r | Write k \<Rightarrow> []) xs)"

lemma chain_step_queue:
  assumes "chain_ok c" "\<And>r. x = Append_file r \<Longrightarrow> length (sr_addr r) = sr_size r" "chain_step x c = (out, c')"
  shows "chain_ok c' \<and> out @ pending c' = pending c @ appended [x]"
proof (cases x)
  case (Append_string d)
  then show ?thesis using assms Append_pending [OF assms(1), of d] by (auto simp: chain_step_def appended_def)
next
  case (Append_file r)
  then show ?thesis
    using assms(2,3) Append_res_pending [OF assms(1), of r] by (auto simp: chain_step_def appended_def)
next
  case (Write k)
  obtain rest where rest: "pending c = concat (GetIov c 16) @ rest" using GetIov_pending(1) [OF assms(1)] by blast
  then have "pending c = take k (concat (GetIov c 16)) @ (drop k (concat (GetIov c 16)) @ rest)" by simp
  then have "drop (length out) (pending c) = drop k (concat (GetIov c 16)) @ rest"
    "length out \<le> length (pending c)" "pending c = out @ drop (length out) (pending c)"
    using assms(3) Write by (auto simp: chain_step_def Let_def)
  then show ?thesis
    using assms(3) Write Advance_pending [OF assms(1), of "length out"]
    by (auto simp: chain_step_def Let_def appended_def)
qed

text \<open>C16: the buffer is a queue of bytes. Whatever is appended and however much each gathered write
  takes, the bytes written so far followed by those still pending are exactly the bytes appended, in
  order, and the byte count the connection checks against its limit is the number of pending ones;
  and while something is pending the next write has at least one non-empty block to offer.\<close>
theorem chain_is_byte_queue:
  assumes "\<forall>r. Append_file r \<in> set xs \<longrightarrow> length (sr_addr r) = sr_size r"
  shows "\<exists>out c. run_chain xs new_chain = (out, c) \<and> out @ pending c = appended xs \<and>
    TotalBytes c = length (pending c) \<and> (chain_IsEmpty c \<longleftrightarrow> pending c = []) \<and>
    [] \<notin> set (GetIov c 16) \<and> (pending c = [] \<longleftrightarrow> GetIov c 16 = [])"
proof -
  have "chain_ok c \<Longrightarrow> \<forall>r. Append_file r \<in> set xs \<longrightarrow> length (sr_addr r) = sr_size r \<Longrightarrow>
      \<exists>out c'. run_chain xs c = (out, c') \<and> chain_ok c' \<and> out @ pending c' = pending c @ appended xs" for c xs
  proof (induction xs arbitrary: c)
    case Nil
    then show ?case by (simp add: appended_def)
  next
    case (Cons x xs)
    obtain o1 c1 where s: "chain_step x c = (o1, c1)" by fastforce
    with chain_step_queue [OF Cons.prems(1), of x o1 c1] Cons.prems(2)
    have c1: "chain_ok c1" "o1 @ pending c1 = pending c @ appended [x]" by auto
    from Cons.IH [OF c1(1)] Cons.prems(2) obtain o2 c2 where
      "run_chain xs c1 = (o2, c2)" "chain_ok c2" "o2 @ pending c2 = pending c1 @ appended xs" by auto
    then show ?case using s c1 by (auto simp: appended_def)
  qed
  from this [OF chain_ok_new(1) assms] obtain out c where
    c: "run_chain xs new_chain = (out, c)" "chain_ok c" "out @ pending c = appended xs"
    by (auto simp: chain_ok_new)
  have "pending c = [] \<longrightarrow> GetIov c 16 = []"
    using GetIov_pending(1) [OF c(2), of 16] GetIov_pending(3) [OF c(2), of 16]
    by (cases "GetIov c 16") auto
  then show ?thesis
    using c GetIov_pending(2,3) [OF c(2), of 16] IsEmpty_pending [OF c(2)]
    by (auto simp: chain_ok_def TotalBytes_def)
qed

theorem chain_is_byte_queue_witness:
  "\<exists>out c. run_chain [Append_string [1, 2], Append_file \<lparr>sr_addr = [3, 4, 5], sr_size = 3, sr_path = ''f''\<rparr>, Write 3]
      new_chain = (out, c) \<and> out @ pending c = [1, 2, 3, 4, 5]"
  using chain_is_byte_queue [of "[Append_string [1, 2],
      Append_file \<lparr>sr_addr = [3, 4, 5], sr_size = 3, sr_path = ''f''\<rparr>, Write 3]"]
  by (auto simp: appended_def)

end
