(* ===== verification/KeyedStore.thy ===== *)
theory KeyedStore
  imports Prelude
begin

text \<open>
  Components that keep one record per key (a timer per descriptor, a statistic per connection).
  The interface \<open>keyed_store\<close> says what storing and deleting promise of looking up; its theorem is
  the refinement every client relies on: after any sequence of operations the component is the
  finite map that the same sequence builds.
\<close>

datatype ('k, 'a) store_op = Put 'k 'a | Del 'k

fun run_store ::
  "('k \<Rightarrow> 'a \<Rightarrow> 's \<Rightarrow> 's) \<Rightarrow> ('k \<Rightarrow> 's \<Rightarrow> 's) \<Rightarrow> ('k, 'a) store_op list \<Rightarrow> 's \<Rightarrow> 's" where
  "run_store put del [] s = s"
| "run_store put del (Put k a # ops) s = run_store put del ops (put k a s)"
| "run_store put del (Del k # ops) s = run_store put del ops (del k s)"

fun spec_store ::
  "('k \<Rightarrow> 'a \<Rightarrow> 'v option \<Rightarrow> 'v option) \<Rightarrow> ('k, 'a) store_op list \<Rightarrow> ('k \<rightharpoonup> 'v) \<Rightarrow> ('k \<rightharpoonup> 'v)" where
  "spec_store upd [] m = m"
| "spec_store upd (Put k a # ops) m = spec_store upd ops (m(k := upd k a (m k)))"
| "spec_store upd (Del k # ops) m = spec_store upd ops (m(k := None))"

locale keyed_store =
  fixes ok :: "'s \<Rightarrow> bool" and look :: "'s \<Rightarrow> 'k \<Rightarrow> 'v option"
    and put :: "'k \<Rightarrow> 'a \<Rightarrow> 's \<Rightarrow> 's" and del :: "'k \<Rightarrow> 's \<Rightarrow> 's"
    and upd :: "'k \<Rightarrow> 'a \<Rightarrow> 'v option \<Rightarrow> 'v option"
  assumes put_ok: "ok s \<Longrightarrow> ok (put k a s)"
    and del_ok: "ok s \<Longrightarrow> ok (del k s)"
    and look_put: "ok s \<Longrightarrow> look (put k a s) = (look s)(k := upd k a (look s k))"
    and look_del: "ok s \<Longrightarrow> look (del k s) = (look s)(k := None)"
begin

lemma run_ok: "ok s \<Longrightarrow> ok (run_store put del ops s)"
proof (induction ops arbitrary: s)
  case (Cons x ops)
  then show ?case by (cases x) (auto intro: put_ok del_ok)
qed simp

theorem run_refines: "ok s \<Longrightarrow> look (run_store put del ops s) = spec_store upd ops (look s)"
proof (induction ops arbitrary: s)
  case (Cons x ops)
  then show ?case
    by (cases x) (auto simp: put_ok del_ok look_put look_del fun_upd_def)
qed simp

text \<open>An operation on one key does not change what another key finds.\<close>

lemma untouched:
  assumes "ok s" "\<forall>x \<in> set ops. case x of Put k a \<Rightarrow> k \<noteq> j | Del k \<Rightarrow> k \<noteq> j"
  shows "look (run_store put del ops s) j = look s j"
  using assms
proof (induction ops arbitrary: s)
  case (Cons x ops)
  then show ?case
    by (cases x) (auto simp: put_ok del_ok look_put look_del)
qed simp

end

end
