(* ===== verification/KeepAlive.thy ===== *)
theory KeepAlive
  imports KeyedStore "HOL-Library.AList"
begin

text \<open>
  The keep-alive manager (include/http/keep_alive_manager.h, src/http/keep_alive_manager.cpp): per
  descriptor the number of requests, the time of the last activity, whether the connection is kept
  alive and its idle timeout.

  The hash table is an association list whose order is the order of iteration; every operation runs
  under the mutex. Time points and durations of the clock are nanoseconds, read by the caller and
  passed in as \<open>now\<close>; timeouts are whole seconds. Request counts are natural numbers: the \<open>int\<close> would
  need two thousand million requests on one connection.
\<close>

record keep_alive_state =
  ks_request_count :: nat
  ks_last_active :: int
  ks_keep_alive :: bool
  ks_idle_timeout :: int

record keep_alive_manager =
  ka_connections :: "(int \<times> keep_alive_state) list"
  ka_default_idle_timeout :: int
  ka_total_requests :: nat
  ka_total_timeout_closures :: nat

definition new_keep_alive :: "int \<Rightarrow> keep_alive_manager" where
  "new_keep_alive default_idle_timeout =
     \<lparr>ka_connections = [], ka_default_idle_timeout = default_idle_timeout, ka_total_requests = 0,
      ka_total_timeout_closures = 0\<rparr>"

text \<open>\<open>duration_cast\<close> to seconds drops the fraction towards zero.\<close>

definition cast_seconds :: "int \<Rightarrow> int" where
  "cast_seconds ns = (if ns \<ge> 0 then ns div 1000000000 else - ((- ns) div 1000000000))"

definition ka_OnRequestStart ::
  "int \<Rightarrow> keep_alive_manager \<Rightarrow> int \<Rightarrow> bool \<Rightarrow> int \<Rightarrow> keep_alive_manager" where
  "ka_OnRequestStart now m fd keep_alive idle_timeout =
     (let cs =
        (case map_of (ka_connections m) fd of
           None \<Rightarrow>
             AList.update fd
               \<lparr>ks_request_count = 1, ks_last_active = now, ks_keep_alive = keep_alive,
                ks_idle_timeout = (if idle_timeout > 0 then idle_timeout else ka_default_idle_timeout m)\<rparr>
               (ka_connections m)
         | Some s \<Rightarrow>
             AList.update fd
               (s\<lparr>ks_request_count := ks_request_count s + 1, ks_last_active := now,
                  ks_keep_alive := keep_alive,
                  ks_idle_timeout := (if idle_timeout > 0 then idle_timeout else ks_idle_timeout s)\<rparr>)
               (ka_connections m))
      in m\<lparr>ka_connections := cs, ka_total_requests := ka_total_requests m + 1\<rparr>)"

definition ka_OnRequestComplete :: "int \<Rightarrow> keep_alive_manager \<Rightarrow> int \<Rightarrow> keep_alive_manager" where
  "ka_OnRequestComplete now m fd =
     (case map_of (ka_connections m) fd of
        None \<Rightarrow> m
      | Some s \<Rightarrow> m\<lparr>ka_connections := AList.update fd (s\<lparr>ks_last_active := now\<rparr>) (ka_connections m)\<rparr>)"

definition ka_OnConnectionClose :: "keep_alive_manager \<Rightarrow> int \<Rightarrow> keep_alive_manager" where
  "ka_OnConnectionClose m fd = m\<lparr>ka_connections := AList.delete fd (ka_connections m)\<rparr>"

definition IsIdleTimeout :: "int \<Rightarrow> keep_alive_manager \<Rightarrow> int \<Rightarrow> bool" where
  "IsIdleTimeout now m fd =
     (case map_of (ka_connections m) fd of
        None \<Rightarrow> False
      | Some s \<Rightarrow> ks_keep_alive s \<and> cast_seconds (now - ks_last_active s) \<ge> ks_idle_timeout s)"

definition GetIdleSeconds :: "int \<Rightarrow> keep_alive_manager \<Rightarrow> int \<Rightarrow> int" where
  "GetIdleSeconds now m fd =
     (case map_of (ka_connections m) fd of
        None \<Rightarrow> - 1
      | Some s \<Rightarrow> cast_seconds (now - ks_last_active s))"

definition GetConnectionState :: "keep_alive_manager \<Rightarrow> int \<Rightarrow> keep_alive_state option" where
  "GetConnectionState m fd = map_of (ka_connections m) fd"

text \<open>The sweep: the descriptors taken out, in the order of the table, and the entries left.\<close>

fun sweep :: "int \<Rightarrow> (int \<times> keep_alive_state) list \<Rightarrow> int list \<times> (int \<times> keep_alive_state) list" where
  "sweep now [] = ([], [])"
| "sweep now ((fd, s) # cs) =
     (let (timed_out_fds, kept) = sweep now cs
      in if \<not> ks_keep_alive s then (timed_out_fds, (fd, s) # kept)
         else if cast_seconds (now - ks_last_active s) \<ge> ks_idle_timeout s
         then (fd # timed_out_fds, kept)
         else (timed_out_fds, (fd, s) # kept))"

definition CleanupTimeoutConnections :: "int \<Rightarrow> keep_alive_manager \<Rightarrow> int list \<times> keep_alive_manager" where
  "CleanupTimeoutConnections now m =
     (let (timed_out_fds, kept) = sweep now (ka_connections m)
      in (timed_out_fds,
          m\<lparr>ka_connections := kept,
            ka_total_timeout_closures := ka_total_timeout_closures m + length timed_out_fds\<rparr>))"

definition GetActiveConnectionCount :: "keep_alive_manager \<Rightarrow> nat" where
  "GetActiveConnectionCount m = length (ka_connections m)"

definition ResetStatistics :: "keep_alive_manager \<Rightarrow> keep_alive_manager" where
  "ResetStatistics m = m\<lparr>ka_total_requests := 0, ka_total_timeout_closures := 0\<rparr>"

subsection \<open>The manager is a map\<close>

datatype ka_event = Started bool int int | Completed int

fun ka_put :: "int \<Rightarrow> ka_event \<Rightarrow> keep_alive_manager \<Rightarrow> keep_alive_manager" where
  "ka_put fd (Started keep_alive idle_timeout now) m = ka_OnRequestStart now m fd keep_alive idle_timeout"
| "ka_put fd (Completed now) m = ka_OnRequestComplete now m fd"

text \<open>What an event does to the entry of its descriptor.\<close>

fun ka_entry :: "int \<Rightarrow> int \<Rightarrow> ka_event \<Rightarrow> keep_alive_state option \<Rightarrow> keep_alive_state option" where
  "ka_entry d fd (Started keep_alive idle_timeout now) None =
     Some \<lparr>ks_request_count = 1, ks_last_active = now, ks_keep_alive = keep_alive,
           ks_idle_timeout = (if idle_timeout > 0 then idle_timeout else d)\<rparr>"
| "ka_entry d fd (Started keep_alive idle_timeout now) (Some s) =
     Some \<lparr>ks_request_count = ks_request_count s + 1, ks_last_active = now, ks_keep_alive = keep_alive,
           ks_idle_timeout = (if idle_timeout > 0 then idle_timeout else ks_idle_timeout s)\<rparr>"
| "ka_entry d fd (Completed now) old = map_option (\<lambda>s. s\<lparr>ks_last_active := now\<rparr>) old"

definition ka_ok :: "int \<Rightarrow> keep_alive_manager \<Rightarrow> bool" where
  "ka_ok d m \<longleftrightarrow> ka_default_idle_timeout m = d \<and> distinct (map fst (ka_connections m))"

lemma ka_ok_new: "ka_ok d (new_keep_alive d)"
  by (simp add: ka_ok_def new_keep_alive_def)

lemma ka_put_lookup:
  assumes "ka_ok d m"
  shows "GetConnectionState (ka_put fd e m) =
    (GetConnectionState m)(fd := ka_entry d fd e (GetConnectionState m fd)) \<and> ka_ok d (ka_put fd e m)"
proof (cases e)
  case (Started k t now)
  then show ?thesis
    using assms
    by (cases "map_of (ka_connections m) fd")
      (auto simp: ka_OnRequestStart_def GetConnectionState_def ka_ok_def update_conv' distinct_update fun_eq_iff)
next
  case (Completed now)
  then show ?thesis
    using assms
    by (cases "map_of (ka_connections m) fd")
      (auto simp: ka_OnRequestComplete_def GetConnectionState_def ka_ok_def update_conv' distinct_update fun_eq_iff)
qed

lemma ka_del_lookup:
  assumes "ka_ok d m"
  shows "GetConnectionState (ka_OnConnectionClose m fd) = (GetConnectionState m)(fd := None) \<and>
    ka_ok d (ka_OnConnectionClose m fd)"
  using assms by (auto simp: ka_OnConnectionClose_def GetConnectionState_def ka_ok_def delete_conv' distinct_delete)

interpretation keep: keyed_store "ka_ok d" GetConnectionState ka_put "\<lambda>fd m. ka_OnConnectionClose m fd"
    "ka_entry d" for d :: int
  by unfold_locales (use ka_put_lookup ka_del_lookup in auto)

text \<open>After any sequence of requests started, requests completed and connections closed, the
  manager finds for every descriptor exactly what the map built by the same sequence has: a request
  counts and renews the time, a positive timeout replaces the kept one and any other keeps it (the
  default for a new connection), and a completion touches only a known connection.\<close>
theorem keep_alive_refines_map:
  "GetConnectionState (run_store ka_put (\<lambda>fd m. ka_OnConnectionClose m fd) ops (new_keep_alive d)) =
   spec_store (ka_entry d) ops Map.empty"
proof -
  have "GetConnectionState (new_keep_alive d) = Map.empty"
    by (simp add: GetConnectionState_def new_keep_alive_def fun_eq_iff)
  with keep.run_refines [OF ka_ok_new, of ops d] show ?thesis by simp
qed

subsection \<open>The sweep\<close>

lemma sweep_lemma:
  "distinct (map fst cs) \<Longrightarrow> sweep now cs = (out, kept) \<Longrightarrow>
   set out = {fd. \<exists>s. map_of cs fd = Some s \<and> ks_keep_alive s \<and>
                cast_seconds (now - ks_last_active s) \<ge> ks_idle_timeout s} \<and>
   map_of kept = (\<lambda>fd. if fd \<in> set out then None else map_of cs fd) \<and>
   distinct out \<and> distinct (map fst kept) \<and> length out + length kept = length cs \<and>
   set (map fst kept) \<subseteq> set (map fst cs) \<and> set out \<subseteq> set (map fst cs)"
proof (induction cs arbitrary: out kept)
  case Nil
  then show ?case by auto
next
  case (Cons c cs)
  obtain fd s where c: "c = (fd, s)" by fastforce
  obtain out1 kept1 where r: "sweep now cs = (out1, kept1)" by fastforce
  have new: "fd \<notin> fst ` set cs" "distinct (map fst cs)" using Cons.prems(1) c by auto
  have IH: "set out1 = {fd. \<exists>s. map_of cs fd = Some s \<and> ks_keep_alive s \<and>
                cast_seconds (now - ks_last_active s) \<ge> ks_idle_timeout s}"
    "map_of kept1 = (\<lambda>fd. if fd \<in> set out1 then None else map_of cs fd)"
    "distinct out1" "distinct (map fst kept1)" "length out1 + length kept1 = length cs"
    "set (map fst kept1) \<subseteq> set (map fst cs)" "set out1 \<subseteq> set (map fst cs)"
    using Cons.IH [OF new(2) r] by auto
  have fresh: "fd \<notin> set out1" "fd \<notin> set (map fst kept1)" "map_of cs fd = None"
    using IH(6,7) new(1) by (auto simp: map_of_eq_None_iff)
  show ?case
  proof (cases "ks_keep_alive s \<and> cast_seconds (now - ks_last_active s) \<ge> ks_idle_timeout s")
    case True
    then have e: "out = fd # out1" "kept = kept1" using Cons.prems(2) c r by auto
    show ?thesis
      using IH fresh True unfolding e c by (auto simp: fun_eq_iff split: if_splits)
  next
    case False
    then have e: "out = out1" "kept = (fd, s) # kept1"
      using Cons.prems(2) c r by (auto split: if_splits)
    show ?thesis
      using IH fresh False unfolding e c by (auto simp: fun_eq_iff split: if_splits)
  qed
qed

text \<open>A sweep on any reached manager returns each descriptor whose connection is idle past its
  timeout exactly once, agrees with \<open>IsIdleTimeout\<close> on which those are, forgets exactly them, counts
  them, and a second sweep at the same time finds nothing.\<close>
theorem cleanup_is_exact:
  "let m = run_store ka_put (\<lambda>fd m. ka_OnConnectionClose m fd) ops (new_keep_alive d);
       (fds, m') = CleanupTimeoutConnections now m
   in set fds = {fd. IsIdleTimeout now m fd} \<and> distinct fds \<and>
      GetConnectionState m' = (\<lambda>fd. if IsIdleTimeout now m fd then None else GetConnectionState m fd) \<and>
      GetActiveConnectionCount m' + length fds = GetActiveConnectionCount m \<and>
      ka_total_timeout_closures m' = ka_total_timeout_closures m + length fds \<and>
      fst (CleanupTimeoutConnections now m') = []"
proof -
  define m where "m = run_store ka_put (\<lambda>fd m. ka_OnConnectionClose m fd) ops (new_keep_alive d)"
  obtain out kept where s: "sweep now (ka_connections m) = (out, kept)" by fastforce
  have "ka_ok d m" unfolding m_def by (rule keep.run_ok [OF ka_ok_new])
  then have "distinct (map fst (ka_connections m))" by (simp add: ka_ok_def)
  note sw = sweep_lemma [OF this s]
  have idle: "set out = {fd. IsIdleTimeout now m fd}"
    using sw by (auto simp: IsIdleTimeout_def split: option.splits)
  obtain out2 kept2 where s2: "sweep now kept = (out2, kept2)" by fastforce
  have "set out2 = {}"
    using sweep_lemma [OF _ s2] sw by (auto split: if_splits)
  then show ?thesis
    using sw idle s s2 unfolding m_def [symmetric]
    by (simp add: CleanupTimeoutConnections_def GetConnectionState_def GetActiveConnectionCount_def Let_def fun_eq_iff)
qed

end
