(* ===== verification/Connection.thy ===== *)
theory Connection
  imports EventLoop BufferChain KeepAlive StateMachine
begin

text \<open>
  A connection (include/connection.h, src/connection.cpp) in its event loop: the state machine,
  buffered reading and writing with their limits, timeouts, and the ways of closing.

  The world is the event loop extended by the connection, its keep-alive manager, and the answers the
  kernel will give: what \<open>read\<close> and \<open>writev\<close> return, in order, and whether \<open>epoll_ctl\<close> succeeds
  (it does when the list is used up). \<open>w_sent\<close> is what went out of the socket, \<open>w_closes\<close> the calls of
  the close callback, \<open>w_bytes_sent\<close> the metric. The message callback is an argument. Time of the last activity is not kept: nothing reads it.

  \<open>HandleClose\<close> and \<open>Transition\<close> call each other: a refused transition closes, and closing makes the
  transition to \<open>kClosed\<close>, which is never refused. \<open>Transition_with\<close> has the closing as an argument.
\<close>

datatype conn_state =
  kConnecting | kConnected | kReading | kProcessing | kWriting | kClosing | kClosed

datatype timeout_type = Read_timeout | Write_timeout | Idle_timeout

record limits_options =
  lo_connection_timeout :: int
  lo_keep_alive_timeout :: int
  lo_max_input_buffer :: nat
  lo_max_output_buffer :: nat

abbreviation kMaxInputBuffer :: nat where "kMaxInputBuffer \<equiv> 64 * 1024"
abbreviation kMaxOutputBuffer :: nat where "kMaxOutputBuffer \<equiv> 1 * 1024 * 1024"

datatype read_answer = Got bytes | Got_eof | Read_again | Read_failed
datatype write_answer = Took nat | Write_again | Write_failed

text \<open>The functors a connection queues.\<close>

datatype conn_functor =
    F_Send bytes
  | F_SendResource static_resource
  | F_Shutdown
  | F_Close
  | F_Setup int timeout_type
  | F_Cancel timeout_type
  | F_OnTimeout timeout_type
  | F_CloseInLoop error_obj
  | F_UpdateEvent "32 word"
  | F_Established

record conn_world = "conn_functor event_loop" +
  c_fd :: int
  c_state :: conn_state
  c_config :: "limits_options option"
  c_manager :: "keep_alive_manager option"
  c_read_timeout :: int
  c_write_timeout :: int
  c_idle_timeout :: int
  c_read_active :: bool
  c_write_active :: bool
  c_idle_active :: bool
  c_input :: bytes
  c_output :: buffer_chain
  c_has_close_callback :: bool
  w_reads :: "read_answer list"
  w_writes :: "write_answer list"
  w_ctl :: "bool list"
  w_closes :: "int list"
  w_sent :: bytes
  w_bytes_sent :: nat
  w_shutdowns :: nat

definition IsConnected :: "conn_world \<Rightarrow> bool" where
  "IsConnected w \<longleftrightarrow> c_state w \<noteq> kClosed \<and> c_state w \<noteq> kClosing \<and> c_state w \<noteq> kConnecting"

definition tcp_CanTransition :: "conn_state \<Rightarrow> conn_state \<Rightarrow> bool" where
  "tcp_CanTransition current new_state =
     (if current = new_state then True
      else if current = kClosed then False
      else if new_state = kClosing then True
      else if new_state = kClosed then True
      else case current of
             kConnecting \<Rightarrow> new_state = kConnected
           | kConnected \<Rightarrow> new_state = kReading
           | kReading \<Rightarrow> new_state = kProcessing
           | kProcessing \<Rightarrow> new_state = kWriting
           | kWriting \<Rightarrow> new_state = kConnected
           | _ \<Rightarrow> False)"

text \<open>\<open>loop_->UpdateEvent(fd_, events)\<close> with the next answer of \<open>epoll_ctl\<close>.\<close>

definition update_event :: "bool \<Rightarrow> 32 word \<Rightarrow> conn_world \<Rightarrow> conn_world" where
  "update_event in_thread events w =
     UpdateEvent in_thread (F_UpdateEvent events) (w_ctl w = [] \<or> hd (w_ctl w)) (c_fd w) events
       (w\<lparr>w_ctl := tl (w_ctl w)\<rparr>)"

subsection \<open>Timeouts\<close>

fun kind_callback :: "timeout_type \<Rightarrow> nat" where
  "kind_callback Read_timeout = 0"
| "kind_callback Write_timeout = 1"
| "kind_callback Idle_timeout = 2"

fun set_active :: "timeout_type \<Rightarrow> bool \<Rightarrow> conn_world \<Rightarrow> conn_world" where
  "set_active Read_timeout b w = w\<lparr>c_read_active := b\<rparr>"
| "set_active Write_timeout b w = w\<lparr>c_write_active := b\<rparr>"
| "set_active Idle_timeout b w = w\<lparr>c_idle_active := b\<rparr>"

definition SetupTimeout :: "bool \<Rightarrow> int \<Rightarrow> timeout_type \<Rightarrow> conn_world \<Rightarrow> conn_world option" where
  "SetupTimeout in_thread seconds timeout_type w =
     (if seconds \<le> 0 then Some w
      else if \<not> in_thread then Some (QueueInLoop in_thread (F_Setup seconds timeout_type) w)
      else case loop_AddTimer in_thread (c_fd w) seconds (Some (kind_callback timeout_type)) w of
             None \<Rightarrow> None
           | Some (error, w) \<Rightarrow> Some (if IsFailure error then w else set_active timeout_type True w))"

definition CancelTimeout :: "bool \<Rightarrow> timeout_type \<Rightarrow> conn_world \<Rightarrow> conn_world option" where
  "CancelTimeout in_thread timeout_type w =
     (if \<not> in_thread then Some (QueueInLoop in_thread (F_Cancel timeout_type) w)
      else case loop_RemoveTimer in_thread (c_fd w) w of
             None \<Rightarrow> None
           | Some (error, w) \<Rightarrow>
               Some (if IsFailure error \<and> err_code error \<noteq> kSuccess then w
                     else set_active timeout_type False w))"

definition UpdateActivityTimestamp :: "bool \<Rightarrow> conn_world \<Rightarrow> conn_world option" where
  "UpdateActivityTimestamp in_thread w =
     (if c_idle_timeout w > 0 then SetupTimeout in_thread (c_idle_timeout w) Idle_timeout w else Some w)"

definition CheckAndSetTimeouts :: "bool \<Rightarrow> conn_world \<Rightarrow> conn_world option" where
  "CheckAndSetTimeouts in_thread w =
     (let current = c_state w
      in case (if c_read_timeout w > 0 \<and> current = kReading
               then SetupTimeout in_thread (c_read_timeout w) Read_timeout w
               else CancelTimeout in_thread Read_timeout w) of
           None \<Rightarrow> None
         | Some w \<Rightarrow>
             (case (if c_write_timeout w > 0 \<and> current = kWriting
                    then SetupTimeout in_thread (c_write_timeout w) Write_timeout w
                    else CancelTimeout in_thread Write_timeout w) of
                None \<Rightarrow> None
              | Some w \<Rightarrow>
                  (if c_idle_timeout w > 0 \<and> current = kConnected
                   then SetupTimeout in_thread (c_idle_timeout w) Idle_timeout w
                   else CancelTimeout in_thread Idle_timeout w)))"

definition SetReadTimeout :: "bool \<Rightarrow> int \<Rightarrow> conn_world \<Rightarrow> conn_world option" where
  "SetReadTimeout in_thread seconds w =
     (if seconds \<le> 0 then CancelTimeout in_thread Read_timeout (w\<lparr>c_read_timeout := 0\<rparr>)
      else CheckAndSetTimeouts in_thread (w\<lparr>c_read_timeout := seconds\<rparr>))"

definition SetWriteTimeout :: "bool \<Rightarrow> int \<Rightarrow> conn_world \<Rightarrow> conn_world option" where
  "SetWriteTimeout in_thread seconds w =
     (if seconds \<le> 0 then CancelTimeout in_thread Write_timeout (w\<lparr>c_write_timeout := 0\<rparr>)
      else CheckAndSetTimeouts in_thread (w\<lparr>c_write_timeout := seconds\<rparr>))"

definition SetIdleTimeout :: "bool \<Rightarrow> int \<Rightarrow> conn_world \<Rightarrow> conn_world option" where
  "SetIdleTimeout in_thread seconds w =
     (if seconds \<le> 0 then CancelTimeout in_thread Idle_timeout (w\<lparr>c_idle_timeout := 0\<rparr>)
      else CheckAndSetTimeouts in_thread (w\<lparr>c_idle_timeout := seconds\<rparr>))"

definition ResetIdleTimeout :: "bool \<Rightarrow> conn_world \<Rightarrow> conn_world option" where
  "ResetIdleTimeout in_thread w =
     (case UpdateActivityTimestamp in_thread w of
        None \<Rightarrow> None
      | Some w \<Rightarrow>
          if c_idle_timeout w > 0 then SetupTimeout in_thread (c_idle_timeout w) Idle_timeout w else Some w)"

definition DisableAllTimeouts :: "bool \<Rightarrow> conn_world \<Rightarrow> conn_world option" where
  "DisableAllTimeouts in_thread w =
     (case CancelTimeout in_thread Read_timeout
             (w\<lparr>c_read_timeout := 0, c_write_timeout := 0, c_idle_timeout := 0\<rparr>) of
        None \<Rightarrow> None
      | Some w \<Rightarrow>
          (case CancelTimeout in_thread Write_timeout w of
             None \<Rightarrow> None
           | Some w \<Rightarrow> CancelTimeout in_thread Idle_timeout w))"

definition HasActiveTimeout :: "conn_world \<Rightarrow> bool" where
  "HasActiveTimeout w \<longleftrightarrow> c_read_active w \<or> c_write_active w \<or> c_idle_active w"

subsection \<open>Transitions and closing\<close>

definition Transition_with ::
  "(conn_world \<Rightarrow> conn_world option) \<Rightarrow> bool \<Rightarrow> conn_state \<Rightarrow> conn_world \<Rightarrow> conn_world option" where
  "Transition_with close in_thread new_state w =
     (if \<not> tcp_CanTransition (c_state w) new_state
      then if c_state w \<noteq> kClosed \<and> c_state w \<noteq> kClosing
           then RunInLoop (\<lambda>_. close) in_thread F_Close (w\<lparr>c_state := kClosing\<rparr>)
           else Some w
      else CheckAndSetTimeouts in_thread (w\<lparr>c_state := new_state\<rparr>))"

text \<open>What closing does after the transition. The reason of a close is only logged.\<close>

definition finish_close :: "conn_world \<Rightarrow> conn_world" where
  "finish_close w =
     (let w = RemoveEvent (c_fd w) w;
          w = w\<lparr>c_manager := map_option (\<lambda>m. ka_OnConnectionClose m (c_fd w)) (c_manager w)\<rparr>
      in if c_has_close_callback w then w\<lparr>w_closes := w_closes w @ [c_fd w]\<rparr> else w)"

definition HandleClose :: "conn_world \<Rightarrow> conn_world option" where
  "HandleClose w = map_option finish_close (Transition_with Some True kClosed w)"

definition HandleError :: "conn_world \<Rightarrow> conn_world option" where
  "HandleError w = HandleClose w"

definition Transition :: "bool \<Rightarrow> conn_state \<Rightarrow> conn_world \<Rightarrow> conn_world option" where
  "Transition = Transition_with HandleClose"

definition ConnectEstablished :: "conn_world \<Rightarrow> conn_world option" where
  "ConnectEstablished w =
     (case Transition True kConnected w of
        None \<Rightarrow> None
      | Some w \<Rightarrow>
          Some (update_event True (EPOLLIN OR EPOLLET)
                  (SetWriteCallback (c_fd w) (SetReadCallback (c_fd w) w))))"

definition ShutdownInLoop :: "bool \<Rightarrow> conn_world \<Rightarrow> conn_world" where
  "ShutdownInLoop in_thread w =
     (if \<not> in_thread then w
      else if chain_IsEmpty (c_output w) then w\<lparr>w_shutdowns := w_shutdowns w + 1\<rparr>
      else w)"

definition Shutdown :: "bool \<Rightarrow> conn_world \<Rightarrow> conn_world option" where
  "Shutdown in_thread w =
     (if IsConnected w
      then (case Transition in_thread kClosing w of
              None \<Rightarrow> None
            | Some w \<Rightarrow> RunInLoop (\<lambda>_ w. Some (ShutdownInLoop True w)) in_thread F_Shutdown w)
      else Some w)"

definition OnTimeout :: "bool \<Rightarrow> timeout_type \<Rightarrow> conn_world \<Rightarrow> conn_world option" where
  "OnTimeout in_thread timeout_type w =
     (if \<not> in_thread then Some (QueueInLoop in_thread (F_OnTimeout timeout_type) w)
      else HandleClose (set_active timeout_type False w))"

definition CloseInLoop :: "bool \<Rightarrow> error_obj \<Rightarrow> conn_world \<Rightarrow> conn_world option" where
  "CloseInLoop in_thread reason w =
     (if \<not> in_thread then Some w
      else if c_state w = kClosed \<or> c_state w = kClosing then Some w
      else case DisableAllTimeouts in_thread w of
             None \<Rightarrow> None
           | Some w \<Rightarrow>
               if err_sys_errno reason \<noteq> 0 then HandleClose w
               else if err_code reason = kTimeout then HandleClose w
               else map_option (ShutdownInLoop in_thread) (Transition in_thread kClosing w))"

definition tcp_Close :: "bool \<Rightarrow> error_obj \<Rightarrow> conn_world \<Rightarrow> conn_world option" where
  "tcp_Close in_thread reason w =
     (if \<not> IsConnected w then Some w
      else if in_thread then CloseInLoop in_thread reason w
      else Some (QueueInLoop in_thread (F_CloseInLoop reason) w))"

subsection \<open>Writing\<close>

definition HandleWrite :: "conn_world \<Rightarrow> conn_world option" where
  "HandleWrite w =
     (if c_state w = kClosed then Some w
      else let iov = GetIov (c_output w) 16
           in if iov = [] then Some w
              else let answer = (case w_writes w of [] \<Rightarrow> Write_again | a # _ \<Rightarrow> a);
                       w = w\<lparr>w_writes := tl (w_writes w)\<rparr>
                   in case answer of
                        Write_again \<Rightarrow> Some (update_event True (EPOLLIN OR EPOLLOUT OR EPOLLET) w)
                      | Write_failed \<Rightarrow> HandleError w
                      | Took k \<Rightarrow>
                          let out = take k (concat iov); n = length out
                          in if n = 0 then HandleError w
                             else (case UpdateActivityTimestamp True
                                          (w\<lparr>w_sent := w_sent w @ out, c_output := Advance n (c_output w),
                                             w_bytes_sent := w_bytes_sent w + n\<rparr>) of
                                     None \<Rightarrow> None
                                   | Some w \<Rightarrow>
                                       if chain_IsEmpty (c_output w)
                                       then let w = update_event True (EPOLLIN OR EPOLLET) w
                                            in Some (if c_state w = kClosing then ShutdownInLoop True w else w)
                                       else Some (update_event True (EPOLLIN OR EPOLLOUT OR EPOLLET) w)))"

definition max_output :: "conn_world \<Rightarrow> nat" where
  "max_output w = (case c_config w of None \<Rightarrow> kMaxOutputBuffer | Some l \<Rightarrow> lo_max_output_buffer l)"

definition SendInLoop :: "bytes \<Rightarrow> conn_world \<Rightarrow> conn_world option" where
  "SendInLoop data w =
     (if data = [] then Some w
      else if TotalBytes (c_output w) + length data > max_output w then HandleClose w
      else HandleWrite (w\<lparr>c_output := chain_Append data (c_output w)\<rparr>))"

definition SendResourceInLoop :: "static_resource \<Rightarrow> conn_world \<Rightarrow> conn_world option" where
  "SendResourceInLoop res w =
     (if sr_size res = 0 then Some w
      else if TotalBytes (c_output w) + sr_size res > max_output w then HandleClose w
      else HandleWrite (w\<lparr>c_output := chain_Append_res (Some res) (c_output w)\<rparr>))"

definition Send :: "bool \<Rightarrow> bytes \<Rightarrow> conn_world \<Rightarrow> conn_world option" where
  "Send in_thread data w =
     (if \<not> IsConnected w then Some w
      else if in_thread then SendInLoop data w
      else Some (QueueInLoop in_thread (F_Send data) w))"

definition Send_resource :: "bool \<Rightarrow> static_resource option \<Rightarrow> conn_world \<Rightarrow> conn_world option" where
  "Send_resource in_thread resource w =
     (case resource of
        None \<Rightarrow> Some w
      | Some res \<Rightarrow>
          if \<not> IsConnected w then Some w
          else if in_thread then SendResourceInLoop res w
          else Some (QueueInLoop in_thread (F_SendResource res) w))"

definition CheckOutputBufferLimit :: "conn_world \<Rightarrow> bool" where
  "CheckOutputBufferLimit w \<longleftrightarrow> TotalBytes (c_output w) > max_output w"

subsection \<open>Reading\<close>

definition max_input :: "conn_world \<Rightarrow> nat" where
  "max_input w = (case c_config w of None \<Rightarrow> kMaxInputBuffer | Some l \<Rightarrow> lo_max_input_buffer l)"

definition CheckInputBufferLimit :: "conn_world \<Rightarrow> bool" where
  "CheckInputBufferLimit w \<longleftrightarrow> length (c_input w) > max_input w"

definition PauseReading :: "conn_world \<Rightarrow> conn_world" where
  "PauseReading w = update_event True (EPOLLOUT OR EPOLLET) w"

definition ResumeReading :: "bool \<Rightarrow> conn_world \<Rightarrow> conn_world" where
  "ResumeReading in_thread w = update_event in_thread (EPOLLIN OR EPOLLOUT OR EPOLLET) w"

definition ClearReadBuffer :: "bool \<Rightarrow> conn_world \<Rightarrow> conn_world" where
  "ClearReadBuffer in_thread w = ResumeReading in_thread (w\<lparr>c_input := []\<rparr>)"

text \<open>The loop of \<open>HandleRead\<close> over the answers of \<open>read\<close>; a read fills at most 4096 bytes and one of no
  bytes is the end of the stream.\<close>

fun read_loop :: "read_answer list \<Rightarrow> conn_world \<Rightarrow> conn_world option" where
  "read_loop [] w = Some (w\<lparr>w_reads := []\<rparr>)"
| "read_loop (a # as) w =
     (case a of
        Read_again \<Rightarrow> Some (w\<lparr>w_reads := as\<rparr>)
      | Read_failed \<Rightarrow> HandleError (w\<lparr>w_reads := as\<rparr>)
      | Got_eof \<Rightarrow> HandleClose (w\<lparr>w_reads := as\<rparr>)
      | Got bs \<Rightarrow>
          let buf = take 4096 bs
          in if buf = [] then HandleClose (w\<lparr>w_reads := as\<rparr>)
             else (case UpdateActivityTimestamp True (w\<lparr>c_input := c_input w @ buf\<rparr>) of
                     None \<Rightarrow> None
                   | Some w \<Rightarrow> read_loop as w))"

definition HandleRead ::
  "(conn_world \<Rightarrow> conn_world option) option \<Rightarrow> conn_world \<Rightarrow> conn_world option" where
  "HandleRead message_callback w =
     (case read_loop (w_reads w) w of
        None \<Rightarrow> None
      | Some w \<Rightarrow>
          let w = (if CheckInputBufferLimit w then PauseReading w else w)
          in case message_callback of
               None \<Rightarrow> Some w
             | Some f \<Rightarrow> if c_input w \<noteq> [] then f w else Some w)"

subsection \<open>Keep-alive\<close>

definition UpdateKeepAliveState :: "int \<Rightarrow> bool \<Rightarrow> int \<Rightarrow> conn_world \<Rightarrow> conn_world" where
  "UpdateKeepAliveState now keep_alive idle_timeout w =
     w\<lparr>c_manager := map_option (\<lambda>m. ka_OnRequestStart now m (c_fd w) keep_alive idle_timeout) (c_manager w)\<rparr>"

definition conn_OnRequestStart :: "int \<Rightarrow> bool \<Rightarrow> int \<Rightarrow> conn_world \<Rightarrow> conn_world" where
  "conn_OnRequestStart now keep_alive idle_timeout w = UpdateKeepAliveState now keep_alive idle_timeout w"

definition conn_OnRequestComplete :: "int \<Rightarrow> conn_world \<Rightarrow> conn_world" where
  "conn_OnRequestComplete now w =
     w\<lparr>c_manager := map_option (\<lambda>m. ka_OnRequestComplete now m (c_fd w)) (c_manager w)\<rparr>"

definition ShouldKeepAlive :: "conn_world \<Rightarrow> bool" where
  "ShouldKeepAlive w =
     (case c_manager w of
        None \<Rightarrow> False
      | Some m \<Rightarrow> (case GetConnectionState m (c_fd w) of None \<Rightarrow> False | Some s \<Rightarrow> ks_keep_alive s))"

subsection \<open>A connection on its loop\<close>

definition new_conn_world ::
  "int \<Rightarrow> conn_functor event_loop \<Rightarrow> limits_options option \<Rightarrow> keep_alive_manager option \<Rightarrow> conn_world" where
  "new_conn_world fd l config manager =
     event_loop.extend l
       \<lparr>c_fd = fd, c_state = kConnecting, c_config = config, c_manager = manager,
        c_read_timeout = (case config of None \<Rightarrow> 0 | Some limits \<Rightarrow> lo_connection_timeout limits),
        c_write_timeout = (case config of None \<Rightarrow> 0 | Some limits \<Rightarrow> lo_connection_timeout limits),
        c_idle_timeout = (case config of None \<Rightarrow> 0 | Some limits \<Rightarrow> lo_keep_alive_timeout limits),
        c_read_active = False, c_write_active = False, c_idle_active = False,
        c_input = [], c_output = new_chain, c_has_close_callback = True,
        w_reads = [], w_writes = [], w_ctl = [], w_closes = [], w_sent = [], w_bytes_sent = 0,
        w_shutdowns = 0\<rparr>"

text \<open>Running a queued functor, and a callback of the timer wheel.\<close>

fun conn_exec :: "conn_functor \<Rightarrow> conn_world \<Rightarrow> conn_world option" where
  "conn_exec (F_Send data) w = SendInLoop data w"
| "conn_exec (F_SendResource res) w = SendResourceInLoop res w"
| "conn_exec F_Shutdown w = Some (ShutdownInLoop True w)"
| "conn_exec F_Close w = HandleClose w"
| "conn_exec (F_Setup seconds timeout_type) w = SetupTimeout True seconds timeout_type w"
| "conn_exec (F_Cancel timeout_type) w = CancelTimeout True timeout_type w"
| "conn_exec (F_OnTimeout timeout_type) w = OnTimeout True timeout_type w"
| "conn_exec (F_CloseInLoop reason) w = CloseInLoop True reason w"
| "conn_exec (F_UpdateEvent events) w = Some (update_event True events w)"
| "conn_exec F_Established w = ConnectEstablished w"

definition conn_fire :: "nat \<Rightarrow> conn_world \<Rightarrow> conn_world option" where
  "conn_fire callback w =
     OnTimeout True (if callback = 0 then Read_timeout else if callback = 1 then Write_timeout
                     else Idle_timeout) w"

definition conn_turn ::
  "(conn_world \<Rightarrow> conn_world option) option \<Rightarrow> conn_functor list \<times> epoll_event list option \<Rightarrow>
   conn_world \<Rightarrow> (int \<times> conn_world) option" where
  "conn_turn message_callback =
     loop_turn conn_fire (\<lambda>_. HandleRead message_callback) (\<lambda>_. HandleWrite) conn_exec"

end
