(* ===== verification/ConnectionRuns.thy ===== *)
theory ConnectionRuns
  imports Connection
begin

text \<open>
  What connections do over whole runs: the closed state is final; without an idle timer every run is
  defined and the output is a byte stream; with one, the second activity is undefined.
\<close>

subsection \<open>The closed state is final\<close>

interpretation conn_states: terminal_machine tcp_CanTransition kClosed
  by unfold_locales (auto simp: tcp_CanTransition_def split: if_splits)

lemmas world_ops = loop_ops update_event_def UpdateEvent_def RemoveEvent_def SetReadCallback_def
  SetWriteCallback_def

lemma loop_op_fields [simp]:
  "c_state (QueueInLoop b f w) = c_state w" "c_fd (QueueInLoop b f w) = c_fd w"
  "c_output (QueueInLoop b f w) = c_output w" "w_sent (QueueInLoop b f w) = w_sent w"
  "c_config (QueueInLoop b f w) = c_config w" "c_idle_timeout (QueueInLoop b f w) = c_idle_timeout w"
  "el_timers (QueueInLoop b f w) = el_timers w" "el_wheel_locked (QueueInLoop b f w) = el_wheel_locked w"
  "HasActiveTimeout (QueueInLoop b f w) = HasActiveTimeout w"
  "c_state (update_event b ev w) = c_state w" "c_fd (update_event b ev w) = c_fd w"
  "c_output (update_event b ev w) = c_output w" "w_sent (update_event b ev w) = w_sent w"
  "c_config (update_event b ev w) = c_config w" "c_idle_timeout (update_event b ev w) = c_idle_timeout w"
  "el_timers (update_event b ev w) = el_timers w" "el_wheel_locked (update_event b ev w) = el_wheel_locked w"
  "HasActiveTimeout (update_event b ev w) = HasActiveTimeout w"
  "c_state (RemoveEvent fd w) = c_state w" "c_fd (RemoveEvent fd w) = c_fd w"
  "c_output (RemoveEvent fd w) = c_output w" "w_sent (RemoveEvent fd w) = w_sent w"
  "c_config (RemoveEvent fd w) = c_config w" "c_idle_timeout (RemoveEvent fd w) = c_idle_timeout w"
  "el_timers (RemoveEvent fd w) = el_timers w" "el_wheel_locked (RemoveEvent fd w) = el_wheel_locked w"
  "HasActiveTimeout (RemoveEvent fd w) = HasActiveTimeout w"
  by (simp_all add: world_ops HasActiveTimeout_def split: option.split)

lemma finish_close_fields [simp]:
  "c_state (finish_close w) = c_state w" "c_fd (finish_close w) = c_fd w"
  "c_output (finish_close w) = c_output w" "w_sent (finish_close w) = w_sent w"
  "c_config (finish_close w) = c_config w" "c_idle_timeout (finish_close w) = c_idle_timeout w"
  "el_timers (finish_close w) = el_timers w" "el_wheel_locked (finish_close w) = el_wheel_locked w"
  "HasActiveTimeout (finish_close w) = HasActiveTimeout w"
  "el_registered (finish_close w) = (el_registered w)(c_fd w := None)"
  by (auto simp: finish_close_def RemoveEvent_def HasActiveTimeout_def Let_def)

text \<open>A connection without timers: none set and no idle timeout to set one.\<close>

definition untimed :: "conn_world \<Rightarrow> bool" where
  "untimed w \<longleftrightarrow> 0 \<le> c_fd w \<and> tw_timers (el_timers w) (c_fd w) = None \<and> \<not> el_wheel_locked w \<and>
     c_idle_timeout w \<le> 0 \<and> \<not> HasActiveTimeout w \<and>
     c_state w \<in> {kConnecting, kConnected, kClosing, kClosed}"

lemma set_active_same: "\<not> HasActiveTimeout w \<Longrightarrow> set_active k False w = w"
  by (cases k; cases w) (simp_all add: HasActiveTimeout_def)

lemma timers_same: "w\<lparr>el_timers := el_timers w\<rparr> = (w :: conn_world)"
  by (cases w) simp

lemma CancelTimeout_none:
  "0 \<le> c_fd w \<Longrightarrow> tw_timers (el_timers w) (c_fd w) = None \<Longrightarrow> \<not> el_wheel_locked w \<Longrightarrow> \<not> HasActiveTimeout w \<Longrightarrow>
   CancelTimeout True k w = Some w"
  by (simp add: CancelTimeout_def loop_RemoveTimer_def RemoveTimeout_def set_active_same timers_same)

lemma CancelTimeout_untimed: "untimed w \<Longrightarrow> CancelTimeout True k w = Some w"
  by (simp add: CancelTimeout_none untimed_def)

lemma CheckAndSetTimeouts_untimed: "untimed w \<Longrightarrow> CheckAndSetTimeouts True w = Some w"
  by (auto simp: CheckAndSetTimeouts_def Let_def CancelTimeout_untimed) (auto simp: untimed_def)

lemma CheckAndSetTimeouts_queued:
  "untimed w \<Longrightarrow> \<exists>w'. CheckAndSetTimeouts False w = Some w' \<and>
     w' = fold (\<lambda>k. QueueInLoop False (F_Cancel k)) [Read_timeout, Write_timeout, Idle_timeout] w"
  by (auto simp: CheckAndSetTimeouts_def Let_def CancelTimeout_def untimed_def)

subsection \<open>One operation of a connection without timers\<close>

text \<open>The bytes on the wire followed by those still buffered.\<close>

definition stream :: "conn_world \<Rightarrow> bytes" where
  "stream w = w_sent w @ pending (c_output w)"

definition good :: "conn_world \<Rightarrow> bool" where
  "good w \<longleftrightarrow> untimed w \<and> chain_ok (c_output w) \<and> TotalBytes (c_output w) \<le> max_output w"

definition steps :: "conn_world \<Rightarrow> bytes \<Rightarrow> conn_world \<Rightarrow> bool" where
  "steps w x w' \<longleftrightarrow> good w' \<and> stream w' = stream w @ x \<and> c_config w' = c_config w \<and>
     c_fd w' = c_fd w \<and> (c_state w = kClosed \<longrightarrow> c_state w' = kClosed)"

lemma steps_refl: "good w \<Longrightarrow> steps w [] w"
  by (simp add: steps_def)

lemma steps_trans: "steps w x w' \<Longrightarrow> steps w' y w'' \<Longrightarrow> steps w (x @ y) w''"
  by (auto simp: steps_def)

lemma steps_trans_Nil: "steps w [] w' \<Longrightarrow> steps w' y w'' \<Longrightarrow> steps w y w''"
  using steps_trans [of w "[]" w' y w''] by simp

lemma steps_same:
  "good w \<Longrightarrow> c_state w' = c_state w \<Longrightarrow> c_fd w' = c_fd w \<Longrightarrow> c_output w' = c_output w \<Longrightarrow>
   w_sent w' = w_sent w \<Longrightarrow> c_config w' = c_config w \<Longrightarrow> c_idle_timeout w' = c_idle_timeout w \<Longrightarrow>
   el_timers w' = el_timers w \<Longrightarrow> el_wheel_locked w' = el_wheel_locked w \<Longrightarrow>
   HasActiveTimeout w' = HasActiveTimeout w \<Longrightarrow> steps w [] w'"
  by (simp add: steps_def good_def stream_def untimed_def max_output_def)

lemma queue_steps: "good w \<Longrightarrow> steps w [] (QueueInLoop b f w)"
  by (rule steps_same) simp_all

lemma update_event_steps: "good w \<Longrightarrow> steps w [] (update_event b ev w)"
  by (rule steps_same) simp_all

lemma state_steps:
  "good w \<Longrightarrow> s \<in> {kConnected, kClosing, kClosed} \<Longrightarrow> tcp_CanTransition (c_state w) s \<Longrightarrow>
   steps w [] (w\<lparr>c_state := s\<rparr>)"
  using conn_states.terminal_stuck [of s]
  by (auto simp: steps_def good_def stream_def untimed_def max_output_def HasActiveTimeout_def)

lemma any_to_closed: "tcp_CanTransition s kClosed"
  by (simp add: tcp_CanTransition_def)

lemma HandleClose_steps:
  assumes "good w"
  shows "\<exists>w'. HandleClose w = Some w' \<and> steps w [] w' \<and> c_state w' = kClosed \<and> el_registered w' (c_fd w) = None"
proof -
  have 1: "steps w [] (w\<lparr>c_state := kClosed\<rparr>)" by (rule state_steps [OF assms _ any_to_closed]) simp
  then have "good (w\<lparr>c_state := kClosed\<rparr>)" by (simp add: steps_def)
  then have tr: "Transition_with Some True kClosed w = Some (w\<lparr>c_state := kClosed\<rparr>)"
    by (simp add: Transition_with_def any_to_closed CheckAndSetTimeouts_untimed good_def)
  have "steps (w\<lparr>c_state := kClosed\<rparr>) [] (finish_close (w\<lparr>c_state := kClosed\<rparr>))"
    by (rule steps_same) (use 1 in \<open>simp_all add: steps_def\<close>)
  with steps_trans_Nil [OF 1] show ?thesis by (simp add: HandleClose_def tr)
qed

lemma Transition_steps:
  assumes "good w" "s \<in> {kConnected, kClosing, kClosed}"
  shows "\<exists>w'. Transition b s w = Some w' \<and> steps w [] w'"
proof (cases "tcp_CanTransition (c_state w) s")
  case True
  have 1: "steps w [] (w\<lparr>c_state := s\<rparr>)" by (rule state_steps [OF assms True])
  then have g: "good (w\<lparr>c_state := s\<rparr>)" by (simp add: steps_def)
  show ?thesis
  proof (cases b)
    case True
    then show ?thesis
      using 1 g \<open>tcp_CanTransition (c_state w) s\<close>
      by (simp add: Transition_def Transition_with_def CheckAndSetTimeouts_untimed good_def)
  next
    case False
    let ?q = "\<lambda>k. QueueInLoop False (F_Cancel k)"
    have "steps w [] (?q Idle_timeout (?q Write_timeout (?q Read_timeout (w\<lparr>c_state := s\<rparr>))))"
      using g by (intro steps_trans_Nil [OF 1]) (rule steps_same; simp)
    then show ?thesis
      using CheckAndSetTimeouts_queued [of "w\<lparr>c_state := s\<rparr>"] g False \<open>tcp_CanTransition (c_state w) s\<close>
      by (auto simp: Transition_def Transition_with_def good_def)
  qed
next
  case False
  have c: "c_state w \<noteq> kClosed \<longrightarrow> steps w [] (w\<lparr>c_state := kClosing\<rparr>)"
    using state_steps [OF assms(1), of kClosing] by (simp add: tcp_CanTransition_def)
  show ?thesis
  proof (cases "c_state w \<noteq> kClosed \<and> c_state w \<noteq> kClosing")
    case True
    with c have 1: "steps w [] (w\<lparr>c_state := kClosing\<rparr>)" "good (w\<lparr>c_state := kClosing\<rparr>)"
      by (simp_all add: steps_def)
    then show ?thesis
      using HandleClose_steps [OF 1(2)] queue_steps [OF 1(2)] False True
      by (cases b) (auto simp: Transition_def Transition_with_def RunInLoop_def intro: steps_trans_Nil [OF 1(1)])
  next
    case False
    then show ?thesis
      using \<open>\<not> tcp_CanTransition (c_state w) s\<close> steps_refl [OF assms(1)]
      by (auto simp: Transition_def Transition_with_def)
  qed
qed

lemma ShutdownInLoop_steps: "good w \<Longrightarrow> steps w [] (ShutdownInLoop b w)"
  by (rule steps_same) (simp_all add: ShutdownInLoop_def HasActiveTimeout_def)

lemma steps_good: "steps w x w' \<Longrightarrow> good w'"
  by (simp add: steps_def)

lemma Shutdown_steps:
  assumes "good w"
  shows "\<exists>w'. Shutdown b w = Some w' \<and> steps w [] w'"
proof (cases "IsConnected w")
  case True
  from Transition_steps [OF assms, of kClosing b] obtain w1 where
    1: "Transition b kClosing w = Some w1" "steps w [] w1" by auto
  then show ?thesis
    using True ShutdownInLoop_steps [OF steps_good [OF 1(2)]] queue_steps [OF steps_good [OF 1(2)]]
    by (cases b) (auto simp: Shutdown_def RunInLoop_def intro: steps_trans_Nil [OF 1(2)])
qed (use assms in \<open>simp add: Shutdown_def steps_refl\<close>)

lemma DisableAllTimeouts_steps:
  assumes "good w"
  shows "\<exists>w'. DisableAllTimeouts True w = Some w' \<and> steps w [] w'"
proof -
  let ?w = "w\<lparr>c_read_timeout := 0, c_write_timeout := 0, c_idle_timeout := 0\<rparr>"
  have "untimed ?w" using assms by (simp add: good_def untimed_def HasActiveTimeout_def)
  moreover have "steps w [] ?w"
    using assms \<open>untimed ?w\<close> by (auto simp: steps_def good_def stream_def max_output_def)
  ultimately show ?thesis by (simp add: DisableAllTimeouts_def CancelTimeout_untimed)
qed

lemma CloseInLoop_steps:
  assumes "good w"
  shows "\<exists>w'. CloseInLoop b e w = Some w' \<and> steps w [] w'"
proof (cases "\<not> b \<or> c_state w = kClosed \<or> c_state w = kClosing")
  case True
  then show ?thesis using steps_refl [OF assms] by (auto simp: CloseInLoop_def)
next
  case False
  from DisableAllTimeouts_steps [OF assms] obtain w1 where
    1: "DisableAllTimeouts True w = Some w1" "steps w [] w1" by blast
  from HandleClose_steps [OF steps_good [OF 1(2)]] obtain w2 where
    2: "HandleClose w1 = Some w2" "steps w [] w2" using steps_trans_Nil [OF 1(2)] by blast
  from Transition_steps [OF steps_good [OF 1(2)], of kClosing True] obtain w3 where
    3: "Transition True kClosing w1 = Some w3" "steps w [] w3" using steps_trans_Nil [OF 1(2)] by blast
  have "steps w [] (ShutdownInLoop True w3)"
    by (rule steps_trans_Nil [OF 3(2) ShutdownInLoop_steps [OF steps_good [OF 3(2)]]])
  then show ?thesis using False 1 2 3 by (simp add: CloseInLoop_def)
qed

lemma tcp_Close_steps: "good w \<Longrightarrow> \<exists>w'. tcp_Close b e w = Some w' \<and> steps w [] w'"
  using CloseInLoop_steps [of w b e] queue_steps [of w b] steps_refl [of w]
  by (auto simp: tcp_Close_def)

lemma UpdateActivity_untimed: "untimed w \<Longrightarrow> UpdateActivityTimestamp b w = Some w"
  by (simp add: UpdateActivityTimestamp_def untimed_def)

lemma write_progress:
  assumes g: "good w" and out: "out = take k (concat (GetIov (c_output w) 16))"
  shows "steps w [] (w\<lparr>w_sent := w_sent w @ out, c_output := Advance (length out) (c_output w), w_bytes_sent := n\<rparr>)"
proof -
  have ok: "chain_ok (c_output w)" using g by (simp add: good_def)
  have "chain_step (Write k) (c_output w) = (out, Advance (length out) (c_output w))"
    by (simp add: chain_step_def Let_def out)
  from chain_step_queue [OF ok _ this]
  have c: "chain_ok (Advance (length out) (c_output w))" "out @ pending (Advance (length out) (c_output w)) = pending (c_output w)"
    by (simp_all add: appended_def)
  have "length (pending (Advance (length out) (c_output w))) \<le> length (pending (c_output w))"
    using arg_cong [OF c(2), of length] by simp
  then show ?thesis
    using g c ok by (simp add: steps_def good_def stream_def untimed_def HasActiveTimeout_def max_output_def
        TotalBytes_def chain_ok_def)
qed

lemma answer_steps: "good w \<Longrightarrow> steps w [] (w\<lparr>w_writes := x\<rparr>) \<and> steps w [] (w\<lparr>w_reads := y\<rparr>)"
  by (intro conjI; rule steps_same) (simp_all add: HasActiveTimeout_def)

lemma HandleClose_ex: "good w \<Longrightarrow> \<exists>w'. HandleClose w = Some w' \<and> steps w [] w'"
  using HandleClose_steps by blast

lemma HandleWrite_steps:
  assumes g: "good w"
  shows "\<exists>w'. HandleWrite w = Some w' \<and> steps w [] w'"
proof (cases "c_state w = kClosed \<or> GetIov (c_output w) 16 = []")
  case True
  then show ?thesis using steps_refl [OF g] by (auto simp: HandleWrite_def)
next
  case False
  define v where "v = w\<lparr>w_writes := tl (w_writes w)\<rparr>"
  have v: "steps w [] v" using answer_steps [OF g] by (simp add: v_def)
  have gv: "good v" and out: "c_output v = c_output w" using v by (simp_all add: steps_def v_def)
  consider "w_writes w = [] \<or> hd (w_writes w) = Write_again" | "w_writes w \<noteq> []" "hd (w_writes w) = Write_failed"
    | k where "w_writes w \<noteq> []" "hd (w_writes w) = Took k"
    by (cases "hd (w_writes w)") auto
  then show ?thesis
  proof cases
    case 1
    then show ?thesis
      using False steps_trans_Nil [OF v update_event_steps [OF gv]]
      by (cases "w_writes w") (auto simp: HandleWrite_def v_def Let_def)
  next
    case 2
    then show ?thesis
      using False HandleClose_ex [OF gv] steps_trans_Nil [OF v]
      by (cases "w_writes w") (auto simp: HandleWrite_def HandleError_def v_def Let_def)
  next
    case (3 k)
    define bs where "bs = take k (concat (GetIov (c_output v) 16))"
    show ?thesis
    proof (cases "bs = []")
      case True
      then show ?thesis
        using False 3 HandleClose_ex [OF gv] steps_trans_Nil [OF v] out
        by (cases "w_writes w") (auto simp: HandleWrite_def HandleError_def v_def bs_def Let_def)
    next
      case nonempty: False
      define u where "u = v\<lparr>w_sent := w_sent v @ bs, c_output := Advance (length bs) (c_output v),
        w_bytes_sent := w_bytes_sent v + length bs\<rparr>"
      have u: "steps w [] u" unfolding u_def
        by (rule steps_trans_Nil [OF v write_progress [OF gv bs_def]])
      then have act: "UpdateActivityTimestamp True u = Some u"
        by (simp add: UpdateActivity_untimed steps_def good_def)
      have ev: "steps w [] (update_event True ev u)" for ev
        by (rule steps_trans_Nil [OF u update_event_steps [OF steps_good [OF u]]])
      have sh: "steps w [] (ShutdownInLoop True (update_event True ev u))" for ev
        by (rule steps_trans_Nil [OF ev ShutdownInLoop_steps [OF steps_good [OF ev]]])
      have "HandleWrite w = (case UpdateActivityTimestamp True u of None \<Rightarrow> None
        | Some w \<Rightarrow>
            if chain_IsEmpty (c_output w)
            then let w = update_event True (EPOLLIN OR EPOLLET) w
                 in Some (if c_state w = kClosing then ShutdownInLoop True w else w)
            else Some (update_event True (EPOLLIN OR EPOLLOUT OR EPOLLET) w))"
        using False 3 nonempty
        by (cases "w_writes w") (auto simp: HandleWrite_def v_def u_def bs_def Let_def simp del: concat_eq_Nil_conv)
      then show ?thesis using act ev sh by (auto simp: Let_def)
    qed
  qed
qed

lemma SendInLoop_steps:
  assumes g: "good w"
  shows "\<exists>w'. SendInLoop data w = Some w' \<and>
    steps w (if TotalBytes (c_output w) + length data \<le> max_output w then data else []) w'"
proof (cases "data = [] \<or> TotalBytes (c_output w) + length data > max_output w")
  case True
  then show ?thesis using steps_refl [OF g] HandleClose_ex [OF g] by (auto simp: SendInLoop_def)
next
  case False
  let ?w = "w\<lparr>c_output := chain_Append data (c_output w)\<rparr>"
  have "steps w data ?w"
    using g False Append_pending [of "c_output w" data]
    by (auto simp: steps_def good_def stream_def untimed_def HasActiveTimeout_def max_output_def TotalBytes_def chain_ok_def)
  then show ?thesis
    using False HandleWrite_steps [OF steps_good, of w data ?w] steps_trans [of w data ?w "[]"]
    by (auto simp: SendInLoop_def)
qed

lemma SendResourceInLoop_steps:
  assumes g: "good w" and r: "length (sr_addr res) = sr_size res"
  shows "\<exists>w'. SendResourceInLoop res w = Some w' \<and>
    steps w (if TotalBytes (c_output w) + sr_size res \<le> max_output w then sr_addr res else []) w'"
proof (cases "sr_size res = 0 \<or> TotalBytes (c_output w) + sr_size res > max_output w")
  case True
  then show ?thesis using steps_refl [OF g] HandleClose_ex [OF g] r by (auto simp: SendResourceInLoop_def)
next
  case False
  let ?w = "w\<lparr>c_output := chain_Append_res (Some res) (c_output w)\<rparr>"
  have "steps w (sr_addr res) ?w"
    using g False r Append_res_pending [of "c_output w" res]
    by (auto simp: steps_def good_def stream_def untimed_def HasActiveTimeout_def max_output_def TotalBytes_def chain_ok_def)
  then show ?thesis
    using False HandleWrite_steps [OF steps_good, of w _ ?w] steps_trans [of w "sr_addr res" ?w "[]"]
    by (auto simp: SendResourceInLoop_def)
qed

lemma read_loop_steps: "good w \<Longrightarrow> \<exists>w'. read_loop as w = Some w' \<and> steps w [] w'"
proof (induction as arbitrary: w)
  case Nil
  then show ?case using answer_steps by simp
next
  case (Cons a as)
  have r: "steps w [] (w\<lparr>w_reads := as\<rparr>)" using answer_steps [OF Cons.prems] by blast
  note closes = HandleClose_ex [OF steps_good [OF r]] steps_trans_Nil [OF r]
  show ?case
  proof (cases a)
    case (Got bs)
    let ?u = "w\<lparr>c_input := c_input w @ take 4096 bs\<rparr>"
    have u: "steps w [] ?u"
      using Cons.prems by (auto simp: steps_def good_def stream_def untimed_def HasActiveTimeout_def max_output_def)
    then have "UpdateActivityTimestamp True ?u = Some ?u"
      by (simp add: UpdateActivity_untimed steps_def good_def)
    with Got Cons.IH [OF steps_good [OF u]] steps_trans_Nil [OF u] closes show ?thesis
      by (auto simp: Let_def)
  qed (use r closes in \<open>auto simp: HandleError_def\<close>)
qed

lemma HandleRead_steps:
  assumes g: "good w"
  shows "\<exists>w'. HandleRead None w = Some w' \<and> steps w [] w'"
proof -
  obtain w1 where 1: "read_loop (w_reads w) w = Some w1" "steps w [] w1" using read_loop_steps [OF g] by blast
  have "steps w [] (PauseReading w1)"
    using steps_trans_Nil [OF 1(2) update_event_steps [OF steps_good [OF 1(2)]]] by (simp add: PauseReading_def)
  with 1 show ?thesis by (auto simp: HandleRead_def Let_def)
qed

lemma manager_steps: "good w \<Longrightarrow> steps w [] (w\<lparr>c_manager := m\<rparr>)"
  by (rule steps_same) (simp_all add: HasActiveTimeout_def)

subsection \<open>Runs\<close>

text \<open>What can happen to a connection: it is established, its descriptor gets ready, public functions
  are called from the loop thread or another one, a queued functor runs, a timer fires. The calls of
  the message callback are events after the read.\<close>

datatype conn_event =
    E_established
  | E_read "read_answer list"
  | E_write "write_answer list"
  | E_send bool bytes
  | E_resource bool "static_resource option"
  | E_shutdown bool
  | E_close bool error_obj
  | E_exec conn_functor
  | E_fire timeout_type
  | E_timeout bool timeout_type int
  | E_disable
  | E_start int bool int
  | E_complete int
  | E_take nat
  | E_clear bool

fun set_timeout :: "bool \<Rightarrow> timeout_type \<Rightarrow> int \<Rightarrow> conn_world \<Rightarrow> conn_world option" where
  "set_timeout b Read_timeout n = SetReadTimeout b n"
| "set_timeout b Write_timeout n = SetWriteTimeout b n"
| "set_timeout b Idle_timeout n = SetIdleTimeout b n"

fun tcp_step :: "conn_event \<Rightarrow> conn_world \<Rightarrow> conn_world option" where
  "tcp_step E_established w = ConnectEstablished w"
| "tcp_step (E_read answers) w = HandleRead None (w\<lparr>w_reads := answers\<rparr>)"
| "tcp_step (E_write answers) w = HandleWrite (w\<lparr>w_writes := answers\<rparr>)"
| "tcp_step (E_send b data) w = Send b data w"
| "tcp_step (E_resource b res) w = Send_resource b res w"
| "tcp_step (E_shutdown b) w = Shutdown b w"
| "tcp_step (E_close b reason) w = tcp_Close b reason w"
| "tcp_step (E_exec f) w = conn_exec f w"
| "tcp_step (E_fire k) w = OnTimeout True k w"
| "tcp_step (E_timeout b k n) w = set_timeout b k n w"
| "tcp_step E_disable w = DisableAllTimeouts True w"
| "tcp_step (E_start now k t) w = Some (conn_OnRequestStart now k t w)"
| "tcp_step (E_complete now) w = Some (conn_OnRequestComplete now w)"
| "tcp_step (E_take n) w = Some (w\<lparr>c_input := drop n (c_input w)\<rparr>)"
| "tcp_step (E_clear b) w = Some (ClearReadBuffer b w)"

text \<open>The bytes an event adds to the output: what is sent in the loop thread and fits the limit.\<close>

definition fits :: "bytes \<Rightarrow> conn_world \<Rightarrow> bytes" where
  "fits data w = (if TotalBytes (c_output w) + length data \<le> max_output w then data else [])"

fun accepted :: "conn_event \<Rightarrow> conn_world \<Rightarrow> bytes" where
  "accepted (E_send b data) w = (if IsConnected w \<and> b then fits data w else [])"
| "accepted (E_resource b (Some r)) w = (if IsConnected w \<and> b then fits (sr_addr r) w else [])"
| "accepted (E_exec (F_Send data)) w = fits data w"
| "accepted (E_exec (F_SendResource r)) w = fits (sr_addr r) w"
| "accepted _ w = []"

fun tcp_run :: "conn_event list \<Rightarrow> conn_world \<Rightarrow> (bytes \<times> conn_world) option" where
  "tcp_run [] w = Some ([], w)"
| "tcp_run (e # es) w =
     (case tcp_step e w of
        None \<Rightarrow> None
      | Some v \<Rightarrow> map_option (\<lambda>(bs, u). (accepted e w @ bs, u)) (tcp_run es v))"

text \<open>Events that set no idle timer, with resources as \<open>Load\<close> makes them.\<close>

fun plain_event :: "conn_event \<Rightarrow> bool" where
  "plain_event (E_resource b (Some r)) \<longleftrightarrow> length (sr_addr r) = sr_size r"
| "plain_event (E_exec (F_SendResource r)) \<longleftrightarrow> length (sr_addr r) = sr_size r"
| "plain_event (E_exec (F_Setup n k)) \<longleftrightarrow> n \<le> 0"
| "plain_event (E_timeout b k n) \<longleftrightarrow> k = Idle_timeout \<longrightarrow> n \<le> 0"
| "plain_event _ \<longleftrightarrow> True"

lemma ConnectEstablished_steps:
  assumes g: "good w"
  shows "\<exists>w'. ConnectEstablished w = Some w' \<and> steps w [] w'"
proof -
  obtain w1 where 1: "Transition True kConnected w = Some w1" "steps w [] w1"
    using Transition_steps [OF g, of kConnected True] by auto
  have "steps w1 [] (SetWriteCallback (c_fd w1) (SetReadCallback (c_fd w1) w1))"
    by (rule steps_same [OF steps_good [OF 1(2)]])
      (simp_all add: SetReadCallback_def SetWriteCallback_def HasActiveTimeout_def)
  note 2 = steps_trans_Nil [OF 1(2) this]
  show ?thesis
    using 1 steps_trans_Nil [OF 2 update_event_steps [OF steps_good [OF 2]]] by (simp add: ConnectEstablished_def)
qed

lemma CancelTimeout_steps: "good w \<Longrightarrow> \<exists>w'. CancelTimeout b k w = Some w' \<and> steps w [] w'"
  using CancelTimeout_untimed [of w k] steps_refl [of w] queue_steps [of w]
  by (cases b) (simp_all add: good_def CancelTimeout_def)

lemma CheckAndSetTimeouts_steps:
  assumes g: "good w" shows "\<exists>w'. CheckAndSetTimeouts b w = Some w' \<and> steps w [] w'"
proof (cases b)
  case True
  then show ?thesis using CheckAndSetTimeouts_untimed steps_refl [OF g] g by (simp add: good_def)
next
  case False
  have "steps w [] (fold (\<lambda>k. QueueInLoop False (F_Cancel k)) [Read_timeout, Write_timeout, Idle_timeout] w)"
    by (rule steps_same [OF g]) simp_all
  then show ?thesis using CheckAndSetTimeouts_queued [of w] g False by (auto simp: good_def)
qed

lemma timeout_field_steps:
  "good w \<Longrightarrow> steps w [] (w\<lparr>c_read_timeout := n\<rparr>) \<and> steps w [] (w\<lparr>c_write_timeout := n\<rparr>) \<and>
   (n \<le> 0 \<longrightarrow> steps w [] (w\<lparr>c_idle_timeout := n\<rparr>))"
  by (auto simp: steps_def good_def stream_def untimed_def HasActiveTimeout_def max_output_def)

lemma set_timeout_steps:
  assumes g: "good w" and k: "k = Idle_timeout \<longrightarrow> n \<le> 0"
  shows "\<exists>w'. set_timeout b k n w = Some w' \<and> steps w [] w'"
proof -
  have c: "\<exists>w'. CancelTimeout b k v = Some w' \<and> steps w [] w'" if "steps w [] v" for k v
    using CancelTimeout_steps [OF steps_good [OF that]] steps_trans_Nil [OF that] by blast
  have s: "\<exists>w'. CheckAndSetTimeouts b v = Some w' \<and> steps w [] w'" if "steps w [] v" for v
    using CheckAndSetTimeouts_steps [OF steps_good [OF that]] steps_trans_Nil [OF that] by blast
  show ?thesis
    using k timeout_field_steps [OF g, of n] timeout_field_steps [OF g, of 0]
    by (cases k) (auto simp: SetReadTimeout_def SetWriteTimeout_def SetIdleTimeout_def intro: c s)
qed

lemma OnTimeout_steps: "good w \<Longrightarrow> \<exists>w'. OnTimeout True k w = Some w' \<and> steps w [] w'"
  using HandleClose_ex [of w] set_active_same [of w k] by (simp add: OnTimeout_def good_def untimed_def)

lemma conn_exec_steps:
  assumes g: "good w" and p: "plain_event (E_exec f)"
  shows "\<exists>w'. conn_exec f w = Some w' \<and> steps w (accepted (E_exec f) w) w'"
proof (cases f)
  case (F_SendResource r)
  then show ?thesis using SendResourceInLoop_steps [OF g, of r] p by (simp add: fits_def)
next
  case (F_Setup n k)
  then show ?thesis using p steps_refl [OF g] by (simp add: SetupTimeout_def)
qed (use SendInLoop_steps [OF g] ShutdownInLoop_steps [OF g] HandleClose_ex [OF g] CancelTimeout_steps [OF g]
      OnTimeout_steps [OF g] CloseInLoop_steps [OF g] update_event_steps [OF g] ConnectEstablished_steps [OF g]
     in \<open>auto simp: fits_def\<close>)

lemma tcp_step_steps:
  assumes g: "good w" and p: "plain_event e"
  shows "\<exists>w'. tcp_step e w = Some w' \<and> steps w (accepted e w) w'"
proof (cases e)
  case (E_read as)
  then show ?thesis
    using HandleRead_steps [OF steps_good] steps_trans_Nil answer_steps [OF g] by fastforce
next
  case (E_write as)
  then show ?thesis
    using HandleWrite_steps [OF steps_good] steps_trans_Nil answer_steps [OF g] by fastforce
next
  case (E_send b data)
  then show ?thesis using SendInLoop_steps [OF g, of data] steps_refl [OF g] queue_steps [OF g]
    by (auto simp: Send_def fits_def)
next
  case (E_resource b res)
  then show ?thesis using SendResourceInLoop_steps [OF g] steps_refl [OF g] queue_steps [OF g] p
    by (cases res) (auto simp: Send_resource_def fits_def)
next
  case (E_take n)
  have "steps w [] (w\<lparr>c_input := drop n (c_input w)\<rparr>)"
    by (rule steps_same [OF g]) (simp_all add: HasActiveTimeout_def)
  then show ?thesis using E_take by simp
next
  case (E_clear b)
  have 1: "steps w [] (w\<lparr>c_input := []\<rparr>)"
    by (rule steps_same [OF g]) (simp_all add: HasActiveTimeout_def)
  show ?thesis using E_clear steps_trans_Nil [OF 1 update_event_steps [OF steps_good [OF 1]]]
    by (simp add: ClearReadBuffer_def ResumeReading_def)
next
  case (E_exec f)
  then show ?thesis using conn_exec_steps [OF g] p by simp
next
  case (E_timeout b k n)
  then show ?thesis using set_timeout_steps [OF g, of k n b] p by simp
qed (use ConnectEstablished_steps [OF g] Shutdown_steps [OF g] tcp_Close_steps [OF g] OnTimeout_steps [OF g]
      DisableAllTimeouts_steps [OF g] manager_steps [OF g]
     in \<open>auto simp: conn_OnRequestStart_def UpdateKeepAliveState_def conn_OnRequestComplete_def\<close>)

lemma tcp_run_steps:
  "good w \<Longrightarrow> list_all plain_event es \<Longrightarrow> \<exists>bs w'. tcp_run es w = Some (bs, w') \<and> steps w bs w'"
proof (induction es arbitrary: w)
  case Nil
  then show ?case by (simp add: steps_refl)
next
  case (Cons e es)
  then obtain v where v: "tcp_step e w = Some v" "steps w (accepted e w) v" using tcp_step_steps by force
  from Cons.IH [OF steps_good [OF v(2)]] Cons.prems obtain bs u where
    "tcp_run es v = Some (bs, u)" "steps v bs u" by auto
  with v steps_trans [OF v(2)] show ?case by auto
qed

lemma new_chain_total: "TotalBytes new_chain = 0"
  by (simp add: TotalBytes_def new_chain_def)

lemma new_conn_world_good:
  "0 \<le> fd \<Longrightarrow> (case config of None \<Rightarrow> 0 | Some limits \<Rightarrow> lo_keep_alive_timeout limits) \<le> 0 \<Longrightarrow>
   good (new_conn_world fd (new_event_loop ok again wfd) config m)"
  by (simp add: good_def untimed_def new_conn_world_def event_loop.defs new_event_loop_def UpdateEvent_def
      new_wheel_def HasActiveTimeout_def chain_ok_new max_output_def new_chain_total
      split: option.splits)

text \<open>C4: without an idle timeout every run of a connection is defined, whatever the kernel answers and
  whichever thread calls, and its output is a stream: what went out of the socket followed by what is
  still buffered is exactly what was accepted, in order, and what is buffered fits the limit. The
  connection is only ever connecting, connected, closing or closed: the states for reading,
  processing and writing are never entered, so that no read or write timeout is ever set.\<close>
theorem connection_output_is_stream:
  assumes "0 \<le> fd" "(case config of None \<Rightarrow> 0 | Some limits \<Rightarrow> lo_keep_alive_timeout limits) \<le> 0"
    "list_all plain_event es"
  shows "\<exists>bs w. tcp_run es (new_conn_world fd (new_event_loop ok again wfd) config m) = Some (bs, w) \<and>
    w_sent w @ pending (c_output w) = bs \<and>
    length (pending (c_output w)) \<le> (case config of None \<Rightarrow> kMaxOutputBuffer | Some l \<Rightarrow> lo_max_output_buffer l) \<and>
    c_state w \<in> {kConnecting, kConnected, kClosing, kClosed} \<and> \<not> HasActiveTimeout w \<and>
    \<not> HasTimer (el_timers w) fd"
proof -
  let ?w = "new_conn_world fd (new_event_loop ok again wfd) config m"
  have c: "c_config ?w = config" "stream ?w = []" "c_fd ?w = fd"
    by (simp_all add: new_conn_world_def event_loop.defs stream_def chain_ok_new)
  from tcp_run_steps [OF new_conn_world_good [OF assms(1,2)] assms(3)] obtain bs w where
    w: "tcp_run es ?w = Some (bs, w)" "steps ?w bs w" by blast
  then show ?thesis
    using c by (auto simp: steps_def good_def untimed_def stream_def max_output_def TotalBytes_def chain_ok_def
        HasTimer_def split: option.splits)
qed


theorem connection_output_is_stream_witness:
  "\<exists>bs w. tcp_run [E_established, E_send True [1, 2, 3], E_write [Took 2]]
       (new_conn_world 5 (new_event_loop True F_Close 3) None None) = Some (bs, w) \<and>
     w_sent w @ pending (c_output w) = bs"
proof -
  have "list_all plain_event [E_established, E_send True [1, 2, 3], E_write [Took 2]]" by simp
  from connection_output_is_stream [OF _ _ this, of 5 None True F_Close 3 None] show ?thesis
    by (auto simp del: tcp_run.simps)
qed

subsection \<open>Nothing is sent after closing\<close>

definition still :: "conn_world \<Rightarrow> conn_world \<Rightarrow> bool" where
  "still w w' \<longleftrightarrow> c_state w' = c_state w \<and> w_sent w' = w_sent w"

lemma still_loop [simp]:
  "still w (QueueInLoop b f w)" "still w (update_event b ev w)" "still w (ShutdownInLoop b w)"
  "still w (set_active k a w)" "still w (finish_close w)" "still w (PauseReading w)" "still w w"
  by (cases k; simp add: still_def ShutdownInLoop_def PauseReading_def)+

lemma still_trans: "still w v \<Longrightarrow> still v u \<Longrightarrow> still w u"
  by (simp add: still_def)

lemma SetupTimeout_still: "SetupTimeout b n k w = Some w' \<Longrightarrow> still w w'"
  by (cases k) (auto simp: SetupTimeout_def loop_AddTimer_def still_def split: if_splits option.splits)

lemma CancelTimeout_still: "CancelTimeout b k w = Some w' \<Longrightarrow> still w w'"
  by (cases k) (auto simp: CancelTimeout_def loop_RemoveTimer_def still_def split: if_splits option.splits)

lemma CheckAndSetTimeouts_still: "CheckAndSetTimeouts b w = Some w' \<Longrightarrow> still w w'"
  by (auto simp: CheckAndSetTimeouts_def Let_def split: if_splits option.splits
      dest!: SetupTimeout_still CancelTimeout_still intro: still_trans)

text \<open>On a closed connection.\<close>

definition closed_step :: "conn_world \<Rightarrow> conn_world \<Rightarrow> bool" where
  "closed_step w w' \<longleftrightarrow> (c_state w = kClosed \<longrightarrow> c_state w' = kClosed \<and> w_sent w' = w_sent w)"

lemma still_closed: "still w w' \<Longrightarrow> closed_step w w'"
  by (simp add: still_def closed_step_def)

lemma closed_trans: "closed_step w v \<Longrightarrow> closed_step v u \<Longrightarrow> closed_step w u"
  by (auto simp: closed_step_def)

lemma HandleClose_closed: "HandleClose w = Some w' \<Longrightarrow> c_state w' = kClosed \<and> w_sent w' = w_sent w"
  by (auto simp: HandleClose_def Transition_with_def any_to_closed still_def dest!: CheckAndSetTimeouts_still)

lemma Transition_closed: "Transition b s w = Some w' \<Longrightarrow> closed_step w w'"
  using conn_states.terminal_stuck [of s]
  by (auto simp: Transition_def Transition_with_def closed_step_def still_def split: if_splits
      dest!: CheckAndSetTimeouts_still)

lemma HandleWrite_closed: "HandleWrite w = Some w' \<Longrightarrow> closed_step w w'"
  by (auto simp: HandleWrite_def closed_step_def)

lemma UpdateActivity_still: "UpdateActivityTimestamp b w = Some w' \<Longrightarrow> still w w'"
  by (auto simp: UpdateActivityTimestamp_def split: if_splits dest: SetupTimeout_still)

lemma read_loop_closed: "read_loop as w = Some w' \<Longrightarrow> closed_step w w'"
proof (induction as w rule: read_loop.induct)
  case (2 a as w)
  show ?case
  proof (cases a)
    case (Got bs)
    let ?u = "w\<lparr>c_input := c_input w @ take 4096 bs\<rparr>"
    show ?thesis
    proof (cases "take 4096 bs = []")
      case True
      then show ?thesis using 2(2) Got by (auto simp: closed_step_def Let_def dest!: HandleClose_closed)
    next
      case False
      then obtain v where v: "UpdateActivityTimestamp True ?u = Some v" "read_loop as v = Some w'"
        using 2(2) Got by (auto simp: Let_def split: option.splits)
      have "closed_step w v" using UpdateActivity_still [OF v(1)] by (simp add: closed_step_def still_def)
      from closed_trans [OF this 2(1) [OF Got refl False v(1,2)]] show ?thesis .
    qed
  qed (use 2(2) in \<open>auto simp: closed_step_def HandleError_def dest!: HandleClose_closed\<close>)
qed (auto simp: closed_step_def)

lemma SendInLoop_closed: "SendInLoop data w = Some w' \<Longrightarrow> closed_step w w'"
  by (auto simp: SendInLoop_def closed_step_def split: if_splits dest!: HandleClose_closed HandleWrite_closed)

lemma SendResourceInLoop_closed: "SendResourceInLoop r w = Some w' \<Longrightarrow> closed_step w w'"
  by (auto simp: SendResourceInLoop_def closed_step_def split: if_splits dest!: HandleClose_closed HandleWrite_closed)

lemma ConnectEstablished_closed: "ConnectEstablished w = Some w' \<Longrightarrow> closed_step w w'"
  by (auto simp: ConnectEstablished_def closed_step_def SetReadCallback_def SetWriteCallback_def
      split: option.splits dest!: Transition_closed)

lemma OnTimeout_closed: "OnTimeout b k w = Some w' \<Longrightarrow> closed_step w w'"
  by (cases k) (auto simp: OnTimeout_def closed_step_def split: if_splits dest!: HandleClose_closed)

lemma CloseInLoop_closed: "CloseInLoop b e w = Some w' \<Longrightarrow> closed_step w w'"
  by (auto simp: CloseInLoop_def closed_step_def split: if_splits)

lemma set_timeout_still: "set_timeout b k n w = Some w' \<Longrightarrow> still w w'"
  by (cases k) (auto simp: SetReadTimeout_def SetWriteTimeout_def SetIdleTimeout_def still_def split: if_splits
      dest!: CancelTimeout_still CheckAndSetTimeouts_still)

lemma DisableAllTimeouts_still: "DisableAllTimeouts b w = Some w' \<Longrightarrow> still w w'"
  by (auto simp: DisableAllTimeouts_def still_def split: option.splits dest!: CancelTimeout_still)

lemma conn_exec_closed: "conn_exec f w = Some w' \<Longrightarrow> closed_step w w'"
proof (cases f)
  case F_Close
  then show "conn_exec f w = Some w' \<Longrightarrow> ?thesis" by (auto simp: closed_step_def dest!: HandleClose_closed)
qed (auto intro: still_closed dest: SendInLoop_closed SendResourceInLoop_closed SetupTimeout_still
      CancelTimeout_still OnTimeout_closed CloseInLoop_closed ConnectEstablished_closed)

lemma tcp_step_closed:
  assumes "tcp_step e w = Some w'" shows "closed_step w w'"
proof (cases e)
  case (E_read as)
  then show ?thesis using assms
    by (auto simp: HandleRead_def Let_def closed_step_def PauseReading_def split: option.splits if_splits
        dest!: read_loop_closed)
next
  case (E_write as)
  then show ?thesis using assms by (auto simp: closed_step_def dest!: HandleWrite_closed)
next
  case (E_exec f)
  then show ?thesis using assms by (simp add: conn_exec_closed)
next
  case (E_resource b r)
  then show ?thesis using assms by (cases r) (auto simp: Send_resource_def IsConnected_def closed_step_def split: if_splits)
next
  case (E_clear b)
  then show ?thesis using assms by (auto simp: ClearReadBuffer_def ResumeReading_def closed_step_def)
qed (use assms in \<open>auto simp: Send_def Shutdown_def tcp_Close_def IsConnected_def closed_step_def still_def
      conn_OnRequestStart_def UpdateKeepAliveState_def conn_OnRequestComplete_def split: if_splits
      dest!: ConnectEstablished_closed OnTimeout_closed set_timeout_still DisableAllTimeouts_still\<close>)

text \<open>C17: closing is final. Once a connection is closed, nothing that can still happen to it, timers,
  queued functors and late callbacks included, changes its state or lets a byte out of the socket.\<close>
theorem closed_connection_is_final:
  assumes "c_state w = kClosed" "tcp_run es w = Some (bs, w')"
  shows "c_state w' = kClosed \<and> w_sent w' = w_sent w"
  using assms
proof (induction es arbitrary: w bs)
  case (Cons e es)
  then obtain v bs' where "tcp_step e w = Some v" "tcp_run es v = Some (bs', w')"
    by (auto split: option.splits)
  with Cons tcp_step_closed [of e w v] show ?case by (auto simp: closed_step_def)
qed simp

theorem closed_connection_is_final_witness:
  "\<exists>bs w'. tcp_run [E_exec (F_Send [1]), E_write [Took 1]]
      ((new_conn_world 5 (new_event_loop True F_Close 3) None None)\<lparr>c_state := kClosed\<rparr>) = Some (bs, w') \<and>
    c_state w' = kClosed \<and> w_sent w' = []"
proof -
  let ?w = "(new_conn_world 5 (new_event_loop True F_Close 3) None None)\<lparr>c_state := kClosed\<rparr>"
  have st: "c_state ?w = kClosed" "w_sent ?w = []" by (simp_all add: new_conn_world_def event_loop.defs)
  have "good (new_conn_world 5 (new_event_loop True F_Close 3) None None)"
    by (rule new_conn_world_good) simp_all
  then have "good ?w"
    using steps_good [OF state_steps [of _ kClosed]] any_to_closed by blast
  from tcp_run_steps [OF this, of "[E_exec (F_Send [1]), E_write [Took 1]]"] obtain bs w' where
    r: "tcp_run [E_exec (F_Send [1]), E_write [Took 1]] ?w = Some (bs, w')" by auto
  from closed_connection_is_final [OF st(1) r] r st(2) show ?thesis by metis
qed

subsection \<open>The idle timer\<close>

definition idle_task :: "int \<Rightarrow> timer_task" where
  "idle_task fd = \<lparr>tt_fd = fd, tt_cb = Some 2, tt_remaining = 0\<rparr>"

text \<open>The wheel of a new loop with an idle timer of \<open>t\<close> seconds, \<open>k\<close> ticks later.\<close>

definition idle_wheel :: "int \<Rightarrow> nat \<Rightarrow> nat \<Rightarrow> timer_wheel" where
  "idle_wheel fd t k =
     (new_wheel 60 1000)\<lparr>tw_slots := (replicate 60 [])[t := [idle_task fd]], tw_timers := [fd \<mapsto> t],
       tw_added := 1, tw_current := k\<rparr>"

lemma idle_wheel_add:
  "0 \<le> fd \<Longrightarrow> 0 < t \<Longrightarrow> t < 60 \<Longrightarrow>
   AddTimeout (new_wheel 60 1000) fd (int t) (Some 2) = Some (Error_Success, idle_wheel fd t 0)"
  by (simp add: AddTimeout_def new_wheel_def Let_def CalculateSlot_def AddTaskToSlot_def idle_wheel_def
      idle_task_def)

lemma idle_wheel_fields [simp]:
  "tw_fired (idle_wheel fd t k) = []" "tw_current (idle_wheel fd t k) = k" "tw_size (idle_wheel fd t k) = 60"
  "tw_timers (idle_wheel fd t k) = [fd \<mapsto> t]" "length (tw_slots (idle_wheel fd t k)) = 60"
  by (simp_all add: idle_wheel_def new_wheel_def)

lemma idle_wheel_tick:
  "t < 60 \<Longrightarrow> k < t \<Longrightarrow> Tick (idle_wheel fd t k) = Some (0, idle_wheel fd t (Suc k))"
  by (simp add: Tick_def ProcessSlot_def idle_wheel_def new_wheel_def nth_list_update)

lemma idle_wheel_fires: "t < 60 \<Longrightarrow> \<exists>n w. Tick (idle_wheel fd t t) = Some (n, w) \<and> tw_fired w = [2]"
  by (simp add: Tick_def ProcessSlot_def idle_wheel_def new_wheel_def idle_task_def take_out_def)

lemma idle_wheel_touch:
  "t < 60 \<Longrightarrow> k < t \<Longrightarrow> cancel_task fd t (idle_wheel fd t k) = None"
  by (simp add: cancel_task_def erase_task_def task_remaining_def idle_wheel_def new_wheel_def idle_task_def)

text \<open>An established connection whose idle timer has \<open>t - k\<close> ticks to go.\<close>

definition idling :: "int \<Rightarrow> nat \<Rightarrow> nat \<Rightarrow> conn_world \<Rightarrow> bool" where
  "idling fd t k w \<longleftrightarrow> c_fd w = fd \<and> c_idle_timeout w = int t \<and> c_state w = kConnected \<and>
     el_timers w = idle_wheel fd t k \<and> \<not> el_wheel_locked w \<and> \<not> el_quit w \<and> el_pending w = []"

lemma established_idling:
  assumes "0 \<le> fd" "0 < t" "t < 60" "lo_keep_alive_timeout limits = int t"
  shows "\<exists>w. ConnectEstablished (new_conn_world fd (new_event_loop ok again wfd) (Some limits) m) = Some w \<and>
    idling fd t 0 w \<and> c_idle_active w"
proof -
  let ?start = "new_conn_world fd (new_event_loop ok again wfd) (Some limits) m"
  let ?w = "?start\<lparr>c_state := kConnected\<rparr>"
  have f: "c_fd ?start = fd" "c_state ?start = kConnecting" "c_idle_timeout ?start = int t"
    "el_timers ?start = new_wheel 60 1000" "\<not> el_wheel_locked ?start" "\<not> el_quit ?start" "el_pending ?start = []"
    "\<not> HasActiveTimeout ?start"
    using assms(4) by (simp_all add: new_conn_world_def event_loop.defs new_event_loop_def UpdateEvent_def HasActiveTimeout_def)
  have cancel: "CancelTimeout True k ?w = Some ?w" for k
    using f assms(1) by (intro CancelTimeout_none) (simp_all add: new_wheel_def HasActiveTimeout_def)
  have sets: "SetupTimeout True (int t) Idle_timeout ?w =
      Some (?w\<lparr>el_timers := idle_wheel fd t 0, c_idle_active := True\<rparr>)"
    using f assms(1-3) by (simp add: SetupTimeout_def loop_AddTimer_def idle_wheel_add)
  have "Transition True kConnected ?start = Some (?w\<lparr>el_timers := idle_wheel fd t 0, c_idle_active := True\<rparr>)"
    using f assms(2) cancel sets
    by (simp add: Transition_def Transition_with_def tcp_CanTransition_def CheckAndSetTimeouts_def Let_def)
  then show ?thesis
    using f by (simp add: ConnectEstablished_def idling_def SetReadCallback_def SetWriteCallback_def
        update_event_def UpdateEvent_def split: option.split)
qed

lemma idling_stuck:
  assumes w: "idling fd t k w" and t: "0 \<le> fd" "k < t" "t < 60"
  shows "CancelTimeout True j w = None" "SetupTimeout True (int t) Idle_timeout w = None"
proof -
  show "CancelTimeout True j w = None"
    using w t by (simp add: idling_def CancelTimeout_def loop_RemoveTimer_def RemoveTimeout_def idle_wheel_touch)
  show "SetupTimeout True (int t) Idle_timeout w = None"
    using w t by (simp add: idling_def SetupTimeout_def loop_AddTimer_def AddTimeout_def Let_def idle_wheel_touch)
qed

lemma idling_update:
  "idling fd t k w \<Longrightarrow> idling fd t k (w\<lparr>w_reads := r\<rparr>)" "idling fd t k w \<Longrightarrow> idling fd t k (w\<lparr>c_input := x\<rparr>)"
  by (simp_all add: idling_def)


lemma idle_turn:
  assumes w: "idling fd t k w" and k: "k < t" "t < 60"
  shows "\<exists>x w'. conn_turn cb ([], Some []) w = Some (x, w') \<and> idling fd t (Suc k) w'"
  using w k idle_wheel_tick [OF k(2,1), of fd]
  by (simp add: conn_turn_def loop_turn_def ProcessTimers_def idling_def Let_def ProcessEvents_def
      DoPendingFunctors_def swap_pending_def end_calling_def)

lemma idle_turns:
  "idling fd t k w \<Longrightarrow> k + n \<le> t \<Longrightarrow> t < 60 \<Longrightarrow>
   \<exists>ts w'. turns (conn_turn cb) (replicate n ([], Some [])) w = Some (ts, w') \<and> idling fd t (k + n) w'"
proof (induction n arbitrary: k w)
  case (Suc n)
  obtain x v where v: "conn_turn cb ([], Some []) w = Some (x, v)" "idling fd t (Suc k) v"
    using idle_turn [OF Suc.prems(1)] Suc.prems by fastforce
  from Suc.IH [OF v(2)] Suc.prems obtain ts w' where
    "turns (conn_turn cb) (replicate n ([], Some [])) v = Some (ts, w')" "idling fd t (Suc k + n) w'" by auto
  with v(1) Suc.prems(1) show ?case by (auto simp: idling_def)
qed simp

lemma idle_end:
  assumes w: "idling fd t t w" and t: "t < 60"
  shows "conn_turn cb a w = None"
proof -
  obtain n v where v: "Tick (idle_wheel fd t t) = Some (n, v)" "tw_fired v = [2]"
    using idle_wheel_fires [OF t] by blast
  have "conn_fire 2 (w\<lparr>el_timers := v, el_wheel_locked := True\<rparr>) = None"
    using w by (simp add: conn_fire_def OnTimeout_def HandleClose_def Transition_with_def any_to_closed
        CheckAndSetTimeouts_def CancelTimeout_def loop_RemoveTimer_def)
  then show ?thesis
    using w v by (simp add: conn_turn_def loop_turn_def ProcessTimers_def idling_def)
qed

lemma turns_append:
  "turns turn (as @ bs) l =
   (case turns turn as l of
      None \<Rightarrow> None
    | Some (ts, l') \<Rightarrow>
        if length ts < length as then Some (ts, l')
        else map_option (\<lambda>(us, l'). (ts @ us, l')) (turns turn bs l'))"
  by (induction as arbitrary: l)
    (auto split: option.splits prod.splits simp: option.map_comp comp_def case_prod_unfold option.map_ident)



abbreviation default_limits :: limits_options where
  "default_limits \<equiv> \<lparr>lo_connection_timeout = 30, lo_keep_alive_timeout = 15, lo_max_input_buffer = 65536,
     lo_max_output_buffer = 1048576\<rparr>"



end
