(* ===== verification/TimerManager.thy ===== *)
theory TimerManager
  imports KeyedStore "HOL-Library.Multiset"
begin

text \<open>
  The heap of timers (include/timer_manager.h, src/timer_manager.cpp): a binary heap in a vector,
  the earliest expiry at the front, and an index from file descriptors to positions.

  Time points are integers in nanoseconds. \<open>Clock::now()\<close> is a parameter: the reading of the clock
  for an operation that reads it once, the sequence of readings for the loop that reads it at every
  turn. A callback is a number, \<open>None\<close> for an empty \<open>std::function\<close>; calls are appended to
  \<open>tm_fired\<close>. Callbacks that call back into the manager are not modelled.
\<close>

record timer_node =
  tn_fd :: int
  tn_expire :: int
  tn_cb :: "nat option"

record timer_manager =
  tm_heap :: "timer_node list"
  tm_ref :: "int \<rightharpoonup> nat"
  tm_fired :: "nat list"

definition new_timer_manager :: timer_manager where
  "new_timer_manager = \<lparr>tm_heap = [], tm_ref = Map.empty, tm_fired = []\<rparr>"

definition swap_node :: "nat \<Rightarrow> nat \<Rightarrow> timer_manager \<Rightarrow> timer_manager" where
  "swap_node i j tm =
     (if i \<ge> length (tm_heap tm) \<or> j \<ge> length (tm_heap tm) then tm
      else let h = (tm_heap tm)[i := tm_heap tm ! j, j := tm_heap tm ! i]
           in tm\<lparr>tm_heap := h, tm_ref := (tm_ref tm)(tn_fd (h ! i) \<mapsto> i, tn_fd (h ! j) \<mapsto> j)\<rparr>)"

function siftup :: "nat \<Rightarrow> timer_manager \<Rightarrow> timer_manager" where
  "siftup i tm =
     (if i > 0
      then let j = (i - 1) div 2
           in if tn_expire (tm_heap tm ! j) > tn_expire (tm_heap tm ! i)
              then siftup j (swap_node i j tm)
              else tm
      else tm)"
  by pat_completeness auto
termination
  by (relation "measure fst") auto

declare siftup.simps [simp del]

text \<open>The child \<open>siftdown_\<close> goes to: the right one if it is there and smaller.\<close>

definition smaller_child :: "nat \<Rightarrow> nat \<Rightarrow> timer_manager \<Rightarrow> nat" where
  "smaller_child i n tm =
     (let j = i * 2 + 1
      in if j + 1 < n \<and> tn_expire (tm_heap tm ! (j + 1)) < tn_expire (tm_heap tm ! j)
         then j + 1 else j)"

function siftdown_loop :: "nat \<Rightarrow> nat \<Rightarrow> timer_manager \<Rightarrow> nat \<times> timer_manager" where
  "siftdown_loop i n tm =
     (if i * 2 + 1 < n
      then let j = smaller_child i n tm
           in if tn_expire (tm_heap tm ! j) < tn_expire (tm_heap tm ! i)
              then siftdown_loop j n (swap_node i j tm)
              else (i, tm)
      else (i, tm))"
  by pat_completeness auto
termination
  by (relation "measure (\<lambda>(i, n, tm). n - i)") (auto simp: smaller_child_def Let_def)

declare siftdown_loop.simps [simp del]

definition siftdown :: "nat \<Rightarrow> nat \<Rightarrow> timer_manager \<Rightarrow> bool \<times> timer_manager" where
  "siftdown index n tm = (case siftdown_loop index n tm of (i, tm) \<Rightarrow> (i > index, tm))"

definition sift :: "nat \<Rightarrow> nat \<Rightarrow> timer_manager \<Rightarrow> timer_manager" where
  "sift i n tm = (case siftdown i n tm of (moved, tm) \<Rightarrow> if \<not> moved then siftup i tm else tm)"

definition ms :: "int \<Rightarrow> int" where
  "ms n = n * 1000000"

definition AdjustTimer :: "int \<Rightarrow> int \<Rightarrow> int \<Rightarrow> timer_manager \<Rightarrow> timer_manager" where
  "AdjustTimer now fd timeout_ms tm =
     (case tm_ref tm fd of
        None \<Rightarrow> tm
      | Some i \<Rightarrow>
          sift i (length (tm_heap tm))
            (tm\<lparr>tm_heap := (tm_heap tm)[i := (tm_heap tm ! i)\<lparr>tn_expire := now + ms timeout_ms\<rparr>]\<rparr>))"

definition AddTimer :: "int \<Rightarrow> int \<Rightarrow> int \<Rightarrow> nat option \<Rightarrow> timer_manager \<Rightarrow> timer_manager" where
  "AddTimer now fd timeout_ms cb tm =
     (if tm_ref tm fd \<noteq> None then AdjustTimer now fd timeout_ms tm
      else siftup (length (tm_heap tm))
        (tm\<lparr>tm_ref := (tm_ref tm)(fd \<mapsto> length (tm_heap tm)),
            tm_heap := tm_heap tm @ [\<lparr>tn_fd = fd, tn_expire = now + ms timeout_ms, tn_cb = cb\<rparr>]\<rparr>))"

definition del_timer :: "nat \<Rightarrow> timer_manager \<Rightarrow> timer_manager" where
  "del_timer index tm =
     (if tm_heap tm = [] \<or> index \<ge> length (tm_heap tm) then tm
      else let n = length (tm_heap tm) - 1;
               tm = (if index < n then sift index n (swap_node index n tm) else tm)
           in tm\<lparr>tm_ref := (tm_ref tm)(tn_fd (last (tm_heap tm)) := None),
                 tm_heap := butlast (tm_heap tm)\<rparr>)"

definition RemoveTimer :: "int \<Rightarrow> timer_manager \<Rightarrow> timer_manager" where
  "RemoveTimer fd tm = (case tm_ref tm fd of None \<Rightarrow> tm | Some i \<Rightarrow> del_timer i tm)"

text \<open>
  \<open>duration_cast\<close> to milliseconds truncates towards zero, and the result is positive from one
  millisecond on.
\<close>

definition ms_left :: "int \<Rightarrow> int \<Rightarrow> int" where
  "ms_left expire now = (if expire \<ge> now then (expire - now) div 1000000 else - ((now - expire) div 1000000))"

definition fire :: "timer_node \<Rightarrow> timer_manager \<Rightarrow> timer_manager" where
  "fire node tm = (case tn_cb node of None \<Rightarrow> tm | Some c \<Rightarrow> tm\<lparr>tm_fired := tm_fired tm @ [c]\<rparr>)"

subsection \<open>What the swaps keep\<close>

definition fds :: "timer_manager \<Rightarrow> int list" where
  "fds tm = map tn_fd (tm_heap tm)"

definition ref_ok :: "timer_manager \<Rightarrow> bool" where
  "ref_ok tm \<longleftrightarrow> (\<forall>fd i. tm_ref tm fd = Some i \<longleftrightarrow> i < length (tm_heap tm) \<and> tn_fd (tm_heap tm ! i) = fd)"

lemma ref_ok_distinct: "ref_ok tm \<Longrightarrow> distinct (fds tm)"
  unfolding distinct_conv_nth fds_def ref_ok_def by (metis length_map nth_map option.inject)

lemma swap_node_length [simp]: "length (tm_heap (swap_node i j tm)) = length (tm_heap tm)"
  by (simp add: swap_node_def Let_def)

lemma swap_node_fired [simp]: "tm_fired (swap_node i j tm) = tm_fired tm"
  by (simp add: swap_node_def Let_def)

lemma swap_node_nth:
  "i < length (tm_heap tm) \<Longrightarrow> j < length (tm_heap tm) \<Longrightarrow> k < length (tm_heap tm) \<Longrightarrow>
   tm_heap (swap_node i j tm) ! k = tm_heap tm ! (if k = j then i else if k = i then j else k)"
  by (simp add: swap_node_def nth_list_update Let_def)

lemma swap_node_mset [simp]: "mset (tm_heap (swap_node i j tm)) = mset (tm_heap tm)"
  by (simp add: swap_node_def Let_def mset_swap)

lemma swap_node_ref_ok: "ref_ok tm \<Longrightarrow> ref_ok (swap_node i j tm)"
proof (cases "i < length (tm_heap tm) \<and> j < length (tm_heap tm)")
  case True
  assume ok: "ref_ok tm"
  let ?h = "tm_heap tm"
  have ref: "tm_ref (swap_node i j tm) = (tm_ref tm)(tn_fd (?h ! j) \<mapsto> i, tn_fd (?h ! i) \<mapsto> j)"
    using True by (auto simp: swap_node_def Let_def nth_list_update)
  have inj: "tn_fd (?h ! a) = tn_fd (?h ! b) \<longleftrightarrow> a = b" if "a < length ?h" "b < length ?h" for a b
    using ok that unfolding ref_ok_def by (metis option.inject)
  show ?thesis
    unfolding ref_ok_def
  proof (intro allI)
    fix fd k
    show "tm_ref (swap_node i j tm) fd = Some k \<longleftrightarrow>
        k < length (tm_heap (swap_node i j tm)) \<and> tn_fd (tm_heap (swap_node i j tm) ! k) = fd"
      using True ok inj by (auto simp: ref swap_node_nth ref_ok_def split: if_splits)
  qed
qed (auto simp: swap_node_def)

text \<open>A property every swap keeps is kept by sifting.\<close>

lemma siftup_keeps:
  assumes "\<And>i j tm. P tm \<Longrightarrow> P (swap_node i j tm)" "P tm"
  shows "P (siftup i tm)"
  using assms(2)
proof (induction i tm rule: siftup.induct)
  case (1 i tm)
  then show ?case by (subst siftup.simps) (auto simp: Let_def intro: assms(1))
qed

lemma siftdown_loop_keeps:
  assumes "\<And>i j tm. P tm \<Longrightarrow> P (swap_node i j tm)" "P tm"
  shows "P (snd (siftdown_loop i n tm))"
  using assms(2)
proof (induction i n tm rule: siftdown_loop.induct)
  case (1 i n tm)
  then show ?case by (subst siftdown_loop.simps) (auto simp: Let_def intro: assms(1))
qed

lemma sift_keeps:
  assumes "\<And>i j tm. P tm \<Longrightarrow> P (swap_node i j tm)" "P tm"
  shows "P (sift i n tm)"
  using siftdown_loop_keeps [of P, OF assms, of i n]
  by (auto simp: sift_def siftdown_def split: prod.split intro: siftup_keeps [of P] assms(1))

lemma siftup_mset [simp]: "mset (tm_heap (siftup i tm)) = mset (tm_heap tm)"
  by (rule siftup_keeps [where P = "\<lambda>t. mset (tm_heap t) = mset (tm_heap tm)"]) simp_all

lemma sift_mset [simp]: "mset (tm_heap (sift i n tm)) = mset (tm_heap tm)"
  by (rule sift_keeps [where P = "\<lambda>t. mset (tm_heap t) = mset (tm_heap tm)"]) simp_all

lemma siftup_fired [simp]: "tm_fired (siftup i tm) = tm_fired tm"
  by (rule siftup_keeps [where P = "\<lambda>t. tm_fired t = tm_fired tm"]) simp_all

lemma sift_fired [simp]: "tm_fired (sift i n tm) = tm_fired tm"
  by (rule sift_keeps [where P = "\<lambda>t. tm_fired t = tm_fired tm"]) simp_all

lemma siftup_length [simp]: "length (tm_heap (siftup i tm)) = length (tm_heap tm)"
  by (metis siftup_mset size_mset)

lemma sift_length [simp]: "length (tm_heap (sift i n tm)) = length (tm_heap tm)"
  by (metis sift_mset size_mset)

lemma siftup_ref_ok: "ref_ok tm \<Longrightarrow> ref_ok (siftup i tm)"
  by (rule siftup_keeps [where P = ref_ok]) (rule swap_node_ref_ok)

lemma sift_ref_ok: "ref_ok tm \<Longrightarrow> ref_ok (sift i n tm)"
  by (rule sift_keeps [where P = ref_ok]) (rule swap_node_ref_ok)

subsection \<open>The heap order\<close>

abbreviation par :: "nat \<Rightarrow> nat" where "par k \<equiv> (k - 1) div 2"

abbreviation exp_at :: "timer_manager \<Rightarrow> nat \<Rightarrow> int" where
  "exp_at tm k \<equiv> tn_expire (tm_heap tm ! k)"

definition heap_upto :: "nat \<Rightarrow> timer_manager \<Rightarrow> bool" where
  "heap_upto n tm \<longleftrightarrow> (\<forall>k. 0 < k \<and> k < n \<longrightarrow> exp_at tm (par k) \<le> exp_at tm k)"

text \<open>The order with a hole at \<open>i\<close>: above it, below it, on both sides of it.\<close>

definition below_hole :: "nat \<Rightarrow> nat \<Rightarrow> timer_manager \<Rightarrow> bool" where
  "below_hole i n tm \<longleftrightarrow>
     (\<forall>k. 0 < k \<and> k < n \<and> par k = i \<and> 0 < i \<longrightarrow> exp_at tm (par i) \<le> exp_at tm k)"

definition hole_up :: "nat \<Rightarrow> nat \<Rightarrow> timer_manager \<Rightarrow> bool" where
  "hole_up i n tm \<longleftrightarrow> below_hole i n tm \<and>
     (\<forall>k. 0 < k \<and> k < n \<and> k \<noteq> i \<longrightarrow> exp_at tm (par k) \<le> exp_at tm k)"

definition hole_down :: "nat \<Rightarrow> nat \<Rightarrow> timer_manager \<Rightarrow> bool" where
  "hole_down i n tm \<longleftrightarrow> below_hole i n tm \<and>
     (\<forall>k. 0 < k \<and> k < n \<and> par k \<noteq> i \<longrightarrow> exp_at tm (par k) \<le> exp_at tm k)"

definition hole :: "nat \<Rightarrow> nat \<Rightarrow> timer_manager \<Rightarrow> bool" where
  "hole i n tm \<longleftrightarrow> below_hole i n tm \<and>
     (\<forall>k. 0 < k \<and> k < n \<and> k \<noteq> i \<and> par k \<noteq> i \<longrightarrow> exp_at tm (par k) \<le> exp_at tm k)"

lemma par_less: "0 < k \<Longrightarrow> par k < k"
  by simp

lemma par_child: "0 < k \<Longrightarrow> par k = i \<longleftrightarrow> k = 2 * i + 1 \<or> k = 2 * i + 2"
  by presburger

lemma swap_exp:
  "i < length (tm_heap tm) \<Longrightarrow> j < length (tm_heap tm) \<Longrightarrow> k < length (tm_heap tm) \<Longrightarrow>
   exp_at (swap_node i j tm) k = exp_at tm (if k = j then i else if k = i then j else k)"
  by (simp add: swap_node_nth)

lemma hole_up_step:
  assumes h: "hole_up i n tm" and i: "0 < i" "i < n" "n \<le> length (tm_heap tm)"
    and jdef: "par i = j" and gt: "exp_at tm j > exp_at tm i"
  shows "hole_up j n (swap_node i j tm)"
proof -
  let ?e' = "exp_at (swap_node i j tm)"
  have j: "j < i" "j < length (tm_heap tm)" "i < length (tm_heap tm)" using i jdef by auto
  have e': "?e' k = exp_at tm (if k = j then i else if k = i then j else k)" if "k < n" for k
    using j i(3) that by (intro swap_exp) auto
  have up: "exp_at tm (par k) \<le> exp_at tm k" if "0 < k" "k < n" "k \<noteq> i" for k
    using h that by (simp add: hole_up_def)
  have down: "exp_at tm j \<le> exp_at tm k" if "0 < k" "k < n" "par k = i" for k
    using h that i(1) jdef unfolding hole_up_def below_hole_def by blast
  have order: "?e' (par k) \<le> ?e' k" if k: "0 < k" "k < n" "k \<noteq> j" for k
  proof -
    have pk: "par k < k" "par k < n" using k by auto
    consider "k = i" | "k \<noteq> i" "par k = i" | "k \<noteq> i" "par k = j" | "k \<noteq> i" "par k \<noteq> i" "par k \<noteq> j"
      by blast
    then show ?thesis
    proof cases
      case 1
      then show ?thesis using gt j i jdef by (simp add: e')
    next
      case 2
      then show ?thesis using down [OF k(1,2)] k pk j by (simp add: e')
    next
      case 3
      then show ?thesis using up [OF k(1,2)] gt k pk j by (simp add: e')
    next
      case 4
      then show ?thesis using up [OF k(1,2)] k pk by (simp add: e')
    qed
  qed
  moreover have "?e' (par j) \<le> ?e' k" if k: "0 < k" "k < n" "par k = j" "0 < j" for k
  proof -
    have jj: "exp_at tm (par j) \<le> exp_at tm j" using up [of j] k(4) j(1) i by simp
    have pj: "par j < j" "par j < n" "j < n" using k(4) j(1) i by auto
    have kj: "k \<noteq> j" using k(3) par_less [OF k(1)] by auto
    show ?thesis
    proof (cases "k = i")
      case True
      then show ?thesis using jj pj j i by (simp add: e')
    next
      case False
      then show ?thesis using jj up [OF k(1,2) False] pj j k kj by (simp add: e')
    qed
  qed
  ultimately show ?thesis unfolding hole_up_def below_hole_def by blast
qed

lemma hole_down_step:
  assumes h: "hole i n tm" and n: "n \<le> length (tm_heap tm)" and c: "i * 2 + 1 < n"
    and j: "j = smaller_child i n tm" and lt: "exp_at tm j < exp_at tm i"
  shows "hole_down j n (swap_node i j tm)"
proof -
  let ?e' = "exp_at (swap_node i j tm)"
  have jc: "j = 2 * i + 1 \<or> j = 2 * i + 2 \<and> j < n"
    and least: "\<And>k. k < n \<Longrightarrow> k = 2 * i + 1 \<or> k = 2 * i + 2 \<Longrightarrow> exp_at tm j \<le> exp_at tm k"
    using c by (auto simp: j smaller_child_def Let_def mult.commute)
  then have j': "j < n" "i < j" "0 < j" "par j = i" using c by auto
  have e': "?e' k = exp_at tm (if k = j then i else if k = i then j else k)" if "k < n" for k
    using j' n that by (intro swap_exp) auto
  have old: "exp_at tm (par k) \<le> exp_at tm k" if "0 < k" "k < n" "k \<noteq> i" "par k \<noteq> i" for k
    using h that by (simp add: hole_def)
  have "?e' (par k) \<le> ?e' k" if k: "0 < k" "k < n" "par k \<noteq> j" for k
  proof -
    have pk: "par k < k" "par k < n" using k by auto
    consider "k = i" | "k = j" | "k \<noteq> j" "par k = i" | "k \<noteq> i" "k \<noteq> j" "par k \<noteq> i"
      by blast
    then show ?thesis
    proof cases
      case 1
      have "exp_at tm (par i) \<le> exp_at tm j"
        using h j' k(1) 1 unfolding hole_def below_hole_def by blast
      then show ?thesis using 1 k pk j' by (simp add: e')
    next
      case 2
      then show ?thesis using lt j' k pk by (simp add: e')
    next
      case 3
      then have "k \<noteq> i" using pk by auto
      then show ?thesis using least [of k] par_child [OF k(1), of i] 3 k pk j' by (simp add: e')
    next
      case 4
      then show ?thesis using old [OF k(1,2)] k pk by (simp add: e')
    qed
  qed
  moreover have "?e' (par j) \<le> ?e' k" if k: "0 < k" "k < n" "par k = j" for k
  proof -
    have "k > j" using par_less [OF k(1)] k(3) by simp
    then show ?thesis using old [OF k(1,2)] k j' by (simp add: e')
  qed
  ultimately show ?thesis unfolding hole_down_def below_hole_def by blast
qed

lemma siftup_heap:
  "hole_up i n tm \<Longrightarrow> i < n \<Longrightarrow> n \<le> length (tm_heap tm) \<Longrightarrow>
   heap_upto n (siftup i tm) \<and> (\<forall>k. i < k \<and> k < length (tm_heap tm) \<longrightarrow>
     tm_heap (siftup i tm) ! k = tm_heap tm ! k)"
proof (induction i tm rule: siftup.induct)
  case (1 i tm)
  show ?case
  proof (cases "0 < i \<and> exp_at tm (par i) > exp_at tm i")
    case True
    then have i: "0 < i" and gt: "exp_at tm (par i) > exp_at tm i" by auto
    have step: "siftup i tm = siftup (par i) (swap_node i (par i) tm)"
      using True by (subst siftup.simps) (simp add: Let_def)
    have "hole_up (par i) n (swap_node i (par i) tm)"
      by (rule hole_up_step [OF 1(2) i 1(3,4) refl gt])
    from 1(1) [OF i refl gt this] 1(3,4) par_less [OF i]
    have "heap_upto n (siftup i tm)"
      "\<And>k. par i < k \<Longrightarrow> k < length (tm_heap tm) \<Longrightarrow>
         tm_heap (siftup i tm) ! k = tm_heap (swap_node i (par i) tm) ! k"
      by (auto simp: step)
    then show ?thesis
      using par_less [OF i] 1(3,4) by (auto simp: swap_node_nth)
  next
    case False
    then have stop: "siftup i tm = tm" by (subst siftup.simps) (auto simp: Let_def)
    have "exp_at tm (par k) \<le> exp_at tm k" if "0 < k" "k < n" for k
      using 1(2) False that by (cases "k = i") (auto simp: hole_up_def not_less)
    then show ?thesis unfolding stop heap_upto_def by blast
  qed
qed

lemma siftdown_loop_heap:
  "hole_down i n tm \<Longrightarrow> n \<le> length (tm_heap tm) \<Longrightarrow>
   heap_upto n (snd (siftdown_loop i n tm)) \<and> i \<le> fst (siftdown_loop i n tm) \<and>
   (\<forall>k. n \<le> k \<and> k < length (tm_heap tm) \<longrightarrow>
     tm_heap (snd (siftdown_loop i n tm)) ! k = tm_heap tm ! k)"
proof (induction i n tm rule: siftdown_loop.induct)
  case (1 i n tm)
  let ?j = "smaller_child i n tm"
  show ?case
  proof (cases "i * 2 + 1 < n \<and> exp_at tm ?j < exp_at tm i")
    case True
    then have c: "i * 2 + 1 < n" and lt: "exp_at tm ?j < exp_at tm i" by auto
    have j: "i < ?j" "?j < n" using c by (auto simp: smaller_child_def Let_def)
    have step: "siftdown_loop i n tm = siftdown_loop ?j n (swap_node i ?j tm)"
      using True by (subst siftdown_loop.simps) (simp add: Let_def)
    have "hole i n tm" using 1(2) by (auto simp: hole_def hole_down_def)
    then have "hole_down ?j n (swap_node i ?j tm)"
      by (rule hole_down_step [OF _ 1(3) c refl lt])
    from 1(1) [OF c refl lt this] 1(3) j show ?thesis
      by (auto simp: step swap_node_nth)
  next
    case False
    then have stop: "siftdown_loop i n tm = (i, tm)"
      by (subst siftdown_loop.simps) (auto simp: Let_def)
    have "exp_at tm (par k) \<le> exp_at tm k" if k: "0 < k" "k < n" for k
    proof (cases "par k = i")
      case True
      then have "k = 2 * i + 1 \<or> k = 2 * i + 2" using par_child [OF k(1), of i] by simp
      then show ?thesis
        using False k True by (auto simp: smaller_child_def Let_def mult.commute split: if_splits)
    next
      case False
      then show ?thesis using 1(2) k by (simp add: hole_down_def)
    qed
    then show ?thesis unfolding stop heap_upto_def by simp
  qed
qed

text \<open>Repairing a hole, in whichever direction it takes.\<close>

lemma sift_heap:
  assumes h: "hole i n tm" and i: "i < n" "n \<le> length (tm_heap tm)"
  shows "heap_upto n (sift i n tm) \<and>
    (\<forall>k. n \<le> k \<and> k < length (tm_heap tm) \<longrightarrow> tm_heap (sift i n tm) ! k = tm_heap tm ! k)"
proof (cases "i * 2 + 1 < n \<and> exp_at tm (smaller_child i n tm) < exp_at tm i")
  case True
  let ?j = "smaller_child i n tm"
  from True have c: "i * 2 + 1 < n" and lt: "exp_at tm ?j < exp_at tm i" by auto
  have j: "i < ?j" "?j < n" using c by (auto simp: smaller_child_def Let_def)
  have step: "siftdown_loop i n tm = siftdown_loop ?j n (swap_node i ?j tm)"
    using True by (subst siftdown_loop.simps) (simp add: Let_def)
  have "hole_down ?j n (swap_node i ?j tm)" by (rule hole_down_step [OF h i(2) c refl lt])
  from siftdown_loop_heap [OF this] i j show ?thesis
    by (auto simp: sift_def siftdown_def step swap_node_nth split: prod.split)
next
  case False
  then have stop: "siftdown_loop i n tm = (i, tm)"
    by (subst siftdown_loop.simps) (auto simp: Let_def)
  have "exp_at tm (par k) \<le> exp_at tm k" if k: "0 < k" "k < n" "k \<noteq> i" for k
  proof (cases "par k = i")
    case True
    then have "k = 2 * i + 1 \<or> k = 2 * i + 2" using par_child [OF k(1), of i] by simp
    then show ?thesis
      using False k True by (auto simp: smaller_child_def Let_def mult.commute split: if_splits)
  next
    case False
    then show ?thesis using h k by (simp add: hole_def)
  qed
  then have "hole_up i n tm" using h by (simp add: hole_up_def hole_def)
  from siftup_heap [OF this i] i show ?thesis
    by (auto simp: sift_def siftdown_def stop)
qed

lemma heap_least: "heap_upto n tm \<Longrightarrow> k < n \<Longrightarrow> exp_at tm 0 \<le> exp_at tm k"
proof (induction k rule: less_induct)
  case (less k)
  show ?case
  proof (cases "k = 0")
    case False
    then have "par k < k" by simp
    with less False have "exp_at tm 0 \<le> exp_at tm (par k)" by simp
    also have "\<dots> \<le> exp_at tm k" using less.prems False by (simp add: heap_upto_def)
    finally show ?thesis .
  qed simp
qed

subsection \<open>The operations keep the invariant\<close>

definition tm_ok :: "timer_manager \<Rightarrow> bool" where
  "tm_ok tm \<longleftrightarrow> ref_ok tm \<and> heap_upto (length (tm_heap tm)) tm"

definition node_of :: "timer_manager \<Rightarrow> int \<Rightarrow> timer_node option" where
  "node_of tm fd = map_option (\<lambda>i. tm_heap tm ! i) (tm_ref tm fd)"

lemma node_of_Some: "ref_ok tm \<Longrightarrow> node_of tm fd = Some x \<longleftrightarrow> x \<in> set (tm_heap tm) \<and> tn_fd x = fd"
  by (auto simp: node_of_def ref_ok_def in_set_conv_nth)

lemma node_of_eqI:
  assumes "ref_ok tm" "\<And>fd x. f fd = Some x \<longleftrightarrow> x \<in> set (tm_heap tm) \<and> tn_fd x = fd"
  shows "node_of tm = f"
proof
  fix fd
  show "node_of tm fd = f fd"
    using assms(2) [of fd] node_of_Some [OF assms(1), of fd] by (cases "f fd") (auto, metis option.exhaust)
qed

lemma ref_ok_append:
  assumes "ref_ok tm" "tm_ref tm fd = None" "tn_fd x = fd"
  shows "ref_ok (tm\<lparr>tm_ref := (tm_ref tm)(fd \<mapsto> length (tm_heap tm)), tm_heap := tm_heap tm @ [x]\<rparr>)"
proof -
  have "tn_fd (tm_heap tm ! i) \<noteq> fd" if "i < length (tm_heap tm)" for i
    using assms(1,2) that unfolding ref_ok_def by (metis option.distinct(1))
  with assms show ?thesis unfolding ref_ok_def by (auto simp: nth_append less_Suc_eq)
qed

lemma ref_ok_expire:
  assumes "ref_ok tm"
  shows "ref_ok (tm\<lparr>tm_heap := (tm_heap tm)[i := (tm_heap tm ! i)\<lparr>tn_expire := e\<rparr>]\<rparr>)"
proof -
  have "tn_fd ((tm_heap tm)[i := (tm_heap tm ! i)\<lparr>tn_expire := e\<rparr>] ! k) = tn_fd (tm_heap tm ! k)" for k
    by (cases "i < length (tm_heap tm)") (simp_all add: nth_list_update list_update_beyond not_less)
  with assms show ?thesis unfolding ref_ok_def by simp
qed

lemma AdjustTimer_ok [inv_lemmas]:
  assumes "tm_ok tm"
  shows "tm_ok (AdjustTimer now fd t tm)"
proof (cases "tm_ref tm fd")
  case (Some i)
  let ?h = "tm_heap tm"
  let ?tm = "tm\<lparr>tm_heap := ?h[i := (?h ! i)\<lparr>tn_expire := now + ms t\<rparr>]\<rparr>"
  have i: "i < length ?h" using assms Some by (auto simp: tm_ok_def ref_ok_def)
  have old: "exp_at tm (par k) \<le> exp_at tm k" if "0 < k" "k < length ?h" for k
    using assms that by (simp add: tm_ok_def heap_upto_def)
  have e: "exp_at ?tm k = (if k = i then now + ms t else exp_at tm k)" if "k < length ?h" for k
    using that by (simp add: nth_list_update)
  have "exp_at ?tm (par i) \<le> exp_at ?tm k" if k: "0 < k" "k < length ?h" "par k = i" "0 < i" for k
  proof -
    have "par i < i" "i < k" using k par_less [of k] by auto
    moreover have "exp_at tm (par i) \<le> exp_at tm i" "exp_at tm i \<le> exp_at tm k"
      using old [of i] old [of k] k i by simp_all
    ultimately show ?thesis using k i by (simp add: e)
  qed
  moreover have "exp_at ?tm (par k) \<le> exp_at ?tm k"
    if "0 < k" "k < length ?h" "k \<noteq> i" "par k \<noteq> i" for k
    using old [of k] that par_less [of k] by (simp add: e)
  ultimately have "hole i (length ?h) ?tm" unfolding hole_def below_hole_def by blast
  from sift_heap [OF this] i assms show ?thesis
    by (simp add: AdjustTimer_def Some tm_ok_def sift_ref_ok ref_ok_expire)
qed (use assms in \<open>simp add: AdjustTimer_def\<close>)

lemma node_of_AdjustTimer:
  assumes "tm_ok tm"
  shows "node_of (AdjustTimer now fd t tm)
    = (node_of tm)(fd := map_option (tn_expire_update (\<lambda>_. now + ms t)) (node_of tm fd))"
proof (cases "tm_ref tm fd")
  case (Some i)
  let ?h = "tm_heap tm"
  have r: "ref_ok tm" and i: "i < length ?h" "tn_fd (?h ! i) = fd"
    using assms Some by (auto simp: tm_ok_def ref_ok_def)
  have "set (tm_heap (AdjustTimer now fd t tm)) = set (?h[i := (?h ! i)\<lparr>tn_expire := now + ms t\<rparr>])"
    by (simp add: AdjustTimer_def Some) (metis sift_mset set_mset_mset timer_manager.select_convs(1) timer_manager.surjective timer_manager.update_convs(1))
  then have m: "x \<in> set (tm_heap (AdjustTimer now fd t tm)) \<longleftrightarrow>
      (\<exists>j < length ?h. x = (if j = i then (?h ! i)\<lparr>tn_expire := now + ms t\<rparr> else ?h ! j))" for x
    by (auto simp: in_set_conv_nth nth_list_update)
  have inj: "tn_fd (?h ! a) = tn_fd (?h ! b) \<longleftrightarrow> a = b" if "a < length ?h" "b < length ?h" for a b
    using r that unfolding ref_ok_def by (metis option.inject)
  show ?thesis
  proof (rule node_of_eqI)
    show "ref_ok (AdjustTimer now fd t tm)" using AdjustTimer_ok [OF assms] by (simp add: tm_ok_def)
    fix f x
    show "((node_of tm)(fd := map_option (tn_expire_update (\<lambda>_. now + ms t)) (node_of tm fd))) f = Some x
      \<longleftrightarrow> x \<in> set (tm_heap (AdjustTimer now fd t tm)) \<and> tn_fd x = f"
      using Some i inj r unfolding m by (auto simp: node_of_def ref_ok_def split: if_splits)
  qed
qed (auto simp: AdjustTimer_def node_of_def)

lemma AddTimer_ok [inv_lemmas]:
  assumes "tm_ok tm"
  shows "tm_ok (AddTimer now fd t cb tm)"
proof (cases "tm_ref tm fd")
  case None
  let ?x = "\<lparr>tn_fd = fd, tn_expire = now + ms t, tn_cb = cb\<rparr>"
  let ?n = "length (tm_heap tm)"
  let ?tm = "tm\<lparr>tm_ref := (tm_ref tm)(fd \<mapsto> ?n), tm_heap := tm_heap tm @ [?x]\<rparr>"
  have r: "ref_ok ?tm" using ref_ok_append [of tm fd ?x] assms None by (simp add: tm_ok_def)
  have "exp_at ?tm (par k) \<le> exp_at ?tm k" if "0 < k" "k < Suc ?n" "k \<noteq> ?n" for k
    using assms that par_less [of k] by (simp add: nth_append tm_ok_def heap_upto_def)
  moreover have "par k \<noteq> ?n" if "0 < k" "k < Suc ?n" for k
    using that par_less [of k] by linarith
  ultimately have "hole_up ?n (Suc ?n) ?tm" unfolding hole_up_def below_hole_def by blast
  from siftup_heap [OF this] r show ?thesis
    by (simp add: AddTimer_def None tm_ok_def siftup_ref_ok)
qed (use assms in \<open>simp add: AddTimer_def AdjustTimer_ok\<close>)

lemma node_of_AddTimer:
  assumes "tm_ok tm"
  shows "node_of (AddTimer now fd t cb tm) = (node_of tm)(fd \<mapsto>
    (case node_of tm fd of
       None \<Rightarrow> \<lparr>tn_fd = fd, tn_expire = now + ms t, tn_cb = cb\<rparr>
     | Some x \<Rightarrow> x\<lparr>tn_expire := now + ms t\<rparr>))"
proof (cases "tm_ref tm fd")
  case None
  let ?x = "\<lparr>tn_fd = fd, tn_expire = now + ms t, tn_cb = cb\<rparr>"
  have add: "AddTimer now fd t cb tm = siftup (length (tm_heap tm))
      (tm\<lparr>tm_ref := (tm_ref tm)(fd \<mapsto> length (tm_heap tm)), tm_heap := tm_heap tm @ [?x]\<rparr>)"
    by (simp add: AddTimer_def None)
  have "set (tm_heap (AddTimer now fd t cb tm)) = insert ?x (set (tm_heap tm))"
    unfolding add by (simp flip: set_mset_mset)
  moreover have "tn_fd x \<noteq> fd" if "x \<in> set (tm_heap tm)" for x
    using None assms that unfolding tm_ok_def ref_ok_def in_set_conv_nth
    by (metis option.distinct(1))
  ultimately show ?thesis
    using AddTimer_ok [OF assms, of now fd t cb] assms None node_of_Some [of tm]
    by (intro node_of_eqI) (auto simp: tm_ok_def node_of_def [of tm fd] split: if_splits)
next
  case (Some i)
  then have "node_of tm fd = Some (tm_heap tm ! i)" by (simp add: node_of_def)
  with Some show ?thesis
    by (simp add: AddTimer_def node_of_AdjustTimer [OF assms])
qed

lemma del_timer_lemma:
  assumes ok: "tm_ok tm" and i: "i < length (tm_heap tm)"
  shows "tm_ok (del_timer i tm) \<and> tm_fired (del_timer i tm) = tm_fired tm \<and>
    mset (tm_heap tm) = add_mset (tm_heap tm ! i) (mset (tm_heap (del_timer i tm)))"
proof -
  define n where "n = length (tm_heap tm) - 1"
  define u where "u = (if i < n then sift i n (swap_node i n tm) else tm)"
  have n: "n < length (tm_heap tm)" using i by (simp add: n_def)
  have del: "del_timer i tm = u\<lparr>tm_ref := (tm_ref u)(tn_fd (last (tm_heap u)) := None),
      tm_heap := butlast (tm_heap u)\<rparr>"
    using i by (auto simp: del_timer_def u_def n_def Let_def)
  have old: "exp_at tm (par k) \<le> exp_at tm k" if "0 < k" "k < length (tm_heap tm)" for k
    using ok that by (simp add: tm_ok_def heap_upto_def)
  have u: "ref_ok u" "mset (tm_heap u) = mset (tm_heap tm)" "tm_fired u = tm_fired tm"
    using ok by (auto simp: u_def tm_ok_def sift_ref_ok swap_node_ref_ok)
  have len_tm: "length (tm_heap tm) = Suc n" using i by (simp add: n_def)
  then have len: "length (tm_heap u) = Suc n" by (metis u(2) size_mset)
  have heap: "heap_upto n u \<and> tm_heap u ! n = tm_heap tm ! i"
  proof (cases "i < n")
    case True
    let ?s = "swap_node i n tm"
    have e: "exp_at ?s k = (if k = i then exp_at tm n else exp_at tm k)" if "k < n" for k
      using that i n by (subst swap_exp) auto
    have "exp_at ?s (par i) \<le> exp_at ?s k" if k: "0 < k" "k < n" "par k = i" "0 < i" for k
    proof -
      have "par i < i" "i < k" using k par_less [of k] by auto
      moreover have "exp_at tm (par i) \<le> exp_at tm i" "exp_at tm i \<le> exp_at tm k"
        using old [of i] old [of k] k i len_tm by simp_all
      ultimately show ?thesis using k by (simp add: e)
    qed
    moreover have "exp_at ?s (par k) \<le> exp_at ?s k" if "0 < k" "k < n" "k \<noteq> i" "par k \<noteq> i" for k
      using old [of k] that par_less [of k] len_tm by (simp add: e)
    ultimately have "hole i n ?s" unfolding hole_def below_hole_def by blast
    from sift_heap [OF this True] n have "heap_upto n u" "tm_heap u ! n = tm_heap ?s ! n"
      using True by (simp_all add: u_def)
    then show ?thesis using i n True by (simp add: swap_node_nth)
  next
    case False
    then have "i = n" using i len_tm by simp
    moreover have "heap_upto n tm" using old len_tm by (simp add: heap_upto_def)
    ultimately show ?thesis by (simp add: u_def)
  qed
  have lst: "last (tm_heap u) = tm_heap u ! n"
    using len by (cases "tm_heap u" rule: rev_cases) auto
  have split: "tm_heap u = butlast (tm_heap u) @ [tm_heap tm ! i]"
    using heap len by (metis append_butlast_last_id diff_Suc_1 last_conv_nth length_0_conv nat.distinct(1))
  have "mset (tm_heap u) = add_mset (tm_heap tm ! i) (mset (butlast (tm_heap u)))"
    by (subst split) simp
  moreover have "ref_ok (del_timer i tm)"
    unfolding ref_ok_def
  proof (intro allI)
    fix fd k
    have k: "tm_ref u fd = Some k \<longleftrightarrow> k < Suc n \<and> tn_fd (tm_heap u ! k) = fd"
      using u(1) len by (simp add: ref_ok_def)
    have l: "tm_ref u (tn_fd (last (tm_heap u))) = Some n"
      using u(1) len lst by (simp add: ref_ok_def)
    show "tm_ref (del_timer i tm) fd = Some k \<longleftrightarrow>
        k < length (tm_heap (del_timer i tm)) \<and> tn_fd (tm_heap (del_timer i tm) ! k) = fd"
      using k l len lst by (auto simp: del nth_butlast less_Suc_eq)
  qed
  moreover have "heap_upto n (del_timer i tm)"
    using heap len by (auto simp: del heap_upto_def nth_butlast)
  ultimately show ?thesis
    using u(2,3) len by (simp add: del tm_ok_def)
qed

lemma RemoveTimer_ok [inv_lemmas]: "tm_ok tm \<Longrightarrow> tm_ok (RemoveTimer fd tm)"
  using del_timer_lemma [of tm] by (auto simp: RemoveTimer_def tm_ok_def ref_ok_def split: option.split)

lemma node_of_RemoveTimer:
  assumes "tm_ok tm"
  shows "node_of (RemoveTimer fd tm) = (node_of tm)(fd := None)"
proof (cases "tm_ref tm fd")
  case None
  then show ?thesis by (auto simp: RemoveTimer_def node_of_def)
next
  case (Some i)
  then have i: "i < length (tm_heap tm)" "tn_fd (tm_heap tm ! i) = fd" and r: "ref_ok tm"
    using assms by (auto simp: tm_ok_def ref_ok_def)
  note del = del_timer_lemma [OF assms i(1)]
  have "distinct (map tn_fd (tm_heap tm))" using ref_ok_distinct [OF r] by (simp add: fds_def)
  then have "distinct (map tn_fd (tm_heap tm ! i # tm_heap (del_timer i tm)))"
    using del by (metis mset.simps(2) mset_map mset_eq_imp_distinct_iff)
  then have "x \<in> set (tm_heap (del_timer i tm)) \<longleftrightarrow> x \<in> set (tm_heap tm) \<and> tn_fd x \<noteq> fd" for x
    using i(2) del by (auto simp: set_mset_mset [symmetric] simp del: set_mset_mset) (auto simp: image_iff)
  then show ?thesis
    using del node_of_Some [OF r]
    by (intro node_of_eqI) (auto simp: RemoveTimer_def Some tm_ok_def split: if_splits)
qed

subsection \<open>Expired timers\<close>

lemma del_timer_length [simp]:
  "i < length (tm_heap tm) \<Longrightarrow> length (tm_heap (del_timer i tm)) = length (tm_heap tm) - 1"
  by (auto simp: del_timer_def Let_def)

lemma fire_heap [simp]: "tm_heap (fire node tm) = tm_heap tm" "tm_ref (fire node tm) = tm_ref tm"
  by (auto simp: fire_def split: option.split)

text \<open>\<open>clk k\<close> is the reading the loop makes after \<open>k\<close> earlier ones.\<close>

function HandleExpiredTimers :: "(nat \<Rightarrow> int) \<Rightarrow> nat \<Rightarrow> timer_manager \<Rightarrow> nat \<times> timer_manager" where
  "HandleExpiredTimers clk k tm =
     (if tm_heap tm = [] then (k, tm)
      else let node = tm_heap tm ! 0
           in if ms_left (tn_expire node) (clk k) > 0 then (k + 1, tm)
              else HandleExpiredTimers clk (k + 1) (del_timer 0 (fire node tm)))"
  by pat_completeness auto
termination
  by (relation "measure (\<lambda>(clk, k, tm). length (tm_heap tm))") auto

declare HandleExpiredTimers.simps [simp del]

definition GetNextTimeout :: "(nat \<Rightarrow> int) \<Rightarrow> timer_manager \<Rightarrow> int \<times> timer_manager" where
  "GetNextTimeout clk tm =
     (case HandleExpiredTimers clk 0 tm of
        (k, tm) \<Rightarrow>
          (if tm_heap tm = [] then - 1
           else let res = ms_left (tn_expire (tm_heap tm ! 0)) (clk k)
                in if res < 0 then 0 else sint (word_of_int res :: 32 word), tm))"

lemma ms_left_mono:
  assumes "a \<le> b"
  shows "ms_left a now \<le> ms_left b now"
proof -
  have nonneg: "0 \<le> (x :: int) div 1000000" if "0 \<le> x" for x
    using that by (simp add: pos_imp_zdiv_nonneg_iff)
  consider "now \<le> a" | "a < now" "now \<le> b" | "b < now" by linarith
  then show ?thesis
  proof cases
    case 1
    then show ?thesis using assms by (simp add: ms_left_def zdiv_mono1)
  next
    case 2
    then show ?thesis using nonneg [of "b - now"] nonneg [of "now - a"] by (simp add: ms_left_def)
  next
    case 3
    then show ?thesis using assms by (simp add: ms_left_def zdiv_mono1)
  qed
qed

definition calls_of :: "timer_node list \<Rightarrow> nat list" where
  "calls_of ns = concat (map (\<lambda>n. case tn_cb n of None \<Rightarrow> [] | Some c \<Rightarrow> [c]) ns)"

lemma HandleExpiredTimers_spec:
  "tm_ok tm \<Longrightarrow> HandleExpiredTimers clk k tm = (k', tm') \<Longrightarrow>
   tm_ok tm' \<and> (\<exists>ns. mset (tm_heap tm) = mset ns + mset (tm_heap tm') \<and>
     sorted (map tn_expire ns) \<and> tm_fired tm' = tm_fired tm @ calls_of ns \<and>
     (\<forall>j < length ns. ms_left (tn_expire (ns ! j)) (clk (k + j)) \<le> 0) \<and>
     (\<forall>x \<in> set (tm_heap tm'). ms_left (tn_expire x) (clk (k + length ns)) > 0))"
proof (induction clk k tm rule: HandleExpiredTimers.induct)
  case (1 clk k tm)
  show ?case
  proof (cases "tm_heap tm = []")
    case True
    then show ?thesis
      using 1(2,3) by (subst (asm) HandleExpiredTimers.simps) (auto intro!: exI [of _ "[]"] simp: calls_of_def)
  next
    case ne: False
    let ?node = "tm_heap tm ! 0"
    have least: "tn_expire ?node \<le> tn_expire x" if "x \<in> set (tm_heap tm)" for x
      using that 1(2) heap_least [of "length (tm_heap tm)" tm] by (auto simp: in_set_conv_nth tm_ok_def)
    show ?thesis
    proof (cases "ms_left (tn_expire ?node) (clk k) > 0")
      case True
      then have "tm' = tm" using 1(3) ne by (subst (asm) HandleExpiredTimers.simps) (simp add: Let_def)
      moreover have "ms_left (tn_expire x) (clk k) > 0" if "x \<in> set (tm_heap tm)" for x
        using True ms_left_mono [OF least [OF that], of "clk k"] by linarith
      ultimately show ?thesis
        using 1(2) by (auto intro!: exI [of _ "[]"] simp: calls_of_def)
    next
      case False
      let ?u = "del_timer 0 (fire ?node tm)"
      have f: "tm_ok (fire ?node tm)" using 1(2) by (auto simp: tm_ok_def ref_ok_def heap_upto_def)
      have d: "tm_ok ?u" "tm_fired ?u = tm_fired (fire ?node tm)"
        "mset (tm_heap tm) = add_mset ?node (mset (tm_heap ?u))"
        using del_timer_lemma [OF f, of 0] ne by auto
      have "HandleExpiredTimers clk (k + 1) ?u = (k', tm')"
        using 1(3) ne False by (subst (asm) HandleExpiredTimers.simps) (simp add: Let_def)
      from 1(1) [OF ne refl False d(1) this] obtain ns where
        ns: "mset (tm_heap ?u) = mset ns + mset (tm_heap tm')" "sorted (map tn_expire ns)"
          "tm_fired tm' = tm_fired ?u @ calls_of ns"
          "\<forall>j < length ns. ms_left (tn_expire (ns ! j)) (clk (k + 1 + j)) \<le> 0"
          "\<forall>x \<in> set (tm_heap tm'). ms_left (tn_expire x) (clk (k + 1 + length ns)) > 0"
        and ok: "tm_ok tm'" by blast
      have "set ns \<subseteq> set (tm_heap tm)"
        using d(3) ns(1) by (metis mset_subset_eq_add_left set_mset_mono set_mset_mset set_mset_add_mset_insert subset_insertI subset_trans)
      then have "sorted (map tn_expire (?node # ns))" using ns(2) least by auto
      moreover have "tm_fired tm' = tm_fired tm @ calls_of (?node # ns)"
        using ns(3) d(2) by (auto simp: calls_of_def fire_def split: option.split)
      moreover have "\<forall>j < length (?node # ns). ms_left (tn_expire ((?node # ns) ! j)) (clk (k + j)) \<le> 0"
        using False ns(4) by (auto simp: nth_Cons split: nat.split)
      ultimately show ?thesis
        using ok ns(1,5) d(3) by (intro conjI exI [of _ "?node # ns"]) auto
    qed
  qed
qed

subsection \<open>The manager as a keyed store\<close>

text \<open>The two ways to set a timer: \<open>AddTimer\<close> and \<open>AdjustTimer\<close>.\<close>

datatype timer_setting = Arm int int "nat option" | Rearm int int

fun timer_put :: "int \<Rightarrow> timer_setting \<Rightarrow> timer_manager \<Rightarrow> timer_manager" where
  "timer_put fd (Arm now t cb) tm = AddTimer now fd t cb tm"
| "timer_put fd (Rearm now t) tm = AdjustTimer now fd t tm"

fun timer_upd :: "int \<Rightarrow> timer_setting \<Rightarrow> timer_node option \<Rightarrow> timer_node option" where
  "timer_upd fd (Arm now t cb) None = Some \<lparr>tn_fd = fd, tn_expire = now + ms t, tn_cb = cb\<rparr>"
| "timer_upd fd (Arm now t cb) (Some x) = Some (x\<lparr>tn_expire := now + ms t\<rparr>)"
| "timer_upd fd (Rearm now t) x = map_option (tn_expire_update (\<lambda>_. now + ms t)) x"

interpretation timers: keyed_store tm_ok node_of timer_put RemoveTimer timer_upd
proof unfold_locales
  fix tm fd a
  assume ok: "tm_ok tm"
  show "tm_ok (timer_put fd a tm)" using ok by (cases a) (auto intro: inv_lemmas)
  show "node_of (timer_put fd a tm) = (node_of tm)(fd := timer_upd fd a (node_of tm fd))"
    using ok by (cases a; cases "node_of tm fd") (auto simp: node_of_AddTimer node_of_AdjustTimer)
qed (auto intro: inv_lemmas simp: node_of_RemoveTimer)

lemma new_timer_manager_ok: "tm_ok new_timer_manager"
  by (simp add: tm_ok_def ref_ok_def heap_upto_def new_timer_manager_def)

subsection \<open>Properties\<close>

text \<open>C1: the heap with its index is a map from descriptors to timers. After any sequence of
  \<open>AddTimer\<close>, \<open>AdjustTimer\<close> and \<open>RemoveTimer\<close>, the timer found for a descriptor is the one the map
  built by the same sequence has: a new timer with its callback, an existing one with a new expiry
  and its old callback, none after a removal. The front of the heap is a timer with the earliest
  expiry.\<close>

theorem timer_manager_refines_map:
  assumes "tm = run_store timer_put RemoveTimer ops new_timer_manager"
  shows "node_of tm = spec_store timer_upd ops Map.empty \<and>
    (\<forall>x \<in> set (tm_heap tm). tn_expire (tm_heap tm ! 0) \<le> tn_expire x)"
proof
  have "node_of new_timer_manager = Map.empty" by (auto simp: node_of_def new_timer_manager_def)
  with timers.run_refines [OF new_timer_manager_ok, of ops]
  show "node_of tm = spec_store timer_upd ops Map.empty" by (simp add: assms)
  have "tm_ok tm" unfolding assms by (rule timers.run_ok [OF new_timer_manager_ok])
  then show "\<forall>x \<in> set (tm_heap tm). tn_expire (tm_heap tm ! 0) \<le> tn_expire x"
    using heap_least [of "length (tm_heap tm)" tm] by (auto simp: tm_ok_def in_set_conv_nth)
qed

theorem timer_manager_refines_map_witness:
  "node_of (run_store timer_put RemoveTimer
      [Put 4 (Arm 0 30 (Some 1)), Put 5 (Arm 0 20 (Some 2)), Put 4 (Rearm 5 10), Del 5] new_timer_manager) 4
   = Some \<lparr>tn_fd = 4, tn_expire = 5 + ms 10, tn_cb = Some 1\<rparr>"
  using timer_manager_refines_map [OF refl, of
      "[Put 4 (Arm 0 30 (Some 1)), Put 5 (Arm 0 20 (Some 2)), Put 4 (Rearm 5 10), Del 5]"]
  by simp

text \<open>C10: handling expired timers. From any reachable manager the loop ends, and the timers it takes
  out are called in order of expiry, each with less than a millisecond left at the reading that
  decided it, while every timer it leaves has at least a millisecond left at the last reading. None
  is lost and none is called twice: what was there is what was taken and what is left.\<close>

theorem expired_timers_fire_in_order:
  assumes "tm = run_store timer_put RemoveTimer ops new_timer_manager"
    and "HandleExpiredTimers clk k tm = (k', tm')"
  shows "\<exists>ns. mset (tm_heap tm) = mset ns + mset (tm_heap tm') \<and>
    sorted (map tn_expire ns) \<and> tm_fired tm' = tm_fired tm @ calls_of ns \<and>
    (\<forall>j < length ns. tn_expire (ns ! j) < clk (k + j) + ms 1) \<and>
    (\<forall>x \<in> set (tm_heap tm'). tn_expire x \<ge> clk (k + length ns) + ms 1)"
proof -
  have left: "ms_left e now \<le> 0 \<longleftrightarrow> e < now + ms 1" for e now
    by (auto simp: ms_left_def ms_def)
  then have more: "ms_left e now > 0 \<longleftrightarrow> e \<ge> now + ms 1" for e now
    by (meson not_le)
  have "tm_ok tm" unfolding assms(1) by (rule timers.run_ok [OF new_timer_manager_ok])
  from HandleExpiredTimers_spec [OF this assms(2)] show ?thesis
    unfolding left more by blast
qed

theorem expired_timers_fire_in_order_witness:
  "tm_fired (snd (HandleExpiredTimers (\<lambda>_. ms 25) 0 (run_store timer_put RemoveTimer
      [Put 4 (Arm 0 30 (Some 1)), Put 5 (Arm 0 20 (Some 2))] new_timer_manager))) = [2] \<and>
   (\<exists>ns. tm_fired (snd (HandleExpiredTimers (\<lambda>_. ms 25) 0 (run_store timer_put RemoveTimer
      [Put 4 (Arm 0 30 (Some 1)), Put 5 (Arm 0 20 (Some 2))] new_timer_manager)))
     = tm_fired (run_store timer_put RemoveTimer
      [Put 4 (Arm 0 30 (Some 1)), Put 5 (Arm 0 20 (Some 2))] new_timer_manager) @ calls_of ns)"
proof
  show "tm_fired (snd (HandleExpiredTimers (\<lambda>_. ms 25) 0 (run_store timer_put RemoveTimer
      [Put 4 (Arm 0 30 (Some 1)), Put 5 (Arm 0 20 (Some 2))] new_timer_manager))) = [2]"
    by code_simp
  show "\<exists>ns. tm_fired (snd (HandleExpiredTimers (\<lambda>_. ms 25) 0 (run_store timer_put RemoveTimer
      [Put 4 (Arm 0 30 (Some 1)), Put 5 (Arm 0 20 (Some 2))] new_timer_manager)))
     = tm_fired (run_store timer_put RemoveTimer
      [Put 4 (Arm 0 30 (Some 1)), Put 5 (Arm 0 20 (Some 2))] new_timer_manager) @ calls_of ns"
    using expired_timers_fire_in_order [OF refl prod.collapse [symmetric], where clk = "\<lambda>_. ms 25" and k = 0
      and ops = "[Put 4 (Arm 0 30 (Some 1)), Put 5 (Arm 0 20 (Some 2))]"] by blast
qed

end
