(* ===== verification/MemoryPool.thy ===== *)
theory MemoryPool
  imports Prelude "HOL-Library.Multiset"
begin

text \<open>
  \<open>src/memory_pool.cpp\<close>, \<open>include/memory_pool.h\<close>: the size-class allocator.

  An address is a natural number, a null pointer \<open>None\<close>. The system allocator is not part of the
  sources: the answer of \<open>malloc\<close> or \<open>aligned_alloc\<close> is an argument of \<open>Allocate\<close>, and the field
  \<open>sys\<close> lists the areas it has handed out and that have not been freed. \<open>free\<close> of an address that
  is not the start of such an area, and writing outside every area, are undefined in C++: the
  result is \<open>None\<close>. The field \<open>bytes_at\<close> is the content of the memory. The counters of the statistics
  are 64 bits wide and wrap around.
\<close>

subsection \<open>Slabs\<close>

datatype size_class = SMALL | MEDIUM | LARGE | HUGE

fun class_size :: "size_class \<Rightarrow> nat" where
  "class_size SMALL = 64"
| "class_size MEDIUM = 256"
| "class_size LARGE = 1024"
| "class_size HUGE = 1025"

record slab =
  slab_memory :: nat
  block_size :: nat
  block_count :: nat
  block_used :: "bool list"
  free_count :: nat

definition new_slab :: "nat \<Rightarrow> nat \<Rightarrow> nat \<Rightarrow> slab" where
  "new_slab a sz cnt = \<lparr>slab_memory = a, block_size = sz, block_count = cnt,
     block_used = replicate cnt False, free_count = cnt\<rparr>"

type_synonym area = "nat \<times> nat"

definition inside :: "area \<Rightarrow> area \<Rightarrow> bool" where
  "inside r b \<longleftrightarrow> fst b \<le> fst r \<and> fst r + snd r \<le> fst b + snd b"

definition zero_fill :: "nat \<Rightarrow> nat \<Rightarrow> (nat \<Rightarrow> u8) \<Rightarrow> nat \<Rightarrow> u8" where
  "zero_fill a n h = (\<lambda>x. if a \<le> x \<and> x < a + n then 0 else h x)"

text \<open>The first index whose flag is not set.\<close>

fun first_unused :: "bool list \<Rightarrow> nat option" where
  "first_unused [] = None"
| "first_unused (b # bs) = (if b then map_option Suc (first_unused bs) else Some 0)"

definition block_at :: "slab \<Rightarrow> nat \<Rightarrow> nat" where
  "block_at s i = slab_memory s + i * block_size s"

definition AllocateBlock ::
  "area list \<Rightarrow> (nat \<Rightarrow> u8) \<Rightarrow> slab \<Rightarrow> (nat option \<times> slab \<times> (nat \<Rightarrow> u8)) option" where
  "AllocateBlock m h s =
     (if free_count s = 0 then Some (None, s, h)
      else case first_unused (block_used s) of
        None \<Rightarrow> Some (None, s, h)
      | Some i \<Rightarrow>
          (if list_ex (inside (block_at s i, block_size s)) m
           then Some (Some (block_at s i),
                      s\<lparr>block_used := (block_used s)[i := True], free_count := free_count s - 1\<rparr>,
                      zero_fill (block_at s i) (block_size s) h)
           else None))"

definition slab_Contains :: "slab \<Rightarrow> nat \<Rightarrow> bool" where
  "slab_Contains s p \<longleftrightarrow>
     slab_memory s \<le> p \<and> p < slab_memory s + block_size s * block_count s"

definition DeallocateBlock :: "slab \<Rightarrow> nat \<Rightarrow> bool \<times> slab" where
  "DeallocateBlock s p =
     (if \<not> slab_Contains s p then (False, s)
      else let i = (p - slab_memory s) div block_size s in
        if i \<ge> block_count s \<or> \<not> block_used s ! i then (False, s)
        else (True, s\<lparr>block_used := (block_used s)[i := False], free_count := free_count s + 1\<rparr>))"

subsection \<open>The pool\<close>

record pool_stats =
  total_allocated_bytes :: u64
  total_freed_bytes :: u64
  current_used_bytes :: u64
  slab_total :: u64
  free_blocks :: u64
  allocated_blocks :: u64

definition zero_stats :: pool_stats where
  "zero_stats = \<lparr>total_allocated_bytes = 0, total_freed_bytes = 0, current_used_bytes = 0,
     slab_total = 0, free_blocks = 0, allocated_blocks = 0\<rparr>"

record memory_pool =
  slabs :: "size_class \<Rightarrow> slab list"
  pool_stat :: pool_stats
  sys :: "area list"
  bytes_at :: "nat \<Rightarrow> u8"

definition new_pool :: "(nat \<Rightarrow> u8) \<Rightarrow> memory_pool" where
  "new_pool h = \<lparr>slabs = (\<lambda>c. []), pool_stat = zero_stats, sys = [], bytes_at = h\<rparr>"

definition GetSizeClass :: "u64 \<Rightarrow> size_class" where
  "GetSizeClass n =
     (if n \<le> of_nat (class_size SMALL) then SMALL
      else if n \<le> of_nat (class_size MEDIUM) then MEDIUM
      else if n \<le> of_nat (class_size LARGE) then LARGE
      else HUGE)"

fun slab_blocks :: "size_class \<Rightarrow> nat" where
  "slab_blocks SMALL = 128"
| "slab_blocks MEDIUM = 64"
| "slab_blocks LARGE = 16"
| "slab_blocks HUGE = 0"

text \<open>
  \<open>CreateSlab\<close>: with \<open>answer\<close> the answer of \<open>aligned_alloc\<close>; the new slab is the last of its class.
\<close>

definition CreateSlab :: "nat option \<Rightarrow> size_class \<Rightarrow> memory_pool \<Rightarrow> bool \<times> memory_pool" where
  "CreateSlab answer c p =
     (if c = HUGE then (False, p)
      else case answer of
        None \<Rightarrow> (False, p)
      | Some a \<Rightarrow> (True,
          p\<lparr>slabs := (slabs p)(c := slabs p c @ [new_slab a (class_size c) (slab_blocks c)]),
            sys := (a, class_size c * slab_blocks c) # sys p,
            pool_stat := (pool_stat p)
              \<lparr>slab_total := slab_total (pool_stat p) + 1,
               free_blocks := free_blocks (pool_stat p) + of_nat (slab_blocks c)\<rparr>\<rparr>))"

definition count_alloc :: "u64 \<Rightarrow> pool_stats \<Rightarrow> pool_stats" where
  "count_alloc n st = st
     \<lparr>total_allocated_bytes := total_allocated_bytes st + n,
      current_used_bytes := current_used_bytes st + n,
      allocated_blocks := allocated_blocks st + 1\<rparr>"

definition count_free :: "u64 \<Rightarrow> pool_stats \<Rightarrow> pool_stats" where
  "count_free n st = st
     \<lparr>total_freed_bytes := total_freed_bytes st + n,
      current_used_bytes := current_used_bytes st - n,
      allocated_blocks := allocated_blocks st - 1\<rparr>"

text \<open>The search of \<open>Allocate\<close> for a slab with a free block, in the order of the list.\<close>

fun try_slabs ::
  "area list \<Rightarrow> (nat \<Rightarrow> u8) \<Rightarrow> slab list \<Rightarrow> (nat option \<times> slab list \<times> (nat \<Rightarrow> u8)) option" where
  "try_slabs m h [] = Some (None, [], h)"
| "try_slabs m h (s # ss) =
     (if free_count s > 0 then
        (case AllocateBlock m h s of
           None \<Rightarrow> None
         | Some (Some q, s', h') \<Rightarrow> Some (Some q, s' # ss, h')
         | Some (None, s', h') \<Rightarrow>
             map_option (\<lambda>(q, ss', h''). (q, s' # ss', h'')) (try_slabs m h' ss))
      else map_option (\<lambda>(q, ss', h''). (q, s # ss', h'')) (try_slabs m h ss))"

definition Allocate :: "nat option \<Rightarrow> u64 \<Rightarrow> memory_pool \<Rightarrow> (nat option \<times> memory_pool) option" where
  "Allocate answer n p =
     (if n = 0 then Some (None, p)
      else let c = GetSizeClass n in
        if c = HUGE then
          (case answer of
             None \<Rightarrow> Some (None, p)
           | Some a \<Rightarrow> Some (Some a, p\<lparr>sys := (a, unat n) # sys p,
                                        pool_stat := count_alloc n (pool_stat p)\<rparr>))
        else
          (case try_slabs (sys p) (bytes_at p) (slabs p c) of
             None \<Rightarrow> None
           | Some (Some q, ss, h) \<Rightarrow>
               Some (Some q, p\<lparr>slabs := (slabs p)(c := ss), bytes_at := h,
                 pool_stat := (count_alloc n (pool_stat p))
                   \<lparr>free_blocks := free_blocks (pool_stat p) - 1\<rparr>\<rparr>)
           | Some (None, ss, h) \<Rightarrow>
               (let p1 = p\<lparr>slabs := (slabs p)(c := ss), bytes_at := h\<rparr>;
                    (ok, p2) = CreateSlab answer c p1
                in if \<not> ok then Some (None, p2)
                   else case AllocateBlock (sys p2) (bytes_at p2) (last (slabs p2 c)) of
                     None \<Rightarrow> None
                   | Some (q, s, h') \<Rightarrow>
                       (let p3 = p2\<lparr>slabs := (slabs p2)(c := butlast (slabs p2 c) @ [s]),
                                    bytes_at := h'\<rparr>
                        in Some (q, if q = None then p3
                             else p3\<lparr>pool_stat := (count_alloc n (pool_stat p3))
                                       \<lparr>free_blocks := free_blocks (pool_stat p3) - 1\<rparr>\<rparr>)))))"

text \<open>
  \<open>FindSlabContaining\<close> walks an unordered map: the order in which it meets the classes is the
  argument \<open>ord\<close>. A slab is named by its class and its place in the list of that class.
\<close>

fun find_in :: "nat \<Rightarrow> slab list \<Rightarrow> nat option" where
  "find_in q [] = None"
| "find_in q (s # ss) = (if slab_Contains s q then Some 0 else map_option Suc (find_in q ss))"

fun FindSlabContaining ::
  "size_class list \<Rightarrow> memory_pool \<Rightarrow> nat \<Rightarrow> (size_class \<times> nat) option" where
  "FindSlabContaining [] p q = None"
| "FindSlabContaining (c # cs) p q =
     (case find_in q (slabs p c) of Some i \<Rightarrow> Some (c, i) | None \<Rightarrow> FindSlabContaining cs p q)"

text \<open>\<open>std::free\<close>.\<close>

definition sys_free :: "nat \<Rightarrow> memory_pool \<Rightarrow> memory_pool option" where
  "sys_free q p =
     (if q \<in> fst ` set (sys p) then Some (p\<lparr>sys := filter (\<lambda>b. fst b \<noteq> q) (sys p)\<rparr>) else None)"

definition Deallocate ::
  "size_class list \<Rightarrow> nat option \<Rightarrow> u64 \<Rightarrow> memory_pool \<Rightarrow> memory_pool option" where
  "Deallocate ord ptr n p =
     (case ptr of None \<Rightarrow> Some p
      | Some q \<Rightarrow>
          if GetSizeClass n = HUGE then
            map_option (\<lambda>p'. p'\<lparr>pool_stat := count_free n (pool_stat p')\<rparr>) (sys_free q p)
          else case FindSlabContaining ord p q of
              None \<Rightarrow> sys_free q p
            | Some (c, i) \<Rightarrow>
                (let (ok, s) = DeallocateBlock (slabs p c ! i) q;
                     p' = p\<lparr>slabs := (slabs p)(c := (slabs p c)[i := s])\<rparr>
                 in if ok
                    then Some (p'\<lparr>pool_stat := (count_free n (pool_stat p'))
                                   \<lparr>free_blocks := free_blocks (pool_stat p') + 1\<rparr>\<rparr>)
                    else Some p'))"

text \<open>
  \<open>Clear\<close>: every slab frees its memory, the statistics are reset; what \<open>malloc\<close> gave out for huge
  requests stays with the callers.
\<close>

fun free_slabs :: "slab list \<Rightarrow> memory_pool \<Rightarrow> memory_pool option" where
  "free_slabs [] p = Some p"
| "free_slabs (s # ss) p = Option.bind (sys_free (slab_memory s) p) (free_slabs ss)"

definition all_slabs :: "memory_pool \<Rightarrow> slab list" where
  "all_slabs p = slabs p SMALL @ slabs p MEDIUM @ slabs p LARGE"

definition pool_Clear :: "memory_pool \<Rightarrow> memory_pool option" where
  "pool_Clear p = map_option (\<lambda>p'. p'\<lparr>slabs := (\<lambda>c. []), pool_stat := zero_stats\<rparr>)
     (free_slabs (all_slabs p) p)"

subsection \<open>Clients\<close>

text \<open>
  A client that gives back only what it holds, with the size it asked for. An answer of the
  system allocator is admissible when it is an area apart from all that are in use, aligned for
  every type (\<open>alignof(max_align_t)\<close> is 16), and not the null address; an operation with an
  inadmissible answer does not occur and is skipped.
\<close>

definition apart :: "area \<Rightarrow> area \<Rightarrow> bool" where
  "apart a b \<longleftrightarrow> fst a + snd a \<le> fst b \<or> fst b + snd b \<le> fst a"

definition system_size :: "u64 \<Rightarrow> nat" where
  "system_size n = (let c = GetSizeClass n in
     if c = HUGE then unat n else class_size c * slab_blocks c)"

fun admissible :: "area list \<Rightarrow> nat \<Rightarrow> nat option \<Rightarrow> bool" where
  "admissible m n None = True"
| "admissible m n (Some a) = (0 < a \<and> 16 dvd a \<and> list_all (apart (a, n)) m)"

datatype pool_op =
    PoolAllocate u64 "nat option"
  | PoolFree nat "size_class list"

type_synonym held = "(nat \<times> u64) list"

fun pool_step :: "pool_op \<Rightarrow> memory_pool \<times> held \<Rightarrow> (memory_pool \<times> held) option" where
  "pool_step (PoolAllocate n answer) (p, hs) =
     (if admissible (sys p) (system_size n) answer then
        map_option (\<lambda>(q, p'). (p', case q of None \<Rightarrow> hs | Some a \<Rightarrow> (a, n) # hs))
          (Allocate answer n p)
      else Some (p, hs))"
| "pool_step (PoolFree i ord) (p, hs) =
     (if i < length hs \<and> set ord = {SMALL, MEDIUM, LARGE} then
        map_option (\<lambda>p'. (p', take i hs @ drop (Suc i) hs))
          (Deallocate ord (Some (fst (hs ! i))) (snd (hs ! i)) p)
      else Some (p, hs))"

fun pool_run :: "pool_op list \<Rightarrow> memory_pool \<times> held \<Rightarrow> (memory_pool \<times> held) option" where
  "pool_run [] s = Some s"
| "pool_run (x # xs) s = Option.bind (pool_step x s) (pool_run xs)"

subsection \<open>One slab\<close>

text \<open>The counter of free blocks is exact, and the blocks given out are those whose flag is set.\<close>

definition slab_ok :: "slab \<Rightarrow> bool" where
  "slab_ok s \<longleftrightarrow> length (block_used s) = block_count s \<and> 0 < block_size s
     \<and> free_count s = length (filter Not (block_used s))"

definition used_blocks :: "slab \<Rightarrow> nat list" where
  "used_blocks s = map (block_at s) (filter (\<lambda>i. block_used s ! i) [0..<block_count s])"

definition slab_area :: "slab \<Rightarrow> area" where
  "slab_area s = (slab_memory s, block_size s * block_count s)"

lemma first_unused_None: "first_unused bs = None \<longleftrightarrow> filter Not bs = []"
  by (induction bs) auto

lemma first_unused_Some:
  "first_unused bs = Some i \<Longrightarrow> i < length bs \<and> \<not> bs ! i"
  by (induction bs arbitrary: i) (auto split: if_splits)

lemma count_flip:
  assumes "i < length bs"
  shows "\<not> bs ! i \<Longrightarrow> length (filter Not (bs[i := True])) = length (filter Not bs) - 1"
    and "bs ! i \<Longrightarrow> length (filter Not (bs[i := False])) = length (filter Not bs) + 1"
proof -
  have split: "bs = take i bs @ bs ! i # drop (Suc i) bs" using assms by (rule id_take_nth_drop)
  have upd: "bs[i := b] = take i bs @ b # drop (Suc i) bs" for b
    using assms by (rule upd_conv_take_nth_drop)
  have "length (filter Not bs) = length (filter Not (take i bs @ bs ! i # drop (Suc i) bs))"
    using split by simp
  then show "\<not> bs ! i \<Longrightarrow> length (filter Not (bs[i := True])) = length (filter Not bs) - 1"
    and "bs ! i \<Longrightarrow> length (filter Not (bs[i := False])) = length (filter Not bs) + 1"
    unfolding upd by auto
qed

lemma mset_filter_flip:
  fixes f :: "nat \<Rightarrow> 'a"
  assumes "i < n" and len: "length bs = n"
  shows "\<not> bs ! i \<Longrightarrow>
      mset (map f (filter (\<lambda>j. bs[i := True] ! j) [0..<n]))
      = add_mset (f i) (mset (map f (filter (\<lambda>j. bs ! j) [0..<n])))"
proof -
  assume no: "\<not> bs ! i"
  have "[0..<n] = [0..<i] @ i # [Suc i..<n]" using assms(1)
    by (metis le_add_same_cancel1 less_imp_add_positive upt_add_eq_append upt_conv_Cons zero_le)
  moreover have "filter (\<lambda>j. bs[i := True] ! j) [0..<i] = filter (\<lambda>j. bs ! j) [0..<i]"
    by (rule filter_cong) auto
  moreover have "filter (\<lambda>j. bs[i := True] ! j) [Suc i..<n] = filter (\<lambda>j. bs ! j) [Suc i..<n]"
    by (rule filter_cong) auto
  ultimately show ?thesis using no assms by simp
qed

lemma used_blocks_mark:
  assumes ok: "slab_ok s" and i: "i < block_count s" "\<not> block_used s ! i"
  shows "mset (used_blocks (s\<lparr>block_used := (block_used s)[i := True], free_count := k\<rparr>))
    = add_mset (block_at s i) (mset (used_blocks s))"
  using mset_filter_flip[OF i(1) _ i(2), of "block_at s"] ok
  unfolding used_blocks_def slab_ok_def block_at_def by simp

lemma AllocateBlock_ok:
  assumes ok: "slab_ok s" and m: "slab_area s \<in> set m" and free: "0 < free_count s"
  obtains i s' h' where "AllocateBlock m h s = Some (Some (block_at s i), s', h')"
    and "i < block_count s" "\<not> block_used s ! i"
    and "s' = s\<lparr>block_used := (block_used s)[i := True], free_count := free_count s - 1\<rparr>"
    and "h' = zero_fill (block_at s i) (block_size s) h"
proof -
  obtain i where i: "first_unused (block_used s) = Some i"
    using free ok first_unused_None[of "block_used s"] unfolding slab_ok_def by (metis length_greater_0_conv not_None_eq)
  have i': "i < block_count s" "\<not> block_used s ! i"
    using first_unused_Some[OF i] ok unfolding slab_ok_def by auto
  have "i * block_size s + block_size s \<le> block_size s * block_count s"
    using i'(1) by (metis Suc_leI add.commute mult.commute mult_Suc mult_le_mono2)
  then have "inside (block_at s i, block_size s) (slab_area s)"
    unfolding inside_def block_at_def slab_area_def by simp
  then have "list_ex (inside (block_at s i, block_size s)) m"
    using m by (auto simp: list_ex_iff)
  then show ?thesis using that i i' free unfolding AllocateBlock_def by simp
qed


lemma used_blocks_unmark:
  assumes ok: "slab_ok s" and i: "i < block_count s" "block_used s ! i"
  shows "add_mset (block_at s i)
      (mset (used_blocks (s\<lparr>block_used := (block_used s)[i := False], free_count := k\<rparr>)))
    = mset (used_blocks s)"
proof -
  have len: "length ((block_used s)[i := False]) = block_count s" and "(block_used s)[i := False, i := True] = block_used s"
    using ok i list_update_id[of "block_used s" i] unfolding slab_ok_def by auto
  then show ?thesis
    using mset_filter_flip[OF i(1) len, of "block_at s"] i ok
    unfolding used_blocks_def slab_ok_def block_at_def by simp
qed

lemma slab_ok_mark:
  assumes "slab_ok s" "i < block_count s"
  shows "\<not> block_used s ! i \<Longrightarrow>
      slab_ok (s\<lparr>block_used := (block_used s)[i := True], free_count := free_count s - 1\<rparr>)"
    and "block_used s ! i \<Longrightarrow>
      slab_ok (s\<lparr>block_used := (block_used s)[i := False], free_count := free_count s + 1\<rparr>)"
  using assms count_flip[of i "block_used s"] unfolding slab_ok_def by auto

lemma slab_area_flags [simp]:
  "slab_area (s\<lparr>block_used := bs, free_count := k\<rparr>) = slab_area s"
  by (simp add: slab_area_def)

text \<open>Distinct blocks of a slab are apart, and a block lies in its slab.\<close>

lemma block_inside:
  "i < block_count s \<Longrightarrow> inside (block_at s i, block_size s) (slab_area s)"
  unfolding inside_def block_at_def slab_area_def
  by simp (metis Suc_leI add.commute mult.commute mult_Suc mult_le_mono2)

lemma blocks_apart:
  assumes "i \<noteq> j" shows "apart (block_at s i, block_size s) (block_at s j, block_size s)"
proof -
  have "x * block_size s + block_size s \<le> y * block_size s" if "x < y" for x y
    using that by (metis Suc_leI add.commute mult_Suc mult_le_mono1)
  then show ?thesis using assms unfolding apart_def block_at_def
    by (cases "i < j") (auto simp: not_less_iff_gr_or_eq)
qed

lemma apart_sym: "apart a b \<Longrightarrow> apart b a"
  by (auto simp: apart_def)

lemma apart_inside: "apart a b \<Longrightarrow> inside r a \<Longrightarrow> inside q b \<Longrightarrow> apart r q"
  by (auto simp: apart_def inside_def)

lemma contains_block:
  assumes "slab_ok s" "i < block_count s"
  shows "slab_Contains s (block_at s i)" "(block_at s i - slab_memory s) div block_size s = i"
  using assms block_inside[OF assms(2)]
  unfolding slab_Contains_def block_at_def slab_ok_def inside_def slab_area_def by auto

subsection \<open>The invariant of a pool and its client\<close>

definition shape_ok :: "memory_pool \<Rightarrow> bool" where
  "shape_ok p \<longleftrightarrow> slabs p HUGE = [] \<and>
     (\<forall>c. \<forall>s \<in> set (slabs p c). slab_ok s \<and> block_size s = class_size c
        \<and> block_count s = slab_blocks c)"

definition areas_ok :: "area list \<Rightarrow> bool" where
  "areas_ok m \<longleftrightarrow> sorted_wrt apart m \<and> (\<forall>a \<in> set m. 0 < fst a \<and> 0 < snd a \<and> 16 dvd fst a)"

definition requests :: "size_class \<Rightarrow> held \<Rightarrow> held" where
  "requests c hs = filter (\<lambda>x. GetSizeClass (snd x) = c) hs"

definition request_area :: "nat \<times> u64 \<Rightarrow> area" where
  "request_area x = (fst x, unat (snd x))"

text \<open>
  What the system has given out are the slabs and the huge blocks the client holds; the other
  blocks the client holds are, class by class, the blocks whose flag is set.
\<close>

definition held_ok :: "memory_pool \<Rightarrow> held \<Rightarrow> bool" where
  "held_ok p hs \<longleftrightarrow>
     mset (map request_area (requests HUGE hs)) + mset (map slab_area (all_slabs p)) = mset (sys p)
     \<and> (\<forall>c. c \<noteq> HUGE \<longrightarrow>
          mset (map fst (requests c hs)) = mset (concat (map used_blocks (slabs p c))))
     \<and> (\<forall>x \<in> set hs. snd x \<noteq> 0)"

definition counts_ok :: "memory_pool \<Rightarrow> held \<Rightarrow> bool" where
  "counts_ok p hs \<longleftrightarrow>
     allocated_blocks (pool_stat p) = of_nat (length hs)
     \<and> current_used_bytes (pool_stat p) = sum_list (map snd hs)
     \<and> current_used_bytes (pool_stat p)
         = total_allocated_bytes (pool_stat p) - total_freed_bytes (pool_stat p)
     \<and> slab_total (pool_stat p) = of_nat (length (all_slabs p))
     \<and> free_blocks (pool_stat p) = of_nat (sum_list (map free_count (all_slabs p)))"

definition pool_ok :: "memory_pool \<Rightarrow> held \<Rightarrow> bool" where
  "pool_ok p hs \<longleftrightarrow> shape_ok p \<and> areas_ok (sys p) \<and> held_ok p hs \<and> counts_ok p hs
     \<and> sorted_wrt apart (map request_area hs)"

lemma GetSizeClass_le: "GetSizeClass n \<noteq> HUGE \<Longrightarrow> unat n \<le> class_size (GetSizeClass n)"
  by (auto simp: GetSizeClass_def word_le_nat_alt split: if_splits)

lemma GetSizeClass_huge_pos: "GetSizeClass n = HUGE \<Longrightarrow> 0 < unat n"
  by (auto simp: GetSizeClass_def word_le_nat_alt split: if_splits)

lemma areas_apart:
  "areas_ok m \<Longrightarrow> a \<in> set m \<Longrightarrow> b \<in> set m \<Longrightarrow> a \<noteq> b \<Longrightarrow> apart a b"
  unfolding areas_ok_def
proof (induction m)
  case (Cons x m)
  then show ?case by (auto intro: apart_sym)
qed simp

lemma areas_distinct: "areas_ok m \<Longrightarrow> distinct (map fst m)"
  unfolding areas_ok_def
proof (induction m)
  case (Cons x m)
  then have "distinct (map fst m)" by simp
  moreover have "fst x \<noteq> fst y" if "y \<in> set m" for y
    using Cons.prems that unfolding apart_def by fastforce
  ultimately show ?case by auto
qed simp

lemma all_slabs_class:
  "set (all_slabs p) = set (slabs p SMALL) \<union> set (slabs p MEDIUM) \<union> set (slabs p LARGE)"
  by (auto simp: all_slabs_def)

lemma slab_in_all:
  "shape_ok p \<Longrightarrow> s \<in> set (slabs p c) \<Longrightarrow> s \<in> set (all_slabs p)"
  unfolding shape_ok_def all_slabs_class by (cases c) auto

lemma all_slabs_update:
  assumes "slabs p c = xs @ s # ys" "c \<noteq> HUGE"
  obtains us vs where "all_slabs p = us @ s # vs"
    and "\<And>zs q. slabs q = (slabs p)(c := xs @ zs @ ys) \<Longrightarrow> all_slabs q = us @ zs @ vs"
proof (cases c)
  case SMALL
  show ?thesis
    by (rule that[of xs "ys @ slabs p MEDIUM @ slabs p LARGE"])
       (use SMALL assms in \<open>simp_all add: all_slabs_def\<close>)
next
  case MEDIUM
  show ?thesis
    by (rule that[of "slabs p SMALL @ xs" "ys @ slabs p LARGE"])
       (use MEDIUM assms in \<open>simp_all add: all_slabs_def\<close>)
next
  case LARGE
  show ?thesis
    by (rule that[of "slabs p SMALL @ slabs p MEDIUM @ xs" ys])
       (use LARGE assms in \<open>simp_all add: all_slabs_def\<close>)
qed (use assms in simp)

lemma slab_in_sys:
  "held_ok p hs \<Longrightarrow> s \<in> set (all_slabs p) \<Longrightarrow> slab_area s \<in> set (sys p)"
  unfolding held_ok_def by (metis UnCI image_eqI list.set_map mset_append set_append set_mset_mset)

lemma slab_unique:
  assumes "areas_ok (sys p)" "held_ok p hs" "s \<in> set (all_slabs p)" "s' \<in> set (all_slabs p)"
    and "slab_area s = slab_area s'"
  shows "s = s'"
proof -
  have "distinct (sys p)" using areas_distinct[OF assms(1)] distinct_map by blast
  then have "distinct (map request_area (requests HUGE hs) @ map slab_area (all_slabs p))"
    using assms(2) unfolding held_ok_def by (metis mset_append mset_eq_imp_distinct_iff)
  then show ?thesis using assms(3-5) by (auto simp: distinct_map inj_on_def)
qed

text \<open>Where a block of the client lies.\<close>

lemma held_cases:
  assumes ok: "held_ok p hs" "shape_ok p" and x: "x \<in> set hs"
  obtains (huge) "GetSizeClass (snd x) = HUGE" "request_area x \<in> set (sys p)"
      "\<And>s. s \<in> set (all_slabs p) \<Longrightarrow> areas_ok (sys p) \<Longrightarrow> slab_area s \<noteq> request_area x"
    | (block) s i where "GetSizeClass (snd x) \<noteq> HUGE" "s \<in> set (slabs p (GetSizeClass (snd x)))"
      "i < block_count s" "block_used s ! i" "fst x = block_at s i"
      "unat (snd x) \<le> block_size s"
proof (cases "GetSizeClass (snd x) = HUGE")
  case True
  then have mem: "request_area x \<in> set (map request_area (requests HUGE hs))"
    using x by (auto simp: requests_def)
  then have "request_area x \<in> set (sys p)"
    using ok(1) unfolding held_ok_def by (metis UnCI mset_append set_append set_mset_mset)
  moreover have "slab_area s \<noteq> request_area x" if "s \<in> set (all_slabs p)" "areas_ok (sys p)" for s
  proof -
    have "distinct (sys p)" using areas_distinct[OF that(2)] distinct_map by blast
    then have "distinct (map request_area (requests HUGE hs) @ map slab_area (all_slabs p))"
      using ok(1) unfolding held_ok_def by (metis mset_append mset_eq_imp_distinct_iff)
    then show ?thesis using mem that(1) by (metis disjoint_iff distinct_append image_eqI list.set_map)
  qed
  ultimately show ?thesis using True huge by blast
next
  case False
  define c where "c = GetSizeClass (snd x)"
  have "fst x \<in> set (map fst (requests c hs))" using x by (auto simp: requests_def c_def)
  then have "fst x \<in> set (concat (map used_blocks (slabs p c)))"
    using ok(1) False unfolding held_ok_def c_def by (metis set_mset_mset)
  then obtain s i where s: "s \<in> set (slabs p c)" "i < block_count s" "block_used s ! i"
      "fst x = block_at s i"
    by (auto simp: used_blocks_def)
  moreover have "unat (snd x) \<le> block_size s"
    using ok(2) s(1) GetSizeClass_le[OF False] unfolding shape_ok_def c_def by metis
  ultimately show ?thesis using False block unfolding c_def by blast
qed

lemma new_block_apart:
  assumes ok: "shape_ok p" "areas_ok (sys p)" "held_ok p hs"
    and s: "s \<in> set (all_slabs p)" and i: "i < block_count s" "\<not> block_used s ! i"
    and x: "x \<in> set hs"
  shows "apart (block_at s i, block_size s) (request_area x)"
  using ok(3,1) x
proof (cases rule: held_cases)
  case huge
  then have "apart (slab_area s) (request_area x)"
    using areas_apart[OF ok(2) slab_in_sys[OF ok(3) s] huge(2)] s ok(2) by blast
  then show ?thesis using apart_inside[OF _ block_inside[OF i(1)]] by (metis inside_def order_refl)
next
  case (block s' j)
  have s': "s' \<in> set (all_slabs p)" by (rule slab_in_all[OF ok(1) block(2)])
  have into: "inside (request_area x) (block_at s' j, block_size s')"
    using block by (simp add: inside_def request_area_def)
  show ?thesis
  proof (cases "s = s'")
    case True
    then have "i \<noteq> j" using i block by auto
    then show ?thesis
      using apart_inside[OF blocks_apart[of i j s] _ into[folded True]] by (simp add: inside_def)
  next
    case False
    then have "slab_area s \<noteq> slab_area s'" using slab_unique[OF ok(2,3) s s'] by blast
    then have "apart (slab_area s) (slab_area s')"
      using areas_apart[OF ok(2) slab_in_sys[OF ok(3) s] slab_in_sys[OF ok(3) s']] by blast
    moreover have "inside (request_area x) (slab_area s')"
      using into block_inside[OF block(3)] by (auto simp: inside_def)
    ultimately show ?thesis using apart_inside[OF _ block_inside[OF i(1)]] by blast
  qed
qed


lemma requests_Cons [simp]:
  "requests c (x # hs) = (if GetSizeClass (snd x) = c then x # requests c hs else requests c hs)"
  by (simp add: requests_def)

lemma requests_append [simp]: "requests c (hs @ hs') = requests c hs @ requests c hs'"
  by (simp add: requests_def)

lemma shape_replace:
  assumes "shape_ok p" "slabs p c = xs @ s # ys" "c \<noteq> HUGE"
    and "slab_ok s'" "block_size s' = block_size s" "block_count s' = block_count s"
    and "slabs q = (slabs p)(c := xs @ s' # ys)"
  shows "shape_ok q"
proof -
  have "slab_ok t \<and> block_size t = class_size d \<and> block_count t = slab_blocks d"
    if t: "t \<in> set (slabs q d)" for t d
  proof (cases "d = c")
    case True
    then consider "t = s'" | "t \<in> set (slabs p c)" using t assms(2,7) by auto
    then show ?thesis
    proof cases
      case 1
      have "s \<in> set (slabs p c)" using assms(2) by simp
      then have "block_size s = class_size c \<and> block_count s = slab_blocks c"
        using assms(1) unfolding shape_ok_def by blast
      then show ?thesis using 1 True assms(4,5,6) by simp
    qed (use True assms(1) shape_ok_def in blast)
  qed (use t assms(1,7) shape_ok_def in simp)
  moreover have "slabs q HUGE = []" using assms(1,3,7) by (simp add: shape_ok_def)
  ultimately show ?thesis by (simp add: shape_ok_def)
qed

lemma take_block:
  assumes ok: "pool_ok p hs" and c: "slabs p c = xs @ s # ys" "c \<noteq> HUGE" "GetSizeClass n = c" "n \<noteq> 0"
    and i: "i < block_count s" "\<not> block_used s ! i" "0 < free_count s"
    and q: "slabs q = (slabs p)(c := xs @
        s\<lparr>block_used := (block_used s)[i := True], free_count := free_count s - 1\<rparr> # ys)"
      "sys q = sys p"
      "pool_stat q = (count_alloc n (pool_stat p))\<lparr>free_blocks := free_blocks (pool_stat p) - 1\<rparr>"
  shows "pool_ok q ((block_at s i, n) # hs)"
proof -
  define s' where "s' = s\<lparr>block_used := (block_used s)[i := True], free_count := free_count s - 1\<rparr>"
  have parts: "shape_ok p" "areas_ok (sys p)" "held_ok p hs" "counts_ok p hs"
      "sorted_wrt apart (map request_area hs)"
    using ok by (auto simp: pool_ok_def)
  have s: "s \<in> set (slabs p c)" using c by simp
  then have sok: "slab_ok s" "block_size s = class_size c" and sa: "s \<in> set (all_slabs p)"
    using parts(1) slab_in_all unfolding shape_ok_def by blast+
  obtain us vs where all: "all_slabs p = us @ s # vs"
    and upd: "\<And>zs q. slabs q = (slabs p)(c := xs @ zs @ ys) \<Longrightarrow> all_slabs q = us @ zs @ vs"
    using all_slabs_update[OF c(1,2)] by blast
  have all': "all_slabs q = us @ s' # vs" using upd[of q "[s']"] q(1) by (simp add: s'_def)
  have "shape_ok q"
    by (rule shape_replace[OF parts(1) c(1,2), where s' = s'])
       (use slab_ok_mark(1)[OF sok(1) i(1,2)] q(1) in \<open>simp_all add: s'_def\<close>)
  moreover have "held_ok q ((block_at s i, n) # hs)"
    using parts(3) c q used_blocks_mark[OF sok(1) i(1,2), of "free_count s - 1"] all all'
    by (auto simp: held_ok_def s'_def)
  moreover have "counts_ok q ((block_at s i, n) # hs)"
    using parts(4) i(3) all all' q(3)
    by (auto simp: counts_ok_def count_alloc_def s'_def algebra_simps of_nat_diff)
  moreover have "sorted_wrt apart (map request_area ((block_at s i, n) # hs))"
  proof -
    have "unat n \<le> block_size s" using GetSizeClass_le[of n] c(2,3) sok(2) by metis
    then have "apart (request_area (block_at s i, n)) (request_area x)" if "x \<in> set hs" for x
      using apart_inside[OF new_block_apart[OF parts(1-3) sa i(1,2) that]]
      by (simp add: inside_def request_area_def)
    then show ?thesis using parts(5) by simp
  qed
  ultimately show ?thesis using parts(2) q(2) by (simp add: pool_ok_def)
qed

lemma sorted_wrt_remove:
  "sorted_wrt P (map f (xs @ x # ys)) \<Longrightarrow> sorted_wrt P (map f (xs @ ys))"
  by (auto simp: sorted_wrt_append)

lemma give_block:
  assumes ok: "pool_ok p (hs1 @ x # hs2)" and c: "slabs p c = xs @ s # ys" "c \<noteq> HUGE"
    and x: "fst x = block_at s i" "GetSizeClass (snd x) = c"
    and i: "i < block_count s" "block_used s ! i"
    and q: "slabs q = (slabs p)(c := xs @
        s\<lparr>block_used := (block_used s)[i := False], free_count := free_count s + 1\<rparr> # ys)"
      "sys q = sys p"
      "pool_stat q = (count_free (snd x) (pool_stat p))\<lparr>free_blocks := free_blocks (pool_stat p) + 1\<rparr>"
  shows "pool_ok q (hs1 @ hs2)"
proof -
  define s' where "s' = s\<lparr>block_used := (block_used s)[i := False], free_count := free_count s + 1\<rparr>"
  have parts: "shape_ok p" "areas_ok (sys p)" "held_ok p (hs1 @ x # hs2)"
      "counts_ok p (hs1 @ x # hs2)" "sorted_wrt apart (map request_area (hs1 @ x # hs2))"
    using ok unfolding pool_ok_def by blast+
  have s: "s \<in> set (slabs p c)" using c by simp
  then have sok: "slab_ok s" using parts(1) unfolding shape_ok_def by blast
  obtain us vs where all: "all_slabs p = us @ s # vs"
    and upd: "\<And>zs q. slabs q = (slabs p)(c := xs @ zs @ ys) \<Longrightarrow> all_slabs q = us @ zs @ vs"
    using all_slabs_update[OF c(1,2)] by blast
  have all': "all_slabs q = us @ s' # vs" using upd[of q "[s']"] q(1) by (simp add: s'_def)
  have "shape_ok q"
    by (rule shape_replace[OF parts(1) c(1,2), where s' = s'])
       (use slab_ok_mark(2)[OF sok i] q(1) in \<open>simp_all add: s'_def\<close>)
  moreover have "held_ok q (hs1 @ hs2)"
  proof -
    have "add_mset (block_at s i) (mset (used_blocks s')) = mset (used_blocks s)"
      using used_blocks_unmark[OF sok i] by (simp add: s'_def)
    then have "add_mset (fst x) (mset (concat (map used_blocks (xs @ s' # ys))))
        = mset (concat (map used_blocks (slabs p c)))" using c(1) x(1) by simp
    moreover have "mset (concat (map used_blocks (slabs p c)))
        = add_mset (fst x) (mset (map fst (requests c (hs1 @ hs2))))"
      using parts(3) c(2) x(2) by (auto simp: held_ok_def)
    ultimately have "mset (map fst (requests c (hs1 @ hs2)))
        = mset (concat (map used_blocks (xs @ s' # ys)))" by simp
    moreover have "mset (map fst (requests d (hs1 @ hs2))) = mset (concat (map used_blocks (slabs p d)))"
      if "d \<noteq> HUGE" "d \<noteq> c" for d
      using parts(3) that x(2) unfolding held_ok_def by auto
    moreover have "slabs q = (slabs p)(c := xs @ s' # ys)" using q(1) by (simp add: s'_def)
    ultimately have "\<forall>d. d \<noteq> HUGE \<longrightarrow>
        mset (map fst (requests d (hs1 @ hs2))) = mset (concat (map used_blocks (slabs q d)))"
      by simp
    moreover have "map slab_area (all_slabs q) = map slab_area (all_slabs p)"
      by (simp add: all all' s'_def)
    moreover have "requests HUGE (hs1 @ x # hs2) = requests HUGE (hs1 @ hs2)"
      using x(2) c(2) by simp
    ultimately show ?thesis using parts(3) q(2) unfolding held_ok_def by simp
  qed
  moreover have "counts_ok q (hs1 @ hs2)"
    using parts(4) all all' q(3)
    by (auto simp: counts_ok_def count_free_def s'_def algebra_simps)
  ultimately show ?thesis
    using parts(2) q(2) sorted_wrt_remove[OF parts(5)] by (simp add: pool_ok_def)
qed

lemma areas_ok_Cons:
  "areas_ok m \<Longrightarrow> admissible m n (Some a) \<Longrightarrow> 0 < n \<Longrightarrow> areas_ok ((a, n) # m)"
  by (auto simp: areas_ok_def list_all_iff)

lemma new_slab_ok [simp]:
  "0 < n \<Longrightarrow> slab_ok (new_slab a n k)" "used_blocks (new_slab a n k) = []"
  "slab_area (new_slab a n k) = (a, n * k)" "free_count (new_slab a n k) = k"
  "block_size (new_slab a n k) = n" "block_count (new_slab a n k) = k"
  by (auto simp: slab_ok_def new_slab_def used_blocks_def slab_area_def)

lemma class_pos [simp]: "0 < class_size c" by (cases c) auto

lemma create_slab:
  assumes ok: "pool_ok p hs" and c: "c \<noteq> HUGE"
    and a: "admissible (sys p) (class_size c * slab_blocks c) (Some a)"
  shows "fst (CreateSlab (Some a) c p)" "pool_ok (snd (CreateSlab (Some a) c p)) hs"
proof -
  define q where "q = snd (CreateSlab (Some a) c p)"
  define s where "s = new_slab a (class_size c) (slab_blocks c)"
  have q: "slabs q = (slabs p)(c := slabs p c @ [s])" "sys q = slab_area s # sys p"
      "pool_stat q = (pool_stat p)\<lparr>slab_total := slab_total (pool_stat p) + 1,
         free_blocks := free_blocks (pool_stat p) + of_nat (slab_blocks c)\<rparr>"
    using c by (auto simp: q_def CreateSlab_def s_def)
  have parts: "shape_ok p" "areas_ok (sys p)" "held_ok p hs" "counts_ok p hs"
      "sorted_wrt apart (map request_area hs)"
    using ok by (auto simp: pool_ok_def)
  have all: "mset (all_slabs q) = add_mset s (mset (all_slabs p))"
    by (cases c) (use c q(1) in \<open>simp_all add: all_slabs_def\<close>)
  have sums: "length (all_slabs q) = Suc (length (all_slabs p))"
      "sum_list (map free_count (all_slabs q)) = slab_blocks c + sum_list (map free_count (all_slabs p))"
    using arg_cong[OF all, of size] arg_cong[OF all, of "\<lambda>m. sum_mset (image_mset free_count m)"]
    by (simp_all add: s_def sum_mset_sum_list flip: mset_map)
  have "shape_ok q" using parts(1) q(1) c by (auto simp: shape_ok_def s_def)
  moreover have "areas_ok (sys q)"
    unfolding q(2) s_def new_slab_ok(3)
    by (rule areas_ok_Cons[OF parts(2) a]) (use c in \<open>cases c, auto\<close>)
  moreover have "held_ok q hs"
  proof -
    have "mset (map slab_area (all_slabs q)) = add_mset (slab_area s) (mset (map slab_area (all_slabs p)))"
      using arg_cong[OF all, of "image_mset slab_area"] by simp
    moreover have "concat (map used_blocks (slabs q d)) = concat (map used_blocks (slabs p d))" for d
      using q(1) by (simp add: s_def)
    ultimately show ?thesis using parts(3) q(2) unfolding held_ok_def by simp
  qed
  moreover have "counts_ok q hs"
    using parts(4) q(3) sums by (auto simp: counts_ok_def)
  ultimately have "pool_ok q hs" using parts(5) by (simp add: pool_ok_def)
  then show "pool_ok (snd (CreateSlab (Some a) c p)) hs" by (simp add: q_def)
  show "fst (CreateSlab (Some a) c p)" using c by (simp add: CreateSlab_def)
qed


subsection \<open>Allocation and release keep the invariant\<close>

lemma try_slabs_ok:
  assumes "\<forall>s \<in> set ss. slab_ok s \<and> slab_area s \<in> set m"
  obtains (full) "\<forall>s \<in> set ss. free_count s = 0" "try_slabs m h ss = Some (None, ss, h)"
    | (found) xs s ys i where "ss = xs @ s # ys" "i < block_count s" "\<not> block_used s ! i"
      "0 < free_count s"
      "try_slabs m h ss = Some (Some (block_at s i),
         xs @ s\<lparr>block_used := (block_used s)[i := True], free_count := free_count s - 1\<rparr> # ys,
         zero_fill (block_at s i) (block_size s) h)"
  using assms
proof (induction ss arbitrary: thesis)
  case (Cons s ss)
  show ?case
  proof (cases "free_count s = 0")
    case True
    show ?thesis
    proof (rule Cons.IH)
      show "\<forall>s \<in> set ss. slab_ok s \<and> slab_area s \<in> set m" using Cons.prems(3) by simp
      show thesis if "\<forall>s \<in> set ss. free_count s = 0" "try_slabs m h ss = Some (None, ss, h)"
        by (rule Cons.prems(1)) (use True that in simp_all)
      show thesis if "ss = xs @ t # ys" "i < block_count t" "\<not> block_used t ! i" "0 < free_count t"
        "try_slabs m h ss = Some (Some (block_at t i),
           xs @ t\<lparr>block_used := (block_used t)[i := True], free_count := free_count t - 1\<rparr> # ys,
           zero_fill (block_at t i) (block_size t) h)" for xs t ys i
        by (rule Cons.prems(2)[of "s # xs" t ys i]) (use True that in simp_all)
    qed
  next
    case False
    have s: "slab_ok s" "slab_area s \<in> set m" "0 < free_count s" using Cons.prems(3) False by simp_all
    obtain i s' h' where a: "AllocateBlock m h s = Some (Some (block_at s i), s', h')"
        "i < block_count s" "\<not> block_used s ! i"
        "s' = s\<lparr>block_used := (block_used s)[i := True], free_count := free_count s - 1\<rparr>"
        "h' = zero_fill (block_at s i) (block_size s) h"
      by (rule AllocateBlock_ok[OF s])
    show ?thesis
      by (rule Cons.prems(2)[of "[]" s ss i]) (use a s(3) in simp_all)
  qed
qed simp

lemma pool_ok_heap [simp]: "pool_ok (p\<lparr>bytes_at := h\<rparr>) hs = pool_ok p hs"
  by (simp add: pool_ok_def shape_ok_def held_ok_def counts_ok_def all_slabs_def)

lemma held_inside_sys:
  assumes "held_ok p hs" "shape_ok p" "x \<in> set hs"
  obtains b where "b \<in> set (sys p)" "inside (request_area x) b"
  using assms
proof (cases rule: held_cases)
  case huge
  then show ?thesis using that[of "request_area x"] by (simp add: inside_def)
next
  case (block s i)
  have "inside (request_area x) (block_at s i, block_size s)"
    using block by (simp add: inside_def request_area_def)
  then have "inside (request_area x) (slab_area s)"
    using block_inside[OF block(3)] by (auto simp: inside_def)
  then show ?thesis using that slab_in_sys[OF assms(1) slab_in_all[OF assms(2) block(2)]] by blast
qed

lemma Allocate_huge:
  assumes ok: "pool_ok p hs" and n: "GetSizeClass n = HUGE"
    and a: "admissible (sys p) (unat n) (Some a)"
    and q: "q = p\<lparr>sys := (a, unat n) # sys p, pool_stat := count_alloc n (pool_stat p)\<rparr>"
  shows "pool_ok q ((a, n) # hs)"
proof -
  have parts: "shape_ok p" "areas_ok (sys p)" "held_ok p hs" "counts_ok p hs"
      "sorted_wrt apart (map request_area hs)"
    using ok by (auto simp: pool_ok_def)
  have all: "all_slabs q = all_slabs p" by (simp add: all_slabs_def q)
  have pos: "0 < unat n" by (rule GetSizeClass_huge_pos[OF n])
  have "areas_ok (sys q)" using areas_ok_Cons[OF parts(2) a pos] by (simp add: q)
  moreover have "shape_ok q" using parts(1) by (simp add: shape_ok_def q)
  moreover have "held_ok q ((a, n) # hs)"
    using parts(3) n pos all by (auto simp: held_ok_def q request_area_def)
  moreover have "counts_ok q ((a, n) # hs)"
    using parts(4) all by (auto simp: counts_ok_def count_alloc_def q algebra_simps)
  moreover have "apart (request_area (a, n)) (request_area x)" if x: "x \<in> set hs" for x
  proof -
    obtain b where b: "b \<in> set (sys p)" "inside (request_area x) b"
      by (rule held_inside_sys[OF parts(3,1) x])
    then have "apart (a, unat n) b" using a by (simp add: list_all_iff)
    then show ?thesis using b(2) apart_inside[of "(a, unat n)" b "(a, unat n)" "request_area x"]
      by (simp add: request_area_def inside_def)
  qed
  ultimately show ?thesis using parts(5) by (simp add: pool_ok_def)
qed

lemma slabs_sane:
  "pool_ok p hs \<Longrightarrow> \<forall>s \<in> set (slabs p c). slab_ok s \<and> slab_area s \<in> set (sys p)"
  unfolding pool_ok_def by (metis shape_ok_def slab_in_all slab_in_sys)

lemma class_of_block: "shape_ok p \<Longrightarrow> slabs p c = xs @ s # ys \<Longrightarrow> block_size s = class_size c"
  unfolding shape_ok_def by (metis in_set_conv_decomp)

lemma zero_fill_apart:
  "apart (a, n) (request_area x) \<Longrightarrow> k < unat (snd x)
   \<Longrightarrow> zero_fill a n h (fst x + k) = h (fst x + k)"
  by (auto simp: zero_fill_def apart_def request_area_def)

lemma Allocate_ok:
  assumes ok: "pool_ok p hs" and a: "admissible (sys p) (system_size n) answer"
  obtains r q where "Allocate answer n p = Some (r, q)"
    and "pool_ok q (case r of None \<Rightarrow> hs | Some b \<Rightarrow> (b, n) # hs)"
    and "r = None \<Longrightarrow> n = 0 \<or> answer = None"
    and "\<And>b k. r = Some b \<Longrightarrow> GetSizeClass n \<noteq> HUGE \<Longrightarrow> k < unat n \<Longrightarrow> bytes_at q (b + k) = 0"
    and "\<And>x k. x \<in> set hs \<Longrightarrow> k < unat (snd x) \<Longrightarrow> bytes_at q (fst x + k) = bytes_at p (fst x + k)"
proof (cases "n = 0")
  case True
  then show ?thesis using that[of None p] ok by (simp add: Allocate_def)
next
  case n: False
  define c where "c = GetSizeClass n"
  note zero = GetSizeClass_le[of n]
  have parts: "shape_ok p" "areas_ok (sys p)" "held_ok p hs" using ok by (auto simp: pool_ok_def)
  show ?thesis
  proof (cases "c = HUGE")
    case True
    show ?thesis
    proof (cases answer)
      case None
      then show ?thesis using that[of None p] ok n True by (simp add: Allocate_def c_def)
    next
      case (Some b)
      show ?thesis
        by (rule that[of "Some b" "p\<lparr>sys := (b, unat n) # sys p, pool_stat := count_alloc n (pool_stat p)\<rparr>"])
           (use Some n True Allocate_huge[OF ok, of n b] a in \<open>simp_all add: Allocate_def c_def system_size_def\<close>)
    qed
  next
    case small: False
    show ?thesis
      using slabs_sane[OF ok, of c]
    proof (cases rule: try_slabs_ok[where h = "bytes_at p"])
      case (found xs s ys i)
      define q where "q = snd (the (Allocate answer n p))"
      have q: "Allocate answer n p = Some (Some (block_at s i), q)"
          "slabs q = (slabs p)(c := xs @
             s\<lparr>block_used := (block_used s)[i := True], free_count := free_count s - 1\<rparr> # ys)"
          "sys q = sys p" "bytes_at q = zero_fill (block_at s i) (block_size s) (bytes_at p)"
          "pool_stat q = (count_alloc n (pool_stat p))\<lparr>free_blocks := free_blocks (pool_stat p) - 1\<rparr>"
        using found(5) n small by (simp_all add: q_def Allocate_def c_def Let_def)
      have mem: "s \<in> set (slabs p c)" using found(1) by simp
      have "pool_ok q ((block_at s i, n) # hs)"
        by (rule take_block[OF ok found(1) small _ n found(2,3,4) q(2,3,5)]) (simp add: c_def)
      moreover have "block_size s = class_size c"
        using class_of_block found(1) ok unfolding pool_ok_def by blast
      moreover have "bytes_at q (fst x + k) = bytes_at p (fst x + k)"
        if "x \<in> set hs" "k < unat (snd x)" for x k
        using zero_fill_apart[OF new_block_apart[OF parts slab_in_all[OF parts(1) mem] found(2,3) that(1)] that(2)]
          by (simp add: q(4))
      ultimately show ?thesis using that[OF q(1)] q(4) zero small by (simp add: zero_fill_def c_def)
    next
      case full
      have p1: "p\<lparr>slabs := (slabs p)(c := slabs p c), bytes_at := bytes_at p\<rparr> = p" by simp
      show ?thesis
      proof (cases answer)
        case None
        have "Allocate answer n p = Some (None, p)"
          using full(2) n small None unfolding Allocate_def c_def[symmetric] Let_def
          by (simp add: CreateSlab_def)
        then show ?thesis using that[of None p] ok None by simp
      next
        case (Some b)
        define p2 where "p2 = snd (CreateSlab (Some b) c p)"
        define s where "s = new_slab b (class_size c) (slab_blocks c)"
        have adm: "admissible (sys p) (class_size c * slab_blocks c) (Some b)"
          using a Some small by (simp add: system_size_def c_def Let_def)
        have p2: "CreateSlab (Some b) c p = (True, p2)" "pool_ok p2 hs"
          using create_slab[OF ok small adm] by (simp_all add: p2_def prod_eq_iff)
        then have parts2: "shape_ok p2" "areas_ok (sys p2)" "held_ok p2 hs" by (auto simp: pool_ok_def)
        have sl: "slabs p2 c = slabs p c @ s # []" "bytes_at p2 = bytes_at p"
          using small by (simp_all add: p2_def CreateSlab_def s_def)
        have in2: "slab_ok s" "slab_area s \<in> set (sys p2)" using slabs_sane[OF p2(2), of c] sl(1) by simp_all
        have free: "0 < free_count s" using small by (cases c) (simp_all add: s_def)
        obtain i s' h' where al: "AllocateBlock (sys p2) (bytes_at p2) s = Some (Some (block_at s i), s', h')"
            "i < block_count s" "\<not> block_used s ! i"
            "s' = s\<lparr>block_used := (block_used s)[i := True], free_count := free_count s - 1\<rparr>"
            "h' = zero_fill (block_at s i) (block_size s) (bytes_at p2)"
          by (rule AllocateBlock_ok[OF in2 free])
        define q where "q = snd (the (Allocate answer n p))"
        have q: "Allocate answer n p = Some (Some (block_at s i), q)"
            "slabs q = (slabs p2)(c := slabs p c @ s' # [])"
            "sys q = sys p2" "bytes_at q = h'"
            "pool_stat q = (count_alloc n (pool_stat p2))\<lparr>free_blocks := free_blocks (pool_stat p2) - 1\<rparr>"
          using full(2) n small al(1) p2(1) sl(1) Some
          unfolding q_def Allocate_def c_def[symmetric] Let_def by simp_all
        have mem: "s \<in> set (slabs p2 c)" by (simp add: sl(1))
        have "pool_ok q ((block_at s i, n) # hs)"
          by (rule take_block[OF p2(2) sl(1) small _ n al(2,3) free q(2)[unfolded al(4)] q(3,5)])
             (simp add: c_def)
        moreover have "bytes_at q (fst x + k) = bytes_at p (fst x + k)"
          if "x \<in> set hs" "k < unat (snd x)" for x k
          using zero_fill_apart[OF new_block_apart[OF parts2 slab_in_all[OF parts2(1) mem] al(2,3) that(1)] that(2)]
            by (simp add: q(4) al(5) sl(2))
        ultimately show ?thesis using that[OF q(1)] q(4) zero small al(5)
          by (simp add: zero_fill_def c_def s_def)
      qed
    qed
  qed
qed


lemma find_in_Some:
  "find_in q ss = Some i \<Longrightarrow> i < length ss \<and> slab_Contains (ss ! i) q"
  by (induction ss arbitrary: i) (auto split: if_splits)

lemma find_in_witness: "find_in q ss = Some i \<Longrightarrow> \<exists>s \<in> set ss. slab_Contains s q"
  using find_in_Some nth_mem by blast

lemma find_in_None: "find_in q ss = None \<longleftrightarrow> (\<forall>s \<in> set ss. \<not> slab_Contains s q)"
  by (induction ss) auto

lemma FindSlabContaining_Some:
  "FindSlabContaining ord p q = Some (c, i) \<Longrightarrow>
     c \<in> set ord \<and> i < length (slabs p c) \<and> slab_Contains (slabs p c ! i) q"
  by (induction ord) (auto split: option.splits dest: find_in_Some)

lemma FindSlabContaining_None:
  "FindSlabContaining ord p q = None \<longleftrightarrow> (\<forall>c \<in> set ord. \<forall>s \<in> set (slabs p c). \<not> slab_Contains s q)"
  by (induction ord) (auto split: option.splits simp: find_in_None dest: find_in_witness)

lemma contains_unique:
  assumes ok: "shape_ok p" "areas_ok (sys p)" "held_ok p hs"
    and s: "s \<in> set (slabs p c)" "slab_Contains s q" and t: "t \<in> set (slabs p d)" "slab_Contains t q"
  shows "s = t \<and> c = d"
proof -
  note all = slab_in_all[OF ok(1) s(1)] slab_in_all[OF ok(1) t(1)]
  have "\<not> apart (slab_area s) (slab_area t)"
    using s(2) t(2) by (auto simp: apart_def slab_area_def slab_Contains_def)
  then have st: "s = t"
    using areas_apart[OF ok(2) slab_in_sys[OF ok(3) all(1)] slab_in_sys[OF ok(3) all(2)]]
      slab_unique[OF ok(2,3) all] by blast
  have "class_size c = class_size d" using ok(1) s(1) t(1) st unfolding shape_ok_def by metis
  then show ?thesis using st by (cases c; cases d; simp)
qed

text \<open>A release by the client, of a huge block and of a block of a slab.\<close>

lemma sys_free_ok:
  assumes ok: "pool_ok p (hs1 @ x # hs2)" and x: "GetSizeClass (snd x) = HUGE"
  obtains q where "sys_free (fst x) p = Some q"
    and "pool_ok (q\<lparr>pool_stat := count_free (snd x) (pool_stat q)\<rparr>) (hs1 @ hs2)"
proof -
  have parts: "shape_ok p" "areas_ok (sys p)" "held_ok p (hs1 @ x # hs2)"
      "counts_ok p (hs1 @ x # hs2)" "sorted_wrt apart (map request_area (hs1 @ x # hs2))"
    using ok unfolding pool_ok_def by blast+
  define m where "m = filter (\<lambda>b. fst b \<noteq> fst x) (sys p)"
  define q where "q = p\<lparr>sys := m\<rparr>"
  define q' where "q' = q\<lparr>pool_stat := count_free (snd x) (pool_stat q)\<rparr>"
  have sysp: "mset (sys p) = add_mset (request_area x)
      (mset (map request_area (requests HUGE (hs1 @ hs2))) + mset (map slab_area (all_slabs p)))"
    using parts(3) x by (simp add: held_ok_def)
  then have mem: "request_area x \<in> set (sys p)" by (metis set_mset_mset union_single_eq_member add_mset_add_single union_commute)
  have m': "mset m = mset (map request_area (requests HUGE (hs1 @ hs2))) + mset (map slab_area (all_slabs p))"
    if "mset m = mset (sys p) - {#request_area x#}" using that sysp by simp
  have dist: "distinct (map fst (sys p))" by (rule areas_distinct[OF parts(2)])
  then have only: "fst b = fst x \<longleftrightarrow> b = request_area x" if "b \<in> set (sys p)" for b
    using that mem eq_key_imp_eq_value[of "sys p" "fst x" "snd b" "unat (snd x)"]
    by (cases b) (auto simp: request_area_def)
  have "m = filter (\<lambda>b. b \<noteq> request_area x) (sys p)"
    unfolding m_def by (rule filter_cong) (simp_all add: only)
  moreover have "m = remove1 (request_area x) (sys p)" if "m = filter (\<lambda>b. b \<noteq> request_area x) (sys p)"
    using that dist distinct_remove1_removeAll[of "sys p" "request_area x"]
    by (simp add: distinct_map removeAll_filter_not_eq eq_commute)
  ultimately have m: "mset m = mset (sys p) - {#request_area x#}" by (simp add: mset_remove1)
  have "areas_ok m" using parts(2) by (auto simp: areas_ok_def m_def sorted_wrt_filter)
  moreover have "shape_ok q'" using parts(1) by (simp add: shape_ok_def q_def q'_def)
  moreover have all: "all_slabs q' = all_slabs p" by (simp add: all_slabs_def q_def q'_def)
  then have "held_ok q' (hs1 @ hs2)"
    using parts(3) m'[OF m] x unfolding held_ok_def by (simp add: q_def q'_def)
  moreover have "counts_ok q' (hs1 @ hs2)"
    using parts(4) all by (auto simp: counts_ok_def count_free_def q_def q'_def algebra_simps)
  ultimately have "pool_ok q' (hs1 @ hs2)"
    using sorted_wrt_remove[OF parts(5)] by (simp add: pool_ok_def q_def q'_def)
  moreover have "sys_free (fst x) p = Some q"
    using mem by (force simp: sys_free_def q_def m_def request_area_def)
  ultimately show ?thesis using that unfolding q'_def by blast
qed

lemma Deallocate_ok:
  assumes ok: "pool_ok p (hs1 @ x # hs2)" and ord: "set ord = {SMALL, MEDIUM, LARGE}"
  obtains q where "Deallocate ord (Some (fst x)) (snd x) p = Some q" "pool_ok q (hs1 @ hs2)"
proof (cases "GetSizeClass (snd x) = HUGE")
  case True
  show ?thesis
    by (rule sys_free_ok[OF ok True]) (use that True in \<open>simp add: Deallocate_def\<close>)
next
  case small: False
  have parts: "shape_ok p" "areas_ok (sys p)" "held_ok p (hs1 @ x # hs2)"
    using ok unfolding pool_ok_def by blast+
  have "x \<in> set (hs1 @ x # hs2)" by simp
  with parts(3,1) show ?thesis
  proof (cases rule: held_cases)
    case (block s i)
    define c where "c = GetSizeClass (snd x)"
    have sok: "slab_ok s" using block(2) parts(1) by (auto simp: shape_ok_def)
    note here = contains_block[OF sok block(3), folded block(5)]
    have "c \<in> set ord" using small ord by (cases c) (auto simp: c_def)
    then have "FindSlabContaining ord p (fst x) \<noteq> None"
      using here(1) block(2) FindSlabContaining_None c_def by blast
    then obtain d j where d: "FindSlabContaining ord p (fst x) = Some (d, j)" by auto
    have dj: "j < length (slabs p d)" "slab_Contains (slabs p d ! j) (fst x)"
      using FindSlabContaining_Some[OF d] by simp_all
    then have eq: "slabs p d ! j = s" "d = c"
      using contains_unique[OF parts block(2) here(1) nth_mem[OF dj(1)] dj(2)] by (simp_all add: c_def)
    have split: "slabs p c = take j (slabs p c) @ s # drop (Suc j) (slabs p c)"
      using id_take_nth_drop dj(1) eq by metis
    define q where "q = the (Deallocate ord (Some (fst x)) (snd x) p)"
    have upd: "(slabs p c)[j := s'] = take j (slabs p c) @ s' # drop (Suc j) (slabs p c)" for s'
      using upd_conv_take_nth_drop dj(1) eq(2) by metis
    have "DeallocateBlock s (fst x)
        = (True, s\<lparr>block_used := (block_used s)[i := False], free_count := free_count s + 1\<rparr>)"
      using here block(3,4) by (simp add: DeallocateBlock_def)
    then have q: "Deallocate ord (Some (fst x)) (snd x) p = Some q"
        "slabs q = (slabs p)(c := take j (slabs p c) @
           s\<lparr>block_used := (block_used s)[i := False], free_count := free_count s + 1\<rparr> # drop (Suc j) (slabs p c))"
        "sys q = sys p"
        "pool_stat q = (count_free (snd x) (pool_stat p))\<lparr>free_blocks := free_blocks (pool_stat p) + 1\<rparr>"
      using small d eq upd by (simp_all add: q_def Deallocate_def)
    have "pool_ok q (hs1 @ hs2)"
      by (rule give_block[OF ok split _ block(5) _ block(3,4) q(2-4)]) (use small in \<open>simp_all add: c_def\<close>)
    then show ?thesis using that q(1) by blast
  qed (use small in simp)
qed

lemma new_pool_ok: "pool_ok (new_pool h) []"
  by (simp add: pool_ok_def shape_ok_def areas_ok_def held_ok_def counts_ok_def all_slabs_def
      new_pool_def zero_stats_def requests_def)

lemma pool_step_ok:
  assumes "pool_ok p hs" obtains q hs' where "pool_step x (p, hs) = Some (q, hs')" "pool_ok q hs'"
proof (cases x)
  case (PoolAllocate n answer)
  show ?thesis
  proof (cases "admissible (sys p) (system_size n) answer")
    case True
    show ?thesis
      by (rule Allocate_ok[OF assms True]) (rule that, use PoolAllocate True in simp_all)
  qed (use that PoolAllocate assms in simp)
next
  case (PoolFree i ord)
  show ?thesis
  proof (cases "i < length hs \<and> set ord = {SMALL, MEDIUM, LARGE}")
    case True
    then have hs: "hs = take i hs @ hs ! i # drop (Suc i) hs" by (simp add: id_take_nth_drop)
    show ?thesis
      by (rule Deallocate_ok[of p "take i hs" "hs ! i" "drop (Suc i) hs" ord])
         (use assms hs True in simp, use True in simp, rule that, use PoolFree True in simp_all)
  next
    case False
    then have "pool_step x (p, hs) = Some (p, hs)" using PoolFree by (simp only: pool_step.simps if_False)
    then show ?thesis using that assms by blast
  qed
qed

lemma pool_run_ok:
  "pool_ok p hs \<Longrightarrow> \<exists>q hs'. pool_run xs (p, hs) = Some (q, hs') \<and> pool_ok q hs'"
proof (induction xs arbitrary: p hs)
  case (Cons x xs)
  obtain q hs' where "pool_step x (p, hs) = Some (q, hs')" "pool_ok q hs'"
    by (rule pool_step_ok[OF Cons.prems])
  then show ?case using Cons.IH by simp
qed simp

lemma pool_run_sound:
  "pool_run xs (new_pool h, []) = Some (p, hs) \<Longrightarrow> pool_ok p hs"
  using pool_run_ok[OF new_pool_ok, of xs h] by auto

lemma held_aligned:
  assumes ok: "pool_ok p hs" and x: "x \<in> set hs"
  shows "16 dvd fst x"
proof -
  have parts: "shape_ok p" "areas_ok (sys p)" "held_ok p hs" using ok by (auto simp: pool_ok_def)
  show ?thesis using parts(3,1) x
  proof (cases rule: held_cases)
    case huge
    then show ?thesis using parts(2) by (auto simp: areas_ok_def request_area_def)
  next
    case (block s i)
    have "16 dvd slab_memory s"
      using slab_in_sys[OF parts(3) slab_in_all[OF parts(1) block(2)]] parts(2)
      by (auto simp: areas_ok_def slab_area_def)
    moreover have "16 dvd block_size s"
    proof -
      have "block_size s = class_size (GetSizeClass (snd x))"
        using parts(1) block(2) unfolding shape_ok_def by blast
      then show ?thesis using block(1) by (cases "GetSizeClass (snd x)") simp_all
    qed
    ultimately show ?thesis by (simp add: block(5) block_at_def)
  qed
qed


subsection \<open>After \<open>Clear\<close>\<close>

lemma free_slabs_all:
  "distinct (map slab_memory ss) \<Longrightarrow> slab_memory ` set ss \<subseteq> fst ` set (sys p)
   \<Longrightarrow> free_slabs ss p = Some (p\<lparr>sys := filter (\<lambda>b. fst b \<notin> slab_memory ` set ss) (sys p)\<rparr>)"
proof (induction ss arbitrary: p)
  case (Cons s ss)
  define p' where "p' = p\<lparr>sys := filter (\<lambda>b. fst b \<noteq> slab_memory s) (sys p)\<rparr>"
  have "sys_free (slab_memory s) p = Some p'" using Cons.prems(2) by (auto simp: sys_free_def p'_def)
  moreover have "slab_memory ` set ss \<subseteq> fst ` set (sys p')"
  proof
    fix a assume a: "a \<in> slab_memory ` set ss"
    then have "a \<noteq> slab_memory s" using Cons.prems(1) by (metis distinct.simps(2) list.set_map list.simps(9))
    moreover obtain b where "b \<in> set (sys p)" "fst b = a" using a Cons.prems(2) by auto
    ultimately show "a \<in> fst ` set (sys p')" by (force simp: p'_def)
  qed
  ultimately show ?case using Cons.IH[of p'] Cons.prems(1)
    by (auto simp: p'_def intro!: filter_cong)
qed simp

lemma huge_starts:
  assumes ok: "pool_ok p hs"
  shows "fst ` set (filter (\<lambda>b. fst b \<notin> slab_memory ` set (all_slabs p)) (sys p))
    = fst ` set (requests HUGE hs)"
    and "distinct (map slab_memory (all_slabs p))"
    and "slab_memory ` set (all_slabs p) \<subseteq> fst ` set (sys p)"
proof -
  have h: "mset (map request_area (requests HUGE hs) @ map slab_area (all_slabs p)) = mset (sys p)"
    and d: "distinct (map fst (sys p))"
    using ok areas_distinct by (auto simp: pool_ok_def held_ok_def)
  have m: "mset (map fst (requests HUGE hs) @ map slab_memory (all_slabs p)) = mset (map fst (sys p))"
  proof -
    have "map fst (map request_area (requests HUGE hs) @ map slab_area (all_slabs p))
        = map fst (requests HUGE hs) @ map slab_memory (all_slabs p)"
      by (simp add: request_area_def slab_area_def comp_def)
    then show ?thesis using arg_cong[OF h, of "image_mset fst"] by (metis mset_map)
  qed
  then have dist: "distinct (map fst (requests HUGE hs) @ map slab_memory (all_slabs p))"
    and sets: "fst ` set (requests HUGE hs) \<union> slab_memory ` set (all_slabs p) = fst ` set (sys p)"
    using d mset_eq_imp_distinct_iff mset_eq_setD[OF m] by (blast, simp)
  show "distinct (map slab_memory (all_slabs p))" using dist by simp
  show "slab_memory ` set (all_slabs p) \<subseteq> fst ` set (sys p)" using sets by blast
  have "fst ` set (requests HUGE hs) \<inter> slab_memory ` set (all_slabs p) = {}" using dist by simp
  moreover have "fst ` set (filter (\<lambda>b. fst b \<notin> slab_memory ` set (all_slabs p)) (sys p))
      = fst ` set (sys p) - slab_memory ` set (all_slabs p)" by auto
  ultimately show "fst ` set (filter (\<lambda>b. fst b \<notin> slab_memory ` set (all_slabs p)) (sys p))
    = fst ` set (requests HUGE hs)" using sets by (metis Diff_triv Un_Diff Diff_cancel Un_empty_right)
qed

lemma held_starts_differ:
  assumes ok: "pool_ok p hs" and x: "x \<in> set hs" and y: "y \<in> set hs" and "fst x = fst y"
  shows "x = y"
proof (rule ccontr)
  assume "x \<noteq> y"
  moreover have "sorted_wrt apart (map request_area hs)" "\<forall>x \<in> set hs. snd x \<noteq> 0"
    using ok by (auto simp: pool_ok_def held_ok_def)
  moreover have "apart (request_area x) (request_area y)" if "sorted_wrt apart (map request_area zs)"
    "x \<in> set zs" "y \<in> set zs" "x \<noteq> y" for zs
    using that by (induction zs) (auto intro: apart_sym)
  ultimately have "apart (request_area x) (request_area y)" "0 < unat (snd x)" "0 < unat (snd y)"
    using x y by (auto simp: unat_gt_0)
  then show False using assms(4) by (simp add: apart_def request_area_def)
qed

lemma Clear_ok:
  assumes ok: "pool_ok p hs"
  obtains q where "pool_Clear p = Some q" "slabs q = (\<lambda>c. [])" "pool_stat q = zero_stats"
    "fst ` set (sys q) = fst ` set (requests HUGE hs)"
proof -
  note huge = huge_starts[OF ok]
  show ?thesis
    by (rule that[of "p\<lparr>sys := filter (\<lambda>b. fst b \<notin> slab_memory ` set (all_slabs p)) (sys p),
          slabs := (\<lambda>c. []), pool_stat := zero_stats\<rparr>"])
       (use huge(1) free_slabs_all[OF huge(2,3)] in \<open>simp_all add: pool_Clear_def\<close>)
qed

lemma Find_empty: "slabs q = (\<lambda>c. []) \<Longrightarrow> FindSlabContaining ord q a = None"
  by (simp add: FindSlabContaining_None)

subsection \<open>The properties\<close>

text \<open>C21: Whatever a client asks for and gives back, in any order and whatever the system
  allocator answers, the pool never does anything undefined; the blocks the client holds never
  overlap, are aligned for every type and lie in memory the system has given out; and the
  statistics count the blocks held, the bytes held, the slabs, and the blocks that are not in use.\<close>
theorem pool_blocks_stay_apart:
  "case pool_run xs (new_pool h, []) of
     None \<Rightarrow> False
   | Some (p, hs) \<Rightarrow>
       sorted_wrt apart (map request_area hs)
       \<and> list_all (\<lambda>x. 16 dvd fst x \<and> list_ex (inside (request_area x)) (sys p)) hs
       \<and> allocated_blocks (pool_stat p) = of_nat (length hs)
       \<and> current_used_bytes (pool_stat p) = sum_list (map snd hs)
       \<and> slab_total (pool_stat p) = of_nat (length (all_slabs p))
       \<and> free_blocks (pool_stat p)
           = of_nat (sum_list (map (\<lambda>s. length (filter Not (block_used s))) (all_slabs p)))"
proof -
  obtain p hs where run: "pool_run xs (new_pool h, []) = Some (p, hs)" and ok: "pool_ok p hs"
    using pool_run_ok[OF new_pool_ok] by blast
  have parts: "shape_ok p" "held_ok p hs" "counts_ok p hs" "sorted_wrt apart (map request_area hs)"
    using ok by (auto simp: pool_ok_def)
  have "list_ex (inside (request_area x)) (sys p)" if "x \<in> set hs" for x
    by (rule held_inside_sys[OF parts(2,1) that]) (auto simp: list_ex_iff)
  moreover have "slab_ok s" if "s \<in> set (all_slabs p)" for s
    using that parts(1) by (auto simp: all_slabs_class shape_ok_def)
  then have "sum_list (map free_count (all_slabs p))
      = sum_list (map (\<lambda>s. length (filter Not (block_used s))) (all_slabs p))"
    by (intro arg_cong[of _ _ sum_list] map_cong) (simp_all add: slab_ok_def)
  ultimately show ?thesis using run parts(3,4) held_aligned[OF ok]
    by (simp add: counts_ok_def list_all_iff)
qed

text \<open>A request of at most 1024 bytes succeeds when the system allocator can give memory for a
  slab, the block that is returned reads zero, and the content of no other block the client holds
  changes.\<close>
theorem small_block_is_zeroed:
  assumes "pool_run xs (new_pool h, []) = Some (p, hs)"
    and "0 < n" "GetSizeClass n \<noteq> HUGE" "admissible (sys p) (system_size n) (Some a)"
  shows "\<exists>b q. Allocate (Some a) n p = Some (Some b, q)
    \<and> list_all (\<lambda>k. bytes_at q (b + k) = 0) [0..<unat n]
    \<and> list_all (\<lambda>x. list_all (\<lambda>k. bytes_at q (fst x + k) = bytes_at p (fst x + k))
        [0..<unat (snd x)]) hs"
proof (rule Allocate_ok[OF pool_run_sound[OF assms(1)] assms(4)])
  fix r q
  assume al: "Allocate (Some a) n p = Some (r, q)" "r = None \<Longrightarrow> n = 0 \<or> Some a = None"
    "\<And>b k. r = Some b \<Longrightarrow> GetSizeClass n \<noteq> HUGE \<Longrightarrow> k < unat n \<Longrightarrow> bytes_at q (b + k) = 0"
    "\<And>x k. x \<in> set hs \<Longrightarrow> k < unat (snd x) \<Longrightarrow> bytes_at q (fst x + k) = bytes_at p (fst x + k)"
  then obtain b where "r = Some b" using assms(2) by auto
  then show ?thesis using al assms(3) by (auto simp: list_all_iff)
qed

text \<open>\<open>Clear\<close> is defined, but leaves the clients with nothing they can give back: the release
  of a block of a slab is then undefined (\<open>free\<close> of an address the system did not give out), and
  the release of a huge block makes the counters of blocks and bytes in use wrap below zero.\<close>
theorem clear_strands_clients:
  assumes "pool_run xs (new_pool h, []) = Some (p, hs)" and "x \<in> set hs"
  shows "\<exists>q. pool_Clear p = Some q
    \<and> map_option pool_stat (Deallocate ord (Some (fst x)) (snd x) q)
      = (if GetSizeClass (snd x) = HUGE
         then Some \<lparr>total_allocated_bytes = 0, total_freed_bytes = snd x, current_used_bytes = - snd x,
                slab_total = 0, free_blocks = 0, allocated_blocks = - 1\<rparr>
         else None)"
proof -
  have ok: "pool_ok p hs" by (rule pool_run_sound[OF assms(1)])
  obtain q where q: "pool_Clear p = Some q" "slabs q = (\<lambda>c. [])" "pool_stat q = zero_stats"
      "fst ` set (sys q) = fst ` set (requests HUGE hs)"
    by (rule Clear_ok[OF ok])
  have "fst x \<in> fst ` set (sys q) \<longleftrightarrow> GetSizeClass (snd x) = HUGE"
  proof
    assume "fst x \<in> fst ` set (sys q)"
    then obtain y where "y \<in> set hs" "GetSizeClass (snd y) = HUGE" "fst x = fst y"
      unfolding q(4) requests_def by auto
    then show "GetSizeClass (snd x) = HUGE" using held_starts_differ[OF ok assms(2)] by blast
  qed (use assms(2) q(4) in \<open>auto simp: requests_def\<close>)
  then show ?thesis using q(1,3) Find_empty[OF q(2)]
    by (auto simp: Deallocate_def sys_free_def count_free_def zero_stats_def)
qed

text \<open>Witnesses: a client that holds a huge block at 32768 and a small one at 4096.\<close>

definition witness_ops :: "pool_op list" where
  "witness_ops = [PoolAllocate 40 (Some 4096), PoolAllocate 2000 (Some 32768)]"

lemma first_unused_fresh [simp]: "0 < n \<Longrightarrow> first_unused (replicate n False) = Some 0"
  by (cases n) auto

lemma witness_run:
  "\<exists>p. pool_run witness_ops (new_pool (\<lambda>_. 7), []) = Some (p, [(32768, 2000), (4096, 40)])
     \<and> sys p = [(32768, 2000), (4096, 8192)]"
  by (simp add: witness_ops_def new_pool_def system_size_def Allocate_def GetSizeClass_def Let_def
      CreateSlab_def new_slab_def AllocateBlock_def block_at_def inside_def apart_def)

lemma pool_clear_witness: "GetSizeClass 2000 = HUGE" "GetSizeClass 40 \<noteq> HUGE"
  by (simp_all add: GetSizeClass_def)

theorem small_block_is_zeroed_witness:
  "\<exists>p b q. pool_run witness_ops (new_pool (\<lambda>_. 7), []) = Some (p, [(32768, 2000), (4096, 40)])
     \<and> Allocate (Some 65536) 300 p = Some (Some b, q) \<and> bytes_at q (b + 299) = 0"
proof -
  obtain p where p: "pool_run witness_ops (new_pool (\<lambda>_. 7), []) = Some (p, [(32768, 2000), (4096, 40)])"
      "sys p = [(32768, 2000), (4096, 8192)]"
    using witness_run by blast
  have "admissible (sys p) (system_size 300) (Some 65536)"
    by (simp add: p(2) system_size_def GetSizeClass_def apart_def Let_def)
  then show ?thesis
    using small_block_is_zeroed[OF p(1), of 300 65536] p(1)
    by (fastforce simp: GetSizeClass_def list_all_iff)
qed

theorem clear_strands_clients_witness:
  "\<exists>p q. pool_run witness_ops (new_pool (\<lambda>_. 7), []) = Some (p, [(32768, 2000), (4096, 40)])
     \<and> pool_Clear p = Some q \<and> Deallocate [SMALL, MEDIUM, LARGE] (Some 4096) 40 q = None"
proof -
  obtain p where p: "pool_run witness_ops (new_pool (\<lambda>_. 7), []) = Some (p, [(32768, 2000), (4096, 40)])"
    using witness_run by blast
  show ?thesis
    using clear_strands_clients[OF p, of "(4096, 40)" "[SMALL, MEDIUM, LARGE]"] p pool_clear_witness(2)
    by auto
qed

end
