(* ===== verification/ConditionalRequest.thy ===== *)
theory ConditionalRequest
  imports HttpRequest KeepAlive
begin

text \<open>
  Conditional requests (include/http/conditional_request_handler.h,
  src/http/conditional_request_handler.cpp): entity tags, the \<open>If-None-Match\<close> and
  \<open>If-Modified-Since\<close> headers, and dates.

  A time point of the system clock is a number of nanoseconds, \<open>time_t\<close> a number of seconds. What
  the file system and the two clocks answer to one \<open>GetFileStat\<close> is the parameter \<open>stat_probe\<close>, in
  which \<open>None\<close> stands for an exception. \<open>gmtime_r\<close> and \<open>strftime\<close> are written out for the one
  format that is used. What \<open>std::get_time\<close> accepts depends on the locale, and \<open>mktime\<close> on the time
  zone of the server: both are parameters, \<open>mktime\<close> with the normalised fields it leaves behind.
\<close>

subsection \<open>Dates\<close>

record broken_time =
  tm_year :: int
  tm_mon :: nat
  tm_mday :: nat
  tm_hour :: nat
  tm_min :: nat
  tm_sec :: nat
  tm_wday :: nat

text \<open>
  \<open>gmtime_r\<close>: the proleptic Gregorian calendar, in eras of 400 years that start on the first of
  March; \<open>doe\<close> is the day of the era, \<open>doy\<close> the day of a year that starts in March.
\<close>

definition year_of_era :: "nat \<Rightarrow> nat" where
  "year_of_era doe = (doe - doe div 1460 + doe div 36524 - doe div 146096) div 365"

definition year_days :: "nat \<Rightarrow> nat" where
  "year_days yoe = 365 * yoe + yoe div 4 - yoe div 100"

definition march_month :: "nat \<Rightarrow> nat" where
  "march_month doy = (5 * doy + 2) div 153"

definition month_days :: "nat \<Rightarrow> nat" where
  "month_days mp = (153 * mp + 2) div 5"

definition era_date :: "nat \<Rightarrow> nat \<times> nat \<times> nat" where
  "era_date doe =
     (case doe - year_days (year_of_era doe) of doy \<Rightarrow>
        (year_of_era doe, march_month doy, doy - month_days (march_month doy) + 1))"

definition gmtime :: "int \<Rightarrow> broken_time" where
  "gmtime t =
     (case era_date (nat ((t div 86400 + 719468) mod 146097)) of (yoe, mp, day) \<Rightarrow>
        \<lparr>tm_year = int yoe + (t div 86400 + 719468) div 146097 * 400 + (if mp < 10 then 0 else 1) - 1900,
         tm_mon = (if mp < 10 then mp + 2 else mp - 10), tm_mday = day,
         tm_hour = nat (t mod 86400) div 3600, tm_min = nat (t mod 86400) mod 3600 div 60,
         tm_sec = nat (t mod 86400) mod 60, tm_wday = nat ((t div 86400 + 4) mod 7)\<rparr>)"

definition day_names :: "string list" where
  "day_names = [''Sun'', ''Mon'', ''Tue'', ''Wed'', ''Thu'', ''Fri'', ''Sat'']"

definition month_names :: "string list" where
  "month_names = [''Jan'', ''Feb'', ''Mar'', ''Apr'', ''May'', ''Jun'', ''Jul'', ''Aug'', ''Sep'',
     ''Oct'', ''Nov'', ''Dec'']"

definition two_digits :: "nat \<Rightarrow> string" where
  "two_digits n = (if n < 10 then CHR ''0'' # dec n else dec n)"

definition FormatHttpDate :: "int \<Rightarrow> string" where
  "FormatHttpDate time_point =
     (let tm = gmtime (cast_seconds time_point)
      in day_names ! tm_wday tm @ '', '' @ two_digits (tm_mday tm) @ '' '' @ month_names ! tm_mon tm
         @ '' '' @ dec_int (tm_year tm + 1900) @ '' '' @ two_digits (tm_hour tm) @ '':''
         @ two_digits (tm_min tm) @ '':'' @ two_digits (tm_sec tm) @ '' GMT'')"

definition imf_format :: string where
  "imf_format = ''%a, %d %b %Y %H:%M:%S GMT''"

definition ParseHttpDate ::
  "(string \<Rightarrow> string \<Rightarrow> broken_time option) \<Rightarrow> (broken_time \<Rightarrow> int \<times> broken_time) \<Rightarrow>
   string \<Rightarrow> int option" where
  "ParseHttpDate get_time mktime date_str =
     (case get_time imf_format date_str of
        Some tm \<Rightarrow>
          (let (tt, tm) = mktime tm in if tt = - 1 then None else Some (tt * 1000000000))
      | None \<Rightarrow>
          (case get_time ''%A, %d-%b-%y %H:%M:%S GMT'' date_str of
             Some tm \<Rightarrow>
               (let (tt, tm) = mktime tm
                in if tt = - 1 then None
                   else if tm_year tm < 70
                   then Some (fst (mktime (tm\<lparr>tm_year := tm_year tm + 100\<rparr>)) * 1000000000)
                   else Some (tt * 1000000000))
           | None \<Rightarrow>
               (case get_time ''%a %b %d %H:%M:%S %Y'' date_str of
                  Some tm \<Rightarrow>
                    (let (tt, tm) = mktime tm in if tt = - 1 then None else Some (tt * 1000000000))
                | None \<Rightarrow> None)))"

subsection \<open>Entity tags and the two conditions\<close>

record file_stat =
  fs_last_modified :: int
  fs_file_size :: nat
  fs_etag :: string

record stat_probe =
  sp_exists :: bool
  sp_regular :: bool
  sp_write_time :: "int option"
  sp_size :: "nat option"
  sp_file_now :: int
  sp_system_now :: int

definition GenerateWeakETag :: "file_stat \<Rightarrow> string" where
  "GenerateWeakETag s =
     ''W/'' @ CHR 0x22 # dec (fs_file_size s) @ CHR ''-'' # dec_int (cast_seconds (fs_last_modified s))
       @ [CHR 0x22]"

definition GenerateETag :: "file_stat \<Rightarrow> string" where
  "GenerateETag s = GenerateWeakETag s"

definition GetFileStat :: "stat_probe \<Rightarrow> file_stat option" where
  "GetFileStat os =
     (if \<not> sp_exists os \<or> \<not> sp_regular os then None
      else case (sp_write_time os, sp_size os) of
             (Some ftime, Some file_size) \<Rightarrow>
               (let sctp = ftime - sp_file_now os + sp_system_now os
                in Some \<lparr>fs_last_modified = sctp, fs_file_size = file_size,
                      fs_etag = GenerateWeakETag
                        \<lparr>fs_last_modified = sctp, fs_file_size = file_size, fs_etag = []\<rparr>\<rparr>)
           | _ \<Rightarrow> None)"

definition CheckIfModifiedSince ::
  "(string \<Rightarrow> int option) \<Rightarrow> http_request \<Rightarrow> file_stat \<Rightarrow> bool" where
  "CheckIfModifiedSince parse_date request s =
     (let if_modified_since = GetHeader request ''if-modified-since''
      in if if_modified_since = [] then False
         else case parse_date if_modified_since of
                None \<Rightarrow> False
              | Some since_time \<Rightarrow> cast_seconds (fs_last_modified s) \<le> cast_seconds since_time)"

definition CheckIfNoneMatch :: "http_request \<Rightarrow> file_stat \<Rightarrow> bool" where
  "CheckIfNoneMatch request s =
     (let if_none_match = GetHeader request ''if-none-match''
      in if if_none_match = [] then False
         else let current_etag = (if fs_etag s = [] then GenerateWeakETag s else fs_etag s)
              in if if_none_match = ''*'' then True
                 else if find_sub current_etag if_none_match \<noteq> None then True
                 else if length current_etag > 3 \<and> take 2 current_etag = ''W/''
                 then find_sub (drop 2 current_etag) if_none_match \<noteq> None
                 else False)"

definition ShouldReturn304 ::
  "(string \<Rightarrow> int option) \<Rightarrow> http_request \<Rightarrow> file_stat \<Rightarrow> bool" where
  "ShouldReturn304 parse_date request s =
     (let meth = rq_method request
      in if meth \<noteq> ''GET'' \<and> meth \<noteq> ''HEAD'' then False
         else if CheckIfNoneMatch request s then True
         else if CheckIfModifiedSince parse_date request s then True
         else False)"

definition ShouldReturn304_path ::
  "(string \<Rightarrow> int option) \<Rightarrow> http_request \<Rightarrow> stat_probe \<Rightarrow> bool \<times> string" where
  "ShouldReturn304_path parse_date request os =
     (case GetFileStat os of
        None \<Rightarrow> (False, [])
      | Some s \<Rightarrow> (ShouldReturn304 parse_date request s, fs_etag s))"

subsection \<open>Decimal numbers and substrings\<close>

lemma digit_char_code: "d < 10 \<Longrightarrow> (of_char (digit_char d) :: nat) = 48 + d"
  by (simp add: digit_char_def of_char_of)

lemma dec_digits: "c \<in> set (dec n) \<Longrightarrow> isdigit c"
proof (induction n rule: dec.induct)
  case (1 n)
  then show ?case
    by (subst (asm) (2) dec.simps) (auto simp: isdigit_def digit_char_code split: if_splits)
qed

lemma dec_nonempty [simp]: "dec n \<noteq> []"
  by (subst dec.simps) simp

lemma digits_value_append: "digits_value acc (s @ t) = digits_value (digits_value acc s) t"
  by (induction acc s rule: digits_value.induct) simp_all

lemma digits_value_dec: "digits_value 0 (dec n) = n"
proof (induction n rule: dec.induct)
  case (1 n)
  show ?case
  proof (cases "n < 10")
    case True
    then show ?thesis by (subst dec.simps) (simp add: digit_char_code)
  next
    case False
    then show ?thesis using 1 by (subst dec.simps) (simp add: digits_value_append digit_char_code)
  qed
qed

lemma dec_inject [simp]: "dec m = dec n \<longleftrightarrow> m = n"
  by (metis digits_value_dec)

lemma dec_chars: "c \<in> set (dec n) \<Longrightarrow> c \<noteq> CHR ''-'' \<and> c \<noteq> CHR 0x22 \<and> c \<noteq> CR \<and> c \<noteq> LF"
  using dec_digits[of c n] by (auto simp: isdigit_def)

lemma dec_int_inject [simp]: "dec_int i = dec_int j \<longleftrightarrow> i = j"
proof
  assume eq: "dec_int i = dec_int j"
  have minus: "dec_int k = CHR ''-'' # r \<longleftrightarrow> k < 0 \<and> r = dec (nat (- k))" for k r
  proof (cases "k < 0")
    case False
    have "hd (dec (nat k)) \<noteq> CHR ''-''" using dec_chars[of "hd (dec (nat k))" "nat k"] by simp
    then show ?thesis using False by (auto simp: dec_int_def)
  qed (auto simp: dec_int_def)
  show "i = j"
  proof (cases "i < 0")
    case True
    then have "j < 0 \<and> dec (nat (- i)) = dec (nat (- j))" using eq minus[of i] minus[of j] by metis
    then show ?thesis using True by (auto simp: eq_nat_nat_iff)
  next
    case False
    then have "\<not> j < 0" using eq minus[of i] minus[of j] by metis
    then show ?thesis using False eq by (simp add: dec_int_def)
  qed
qed simp

lemma dec_int_chars: "c \<in> set (dec_int n) \<Longrightarrow> c \<noteq> CHR 0x22 \<and> c \<noteq> CR \<and> c \<noteq> LF"
  by (auto simp: dec_int_def dest: dec_chars split: if_splits)

lemma is_prefix_iff: "is_prefix p s \<longleftrightarrow> (\<exists>t. s = p @ t)"
  by (induction p s rule: is_prefix.induct) auto

lemma find_sub_iff: "find_sub p s \<noteq> None \<longleftrightarrow> (\<exists>a b. s = a @ p @ b)"
proof (induction p s rule: find_sub.induct)
  case (2 p c cs)
  show ?case
  proof (cases "is_prefix p (c # cs)")
    case True
    then show ?thesis unfolding is_prefix_iff by (metis append_Nil find_sub.simps(2) is_prefix_iff option.discI)
  next
    case False
    then have "(\<exists>a b. c # cs = a @ p @ b) \<longleftrightarrow> (\<exists>a b. cs = a @ p @ b)"
      unfolding is_prefix_iff by (metis append_Cons append_Nil list.inject neq_Nil_conv)
    then show ?thesis using 2 False by simp
  qed
qed auto

subsection \<open>Revalidation\<close>

definition etag_body :: "file_stat \<Rightarrow> string" where
  "etag_body s = dec (fs_file_size s) @ CHR ''-'' # dec_int (cast_seconds (fs_last_modified s))"

lemma etag_shape: "GenerateWeakETag s = ''W/'' @ CHR 0x22 # etag_body s @ [CHR 0x22]"
  by (simp add: GenerateWeakETag_def etag_body_def)

lemma etag_body_chars: "CHR 0x22 \<notin> set (etag_body s)"
  using dec_chars dec_int_chars by (auto simp: etag_body_def)

lemma etag_body_inject:
  "etag_body s = etag_body t \<longleftrightarrow> fs_file_size s = fs_file_size t
     \<and> cast_seconds (fs_last_modified s) = cast_seconds (fs_last_modified t)"
proof
  assume eq: "etag_body s = etag_body t"
  have "takeWhile (\<lambda>c. c \<noteq> CHR ''-'') (dec n @ CHR ''-'' # r) = dec n"
    and "dropWhile (\<lambda>c. c \<noteq> CHR ''-'') (dec n @ CHR ''-'' # r) = CHR ''-'' # r" for n r
    using dec_chars[of _ n] by (auto simp: takeWhile_append2 dropWhile_append2)
  then have "dec (fs_file_size s) = dec (fs_file_size t)"
    and "dec_int (cast_seconds (fs_last_modified s)) = dec_int (cast_seconds (fs_last_modified t))"
    using eq unfolding etag_body_def by (metis, metis list.inject)
  then show "fs_file_size s = fs_file_size t
     \<and> cast_seconds (fs_last_modified s) = cast_seconds (fs_last_modified t)" by simp
qed (simp add: etag_body_def)

lemma quoted_substring:
  assumes "''W/'' @ q # b1 @ [q] = a @ (q # b2 @ [q]) @ b" "q \<notin> set b1" "q \<notin> set b2"
    "q \<noteq> CHR ''W''" "q \<noteq> CHR ''/''"
  shows "b1 = b2"
proof -
  have count: "count_list (''W/'' @ q # b1 @ [q]) q = 2"
    using assms(2,4,5) by (simp add: count_notin)
  have "count_list (a @ (q # b2 @ [q]) @ b) q = count_list a q + 2 + count_list b q"
    using assms(3) by (simp add: count_notin)
  then have "count_list a q + 2 + count_list b q = 2" unfolding assms(1)[symmetric] count by simp
  then have "count_list a q = 0" by simp
  then have "q \<notin> set a" by (simp add: count_list_0_iff)
  then have "dropWhile (\<lambda>c. c \<noteq> q) (a @ (q # b2 @ [q]) @ b) = q # b2 @ q # b"
    by (subst dropWhile_append2) auto
  moreover have "dropWhile (\<lambda>c. c \<noteq> q) (''W/'' @ q # b1 @ [q]) = q # b1 @ [q]"
    using assms(4,5) by simp
  ultimately have "q # b1 @ [q] = q # b2 @ q # b" using assms(1) by metis
  then have "b1 @ [q] = b2 @ q # b" by simp
  then have "takeWhile (\<lambda>c. c \<noteq> q) (b1 @ [q]) = takeWhile (\<lambda>c. c \<noteq> q) (b2 @ q # b)" by simp
  moreover have "takeWhile (\<lambda>c. c \<noteq> q) (b1 @ [q]) = b1"
    by (subst takeWhile_append2) (use assms(2) in auto)
  moreover have "takeWhile (\<lambda>c. c \<noteq> q) (b2 @ q # b) = b2"
    by (subst takeWhile_append2) (use assms(3) in auto)
  ultimately show ?thesis by simp
qed


lemma GenerateWeakETag_inject:
  "GenerateWeakETag s = GenerateWeakETag t \<longleftrightarrow> etag_body s = etag_body t"
  by (simp add: etag_shape)

lemma etag_found_iff:
  "find_sub (GenerateWeakETag t) (GenerateWeakETag s) \<noteq> None
     \<or> find_sub (drop 2 (GenerateWeakETag t)) (GenerateWeakETag s) \<noteq> None
   \<longleftrightarrow> etag_body s = etag_body t"
proof
  assume "etag_body s = etag_body t"
  then show "find_sub (GenerateWeakETag t) (GenerateWeakETag s) \<noteq> None
     \<or> find_sub (drop 2 (GenerateWeakETag t)) (GenerateWeakETag s) \<noteq> None"
    unfolding find_sub_iff GenerateWeakETag_inject[symmetric] by (metis append_Nil append_Nil2)
next
  assume "find_sub (GenerateWeakETag t) (GenerateWeakETag s) \<noteq> None
     \<or> find_sub (drop 2 (GenerateWeakETag t)) (GenerateWeakETag s) \<noteq> None"
  then obtain a b where "GenerateWeakETag s = a @ drop 2 (GenerateWeakETag t) @ b"
    unfolding find_sub_iff by (metis append_assoc append_take_drop_id)
  then have "''W/'' @ CHR 0x22 # etag_body s @ [CHR 0x22]
      = a @ (CHR 0x22 # etag_body t @ [CHR 0x22]) @ b"
    unfolding etag_shape by simp
  then show "etag_body s = etag_body t"
    by (rule quoted_substring) (simp_all add: etag_body_chars)
qed

lemma GetFileStat_etag: "GetFileStat os = Some s \<Longrightarrow> fs_etag s = GenerateWeakETag s"
  by (auto simp: GetFileStat_def GenerateWeakETag_def Let_def split: if_splits option.splits)

lemma CheckIfNoneMatch_etag:
  assumes "fs_etag t = GenerateWeakETag t" "GetHeader request ''if-none-match'' = GenerateWeakETag s"
  shows "CheckIfNoneMatch request t \<longleftrightarrow> etag_body s = etag_body t"
proof -
  have "GenerateWeakETag s \<noteq> []" "GenerateWeakETag s \<noteq> ''*''" "fs_etag t \<noteq> []"
    "length (GenerateWeakETag t) > 3 \<and> take 2 (GenerateWeakETag t) = ''W/''"
    using assms(1) by (simp_all add: etag_shape etag_body_def)
  then show ?thesis
    using etag_found_iff[of t s] unfolding CheckIfNoneMatch_def Let_def assms by (simp split del: if_split) auto
qed

text \<open>A client that sends back the entity tag it was given, and no date, is answered 304 exactly
  when the file still exists with the same size and a modification time in the same second.\<close>
theorem etag_revalidates:
  assumes "GetFileStat then_probe = Some s"
    and "rq_method request = ''GET''"
    and "GetHeader request ''if-none-match'' = fs_etag s" "GetHeader request ''if-modified-since'' = []"
  shows "fst (ShouldReturn304_path parse_date request now_probe) \<longleftrightarrow>
    (case GetFileStat now_probe of
       None \<Rightarrow> False
     | Some t \<Rightarrow> fs_file_size t = fs_file_size s
         \<and> cast_seconds (fs_last_modified t) = cast_seconds (fs_last_modified s))"
proof (cases "GetFileStat now_probe")
  case (Some t)
  have "CheckIfNoneMatch request t \<longleftrightarrow> etag_body s = etag_body t"
    by (rule CheckIfNoneMatch_etag)
       (use GetFileStat_etag[OF Some] GetFileStat_etag[OF assms(1)] assms(3) in simp_all)
  then show ?thesis using Some assms(2,4)
    by (auto simp: ShouldReturn304_path_def ShouldReturn304_def CheckIfModifiedSince_def etag_body_inject)
qed (simp add: ShouldReturn304_path_def)

text \<open>A date is consulted even when the request carries an entity tag that does not match: a
  client whose copy is of another size is told that it is current when the file is not newer, to the
  second, than the date it sent, although \<open>If-None-Match\<close> is to take precedence.\<close>
theorem stale_copy_confirmed:
  assumes "GetFileStat then_probe = Some s" "GetFileStat now_probe = Some t"
    and "fs_file_size s \<noteq> fs_file_size t"
    and "rq_method request = ''GET''" "GetHeader request ''if-none-match'' = fs_etag s"
    and "GetHeader request ''if-modified-since'' \<noteq> []"
    and "parse_date (GetHeader request ''if-modified-since'') = Some since"
    and "cast_seconds (fs_last_modified t) \<le> cast_seconds since"
  shows "\<not> CheckIfNoneMatch request t
    \<and> ShouldReturn304_path parse_date request now_probe = (True, fs_etag t)"
proof -
  have "CheckIfNoneMatch request t \<longleftrightarrow> etag_body s = etag_body t"
    by (rule CheckIfNoneMatch_etag)
       (use GetFileStat_etag[OF assms(1)] GetFileStat_etag[OF assms(2)] assms(5) in simp_all)
  then have "\<not> CheckIfNoneMatch request t" using assms(3) by (simp add: etag_body_inject)
  then show ?thesis using assms
    by (simp add: ShouldReturn304_path_def ShouldReturn304_def CheckIfModifiedSince_def Let_def)
qed

text \<open>
  Parsing depends on the time zone: \<open>mktime\<close> reads the fields, which are in GMT, as local time. In a
  zone \<open>offset\<close> seconds ahead of GMT, without daylight saving, it is \<open>zone_mktime\<close>.
\<close>

definition zone_mktime :: "(broken_time \<Rightarrow> int) \<Rightarrow> int \<Rightarrow> broken_time \<Rightarrow> int \<times> broken_time" where
  "zone_mktime timegm offset tm = (timegm tm - offset, tm)"

text \<open>A client that sends back, as \<open>If-Modified-Since\<close>, the very time of the last modification
  in the server's own format is answered 304 only on servers whose time zone is not ahead of GMT; on
  servers behind GMT it is also answered 304 when the file has changed since, by up to the offset.\<close>
theorem revalidation_depends_on_time_zone:
  assumes "get_time imf_format (FormatHttpDate (sent * 1000000000)) = Some (gmtime sent)"
    and "timegm (gmtime sent) = sent" and "sent - offset \<noteq> - 1"
    and "rq_method request = ''GET''" "GetHeader request ''if-none-match'' = []"
    and "GetHeader request ''if-modified-since'' = FormatHttpDate (sent * 1000000000)"
    and "GetFileStat os = Some s"
  shows "fst (ShouldReturn304_path (ParseHttpDate get_time (zone_mktime timegm offset)) request os)
    \<longleftrightarrow> cast_seconds (fs_last_modified s) \<le> sent - offset"
proof -
  have "cast_seconds ((x - y) * 1000000000) = x - y" for x y by (auto simp: cast_seconds_def)
  moreover have "FormatHttpDate x \<noteq> []" for x by (simp add: FormatHttpDate_def Let_def)
  ultimately show ?thesis using assms
    by (simp add: ShouldReturn304_path_def ShouldReturn304_def CheckIfModifiedSince_def
        CheckIfNoneMatch_def ParseHttpDate_def zone_mktime_def del: left_diff_distrib_numeral)
qed

lemma gmtime_example:
  "gmtime 784111777 = \<lparr>tm_year = 94, tm_mon = 10, tm_mday = 6, tm_hour = 8, tm_min = 49, tm_sec = 37,
     tm_wday = 0\<rparr>"
  "gmtime 951782400 = \<lparr>tm_year = 100, tm_mon = 1, tm_mday = 29, tm_hour = 0, tm_min = 0, tm_sec = 0,
     tm_wday = 2\<rparr>"
  by (simp_all add: gmtime_def era_date_def year_of_era_def year_days_def march_month_def month_days_def)

lemma digit_chars:
  "digit_char 0 = CHR ''0''" "digit_char (Suc 0) = CHR ''1''" "digit_char 2 = CHR ''2''"
  "digit_char 3 = CHR ''3''" "digit_char 4 = CHR ''4''" "digit_char 5 = CHR ''5''"
  "digit_char 6 = CHR ''6''" "digit_char 7 = CHR ''7''" "digit_char 8 = CHR ''8''"
  "digit_char 9 = CHR ''9''"
  by code_simp+

lemma FormatHttpDate_example:
  "FormatHttpDate (784111777 * 1000000000) = ''Sun, 06 Nov 1994 08:49:37 GMT''"
  by (simp add: FormatHttpDate_def cast_seconds_def gmtime_example day_names_def month_names_def
      two_digits_def dec_int_def dec.simps digit_chars)


definition example_probe :: "nat \<Rightarrow> int \<Rightarrow> stat_probe" where
  "example_probe n seconds =
     \<lparr>sp_exists = True, sp_regular = True, sp_write_time = Some (seconds * 1000000000), sp_size = Some n,
      sp_file_now = 0, sp_system_now = 0\<rparr>"

definition example_request :: "headers \<Rightarrow> http_request" where
  "example_request hs = new_request\<lparr>rq_method := ''GET'', rq_headers := hs\<rparr>"

lemma example_stat:
  "GetFileStat (example_probe n t) =
     Some \<lparr>fs_last_modified = t * 1000000000, fs_file_size = n,
       fs_etag = GenerateWeakETag \<lparr>fs_last_modified = t * 1000000000, fs_file_size = n, fs_etag = []\<rparr>\<rparr>"
  by (simp add: GetFileStat_def example_probe_def Let_def)

lemma etag_example: "GenerateWeakETag \<lparr>fs_last_modified = 5 * 1000000000, fs_file_size = 12, fs_etag = []\<rparr>
    = [CHR ''W'', CHR ''/'', CHR 0x22, CHR ''1'', CHR ''2'', CHR ''-'', CHR ''5'', CHR 0x22]"
  by (simp add: GenerateWeakETag_def cast_seconds_def dec_int_def dec.simps digit_chars)

lemma etag_example_stat: "GetFileStat (example_probe 12 5) = Some
    \<lparr>fs_last_modified = 5 * 1000000000, fs_file_size = 12,
     fs_etag = [CHR ''W'', CHR ''/'', CHR 0x22, CHR ''1'', CHR ''2'', CHR ''-'', CHR ''5'', CHR 0x22]\<rparr>"
  unfolding example_stat etag_example by simp

theorem etag_revalidates_witness:
  "\<not> fst (ShouldReturn304_path (\<lambda>_. None)
      (example_request [(''if-none-match'', [CHR ''W'', CHR ''/'', CHR 0x22, CHR ''1'', CHR ''2'', CHR ''-'', CHR ''5'', CHR 0x22])])
      (example_probe 12 6))"
  by (subst etag_revalidates[OF etag_example_stat])
     (simp_all add: example_request_def GetHeader_def example_stat cast_seconds_def)

theorem stale_copy_confirmed_witness:
  "fst (ShouldReturn304_path (\<lambda>_. Some (7 * 1000000000))
      (example_request [(''if-none-match'', [CHR ''W'', CHR ''/'', CHR 0x22, CHR ''1'', CHR ''2'', CHR ''-'', CHR ''5'', CHR 0x22]),
         (''if-modified-since'', ''Thu, 01 Jan 1970 00:00:07 GMT'')])
      (example_probe 13 6))"
  using stale_copy_confirmed[OF etag_example_stat example_stat[of 13 6],
      where request = "example_request [(''if-none-match'', [CHR ''W'', CHR ''/'', CHR 0x22, CHR ''1'', CHR ''2'', CHR ''-'', CHR ''5'', CHR 0x22]),
         (''if-modified-since'', ''Thu, 01 Jan 1970 00:00:07 GMT'')]"
      and parse_date = "\<lambda>_. Some (7 * 1000000000)" and since = "7 * 1000000000"]
  by (simp add: example_request_def GetHeader_def cast_seconds_def)

theorem revalidation_depends_on_time_zone_witness:
  "\<not> fst (ShouldReturn304_path
      (ParseHttpDate (\<lambda>_ _. Some (gmtime 784111777)) (zone_mktime (\<lambda>_. 784111777) 28800))
      (example_request [(''if-modified-since'', FormatHttpDate (784111777 * 1000000000))])
      (example_probe 12 784111777))"
  using revalidation_depends_on_time_zone[where sent = 784111777 and offset = 28800
      and get_time = "\<lambda>_ _. Some (gmtime 784111777)" and timegm = "\<lambda>_. 784111777"
      and os = "example_probe 12 784111777"
      and request = "example_request [(''if-modified-since'', FormatHttpDate (784111777 * 1000000000))]"]
  by (simp add: example_request_def GetHeader_def cast_seconds_def example_stat)

end
