(* ===== verification/HttpResponse.thy ===== *)
theory HttpResponse
  imports ConditionalRequest StaticCache
begin

text \<open>
  Responses (include/http_response.h, src/http_response.cpp): the status, the header text, and the
  body, which is a file of the static cache or a built error page.

  What the file system answers is a parameter: whether a path is an existing regular file when
  \<open>MakeResponse\<close> looks, what loading it gives, the state \<open>Init\<close> sees for conditional requests, and
  the time of the \<open>Date\<close> header. The cache is passed along; a \<open>None\<close> of its operations (undefined
  behaviour) is passed on. The tables of the source are functions.
\<close>

subsection \<open>Tables\<close>

definition SUFFIX_TYPE :: "(string \<times> string) list" where
  "SUFFIX_TYPE =
     [(''.html'', ''text/html''), (''.xml'', ''text/xml''), (''.xhtml'', ''application/xhtml+xml''),
      (''.txt'', ''text/plain''), (''.rtf'', ''application/rtf''), (''.pdf'', ''application/pdf''),
      (''.word'', ''application/msword''), (''.png'', ''image/png''), (''.gif'', ''image/gif''),
      (''.jpg'', ''image/jpeg''), (''.jpeg'', ''image/jpeg''), (''.au'', ''audio/basic''),
      (''.mpeg'', ''video/mpeg''), (''.mpg'', ''video/mpeg''), (''.avi'', ''video/x-msvideo''),
      (''.gz'', ''application/x-gzip''), (''.tar'', ''application/x-tar''), (''.css'', ''text/css''),
      (''.js'', ''text/javascript'')]"

definition CODE_STATUS :: "(int \<times> string) list" where
  "CODE_STATUS = [(200, ''OK''), (400, ''Bad Request''), (403, ''Forbidden''), (404, ''Not Found'')]"

definition CODE_PATH :: "(int \<times> string) list" where
  "CODE_PATH = [(400, ''/400.html''), (403, ''/403.html''), (404, ''/404.html'')]"

definition status_text :: "int \<Rightarrow> string" where
  "status_text code = (case map_of CODE_STATUS code of Some s \<Rightarrow> s | None \<Rightarrow> ''Unknown'')"

subsection \<open>The response\<close>

record http_response =
  rs_code :: int
  rs_keep_alive :: bool
  rs_path :: string
  rs_src_dir :: string
  rs_status_line :: string
  rs_header_string :: string
  rs_headers :: "string \<rightharpoonup> string"
  rs_body_string :: string
  rs_file_body :: "static_resource option"

definition new_response :: http_response where
  "new_response = \<lparr>rs_code = - 1, rs_keep_alive = False, rs_path = [], rs_src_dir = [],
     rs_status_line = [], rs_header_string = [], rs_headers = Map.empty, rs_body_string = [],
     rs_file_body = None\<rparr>"

record response_os =
  ro_stat :: "string \<Rightarrow> stat_probe"
  ro_regular :: "string \<Rightarrow> bool"
  ro_file :: "string \<Rightarrow> file_probe"
  ro_now :: int
  ro_parse_date :: "string \<Rightarrow> int option"

definition response_Init ::
  "response_os \<Rightarrow> string \<Rightarrow> string \<Rightarrow> bool \<Rightarrow> int \<Rightarrow> http_request option \<Rightarrow> http_response \<Rightarrow> http_response" where
  "response_Init os src_dir path keep_alive code request r =
     (let r = r\<lparr>rs_code := code, rs_keep_alive := keep_alive, rs_path := path, rs_src_dir := src_dir,
                rs_file_body := None, rs_body_string := [], rs_status_line := [],
                rs_headers := Map.empty\<rparr>
      in case request of
           None \<Rightarrow> r
         | Some q \<Rightarrow>
             if code = - 1 \<and> (rq_method q = ''GET'' \<or> rq_method q = ''HEAD'')
             then let (should_return_304, etag) =
                    ShouldReturn304_path (ro_parse_date os) q (ro_stat os (src_dir @ path))
                  in if should_return_304
                     then let r = r\<lparr>rs_code := 304\<rparr>
                          in if etag \<noteq> [] then r\<lparr>rs_headers := (rs_headers r)(''ETag'' \<mapsto> etag)\<rparr> else r
                     else r
             else r)"

definition GetBodyLen :: "http_response \<Rightarrow> nat" where
  "GetBodyLen r =
     (case rs_file_body r of Some f \<Rightarrow> sr_size f | None \<Rightarrow> length (rs_body_string r))"

definition ErrorHtml :: "http_response \<Rightarrow> http_response" where
  "ErrorHtml r =
     (if rs_body_string r = []
      then r\<lparr>rs_body_string := ''<html><title>Error</title>''
               @ ''<body bgcolor='' @ [CHR 0x22] @ ''ffffff'' @ [CHR 0x22] @ ''>''
               @ dec_int (rs_code r) @ '' : '' @ status_text (rs_code r)
               @ ''<hr><em>TinyWebServer</em></body></html>''\<rparr>
      else r)"

text \<open>The suffix from the last dot on, \<open>None\<close> without one.\<close>

fun last_suffix :: "string \<Rightarrow> string option" where
  "last_suffix [] = None"
| "last_suffix (c # cs) =
     (case last_suffix cs of
        Some s \<Rightarrow> Some s
      | None \<Rightarrow> if c = CHR ''.'' then Some (c # cs) else None)"

definition GetFileType :: "http_response \<Rightarrow> string" where
  "GetFileType r =
     (case last_suffix (rs_path r) of
        None \<Rightarrow> ''text/plain''
      | Some suffix \<Rightarrow>
          (case map_of SUFFIX_TYPE suffix of Some t \<Rightarrow> t | None \<Rightarrow> ''text/plain''))"

definition AddStateLine :: "http_response \<Rightarrow> http_response" where
  "AddStateLine r =
     r\<lparr>rs_status_line := ''HTTP/1.1 '' @ dec_int (rs_code r) @ '' '' @ status_text (rs_code r) @ [CR, LF]\<rparr>"

definition connection_line :: "http_response \<Rightarrow> string" where
  "connection_line r =
     (if rs_keep_alive r then ''Connection: keep-alive'' @ [CR, LF] else ''Connection: close'' @ [CR, LF])"

definition AddHeader :: "response_os \<Rightarrow> http_response \<Rightarrow> http_response" where
  "AddHeader os r =
     (let h = rs_status_line r
      in if rs_code r = 304
         then let h = h @ ''Date: '' @ FormatHttpDate (ro_now os) @ [CR, LF];
                  h = (case rs_headers r ''ETag'' of
                         Some etag \<Rightarrow> h @ ''ETag: '' @ etag @ [CR, LF]
                       | None \<Rightarrow> h)
              in r\<lparr>rs_header_string := h @ connection_line r @ [CR, LF]\<rparr>
         else r\<lparr>rs_header_string :=
                  h @ ''Content-Type: '' @ GetFileType r @ [CR, LF]
                  @ ''Content-Length: '' @ dec (GetBodyLen r) @ [CR, LF]
                  @ connection_line r @ [CR, LF]\<rparr>)"

definition AddContent :: "http_response \<Rightarrow> http_response" where
  "AddContent r = r\<lparr>rs_headers := (rs_headers r)(''Content-length'' \<mapsto> dec (GetBodyLen r))\<rparr>"

text \<open>Steps 2 to 4 of \<open>MakeResponse\<close>: the status, the path of an error page, and the file.\<close>

definition choose_code :: "response_os \<Rightarrow> http_response \<Rightarrow> http_response" where
  "choose_code os r =
     (if rs_code r = - 1
      then r\<lparr>rs_code := (if ro_regular os (rs_src_dir r @ rs_path r) then 200 else 404)\<rparr>
      else r)"

definition load_body ::
  "response_os \<Rightarrow> http_response \<Rightarrow> resource_cache \<Rightarrow> (http_response \<times> resource_cache) option" where
  "load_body os r c =
     (let r = (case map_of CODE_PATH (rs_code r) of Some p \<Rightarrow> r\<lparr>rs_path := p\<rparr> | None \<Rightarrow> r);
          full_path = rs_src_dir r @ rs_path r
      in if rs_code r = 200
         then (case GetResource (ro_file os full_path) full_path c of
                 None \<Rightarrow> None
               | Some (Some f, c) \<Rightarrow> Some (r\<lparr>rs_file_body := Some f\<rparr>, c)
               | Some (None, c) \<Rightarrow> Some (ErrorHtml (r\<lparr>rs_file_body := None, rs_code := 404\<rparr>), c))
         else if rs_code r \<noteq> 304 then Some (ErrorHtml r, c)
         else Some (r, c))"

definition MakeResponse ::
  "response_os \<Rightarrow> http_response \<Rightarrow> resource_cache \<Rightarrow> (http_response \<times> resource_cache) option" where
  "MakeResponse os r c =
     map_option (\<lambda>(r, c). (AddContent (AddHeader os (AddStateLine r)), c))
       (load_body os (choose_code os r) c)"

definition GetStatInfo :: "http_response \<Rightarrow> string" where
  "GetStatInfo r =
     ''[Response] Code:'' @ dec_int (rs_code r) @ '' Size:'' @ dec (GetBodyLen r) @ '' Mode:''
     @ (if rs_file_body r \<noteq> None then ''Zero-Copy(mmap)'' else ''Internal-Buffer'')"

subsection \<open>What is in a response\<close>

text \<open>The bytes of the body: those of the file, or the built page.\<close>

definition body_bytes :: "http_response \<Rightarrow> bytes" where
  "body_bytes r =
     (case rs_file_body r of Some f \<Rightarrow> sr_addr f | None \<Rightarrow> bytes_of (rs_body_string r))"

lemma map_of_mem: "map_of xs k = Some v \<Longrightarrow> v \<in> snd ` set xs"
  by (metis image_iff map_of_SomeD snd_conv)

lemma status_text_cases:
  "status_text code \<in> {''OK'', ''Bad Request'', ''Forbidden'', ''Not Found'', ''Unknown''}"
  by (auto simp: status_text_def CODE_STATUS_def)

lemma GetFileType_cases:
  "GetFileType r \<in> insert ''text/plain'' (snd ` set SUFFIX_TYPE)"
  by (auto simp: GetFileType_def split: option.split dest: map_of_mem)

lemma GetFileType_field: "field_ok (''Content-Type'', GetFileType r)"
proof -
  have "\<forall>t \<in> insert ''text/plain'' (snd ` set SUFFIX_TYPE).
      CR \<notin> set t \<and> LF \<notin> set t \<and> trim t = t"
    by (simp add: SUFFIX_TYPE_def trim_def blank_def)
  then show ?thesis using GetFileType_cases[of r] by (auto simp: field_ok_def trim_def blank_def)
qed

lemma trim_dec: "trim (dec n) = dec n"
proof -
  have digit: "isdigit c \<Longrightarrow> \<not> blank c" for c by (auto simp: isdigit_def blank_def)
  have "dropWhile blank (dec n) = dec n"
    by (rule dropWhile_eq_self_iff[THEN iffD2]) (use dec_digits[of _ n] digit in \<open>auto simp: hd_in_set\<close>)
  moreover have "dropWhile blank (rev (dec n)) = rev (dec n)"
    by (rule dropWhile_eq_self_iff[THEN iffD2])
       (use dec_digits[of _ n] digit in \<open>auto simp: hd_rev last_in_set\<close>)
  ultimately show ?thesis by (simp add: trim_def)
qed

lemma length_field: "field_ok (''Content-Length'', dec n)"
  using dec_chars[of _ n] by (auto simp: field_ok_def trim_dec) (simp_all add: trim_def blank_def)

lemma connection_field: "field_ok (''Connection'', if b then ''keep-alive'' else ''close'')"
  by (simp add: field_ok_def trim_def blank_def)

definition response_fields :: "http_response \<Rightarrow> headers" where
  "response_fields r =
     [(''Content-Type'', GetFileType r), (''Content-Length'', dec (GetBodyLen r)),
      (''Connection'', if rs_keep_alive r then ''keep-alive'' else ''close'')]"

lemma status_line_irrelevant [simp]:
  "GetBodyLen (r\<lparr>rs_status_line := s\<rparr>) = GetBodyLen r"
  "GetFileType (r\<lparr>rs_status_line := s\<rparr>) = GetFileType r"
  by (simp_all add: GetBodyLen_def GetFileType_def split: option.split)

lemma header_string_block:
  "rs_code r \<noteq> 304 \<Longrightarrow>
   rs_header_string (AddHeader os (AddStateLine r)) @ rest =
     (''HTTP/1.1 '' @ dec_int (rs_code r) @ '' '' @ status_text (rs_code r))
     @ block_tail (map header_line (response_fields r)) @ [CR, LF, CR, LF] @ rest"
  by (simp add: AddHeader_def AddStateLine_def connection_line_def Let_def
      block_tail_def header_line_def response_fields_def)

lemma dec_int_token: "token (dec_int n)"
proof -
  have "isdigit c \<Longrightarrow> \<not> isspace c" for c by (auto simp: isdigit_def isspace_def)
  then have "\<not> isspace c" if "c \<in> set (dec m)" for c m using that dec_digits by blast
  moreover have "\<not> isspace CHR ''-''" by (simp add: isspace_def)
  ultimately show ?thesis by (auto simp: token_def dec_int_def)
qed


text \<open>The words of a status line.\<close>

lemma status_line_words:
  "\<exists>w. ParseRequestLine q (''HTTP/1.1 '' @ dec_int code @ '' '' @ status_text code)
     = (True, q\<lparr>rq_method := ''HTTP/1.1'', rq_path := dec_int code, rq_version := w\<rparr>)"
proof -
  have e: "extract3 (''HTTP/1.1 '' @ dec_int code @ '' '' @ w @ rest) v = (True, ''HTTP/1.1'', dec_int code, w)"
    if "token w" "rest = [] \<or> isspace (hd rest)" for w rest v
  proof -
    have "next_word (''HTTP/1.1'' @ '' '' @ dec_int code @ '' '' @ w @ rest)
        = Some (''HTTP/1.1'', '' '' @ dec_int code @ '' '' @ w @ rest)"
      by (rule next_word_token) (simp_all add: token_def isspace_def)
    moreover have "next_word (CHR '' '' # dec_int code @ ('' '' @ w @ rest)) = Some (dec_int code, '' '' @ w @ rest)"
      by (rule next_word_token) (simp_all add: dec_int_token)
    moreover have "next_word (CHR '' '' # w @ rest) = Some (w, rest)"
      by (rule next_word_token) (use that in simp_all)
    ultimately show ?thesis by (cases v) (simp add: extract3_def)
  qed
  define P where "P s \<longleftrightarrow> (\<exists>w rest. s = w @ rest \<and> token w \<and> (rest = [] \<or> isspace (hd rest)))"
    for s :: string
  have one: "P w" if "token w" for w using that unfolding P_def by (metis append_Nil2)
  have two: "P (w @ '' '' @ v)" if "token w" for w v
    using that unfolding P_def by (metis append_Cons isspace_blank list.sel(1))
  have "P ''OK''" "P ''Forbidden''" "P ''Unknown''" by (rule one; simp add: token_def isspace_def)+
  moreover have "P ''Bad Request''" "P ''Not Found''"
    using two[of "''Bad''" "''Request''"] two[of "''Not''" "''Found''"] by (simp_all add: token_def isspace_def)
  ultimately have "\<forall>s \<in> {''OK'', ''Bad Request'', ''Forbidden'', ''Not Found'', ''Unknown''}. P s" by simp
  then have "P (status_text code)" using status_text_cases by (rule bspec)
  then obtain w rest where w: "status_text code = w @ rest" "token w" "rest = [] \<or> isspace (hd rest)"
    unfolding P_def by blast
  have "dec_int code \<noteq> [] \<and> dec_int code \<noteq> ''/''"
    using dec_int_token[of code] dec_digits[of "CHR ''/''" "nat code"]
    by (auto simp: token_def dec_int_def isdigit_def)
  then show ?thesis using e[OF w(2,3)] w(1) by (auto simp: ParseRequestLine_def Let_def)
qed

lemma status_line_plain: "plain_line (''HTTP/1.1 '' @ dec_int code @ '' '' @ status_text code)"
  using dec_int_chars[of _ code] status_text_cases[of code] by (auto simp: plain_line_def)

lemma response_fields_ok: "\<forall>kv \<in> set (response_fields r). field_ok kv"
  using GetFileType_field length_field connection_field by (simp add: response_fields_def)

lemma load_body_code: "load_body os r c = Some (r', c') \<Longrightarrow> rs_code r \<noteq> 304 \<Longrightarrow> rs_code r' \<noteq> 304"
  by (auto simp: load_body_def ErrorHtml_def Let_def split: if_splits option.splits)

lemma AddContent_fields [simp]:
  "rs_header_string (AddContent r) = rs_header_string r" "GetBodyLen (AddContent r) = GetBodyLen r"
  "rs_code (AddContent r) = rs_code r" "rs_body_string (AddContent r) = rs_body_string r"
  "rs_file_body (AddContent r) = rs_file_body r" "rs_keep_alive (AddContent r) = rs_keep_alive r"
  by (simp_all add: AddContent_def GetBodyLen_def split: option.split)

lemma AddHeader_fields [simp]:
  "GetBodyLen (AddHeader os r) = GetBodyLen r" "rs_keep_alive (AddHeader os r) = rs_keep_alive r"
  "rs_code (AddHeader os r) = rs_code r" "rs_body_string (AddHeader os r) = rs_body_string r"
  "rs_file_body (AddHeader os r) = rs_file_body r" 
  by (simp_all add: AddHeader_def GetBodyLen_def Let_def split: option.split)

lemma AddStateLine_fields [simp]:
  "GetBodyLen (AddStateLine r) = GetBodyLen r" "rs_code (AddStateLine r) = rs_code r"
  "rs_body_string (AddStateLine r) = rs_body_string r" "rs_file_body (AddStateLine r) = rs_file_body r"
  "rs_keep_alive (AddStateLine r) = rs_keep_alive r"
  by (simp_all add: AddStateLine_def GetBodyLen_def split: option.split)


text \<open>The file a request for a path is answered with: the cached one, or else what loading gives.\<close>

definition served_file :: "response_os \<Rightarrow> resource_cache \<Rightarrow> string \<Rightarrow> static_resource option" where
  "served_file os c path =
     (case map_of (snd (recency_of c)) path of None \<Rightarrow> Load (ro_file os path) path | Some f \<Rightarrow> Some f)"

lemma GetResource_served:
  assumes "cache_ok c"
  obtains c' where "GetResource (ro_file os path) path c = Some (served_file os c path, c')" "cache_ok c'"
    "snd (recency_of c') =
      (case map_of (snd (recency_of c)) path of
         None \<Rightarrow> load_spec (ro_file os path) (rc_max c) path (snd (recency_of c))
       | Some r \<Rightarrow> promote path (snd (recency_of c)))"
  using GetResource_answer[OF assms, of "ro_file os path" path] unfolding served_file_def by blast

lemma body_of_code [simp]:
  "rs_body_string (choose_code os r) = rs_body_string r" "rs_src_dir (choose_code os r) = rs_src_dir r"
  "rs_path (choose_code os r) = rs_path r" "rs_file_body (choose_code os r) = rs_file_body r"
  "rs_keep_alive (choose_code os r) = rs_keep_alive r"
  by (simp_all add: choose_code_def)

lemma ErrorHtml_fields [simp]:
  "rs_code (ErrorHtml r) = rs_code r" "rs_file_body (ErrorHtml r) = rs_file_body r"
  "rs_body_string (ErrorHtml r) \<noteq> []" "rs_keep_alive (ErrorHtml r) = rs_keep_alive r"
  by (simp_all add: ErrorHtml_def)

text \<open>\<open>MakeResponse\<close> on a response without a body, with a forced code or none.\<close>

lemma MakeResponse_cases:
  fixes os :: response_os and r :: http_response
  assumes ok: "cache_ok c" and r: "rs_file_body r = None" "rs_body_string r = []"
  defines "path \<equiv> rs_src_dir r @ rs_path r"
  defines "code \<equiv> (if rs_code r = - 1 then if ro_regular os path then 200 else 404 else rs_code r)"
  obtains (served) f r' c' where "code = 200" "served_file os c path = Some f"
      "GetResource (ro_file os path) path c = Some (Some f, c')" "cache_ok c'"
      "MakeResponse os r c = Some (r', c')" "rs_code r' = 200" "rs_file_body r' = Some f"
      "rs_body_string r' = []" "rs_keep_alive r' = rs_keep_alive r"
    | (lost) r' c' where "code = 200" "served_file os c path = None"
      "GetResource (ro_file os path) path c = Some (None, c')" "cache_ok c'"
      "MakeResponse os r c = Some (r', c')" "rs_code r' = 404" "rs_file_body r' = None"
      "rs_body_string r' \<noteq> []" "rs_keep_alive r' = rs_keep_alive r"
    | (plain) r' where "code \<noteq> 200" "MakeResponse os r c = Some (r', c)" "rs_code r' = code"
      "rs_file_body r' = None" "rs_body_string r' = [] \<longleftrightarrow> code = 304"
      "rs_keep_alive r' = rs_keep_alive r"
proof -
  have code: "rs_code (choose_code os r) = code" by (simp add: choose_code_def code_def path_def)
  obtain c' where g: "GetResource (ro_file os path) path c = Some (served_file os c path, c')" "cache_ok c'"
    by (rule GetResource_served[OF ok])
  show ?thesis
  proof (cases "code = 200")
    case True
    then have "map_of CODE_PATH (rs_code (choose_code os r)) = None" by (simp add: code CODE_PATH_def)
    then show ?thesis using g True code r
      by (cases "served_file os c path")
         (auto simp: MakeResponse_def load_body_def Let_def path_def intro: served lost)
  next
    case False
    then show ?thesis using code r
      by (cases "map_of CODE_PATH code"; cases "code = 304")
         (auto simp: MakeResponse_def load_body_def Let_def intro!: plain)
  qed
qed

lemma response_Init_fields [simp]:
  "rs_file_body (response_Init os src path keep code q r) = None"
  "rs_body_string (response_Init os src path keep code q r) = []"
  "rs_src_dir (response_Init os src path keep code q r) = src"
  "rs_path (response_Init os src path keep code q r) = path"
  "rs_keep_alive (response_Init os src path keep code q r) = keep"
  by (auto simp: response_Init_def Let_def split: option.split prod.split)

lemma response_Init_code:
  "rs_code (response_Init os src path keep code (Some q) r) =
     (if code = - 1 \<and> rq_method q \<in> {''GET'', ''HEAD''}
         \<and> fst (ShouldReturn304_path (ro_parse_date os) q (ro_stat os (src @ path)))
      then 304 else code)"
  by (auto simp: response_Init_def Let_def split: prod.split)

lemma response_field_map:
  "fold set_header (response_fields r) [] =
     [(''content-type'', GetFileType r), (''content-length'', dec (GetBodyLen r)),
      (''connection'', if rs_keep_alive r then ''keep-alive'' else ''close'')]"
proof -
  have names: "map tolower ''Content-Type'' = ''content-type''" "map tolower ''Content-Length'' = ''content-length''"
    "map tolower ''Connection'' = ''connection''" by code_simp+
  show ?thesis
    unfolding response_fields_def fold.simps comp_def id_def set_header_def fst_conv snd_conv names by simp
qed

subsection \<open>Properties\<close>

text \<open>C24: What is sent for any response but 304 can be read back, whatever follows it: the header text
  ends at the first empty line, its status line holds the code, and its fields give the type, the
  connection's fate, and as length exactly that of the body.\<close>
theorem response_is_framed:
  assumes "MakeResponse os r c = Some (r', c')" and "rs_code r' \<noteq> 304"
  shows "\<exists>q. request_Parse new_request (rs_header_string r' @ rest) = (True, q)
    \<and> find_sub [CR, LF, CR, LF] (rs_header_string r' @ rest) = Some (length (rs_header_string r') - 4)
    \<and> rq_path q = dec_int (rs_code r')
    \<and> GetHeader q ''content-length'' = dec (GetBodyLen r')
    \<and> GetHeader q ''content-type'' = GetFileType r'
    \<and> GetHeader q ''connection'' = (if rs_keep_alive r' then ''keep-alive'' else ''close'')"
proof -
  obtain r0 where r0: "r' = AddContent (AddHeader os (AddStateLine r0))" "rs_code r0 \<noteq> 304"
    using assms by (auto simp: MakeResponse_def)
  let ?l0 = "''HTTP/1.1 '' @ dec_int (rs_code r0) @ '' '' @ status_text (rs_code r0)"
  have block: "rs_header_string r' @ s =
      ?l0 @ block_tail (map header_line (response_fields r0)) @ [CR, LF, CR, LF] @ s" for s
    using header_string_block[OF r0(2), of os s] by (simp only: r0(1) AddContent_fields)
  obtain w where w: "ParseRequestLine new_request ?l0
      = (True, new_request\<lparr>rq_method := ''HTTP/1.1'', rq_path := dec_int (rs_code r0), rq_version := w\<rparr>)"
    using status_line_words by blast
  have type: "GetFileType r' = GetFileType r0"
    by (simp add: r0(1) AddContent_def AddHeader_def AddStateLine_def GetFileType_def Let_def split: option.split)
  have "length (rs_header_string r') = length (?l0 @ block_tail (map header_line (response_fields r0))) + 4"
    using arg_cong[OF block[of "[]"], of length] by simp
  then have "find_sub [CR, LF, CR, LF] (rs_header_string r' @ rest) = Some (length (rs_header_string r') - 4)"
    using find_header_end[OF status_line_plain, of "map header_line (response_fields r0)" "rs_code r0" rest]
      response_fields_ok plain_header_line unfolding block by simp
  moreover have "request_Parse new_request (rs_header_string r' @ rest)
      = (True, new_request\<lparr>rq_method := ''HTTP/1.1'', rq_path := dec_int (rs_code r0), rq_version := w,
          rq_headers := fold set_header (response_fields r0) [], rq_finished := True\<rparr>)"
    unfolding block using request_Parse_block[OF status_line_plain response_fields_ok w]
    by (simp add: new_request_def)
  ultimately show ?thesis
    unfolding type response_field_map by (simp add: r0(1) GetHeader_def)
qed


definition example_os :: response_os where
  "example_os = \<lparr>ro_stat = (\<lambda>_. example_probe 2 5), ro_regular = (\<lambda>p. p = ''d/a.js''),
     ro_file = (\<lambda>_. \<lparr>fp_opens = True, fp_stat = Some 2, fp_mmap = Some [7, 8]\<rparr>), ro_now = 0,
     ro_parse_date = (\<lambda>_. None)\<rparr>"


theorem response_is_framed_witness:
  "\<exists>r' q. MakeResponse example_os (response_Init example_os ''d'' [] False 400 None new_response) new_cache
       = Some (r', new_cache)
     \<and> request_Parse new_request (rs_header_string r' @ rs_body_string r') = (True, q)
     \<and> GetHeader q ''connection'' = ''close''"
proof -
  let ?r = "response_Init example_os ''d'' [] False 400 None new_response"
  have code: "rs_code ?r = 400" by (simp add: response_Init_def)
  have "\<exists>r'. MakeResponse example_os ?r new_cache = Some (r', new_cache) \<and> rs_code r' = 400 \<and> \<not> rs_keep_alive r'"
    using cache_ok_new response_Init_fields(1,2)[of example_os "''d''" "[]" False 400 None new_response]
    by (cases rule: MakeResponse_cases[where os = example_os]) (auto simp: code)
  then obtain r' where "MakeResponse example_os ?r new_cache = Some (r', new_cache)" "rs_code r' = 400"
    "\<not> rs_keep_alive r'" by blast
  then show ?thesis using response_is_framed[of example_os ?r new_cache r' new_cache "rs_body_string r'"] by auto
qed

end
