(* ===== verification/MessageHandler.thy ===== *)
theory MessageHandler
  imports HttpResponse RequestValidator ConnectionRuns
begin

text \<open>
  The message callback of the server (src/main.cpp): it parses the requests in the input buffer of
  a connection one after the other, validates them, builds the responses and sends them. It runs in
  the loop thread of the connection.

  Its state is the connection, its request parser and the static cache. What the file system
  answers and what the clock shows may differ from one request to the next: \<open>os k\<close> and \<open>now k\<close> are
  the answers while request \<open>k\<close> of the call is served. Plugins are left out here; the theory \<open>Plugins\<close>
  has the callback with them.
\<close>

record site =
  ms_conn :: conn_world
  ms_parser :: http_request
  ms_cache :: resource_cache

abbreviation header_mark :: string where "header_mark \<equiv> [CR, LF, CR, LF]"

fun error_status :: "web_error \<Rightarrow> int" where
  "error_status kInvalidPath = 403"
| "error_status kRequestTooLarge = 413"
| "error_status kUnsupportedMethod = 405"
| "error_status _ = 400"

definition request_validator_for :: "string \<Rightarrow> request_validator" where
  "request_validator_for static_root = new_validator static_root (64 * 1024) (8 * 1024)"

definition make_reply ::
  "response_os \<Rightarrow> string \<Rightarrow> http_request \<Rightarrow> resource_cache \<Rightarrow> (http_response \<times> resource_cache) option" where
  "make_reply os static_root parser c =
     (let validation_result = ValidateRequest (request_validator_for static_root) parser
      in if \<not> vr_valid validation_result
         then MakeResponse os
                (response_Init os static_root [] (IsKeepAlive parser)
                   (error_status (err_code (vr_error validation_result))) (Some parser) new_response) c
         else let p = vr_normalized_path validation_result;
                  normalized_path = (if p \<noteq> [] \<and> hd p \<noteq> CHR ''/'' then CHR ''/'' # p else p)
              in MakeResponse os
                   (response_Init os static_root normalized_path (IsKeepAlive parser) (- 1) (Some parser)
                      new_response) c)"

definition send_reply :: "http_response \<Rightarrow> conn_world \<Rightarrow> conn_world option" where
  "send_reply r w =
     (case Send True (bytes_of (rs_header_string r)) w of
        None \<Rightarrow> None
      | Some w \<Rightarrow>
          (case rs_file_body r of
             Some f \<Rightarrow> Send_resource True (Some f) w
           | None \<Rightarrow> Send True (bytes_of (rs_body_string r)) w))"

text \<open>One round of the loop, the end of the header at \<open>header_end\<close>: whether to go on, and the state.\<close>

definition serve_one ::
  "response_os \<Rightarrow> int \<Rightarrow> string \<Rightarrow> int \<Rightarrow> nat \<Rightarrow> site \<Rightarrow> (bool \<times> site) option" where
  "serve_one os now static_root keep_alive_timeout header_end s =
     (case request_Parse (ms_parser s) (chars_of (c_input (ms_conn s))) of
        (False, parser) \<Rightarrow>
          map_option (\<lambda>w. (False, s\<lparr>ms_conn := w, ms_parser := parser\<rparr>))
            (Shutdown True ((ms_conn s)\<lparr>c_input := []\<rparr>))
      | (True, parser) \<Rightarrow>
          (let w = conn_OnRequestStart now (IsKeepAlive parser) keep_alive_timeout (ms_conn s)
           in case make_reply os static_root parser (ms_cache s) of
                None \<Rightarrow> None
              | Some (response, c) \<Rightarrow>
                  (case send_reply response w of
                     None \<Rightarrow> None
                   | Some w \<Rightarrow>
                       let w = w\<lparr>c_input := drop (header_end + 4) (c_input w)\<rparr>;
                           w = conn_OnRequestComplete now w;
                           s = s\<lparr>ms_parser := request_Reset parser, ms_cache := c\<rparr>
                       in if rs_code response \<ge> 400
                          then map_option (\<lambda>w. (False, s\<lparr>ms_conn := w\<rparr>)) (Shutdown True w)
                          else Some (True, s\<lparr>ms_conn := w\<rparr>))))"

subsection \<open>The callback ends\<close>

text \<open>Nothing a response does to the connection touches the input buffer.\<close>

lemma c_input_loop [simp]:
  "c_input (QueueInLoop b f w) = c_input w" "c_input (update_event b ev w) = c_input w"
  "c_input (RemoveEvent fd w) = c_input w" "c_input (set_active k b w) = c_input w"
  by (cases k; simp add: world_ops split: option.split)+

lemma c_input_timer:
  "loop_AddTimer b fd n c w = Some (e, w') \<Longrightarrow> c_input w' = c_input w"
  "loop_RemoveTimer b fd w = Some (e, w') \<Longrightarrow> c_input w' = c_input w"
  by (auto simp: loop_AddTimer_def loop_RemoveTimer_def split: if_splits)

lemma c_input_timeouts:
  "SetupTimeout b n k w = Some w' \<Longrightarrow> c_input w' = c_input w"
  "CancelTimeout b k w = Some w' \<Longrightarrow> c_input w' = c_input w"
  unfolding SetupTimeout_def CancelTimeout_def
  by (auto split: if_split_asm option.split_asm dest!: c_input_timer)

lemma c_input_checks: "CheckAndSetTimeouts b w = Some w' \<Longrightarrow> c_input w' = c_input w"
  by (auto simp: CheckAndSetTimeouts_def Let_def split: if_splits option.splits dest!: c_input_timeouts)

lemma c_input_activity: "UpdateActivityTimestamp b w = Some w' \<Longrightarrow> c_input w' = c_input w"
  by (auto simp: UpdateActivityTimestamp_def split: if_splits dest!: c_input_timeouts)

lemma c_input_finish [simp]: "c_input (finish_close w) = c_input w"
  by (simp add: finish_close_def Let_def)

lemma c_input_close: "HandleClose w = Some w' \<Longrightarrow> c_input w' = c_input w"
  unfolding HandleClose_def Transition_with_def by (auto simp: any_to_closed dest!: c_input_checks)

lemma c_input_transition: "Transition b k w = Some w' \<Longrightarrow> c_input w' = c_input w"
  unfolding Transition_def Transition_with_def RunInLoop_def
  by (auto split: if_split_asm dest!: c_input_checks c_input_close)

lemma c_input_write: "HandleWrite w = Some w' \<Longrightarrow> c_input w' = c_input w"
  by (auto simp: HandleWrite_def HandleError_def ShutdownInLoop_def Let_def
      split: if_splits option.splits write_answer.splits list.splits
      dest!: c_input_close c_input_activity)

lemma c_input_send: "Send b bs w = Some w' \<Longrightarrow> c_input w' = c_input w"
  by (auto simp: Send_def SendInLoop_def split: if_splits dest!: c_input_close c_input_write)

lemma c_input_resource: "Send_resource b r w = Some w' \<Longrightarrow> c_input w' = c_input w"
  by (auto simp: Send_resource_def SendResourceInLoop_def split: if_splits option.splits
      dest!: c_input_close c_input_write)

lemma c_input_reply: "send_reply r w = Some w' \<Longrightarrow> c_input w' = c_input w"
  by (auto simp: send_reply_def split: option.splits dest!: c_input_send c_input_resource)

lemma c_input_request [simp]:
  "c_input (conn_OnRequestStart now b n w) = c_input w" "c_input (conn_OnRequestComplete now w) = c_input w"
  by (simp_all add: conn_OnRequestStart_def UpdateKeepAliveState_def conn_OnRequestComplete_def)

lemma serve_one_consumes:
  "serve_one os now root n header_end s = Some (True, s') \<Longrightarrow>
   c_input (ms_conn s') = drop (header_end + 4) (c_input (ms_conn s))"
  by (auto simp: serve_one_def Let_def split: prod.splits bool.splits option.splits if_splits
      dest!: c_input_reply)

function on_message ::
  "(nat \<Rightarrow> response_os) \<Rightarrow> (nat \<Rightarrow> int) \<Rightarrow> string \<Rightarrow> int \<Rightarrow> nat \<Rightarrow> site \<Rightarrow> site option" where
  "on_message os now static_root keep_alive_timeout k s =
     (case find_sub header_mark (chars_of (c_input (ms_conn s))) of
        None \<Rightarrow> Some s
      | Some header_end \<Rightarrow>
          (case serve_one (os k) (now k) static_root keep_alive_timeout header_end s of
             None \<Rightarrow> None
           | Some (False, s) \<Rightarrow> Some s
           | Some (True, s) \<Rightarrow> on_message os now static_root keep_alive_timeout (Suc k) s))"
  by pat_completeness auto
termination
proof (relation "measure (\<lambda>(os, now, root, n, k, s). length (c_input (ms_conn s)))", goal_cases)
  case (2 os now root n k s header_end p b s')
  then show ?case
    using find_sub_Some[of header_mark "chars_of (c_input (ms_conn s))" header_end]
    by (auto dest!: serve_one_consumes)
qed simp

declare on_message.simps [simp del]


subsection \<open>What the callback asks the file system\<close>

text \<open>Paths of the root directory followed by ordinary names: no dot-dot, nothing outside.\<close>

definition below_root :: "string \<Rightarrow> string \<Rightarrow> bool" where
  "below_root root p \<longleftrightarrow>
     p = root @ ''/.'' \<or> (\<exists>ps. ps \<noteq> [] \<and> list_all ordinary ps \<and> p = root @ ''/'' @ join_slash ps)"

definition same_answers :: "string \<Rightarrow> response_os \<Rightarrow> response_os \<Rightarrow> bool" where
  "same_answers root os os' \<longleftrightarrow>
     (\<forall>p. below_root root p \<longrightarrow>
        ro_stat os p = ro_stat os' p \<and> ro_regular os p = ro_regular os' p \<and> ro_file os p = ro_file os' p)
     \<and> ro_now os = ro_now os' \<and> ro_parse_date os = ro_parse_date os'"

lemma valid_path:
  assumes "vr_valid (ValidateRequest v r)"
  shows "vr_normalized_path (ValidateRequest v r) = NormalizePath (rq_path r)" "NormalizePath (rq_path r) \<noteq> []"
  using assms ValidatePath_result(1)[of v "rq_path r"]
  by (auto simp: ValidateRequest_def Let_def ValidatePath_def split: if_splits)

lemma slashed_below_root:
  assumes "NormalizePath path = p" "p \<noteq> []"
  shows "below_root root (root @ (if p \<noteq> [] \<and> hd p \<noteq> CHR ''/'' then CHR ''/'' # p else p))"
proof (cases rule: normalize_cases[of path])
  case (inside ps)
  then obtain q qs where ps: "ps = q # qs" "ordinary q" by (cases ps) auto
  then have "q \<noteq> []" "CHR ''/'' \<notin> set q" by (auto simp: ordinary_def)
  then have "hd q \<noteq> CHR ''/''" by (metis list.set_sel(1))
  moreover have "hd (join_slash ps) = hd q" unfolding ps using \<open>q \<noteq> []\<close> by (cases qs) simp_all
  ultimately show ?thesis using inside assms by (auto simp: below_root_def list_all_iff)
qed (use assms in \<open>auto simp: below_root_def\<close>)

lemma MakeResponse_same:
  fixes os os' :: response_os
  assumes "rs_code r \<in> {- 1, 200} \<Longrightarrow>
      ro_regular os (rs_src_dir r @ rs_path r) = ro_regular os' (rs_src_dir r @ rs_path r)
      \<and> ro_file os (rs_src_dir r @ rs_path r) = ro_file os' (rs_src_dir r @ rs_path r)"
    and "ro_now os = ro_now os'"
  shows "MakeResponse os r c = MakeResponse os' r c"
proof -
  have code: "choose_code os r = choose_code os' r" using assms(1) by (simp add: choose_code_def)
  have header: "AddHeader os x = AddHeader os' x" for x unfolding AddHeader_def assms(2) ..
  have "load_body os (choose_code os r) c = load_body os' (choose_code os r) c"
  proof (cases "rs_code (choose_code os r) = 200")
    case True
    then have "rs_code r \<in> {- 1, 200}" by (auto simp: choose_code_def split: if_splits)
    then show ?thesis using assms(1) True by (simp add: load_body_def CODE_PATH_def)
  qed (simp add: load_body_def Let_def split: option.split)
  then show ?thesis by (simp add: MakeResponse_def code header)
qed

lemma error_status_range: "error_status e \<in> {400, 403, 405, 413}"
  by (cases e rule: error_status.cases) simp_all

lemma make_reply_same:
  assumes "same_answers root os os'"
  shows "make_reply os root q c = make_reply os' root q c"
proof (cases "vr_valid (ValidateRequest (request_validator_for root) q)")
  case True
  define p where "p = NormalizePath (rq_path q)"
  define path where "path = (if p \<noteq> [] \<and> hd p \<noteq> CHR ''/'' then CHR ''/'' # p else p)"
  have np: "vr_normalized_path (ValidateRequest (request_validator_for root) q) = p" "p \<noteq> []"
    using valid_path[OF True] by (simp_all add: p_def)
  have "below_root root (root @ path)"
    unfolding path_def by (rule slashed_below_root[OF p_def[symmetric] np(2)])
  then have same: "ro_stat os (root @ path) = ro_stat os' (root @ path)"
      "ro_regular os (root @ path) = ro_regular os' (root @ path)"
      "ro_file os (root @ path) = ro_file os' (root @ path)"
      "ro_now os = ro_now os'" "ro_parse_date os = ro_parse_date os'"
    using assms unfolding same_answers_def by blast+
  have init: "response_Init os root path keep (- 1) (Some q) r = response_Init os' root path keep (- 1) (Some q) r"
    for keep r unfolding response_Init_def same ..
  have reply: "make_reply a root q c = MakeResponse a
      (response_Init a root path (IsKeepAlive q) (- 1) (Some q) new_response) c" for a
    using True np by (simp add: make_reply_def path_def Let_def)
  show ?thesis unfolding reply init
    by (rule MakeResponse_same) (use same in simp_all)
next
  case False
  let ?e = "error_status (err_code (vr_error (ValidateRequest (request_validator_for root) q)))"
  have e: "?e \<notin> {- 1, 200}"
    using error_status_range[of "err_code (vr_error (ValidateRequest (request_validator_for root) q))"] by auto
  have init: "response_Init a root [] keep ?e (Some q) new_response = response_Init os root [] keep ?e (Some q) new_response"
    "rs_code (response_Init a root [] keep ?e (Some q) new_response) = ?e" for a keep
    using e by (simp_all add: response_Init_def Let_def)
  have "make_reply a root q c = MakeResponse a
      (response_Init os root [] (IsKeepAlive q) ?e (Some q) new_response) c" for a
    using False init(1)[of a] by (simp add: make_reply_def Let_def)
  moreover have "MakeResponse os (response_Init os root [] (IsKeepAlive q) ?e (Some q) new_response) c
      = MakeResponse os' (response_Init os root [] (IsKeepAlive q) ?e (Some q) new_response) c"
    by (rule MakeResponse_same) (use e init(2) assms in \<open>simp_all add: same_answers_def\<close>)
  ultimately show ?thesis by simp
qed

text \<open>C5: Whatever bytes a client sends, what the callback does depends on the file system only through
  paths below the root directory: two file systems that agree on the root followed by ordinary names
  cannot be told apart by the responses, the state of the connection or the cache.\<close>
theorem callback_reads_below_root:
  assumes "\<And>j. same_answers root (os j) (os' j)"
  shows "on_message os now root n k s = on_message os' now root n k s"
  using assms
proof (induction os now root n k s rule: on_message.induct)
  case (1 os now root n k s)
  have "serve_one (os k) (now k) root n h s = serve_one (os' k) (now k) root n h s" for h
    unfolding serve_one_def make_reply_same[OF 1(2)[of k]] ..
  then show ?case using 1
    by (subst (1 2) on_message.simps) (auto split: option.split prod.split bool.split)
qed


subsection \<open>The state of a connection while it is answered\<close>

lemma state_loop [simp]: "c_state (set_active k b w) = c_state w"
  by (cases k) simp_all

lemma state_timer:
  "loop_AddTimer b fd n c w = Some (e, w') \<Longrightarrow> c_state w' = c_state w"
  "loop_RemoveTimer b fd w = Some (e, w') \<Longrightarrow> c_state w' = c_state w"
  by (auto simp: loop_AddTimer_def loop_RemoveTimer_def split: if_splits)

lemma state_timeouts:
  "SetupTimeout b n k w = Some w' \<Longrightarrow> c_state w' = c_state w"
  "CancelTimeout b k w = Some w' \<Longrightarrow> c_state w' = c_state w"
  unfolding SetupTimeout_def CancelTimeout_def
  by (auto split: if_split_asm option.split_asm dest!: state_timer)

lemma state_checks: "CheckAndSetTimeouts b w = Some w' \<Longrightarrow> c_state w' = c_state w"
  by (auto simp: CheckAndSetTimeouts_def Let_def split: if_splits option.splits dest!: state_timeouts)

lemma state_activity: "UpdateActivityTimestamp b w = Some w' \<Longrightarrow> c_state w' = c_state w"
  by (auto simp: UpdateActivityTimestamp_def split: if_splits dest!: state_timeouts)

lemma state_close: "HandleClose w = Some w' \<Longrightarrow> c_state w' = kClosed"
  unfolding HandleClose_def Transition_with_def by (auto simp: any_to_closed dest!: state_checks)

lemma state_write:
  "HandleWrite w = Some w' \<Longrightarrow> c_state w = kConnected \<Longrightarrow> c_state w' = kConnected \<or> c_state w' = kClosed"
  by (auto simp: HandleWrite_def HandleError_def Let_def
      split: if_splits option.splits write_answer.splits list.splits
      dest!: state_close state_activity)

text \<open>A message handed to an established connection is taken whole, or the connection is closed.\<close>

definition took :: "conn_world \<Rightarrow> bytes \<Rightarrow> conn_world \<Rightarrow> bool" where
  "took w bs w' \<longleftrightarrow> good w' \<and>
     (stream w' = stream w @ bs \<and> c_state w' = kConnected \<or> stream w' = stream w @ bs \<and> c_state w' = kClosed
      \<or> stream w' = stream w \<and> c_state w' = kClosed)"

lemma Send_took:
  assumes g: "good w" and st: "c_state w = kConnected"
  obtains w' where "Send True bs w = Some w'" "took w bs w'"
proof -
  obtain w' where w': "SendInLoop bs w = Some w'"
      "steps w (if TotalBytes (c_output w) + length bs \<le> max_output w then bs else []) w'"
    using SendInLoop_steps[OF g, of bs] by blast
  have "c_state w' = kClosed" if "\<not> TotalBytes (c_output w) + length bs \<le> max_output w" "bs \<noteq> []"
    using w'(1) that by (auto simp: SendInLoop_def dest: state_close)
  moreover have "c_state w' = kConnected \<or> c_state w' = kClosed"
    using w'(1) st by (auto simp: SendInLoop_def dest: state_close state_write split: if_splits)
  ultimately have "took w bs w'" using w'(2) by (cases "bs = []") (auto simp: took_def steps_def split: if_splits)
  then show ?thesis using that w'(1) st by (simp add: Send_def IsConnected_def)
qed

lemma Send_resource_took:
  assumes g: "good w" and st: "c_state w = kConnected" and f: "length (sr_addr f) = sr_size f"
  obtains w' where "Send_resource True (Some f) w = Some w'" "took w (sr_addr f) w'"
proof -
  obtain w' where w': "SendResourceInLoop f w = Some w'"
      "steps w (if TotalBytes (c_output w) + sr_size f \<le> max_output w then sr_addr f else []) w'"
    using SendResourceInLoop_steps[OF g f] by blast
  have "c_state w' = kClosed" if "\<not> TotalBytes (c_output w) + sr_size f \<le> max_output w" "sr_size f \<noteq> 0"
    using w'(1) that by (auto simp: SendResourceInLoop_def dest: state_close)
  moreover have "c_state w' = kConnected \<or> c_state w' = kClosed"
    using w'(1) st by (auto simp: SendResourceInLoop_def dest: state_close state_write split: if_splits)
  ultimately have "took w (sr_addr f) w'"
    using w'(2) f by (cases "sr_size f = 0") (auto simp: took_def steps_def split: if_splits)
  then show ?thesis using that w'(1) st by (simp add: Send_resource_def IsConnected_def)
qed

lemma Send_closed:
  "c_state w = kClosed \<Longrightarrow> Send True bs w = Some w"
  "c_state w = kClosed \<Longrightarrow> Send_resource True r w = Some w"
  by (auto simp: Send_def Send_resource_def IsConnected_def split: option.split)

lemma send_reply_closed: "c_state w = kClosed \<Longrightarrow> send_reply r w = Some w"
  by (simp add: send_reply_def Send_closed split: option.split)

text \<open>The messages of one response are taken up to the first that is not.\<close>

definition sent_prefix :: "conn_world \<Rightarrow> bytes list \<Rightarrow> conn_world \<Rightarrow> bool" where
  "sent_prefix w bs w' \<longleftrightarrow> good w' \<and>
     (\<exists>n. stream w' = stream w @ concat (take n bs)
        \<and> (c_state w' = kClosed \<or> c_state w' = kConnected \<and> n = length bs))"

definition messages :: "http_response \<Rightarrow> bytes list" where
  "messages r = [bytes_of (rs_header_string r), body_bytes r]"

lemma send_reply_prefix:
  assumes g: "good w" and st: "c_state w = kConnected"
    and f: "\<And>f. rs_file_body r = Some f \<Longrightarrow> length (sr_addr f) = sr_size f"
  obtains w' where "send_reply r w = Some w'" "sent_prefix w (messages r) w'"
proof -
  obtain w1 where w1: "Send True (bytes_of (rs_header_string r)) w = Some w1"
      "took w (bytes_of (rs_header_string r)) w1" by (rule Send_took[OF g st])
  have g1: "good w1" using w1(2) by (simp add: took_def)
  show ?thesis
  proof (cases "c_state w1 = kClosed")
    case True
    have "sent_prefix w (messages r) w1" unfolding sent_prefix_def
      using w1(2) True by (auto simp: took_def messages_def intro: exI[of _ 0] exI[of _ 1])
    then show ?thesis using that[of w1] w1(1) True
      by (auto simp: send_reply_def Send_closed split: option.split)
  next
    case False
    then have st1: "c_state w1 = kConnected" and s1: "stream w1 = stream w @ bytes_of (rs_header_string r)"
      using w1(2) by (auto simp: took_def)
    obtain w2 where w2: "send_reply r w = Some w2" "took w1 (body_bytes r) w2"
    proof (cases "rs_file_body r")
      case None
      show ?thesis by (rule Send_took[OF g1 st1, of "bytes_of (rs_body_string r)"])
        (rule that, use w1 None in \<open>simp_all add: send_reply_def body_bytes_def\<close>)
    next
      case (Some a)
      show ?thesis by (rule Send_resource_took[OF g1 st1 f[OF Some]])
        (rule that, use w1 Some in \<open>simp_all add: send_reply_def body_bytes_def\<close>)
    qed
    have two: "concat (take 2 (messages r)) = bytes_of (rs_header_string r) @ body_bytes r"
      "concat (take 1 (messages r)) = bytes_of (rs_header_string r)" "length (messages r) = 2"
      by (simp_all add: messages_def)
    have "sent_prefix w (messages r) w2"
      using w2(2) s1 two unfolding took_def sent_prefix_def by (metis append_assoc)
    then show ?thesis using that w2(1) by blast
  qed
qed


subsection \<open>The files of the cache\<close>

text \<open>\<open>mmap\<close> maps as many bytes as \<open>fstat\<close> said the file has.\<close>

definition honest :: "response_os \<Rightarrow> bool" where
  "honest os \<longleftrightarrow>
     (\<forall>p n bs. fp_stat (ro_file os p) = Some n \<longrightarrow> fp_mmap (ro_file os p) = Some bs \<longrightarrow> length bs = n)"

definition sized :: "static_resource option \<Rightarrow> bool" where
  "sized f \<longleftrightarrow> (case f of None \<Rightarrow> True | Some r \<Rightarrow> length (sr_addr r) = sr_size r)"

definition cache_sized :: "resource_cache \<Rightarrow> bool" where
  "cache_sized c \<longleftrightarrow> cache_ok c \<and> (\<forall>e \<in> set (snd (recency_of c)). sized (Some (snd e)))"

lemma Load_sized: "honest os \<Longrightarrow> sized (Load (ro_file os p) p)"
  by (auto simp: honest_def sized_def Load_def split: option.splits)

lemma kept_front_subset: "set (kept_front limit n es) \<subseteq> set es"
  by (induction es arbitrary: n) auto

lemma served_sized: "cache_sized c \<Longrightarrow> honest os \<Longrightarrow> sized (served_file os c p)"
  using Load_sized by (force simp: served_file_def cache_sized_def split: option.split dest: map_of_SomeD)

lemma GetResource_sized:
  assumes "cache_sized c" "honest os"
    and g: "GetResource (ro_file os p) p c = Some (f, c')"
  shows "cache_sized c'"
proof -
  have ok: "cache_ok c" using assms(1) by (simp add: cache_sized_def)
  obtain c'' where c'': "GetResource (ro_file os p) p c = Some (served_file os c p, c'')" "cache_ok c''"
    "snd (recency_of c'') =
      (case map_of (snd (recency_of c)) p of
         None \<Rightarrow> load_spec (ro_file os p) (rc_max c) p (snd (recency_of c))
       | Some r \<Rightarrow> promote p (snd (recency_of c)))" by (rule GetResource_served[OF ok])
  have "sized (Some (snd e))" if "e \<in> set (snd (recency_of c''))" for e
    using that c''(3) assms(1) Load_sized[OF assms(2), of p]
    by (auto simp: cache_sized_def load_spec_def promote_def sized_def split: option.splits
        dest: map_of_SomeD kept_front_subset[THEN subsetD])
  then show ?thesis using g c''(1,2) by (simp add: cache_sized_def)
qed

lemma MakeResponse_sized:
  assumes c: "cache_sized c" and os: "honest os" and r: "rs_file_body r = None" "rs_body_string r = []"
  obtains r' c' where "MakeResponse os r c = Some (r', c')" "cache_sized c'" "sized (rs_file_body r')"
proof -
  have ok: "cache_ok c" using c by (simp add: cache_sized_def)
  show ?thesis using ok r
  proof (cases rule: MakeResponse_cases[where os = os])
    case (served f r' c')
    then show ?thesis using that GetResource_sized[OF c os] served_sized[OF c os] by metis
  next
    case (lost r' c')
    then show ?thesis using that GetResource_sized[OF c os] by (metis option.case(1) sized_def)
  next
    case (plain r')
    then show ?thesis using that c by (metis option.case(1) sized_def)
  qed
qed

lemma make_reply_sized:
  assumes "cache_sized c" "honest os"
  obtains r c' where "make_reply os root q c = Some (r, c')" "cache_sized c'" "sized (rs_file_body r)"
proof -
  obtain path code where eq: "make_reply os root q c = MakeResponse os
      (response_Init os root path (IsKeepAlive q) code (Some q) new_response) c"
    unfolding make_reply_def Let_def by (metis (full_types))
  show ?thesis
    by (rule MakeResponse_sized[OF assms response_Init_fields(1,2)]) (rule that, use eq in simp_all)
qed

lemma run_cache_sized: "cache_sized new_cache"
  by (simp add: cache_sized_def cache_ok_new) (simp add: recency_of_def new_cache_def)

subsection \<open>Requests sent one after the other\<close>

text \<open>
  The messages the server has for a list of requests: two for each one, up to the first error; and
  whether there was none. \<open>None\<close> is undefined behaviour of the cache, which does not occur.
\<close>

fun answers ::
  "(nat \<Rightarrow> response_os) \<Rightarrow> string \<Rightarrow> nat \<Rightarrow> resource_cache \<Rightarrow> http_request list \<Rightarrow> (bytes list \<times> bool) option" where
  "answers os root k c [] = Some ([], True)"
| "answers os root k c (q # qs) =
     (case make_reply (os k) root q c of
        None \<Rightarrow> None
      | Some (r, c) \<Rightarrow>
          if rs_code r \<ge> 400 then Some (messages r, False)
          else map_option (\<lambda>(bs, on). (messages r @ bs, on)) (answers os root (Suc k) c qs))"

type_synonym client_request = "string \<times> string \<times> string \<times> headers"

fun render :: "client_request \<Rightarrow> string" where
  "render (m, p, v, hs) = render_request m p v hs"

fun asked :: "client_request \<Rightarrow> http_request" where
  "asked (m, p, v, hs) =
     \<lparr>rq_path = (if p = ''/'' then ''/index.html'' else p), rq_method = m, rq_version = v,
      rq_headers = fold set_header hs [], rq_finished = True\<rparr>"

fun request_ok :: "client_request \<Rightarrow> bool" where
  "request_ok (m, p, v, hs) = (token m \<and> token p \<and> token v \<and> list_all field_ok hs)"

lemma parse_render:
  assumes "request_ok q"
  shows "request_Parse new_request (render q @ rest) = (True, asked q)"
    and "find_sub header_mark (render q @ rest) = Some (length (render q) - 4)"
    and "4 \<le> length (render q)"
proof -
  obtain m p v hs where q: "q = (m, p, v, hs)" by (cases q)
  have ok: "token m" "token p" "token v" "\<forall>kv \<in> set hs. field_ok kv"
    using assms by (simp_all add: q list_all_iff)
  show "request_Parse new_request (render q @ rest) = (True, asked q)"
    using request_Parse_render(1)[OF ok, of new_request rest] by (simp add: q new_request_def)
  show "find_sub header_mark (render q @ rest) = Some (length (render q) - 4)"
    using request_Parse_render(2)[OF ok, of rest] by (simp add: q)
  show "4 \<le> length (render q)" by (simp add: q render_request_def)
qed

lemma bytes_of_append [simp]: "bytes_of (s @ t) = bytes_of s @ bytes_of t"
  by (simp add: bytes_of_def)

lemma reset_asked: "request_Reset r = new_request"
  by (cases r) (simp add: request_Reset_def new_request_def)

lemma manager_only:
  "good w \<Longrightarrow> good (w\<lparr>c_manager := m\<rparr>)"
  "stream (w\<lparr>c_manager := m\<rparr>) = stream w"
  using manager_steps[of w m] by (auto simp: steps_def) (simp add: stream_def)+

lemma input_only: "good (w\<lparr>c_input := x\<rparr>) = good w" "stream (w\<lparr>c_input := x\<rparr>) = stream w"
  by (auto simp: good_def stream_def untimed_def HasActiveTimeout_def max_output_def)


lemma request_marks:
  "good w \<Longrightarrow> good (conn_OnRequestStart now b n w)" "stream (conn_OnRequestStart now b n w) = stream w"
  "c_state (conn_OnRequestStart now b n w) = c_state w"
  "good w \<Longrightarrow> good (conn_OnRequestComplete now w)" "stream (conn_OnRequestComplete now w) = stream w"
  "c_state (conn_OnRequestComplete now w) = c_state w"
  using manager_only
  by (simp_all add: conn_OnRequestStart_def UpdateKeepAliveState_def conn_OnRequestComplete_def)

text \<open>A reply is sent to an established connection, and goes nowhere on a closed one.\<close>

definition replied :: "conn_world \<Rightarrow> bytes list \<Rightarrow> conn_world \<Rightarrow> bool" where
  "replied w bs w' \<longleftrightarrow> good w' \<and> (c_state w = kClosed \<longrightarrow> stream w' = stream w) \<and>
     (\<exists>n. stream w' = stream w @ concat (take n bs)
        \<and> (c_state w' = kClosed \<or> c_state w = kConnected \<and> n = length bs \<and> c_state w' = kConnected))"

lemma send_reply_replied:
  assumes "good w" "c_state w \<in> {kConnected, kClosed}" "sized (rs_file_body r)"
  obtains w' where "send_reply r w = Some w'" "replied w (messages r) w'"
proof (cases "c_state w = kConnected")
  case True
  show ?thesis
    by (rule send_reply_prefix[OF assms(1) True, of r])
       (use assms(3) that True in \<open>auto simp: sized_def sent_prefix_def replied_def\<close>)
next
  case False
  then have "replied w (messages r) w" using assms(1,2) by (auto simp: replied_def intro!: exI[of _ 0])
  then show ?thesis using that send_reply_closed False assms(2) by auto
qed

lemma serve_one_request:
  assumes c: "cache_sized (ms_cache s)" "honest os" and q: "request_ok q"
    and s: "ms_parser s = new_request" "c_input (ms_conn s) = bytes_of (render q @ later)"
      "good (ms_conn s)" "c_state (ms_conn s) \<in> {kConnected, kClosed}"
  obtains r c' s' w where "make_reply os root (asked q) (ms_cache s) = Some (r, c')" "cache_sized c'"
    "serve_one os now root t (length (render q) - 4) s = Some (rs_code r < 400, s')"
    "replied (ms_conn s) (messages r) w" "good (ms_conn s')" "stream (ms_conn s') = stream w"
    "c_state w = kClosed \<Longrightarrow> c_state (ms_conn s') = kClosed"
    "rs_code r < 400 \<Longrightarrow> ms_parser s' = new_request \<and> ms_cache s' = c'
       \<and> c_state (ms_conn s') = c_state w \<and> c_input (ms_conn s') = bytes_of later"
proof -
  obtain r c' where r: "make_reply os root (asked q) (ms_cache s) = Some (r, c')" "cache_sized c'"
      "sized (rs_file_body r)" by (rule make_reply_sized[OF c])
  define w0 where "w0 = conn_OnRequestStart now (IsKeepAlive (asked q)) t (ms_conn s)"
  have w0: "good w0" "stream w0 = stream (ms_conn s)" "c_state w0 = c_state (ms_conn s)"
    "c_input w0 = bytes_of (render q @ later)"
    using request_marks s by (simp_all add: w0_def)
  then have "c_state w0 \<in> {kConnected, kClosed}" using s(4) by simp
  from send_reply_replied[OF w0(1) this r(3)] obtain w where w: "send_reply r w0 = Some w" "replied w0 (messages r) w" .
  then have rep: "replied (ms_conn s) (messages r) w" using w0 by (simp add: replied_def)
  define v where "v = conn_OnRequestComplete now (w\<lparr>c_input := drop (length (render q) - 4 + 4) (c_input w)\<rparr>)"
  have gw: "good w" using w(2) by (simp add: replied_def)
  then have v: "good v" "stream v = stream w" "c_state v = c_state w" "c_input v = bytes_of later"
    using request_marks input_only parse_render(3)[OF q] c_input_reply[OF w(1)] w0(4)
    by (simp_all add: v_def)
  obtain w1 where w1: "Shutdown True v = Some w1" "steps v [] w1" using Shutdown_steps[OF v(1)] by blast
  define s' where "s' = s\<lparr>ms_parser := new_request, ms_cache := c', ms_conn := if rs_code r < 400 then v else w1\<rparr>"
  have parse: "request_Parse (ms_parser s) (chars_of (c_input (ms_conn s))) = (True, asked q)"
    unfolding s chars_of_bytes_of by (rule parse_render(1)[OF q])
  have "serve_one os now root t (length (render q) - 4) s = Some (rs_code r < 400, s')"
    using r(1) w(1) w1(1) unfolding serve_one_def parse
    by (simp add: s'_def v_def w0_def reset_asked Let_def)
  moreover have "good (ms_conn s')" "stream (ms_conn s') = stream w"
    "c_state w = kClosed \<Longrightarrow> c_state (ms_conn s') = kClosed"
    using v w1(2) by (auto simp: s'_def steps_def)
  ultimately show ?thesis using that[OF r(1,2) _ rep, of s'] v by (auto simp: s'_def)
qed

lemma pipeline:
  assumes "\<And>j. honest (os j)" "list_all request_ok qs" "find_sub header_mark rest = None"
    and "cache_sized (ms_cache s)" "ms_parser s = new_request"
    and "c_input (ms_conn s) = bytes_of (concat (map render qs) @ rest)"
    and "good (ms_conn s)" "c_state (ms_conn s) \<in> {kConnected, kClosed}"
  shows "\<exists>s' bs on n. on_message os now root t k s = Some s'
    \<and> answers os root k (ms_cache s) (map asked qs) = Some (bs, on)
    \<and> stream (ms_conn s') = stream (ms_conn s) @ concat (take n bs)
    \<and> (n = length bs \<or> c_state (ms_conn s') = kClosed)
    \<and> (c_state (ms_conn s) = kClosed \<longrightarrow>
          c_state (ms_conn s') = kClosed \<and> stream (ms_conn s') = stream (ms_conn s))
    \<and> (on \<longrightarrow> c_input (ms_conn s') = bytes_of rest)"
  using assms(2,4-8)
proof (induction qs arbitrary: k s)
  case Nil
  then show ?case using assms(3) by (subst on_message.simps) auto
next
  case (Cons q qs)
  let ?more = "concat (map render qs) @ rest"
  have q: "request_ok q" using Cons.prems(1) by simp
  have inp: "c_input (ms_conn s) = bytes_of (render q @ ?more)" using Cons.prems(4) by simp
  from serve_one_request[OF Cons.prems(2) assms(1) q Cons.prems(3) inp Cons.prems(5,6)]
  obtain r c' s' w where r: "make_reply (os k) root (asked q) (ms_cache s) = Some (r, c')" "cache_sized c'"
    "serve_one (os k) (now k) root t (length (render q) - 4) s = Some (rs_code r < 400, s')"
    "replied (ms_conn s) (messages r) w" "good (ms_conn s')" "stream (ms_conn s') = stream w"
    "c_state w = kClosed \<Longrightarrow> c_state (ms_conn s') = kClosed"
    "rs_code r < 400 \<Longrightarrow> ms_parser s' = new_request \<and> ms_cache s' = c'
       \<and> c_state (ms_conn s') = c_state w \<and> c_input (ms_conn s') = bytes_of ?more" by blast
  have loop: "on_message os now root t k s =
      (if rs_code r < 400 then on_message os now root t (Suc k) s' else Some s')"
  proof -
    have "find_sub header_mark (chars_of (c_input (ms_conn s))) = Some (length (render q) - 4)"
      unfolding inp chars_of_bytes_of by (rule parse_render(2)[OF q])
    then show ?thesis by (subst on_message.simps) (simp add: r(3))
  qed
  obtain n where n: "stream w = stream (ms_conn s) @ concat (take n (messages r))"
    "c_state w = kClosed \<or> c_state (ms_conn s) = kConnected \<and> n = length (messages r) \<and> c_state w = kConnected"
    using r(4) by (auto simp: replied_def)
  show ?case
  proof (cases "rs_code r < 400")
    case False
    have "on_message os now root t k s = Some s'" using loop False by simp
    moreover have "answers os root k (ms_cache s) (map asked (q # qs)) = Some (messages r, False)"
      using r(1) False by simp
    moreover have "stream (ms_conn s') = stream (ms_conn s) @ concat (take n (messages r))"
      using n(1) r(6) by simp
    moreover have "n = length (messages r) \<or> c_state (ms_conn s') = kClosed" using n(2) r(7) by blast
    moreover have "c_state (ms_conn s) = kClosed \<longrightarrow>
        c_state (ms_conn s') = kClosed \<and> stream (ms_conn s') = stream (ms_conn s)"
      using r(4,6,7) n(2) unfolding replied_def by auto
    ultimately show ?thesis by blast
  next
    case True
    have st: "c_state (ms_conn s') \<in> {kConnected, kClosed}" using n(2) r(8)[OF True] by auto
    have nxt: "list_all request_ok qs" "cache_sized (ms_cache s')" "ms_parser s' = new_request"
      "c_input (ms_conn s') = bytes_of ?more" and cache: "ms_cache s' = c'"
      using Cons.prems(1) r(2) r(8)[OF True] by simp_all
    obtain s'' bs on m where IH: "on_message os now root t (Suc k) s' = Some s''"
      "answers os root (Suc k) c' (map asked qs) = Some (bs, on)"
      "stream (ms_conn s'') = stream (ms_conn s') @ concat (take m bs)"
      "m = length bs \<or> c_state (ms_conn s'') = kClosed"
      "c_state (ms_conn s') = kClosed \<longrightarrow>
          c_state (ms_conn s'') = kClosed \<and> stream (ms_conn s'') = stream (ms_conn s')"
      "on \<longrightarrow> c_input (ms_conn s'') = bytes_of rest"
      using Cons.IH[OF nxt r(5) st, of "Suc k"] unfolding cache by blast
    have run: "on_message os now root t k s = Some s''"
      "answers os root k (ms_cache s) (map asked (q # qs)) = Some (messages r @ bs, on)"
      using loop True IH(1,2) r(1) by simp_all
    show ?thesis
    proof (cases "c_state w = kClosed")
      case closed: True
      then have fin: "c_state (ms_conn s'') = kClosed" "stream (ms_conn s'') = stream w"
        using IH(5) r(6,7) by simp_all
      have "concat (take n (messages r)) = concat (take (min n (length (messages r))) (messages r @ bs))"
        by (simp add: min_def)
      then have "stream (ms_conn s'')
          = stream (ms_conn s) @ concat (take (min n (length (messages r))) (messages r @ bs))"
        using fin(2) n(1) by simp
      moreover have "c_state (ms_conn s) = kClosed \<longrightarrow> stream (ms_conn s'') = stream (ms_conn s)"
        using fin(2) r(4) by (simp add: replied_def)
      ultimately show ?thesis using run IH(6) fin(1) by blast
    next
      case False
      then have whole: "n = length (messages r)" and alive: "c_state (ms_conn s) \<noteq> kClosed"
        using n(2) by auto
      have "take (length (messages r) + m) (messages r @ bs) = messages r @ take m bs" by simp
      then have "stream (ms_conn s'') = stream (ms_conn s) @ concat (take (length (messages r) + m) (messages r @ bs))"
        using IH(3) r(6) n(1) whole by simp
      moreover have "length (messages r) + m = length (messages r @ bs) \<or> c_state (ms_conn s'') = kClosed"
        using IH(4) by auto
      ultimately show ?thesis using run IH(6) alive by blast
    qed
  qed
qed


definition example_conn :: "string \<Rightarrow> conn_world" where
  "example_conn text = (new_conn_world 5 (new_event_loop True F_Close 3) None None)
     \<lparr>c_state := kConnected, c_input := bytes_of text\<rparr>"

lemma example_conn_good: "good (example_conn text)" "c_state (example_conn text) = kConnected"
  "c_input (example_conn text) = bytes_of text"
  by (simp_all add: example_conn_def good_def untimed_def HasActiveTimeout_def new_conn_world_def
      event_loop.defs new_event_loop_def UpdateEvent_def new_wheel_def chain_ok_def new_chain_def
      TotalBytes_def max_output_def pending_def)

lemma example_honest: "honest example_os"
  by (simp add: honest_def example_os_def)

definition put_requests :: "client_request list" where
  "put_requests = [(''PUT'', ''/'', ''HTTP/1.1'', [(''Host'', ''h'')])]"

definition put_site :: site where
  "put_site = \<lparr>ms_conn = example_conn (concat (map render put_requests) @ ''GET''),
     ms_parser = new_request, ms_cache = new_cache\<rparr>"


theorem callback_reads_below_root_witness:
  "on_message (\<lambda>_. example_os) (\<lambda>_. 0) ''d'' 15 0
     \<lparr>ms_conn = example_conn (render (''GET'', ''/../../etc/passwd'', ''HTTP/1.1'', [])),
      ms_parser = new_request, ms_cache = new_cache\<rparr>
   = on_message (\<lambda>_. example_os\<lparr>ro_regular := (\<lambda>p. p = ''d/a.js'' \<or> p = ''d/../../etc/passwd'')\<rparr>) (\<lambda>_. 0) ''d'' 15 0
     \<lparr>ms_conn = example_conn (render (''GET'', ''/../../etc/passwd'', ''HTTP/1.1'', [])),
      ms_parser = new_request, ms_cache = new_cache\<rparr>"
proof (rule callback_reads_below_root)
  have "\<not> below_root ''d'' ''d/../../etc/passwd''"
  proof
    assume "below_root ''d'' ''d/../../etc/passwd''"
    then obtain ps where "list_all ordinary ps" "''../../etc/passwd'' = join_slash ps"
      by (auto simp: below_root_def)
    moreover have "getlines CHR ''/'' ''../../etc/passwd'' = [''..'', ''..'', ''etc'', ''passwd'']" by code_simp
    ultimately have "[''..'', ''..'', ''etc'', ''passwd''] = ps"
      using getlines_join[of ps] by (simp only: list_all_iff)
    then show False using \<open>list_all ordinary ps\<close> by (auto simp: ordinary_def)
  qed
  then show "same_answers ''d'' example_os
      (example_os\<lparr>ro_regular := (\<lambda>p. p = ''d/a.js'' \<or> p = ''d/../../etc/passwd'')\<rparr>)"
    by (auto simp: same_answers_def example_os_def)
qed

end
