(* ===== verification/ServerConfig.thy ===== *)
theory ServerConfig
  imports Prelude
begin

text \<open>
  The configuration of the server (include/config/server_config.h, src/config/server_config.cpp):
  defaults, loading from JSON, validation, serialisation and hot reload.

  The JSON library is vendored (third_party/json.hpp) and only called: a value is modelled as the
  data type below, an object as a map from keys to values, and reading and printing text are the
  parameters \<open>parse\<close> and \<open>dump\<close> (\<open>None\<close> where they throw). An \<open>int\<close> is a word of 32 bits, a
  \<open>size_t\<close> one of 64 bits; the conversion of a JSON integer to either is a cast, which drops the
  high bits. The answer of opening the file is \<open>None\<close> when it fails, else its text. Locks make each
  operation one step; messages to the console are left out.
\<close>

subsection \<open>JSON values\<close>

datatype json =
    J_null
  | J_bool bool
  | J_int int
  | J_float
  | J_string string
  | J_array "json list"
  | J_object "string \<rightharpoonup> json"

text \<open>\<open>j.contains(k)\<close> followed by \<open>j[k]\<close>.\<close>

definition json_field :: "json \<Rightarrow> string \<Rightarrow> json option" where
  "json_field j k = (case j of J_object m \<Rightarrow> m k | _ \<Rightarrow> None)"

text \<open>One guarded assignment of \<open>LoadFromJsonObject\<close>: the old value unless the key has the type.\<close>

definition load_string :: "json \<Rightarrow> string \<Rightarrow> string \<Rightarrow> string" where
  "load_string j k old = (case json_field j k of Some (J_string s) \<Rightarrow> s | _ \<Rightarrow> old)"

definition load_bool :: "json \<Rightarrow> string \<Rightarrow> bool \<Rightarrow> bool" where
  "load_bool j k old = (case json_field j k of Some (J_bool b) \<Rightarrow> b | _ \<Rightarrow> old)"

definition load_int :: "json \<Rightarrow> string \<Rightarrow> 'a::len word \<Rightarrow> 'a word" where
  "load_int j k old = (case json_field j k of Some (J_int i) \<Rightarrow> word_of_int i | _ \<Rightarrow> old)"

subsection \<open>The options\<close>

type_synonym i32 = "32 word"

record server_options =
  so_ip :: string
  so_port :: i32
  so_threads :: i32
  so_backlog :: i32
  so_tcp_nodelay :: bool
  so_tcp_cork :: bool
  so_use_so_reuseport :: bool
  so_so_reuseport_sockets :: i32

record limit_options =
  li_max_connections :: i32
  li_max_request_size :: u64
  li_max_response_size :: u64
  li_connection_timeout :: i32
  li_keep_alive_timeout :: i32
  li_max_input_buffer :: u64
  li_max_output_buffer :: u64

record logging_options =
  lg_level :: string
  lg_file :: string
  lg_async :: bool
  lg_queue_size :: u64
  lg_flush_interval :: i32

record static_options =
  st_root :: string
  st_cache_size :: u64
  st_cache_ttl :: i32

record metrics_options =
  mt_enable_prometheus :: bool
  mt_prometheus_port :: i32
  mt_collect_interval :: i32

record server_config =
  sc_server :: server_options
  sc_limits :: limit_options
  sc_logging :: logging_options
  sc_static :: static_options
  sc_metrics :: metrics_options
  sc_original_json :: string
  sc_reloading :: bool

definition default_config :: server_config where
  "default_config =
     \<lparr>sc_server = \<lparr>so_ip = ''0.0.0.0'', so_port = 8080, so_threads = 4, so_backlog = 1024,
        so_tcp_nodelay = True, so_tcp_cork = False, so_use_so_reuseport = False,
        so_so_reuseport_sockets = 0\<rparr>,
      sc_limits = \<lparr>li_max_connections = 10000, li_max_request_size = 65536,
        li_max_response_size = 1048576, li_connection_timeout = 30, li_keep_alive_timeout = 15,
        li_max_input_buffer = 65536, li_max_output_buffer = 1048576\<rparr>,
      sc_logging = \<lparr>lg_level = ''INFO'', lg_file = ''logs/server.log'', lg_async = True,
        lg_queue_size = 10000, lg_flush_interval = 3\<rparr>,
      sc_static = \<lparr>st_root = ''./public'', st_cache_size = 100, st_cache_ttl = 300\<rparr>,
      sc_metrics = \<lparr>mt_enable_prometheus = True, mt_prometheus_port = 9090, mt_collect_interval = 5\<rparr>,
      sc_original_json = [], sc_reloading = False\<rparr>"

subsection \<open>Loading\<close>

definition load_server :: "json \<Rightarrow> server_options \<Rightarrow> server_options" where
  "load_server j s = s
     \<lparr>so_ip := load_string j ''ip'' (so_ip s), so_port := load_int j ''port'' (so_port s),
      so_threads := load_int j ''threads'' (so_threads s),
      so_backlog := load_int j ''backlog'' (so_backlog s),
      so_tcp_nodelay := load_bool j ''tcp_nodelay'' (so_tcp_nodelay s),
      so_tcp_cork := load_bool j ''tcp_cork'' (so_tcp_cork s),
      so_use_so_reuseport := load_bool j ''use_so_reuseport'' (so_use_so_reuseport s),
      so_so_reuseport_sockets := load_int j ''so_reuseport_sockets'' (so_so_reuseport_sockets s)\<rparr>"

definition load_limits :: "json \<Rightarrow> limit_options \<Rightarrow> limit_options" where
  "load_limits j s = s
     \<lparr>li_max_connections := load_int j ''max_connections'' (li_max_connections s),
      li_max_request_size := load_int j ''max_request_size'' (li_max_request_size s),
      li_max_response_size := load_int j ''max_response_size'' (li_max_response_size s),
      li_connection_timeout := load_int j ''connection_timeout'' (li_connection_timeout s),
      li_keep_alive_timeout := load_int j ''keep_alive_timeout'' (li_keep_alive_timeout s),
      li_max_input_buffer := load_int j ''max_input_buffer'' (li_max_input_buffer s),
      li_max_output_buffer := load_int j ''max_output_buffer'' (li_max_output_buffer s)\<rparr>"

definition load_logging :: "json \<Rightarrow> logging_options \<Rightarrow> logging_options" where
  "load_logging j s = s
     \<lparr>lg_level := load_string j ''level'' (lg_level s), lg_file := load_string j ''file'' (lg_file s),
      lg_async := load_bool j ''async'' (lg_async s),
      lg_queue_size := load_int j ''queue_size'' (lg_queue_size s),
      lg_flush_interval := load_int j ''flush_interval'' (lg_flush_interval s)\<rparr>"

definition load_static :: "json \<Rightarrow> static_options \<Rightarrow> static_options" where
  "load_static j s = s
     \<lparr>st_root := load_string j ''root'' (st_root s),
      st_cache_size := load_int j ''cache_size'' (st_cache_size s),
      st_cache_ttl := load_int j ''cache_ttl'' (st_cache_ttl s)\<rparr>"

definition load_metrics :: "json \<Rightarrow> metrics_options \<Rightarrow> metrics_options" where
  "load_metrics j s = s
     \<lparr>mt_enable_prometheus := load_bool j ''enable_prometheus'' (mt_enable_prometheus s),
      mt_prometheus_port := load_int j ''prometheus_port'' (mt_prometheus_port s),
      mt_collect_interval := load_int j ''collect_interval'' (mt_collect_interval s)\<rparr>"

text \<open>A section is loaded when its key is there and holds an object. Nothing in it can throw.\<close>

definition load_group :: "json \<Rightarrow> string \<Rightarrow> (json \<Rightarrow> 'a \<Rightarrow> 'a) \<Rightarrow> 'a \<Rightarrow> 'a" where
  "load_group j k load s =
     (case json_field j k of Some (J_object m) \<Rightarrow> load (J_object m) s | _ \<Rightarrow> s)"

definition LoadFromJsonObject :: "json \<Rightarrow> server_config \<Rightarrow> server_config" where
  "LoadFromJsonObject j c = c
     \<lparr>sc_server := load_group j ''server'' load_server (sc_server c),
      sc_limits := load_group j ''limits'' load_limits (sc_limits c),
      sc_logging := load_group j ''logging'' load_logging (sc_logging c),
      sc_static := load_group j ''static'' load_static (sc_static c),
      sc_metrics := load_group j ''metrics'' load_metrics (sc_metrics c)\<rparr>"

definition LoadFromFile ::
  "(string \<Rightarrow> json option) \<Rightarrow> (json \<Rightarrow> string option) \<Rightarrow> string option \<Rightarrow> server_config" where
  "LoadFromFile parse dump text =
     (case text of
        None \<Rightarrow> default_config
      | Some t \<Rightarrow>
          (case parse t of
             None \<Rightarrow> default_config
           | Some j \<Rightarrow>
               let c = LoadFromJsonObject j default_config
               in case dump j of None \<Rightarrow> c | Some s \<Rightarrow> c\<lparr>sc_original_json := s\<rparr>))"

definition LoadFromJson :: "(string \<Rightarrow> json option) \<Rightarrow> string \<Rightarrow> server_config" where
  "LoadFromJson parse json_str =
     (case parse json_str of
        None \<Rightarrow> default_config
      | Some j \<Rightarrow> (LoadFromJsonObject j default_config)\<lparr>sc_original_json := json_str\<rparr>)"

subsection \<open>Validation\<close>

definition report :: "bool \<Rightarrow> string \<Rightarrow> string list" where
  "report b message = (if b then [message] else [])"

definition validate_server :: "server_options \<Rightarrow> string list" where
  "validate_server s =
     report (sint (so_port s) < 1 \<or> sint (so_port s) > 65535) ''Port must be between 1 and 65535''
     @ report (sint (so_threads s) < 1) ''Thread count must be at least 1''
     @ report (sint (so_threads s) > 64) ''Thread count cannot exceed 64''
     @ report (sint (so_backlog s) < 1) ''Backlog must be at least 1''
     @ report (sint (so_backlog s) > 65535) ''Backlog cannot exceed 65535''
     @ report (sint (so_so_reuseport_sockets s) < 0) ''SO_REUSEPORT sockets count cannot be negative''
     @ report (sint (so_so_reuseport_sockets s) > 64) ''SO_REUSEPORT sockets count cannot exceed 64''"

definition validate_limits :: "limit_options \<Rightarrow> string list" where
  "validate_limits s =
     report (sint (li_max_connections s) < 1) ''Max connections must be at least 1''
     @ report (sint (li_max_connections s) > 1000000) ''Max connections cannot exceed 1,000,000''
     @ report (unat (li_max_request_size s) < 1024) ''Max request size must be at least 1KB''
     @ report (unat (li_max_request_size s) > 100 * 1024 * 1024) ''Max request size cannot exceed 100MB''
     @ report (unat (li_max_response_size s) < 1024) ''Max response size must be at least 1KB''
     @ report (unat (li_max_response_size s) > 500 * 1024 * 1024) ''Max response size cannot exceed 500MB''
     @ report (sint (li_connection_timeout s) < 1) ''Connection timeout must be at least 1 second''
     @ report (sint (li_connection_timeout s) > 3600) ''Connection timeout cannot exceed 3600 seconds''
     @ report (sint (li_keep_alive_timeout s) < 0) ''Keep-alive timeout cannot be negative''
     @ report (sint (li_keep_alive_timeout s) > 3600) ''Keep-alive timeout cannot exceed 3600 seconds''
     @ report (unat (li_max_input_buffer s) < 1024) ''Max input buffer must be at least 1KB''
     @ report (unat (li_max_input_buffer s) > 100 * 1024 * 1024) ''Max input buffer cannot exceed 100MB''
     @ report (unat (li_max_output_buffer s) < 1024) ''Max output buffer must be at least 1KB''
     @ report (unat (li_max_output_buffer s) > 500 * 1024 * 1024) ''Max output buffer cannot exceed 500MB''"

definition validate_logging :: "logging_options \<Rightarrow> string list" where
  "validate_logging s =
     report (unat (lg_queue_size s) < 1) ''Log queue size must be at least 1''
     @ report (unat (lg_queue_size s) > 1000000) ''Log queue size cannot exceed 1,000,000''
     @ report (sint (lg_flush_interval s) < 1) ''Log flush interval must be at least 1 second''
     @ report (sint (lg_flush_interval s) > 3600) ''Log flush interval cannot exceed 3600 seconds''"

definition validate_static :: "static_options \<Rightarrow> string list" where
  "validate_static s =
     report (unat (st_cache_size s) > 10000) ''Static cache size cannot exceed 10,000''
     @ report (sint (st_cache_ttl s) < 0) ''Static cache TTL cannot be negative''
     @ report (sint (st_cache_ttl s) > 86400) ''Static cache TTL cannot exceed 86400 seconds (24 hours)''"

definition validate_metrics :: "metrics_options \<Rightarrow> string list" where
  "validate_metrics s =
     report (sint (mt_prometheus_port s) < 1 \<or> sint (mt_prometheus_port s) > 65535)
       ''Prometheus port must be between 1 and 65535''
     @ report (sint (mt_collect_interval s) < 1) ''Metrics collect interval must be at least 1 second''
     @ report (sint (mt_collect_interval s) > 3600) ''Metrics collect interval cannot exceed 3600 seconds''"

definition config_Validate :: "server_config \<Rightarrow> string list" where
  "config_Validate c =
     validate_server (sc_server c) @ validate_limits (sc_limits c) @ validate_logging (sc_logging c)
     @ validate_static (sc_static c) @ validate_metrics (sc_metrics c)
     @ report (mt_prometheus_port (sc_metrics c) = so_port (sc_server c))
         ''Prometheus port cannot be the same as server port''"

subsection \<open>Serialisation and reload\<close>

definition server_json :: "server_options \<Rightarrow> json" where
  "server_json s = J_object [''ip'' \<mapsto> J_string (so_ip s), ''port'' \<mapsto> J_int (sint (so_port s)),
     ''threads'' \<mapsto> J_int (sint (so_threads s)), ''backlog'' \<mapsto> J_int (sint (so_backlog s)),
     ''tcp_nodelay'' \<mapsto> J_bool (so_tcp_nodelay s), ''tcp_cork'' \<mapsto> J_bool (so_tcp_cork s),
     ''use_so_reuseport'' \<mapsto> J_bool (so_use_so_reuseport s),
     ''so_reuseport_sockets'' \<mapsto> J_int (sint (so_so_reuseport_sockets s))]"

definition limits_json :: "limit_options \<Rightarrow> json" where
  "limits_json s = J_object [''max_connections'' \<mapsto> J_int (sint (li_max_connections s)),
     ''max_request_size'' \<mapsto> J_int (uint (li_max_request_size s)),
     ''max_response_size'' \<mapsto> J_int (uint (li_max_response_size s)),
     ''connection_timeout'' \<mapsto> J_int (sint (li_connection_timeout s)),
     ''keep_alive_timeout'' \<mapsto> J_int (sint (li_keep_alive_timeout s)),
     ''max_input_buffer'' \<mapsto> J_int (uint (li_max_input_buffer s)),
     ''max_output_buffer'' \<mapsto> J_int (uint (li_max_output_buffer s))]"

definition logging_json :: "logging_options \<Rightarrow> json" where
  "logging_json s = J_object [''level'' \<mapsto> J_string (lg_level s), ''file'' \<mapsto> J_string (lg_file s),
     ''async'' \<mapsto> J_bool (lg_async s), ''queue_size'' \<mapsto> J_int (uint (lg_queue_size s)),
     ''flush_interval'' \<mapsto> J_int (sint (lg_flush_interval s))]"

definition static_json :: "static_options \<Rightarrow> json" where
  "static_json s = J_object [''root'' \<mapsto> J_string (st_root s),
     ''cache_size'' \<mapsto> J_int (uint (st_cache_size s)), ''cache_ttl'' \<mapsto> J_int (sint (st_cache_ttl s))]"

definition metrics_json :: "metrics_options \<Rightarrow> json" where
  "metrics_json s = J_object [''enable_prometheus'' \<mapsto> J_bool (mt_enable_prometheus s),
     ''prometheus_port'' \<mapsto> J_int (sint (mt_prometheus_port s)),
     ''collect_interval'' \<mapsto> J_int (sint (mt_collect_interval s))]"

definition config_json :: "server_config \<Rightarrow> json" where
  "config_json c = J_object [''server'' \<mapsto> server_json (sc_server c), ''limits'' \<mapsto> limits_json (sc_limits c),
     ''logging'' \<mapsto> logging_json (sc_logging c), ''static'' \<mapsto> static_json (sc_static c),
     ''metrics'' \<mapsto> metrics_json (sc_metrics c)]"

definition ToJsonString :: "(json \<Rightarrow> string option) \<Rightarrow> server_config \<Rightarrow> string" where
  "ToJsonString dump c = (case dump (config_json c) of Some s \<Rightarrow> s | None \<Rightarrow> ''{}'')"

definition CanReloadWithoutRestart :: "server_config \<Rightarrow> bool" where
  "CanReloadWithoutRestart c = True"

definition Reload ::
  "(string \<Rightarrow> json option) \<Rightarrow> (json \<Rightarrow> string option) \<Rightarrow> string option \<Rightarrow> server_config \<Rightarrow>
   bool \<times> server_config" where
  "Reload parse dump text c =
     (if sc_reloading c then (False, c)
      else let new_config = LoadFromFile parse dump text
           in if config_Validate new_config \<noteq> [] then (False, c\<lparr>sc_reloading := False\<rparr>)
              else if \<not> CanReloadWithoutRestart c then (False, c\<lparr>sc_reloading := False\<rparr>)
              else (True, c\<lparr>sc_server := sc_server new_config, sc_limits := sc_limits new_config,
                     sc_logging := sc_logging new_config, sc_static := sc_static new_config,
                     sc_metrics := sc_metrics new_config,
                     sc_original_json := sc_original_json new_config, sc_reloading := False\<rparr>))"

subsection \<open>Properties\<close>

lemma load_int_same [simp]:
  "json_field j k = Some (J_int (sint w)) \<Longrightarrow> load_int j k old = w"
  "json_field j k = Some (J_int (uint w)) \<Longrightarrow> load_int j k old = w"
  by (simp_all add: load_int_def)

lemma load_server_json: "load_server (server_json s) t = s"
  by (cases s; cases t) (simp add: load_server_def server_json_def load_string_def load_bool_def json_field_def)

lemma load_limits_json: "load_limits (limits_json s) t = s"
  by (cases s; cases t) (simp add: load_limits_def limits_json_def json_field_def)

lemma load_logging_json: "load_logging (logging_json s) t = s"
  by (cases s; cases t) (simp add: load_logging_def logging_json_def load_string_def load_bool_def json_field_def)

lemma load_static_json: "load_static (static_json s) t = s"
  by (cases s; cases t) (simp add: load_static_def static_json_def load_string_def json_field_def)

lemma load_metrics_json: "load_metrics (metrics_json s) t = s"
  by (cases s; cases t) (simp add: load_metrics_def metrics_json_def load_bool_def json_field_def)

lemma load_group_object:
  "json_field j k = Some x \<Longrightarrow> \<exists>m. x = J_object m \<Longrightarrow> load_group j k load s = load x s"
  by (auto simp: load_group_def)

lemma json_objects:
  "\<exists>m. server_json s1 = J_object m" "\<exists>m. limits_json s2 = J_object m" "\<exists>m. logging_json s3 = J_object m"
  "\<exists>m. static_json s4 = J_object m" "\<exists>m. metrics_json s5 = J_object m"
  by (simp_all add: server_json_def limits_json_def logging_json_def static_json_def metrics_json_def)

lemma load_config_json:
  "LoadFromJsonObject (config_json c) d = c\<lparr>sc_original_json := sc_original_json d, sc_reloading := sc_reloading d\<rparr>"
proof -
  have "json_field (config_json c) ''server'' = Some (server_json (sc_server c))"
    "json_field (config_json c) ''limits'' = Some (limits_json (sc_limits c))"
    "json_field (config_json c) ''logging'' = Some (logging_json (sc_logging c))"
    "json_field (config_json c) ''static'' = Some (static_json (sc_static c))"
    "json_field (config_json c) ''metrics'' = Some (metrics_json (sc_metrics c))"
    by (simp_all add: config_json_def json_field_def)
  note fields = this
  have groups: "load_group (config_json c) ''server'' load_server x1 = sc_server c"
    "load_group (config_json c) ''limits'' load_limits x2 = sc_limits c"
    "load_group (config_json c) ''logging'' load_logging x3 = sc_logging c"
    "load_group (config_json c) ''static'' load_static x4 = sc_static c"
    "load_group (config_json c) ''metrics'' load_metrics x5 = sc_metrics c" for x1 x2 x3 x4 x5
    by (simp_all only: load_group_object[OF fields(1) json_objects(1)] load_group_object[OF fields(2) json_objects(2)]
        load_group_object[OF fields(3) json_objects(3)] load_group_object[OF fields(4) json_objects(4)]
        load_group_object[OF fields(5) json_objects(5)] load_server_json load_limits_json
        load_logging_json load_static_json load_metrics_json)
  show ?thesis unfolding LoadFromJsonObject_def groups by (cases c; cases d) simp
qed

text \<open>A configuration that is serialised and loaded again is the same in every option, also when
  it holds values no validation would accept; the text it was loaded from is kept.\<close>
theorem config_roundtrip:
  assumes "dump (config_json c) = Some s" and "parse s = Some (config_json c)"
  shows "LoadFromJson parse (ToJsonString dump c) = c\<lparr>sc_original_json := s, sc_reloading := False\<rparr>"
  using assms by (cases c) (simp add: LoadFromJson_def ToJsonString_def load_config_json default_config_def)

theorem config_roundtrip_witness:
  "LoadFromJson (\<lambda>_. Some (config_json (default_config\<lparr>sc_static := \<lparr>st_root = ''r'', st_cache_size = 0, st_cache_ttl = - 5\<rparr>\<rparr>)))
     (ToJsonString (\<lambda>_. Some ''t'') (default_config\<lparr>sc_static := \<lparr>st_root = ''r'', st_cache_size = 0, st_cache_ttl = - 5\<rparr>\<rparr>))
   = default_config\<lparr>sc_static := \<lparr>st_root = ''r'', st_cache_size = 0, st_cache_ttl = - 5\<rparr>, sc_original_json := ''t''\<rparr>"
  by (subst config_roundtrip[where s = "''t''"]) (simp_all add: default_config_def)

text \<open>What an accepted configuration satisfies.\<close>

lemma report_nil [simp]: "report b m = [] \<longleftrightarrow> \<not> b"
  by (simp add: report_def)

lemma valid_ranges:
  "config_Validate c = [] \<longleftrightarrow>
     sint (so_port (sc_server c)) \<in> {1..65535} \<and> sint (so_threads (sc_server c)) \<in> {1..64}
     \<and> sint (so_backlog (sc_server c)) \<in> {1..65535} \<and> sint (so_so_reuseport_sockets (sc_server c)) \<in> {0..64}
     \<and> sint (li_max_connections (sc_limits c)) \<in> {1..1000000}
     \<and> unat (li_max_request_size (sc_limits c)) \<in> {1024..104857600}
     \<and> unat (li_max_response_size (sc_limits c)) \<in> {1024..524288000}
     \<and> sint (li_connection_timeout (sc_limits c)) \<in> {1..3600}
     \<and> sint (li_keep_alive_timeout (sc_limits c)) \<in> {0..3600}
     \<and> unat (li_max_input_buffer (sc_limits c)) \<in> {1024..104857600}
     \<and> unat (li_max_output_buffer (sc_limits c)) \<in> {1024..524288000}
     \<and> unat (lg_queue_size (sc_logging c)) \<in> {1..1000000} \<and> sint (lg_flush_interval (sc_logging c)) \<in> {1..3600}
     \<and> unat (st_cache_size (sc_static c)) \<le> 10000 \<and> sint (st_cache_ttl (sc_static c)) \<in> {0..86400}
     \<and> sint (mt_prometheus_port (sc_metrics c)) \<in> {1..65535}
     \<and> sint (mt_collect_interval (sc_metrics c)) \<in> {1..3600}
     \<and> mt_prometheus_port (sc_metrics c) \<noteq> so_port (sc_server c)"
  unfolding config_Validate_def validate_server_def validate_limits_def validate_logging_def
    validate_static_def validate_metrics_def append_is_Nil_conv report_nil
  by (auto simp: not_less)

lemma default_valid: "config_Validate default_config = []"
  by (simp add: valid_ranges default_config_def)

lemma Reload_result:
  "Reload parse dump text c =
     (if sc_reloading c then (False, c)
      else if config_Validate (LoadFromFile parse dump text) = [] then (True, LoadFromFile parse dump text)
      else (False, c))"
proof -
  have "sc_reloading (LoadFromFile parse dump text) = False"
    by (simp add: LoadFromFile_def LoadFromJsonObject_def default_config_def Let_def split: option.split)
  then show ?thesis
    by (cases c; cases "LoadFromFile parse dump text") (auto simp: Reload_def CanReloadWithoutRestart_def Let_def)
qed

fun reloads ::
  "(string \<Rightarrow> json option) \<Rightarrow> (json \<Rightarrow> string option) \<Rightarrow> string option list \<Rightarrow> server_config \<Rightarrow> server_config" where
  "reloads parse dump [] c = c"
| "reloads parse dump (t # ts) c = reloads parse dump ts (snd (Reload parse dump t c))"

lemma reloads_valid: "config_Validate c = [] \<Longrightarrow> config_Validate (reloads parse dump ts c) = []"
  by (induction ts arbitrary: c) (simp_all add: Reload_result)

lemma reloads_idle: "\<not> sc_reloading c \<Longrightarrow> \<not> sc_reloading (reloads parse dump ts c)"
proof (induction ts arbitrary: c)
  case (Cons t ts)
  have "\<not> sc_reloading (LoadFromFile parse dump t)"
    by (simp add: LoadFromFile_def LoadFromJsonObject_def default_config_def Let_def split: option.split)
  then show ?case using Cons by (simp add: Reload_result)
qed simp

text \<open>A reload takes over the whole new configuration when it is valid and changes nothing
  otherwise, so that after any reloads from the defaults the configuration is valid. A file that
  cannot be opened or is not JSON counts as the defaults: the reload succeeds and resets every option.\<close>
theorem reload_keeps_valid:
  "config_Validate (reloads parse dump ts default_config) = []
   \<and> Reload parse dump text (reloads parse dump ts default_config) =
      (if config_Validate (LoadFromFile parse dump text) = [] then (True, LoadFromFile parse dump text)
       else (False, reloads parse dump ts default_config))
   \<and> Reload parse dump None (reloads parse dump ts default_config) = (True, default_config)
   \<and> Reload (\<lambda>_. None) dump (Some t) (reloads parse dump ts default_config) = (True, default_config)"
proof -
  have "\<not> sc_reloading (reloads parse dump ts default_config)"
    by (rule reloads_idle) (simp add: default_config_def)
  then show ?thesis
    using reloads_valid[OF default_valid] default_valid by (simp add: Reload_result LoadFromFile_def)
qed

lemma high_word_vanishes: "4294967296 * word_of_int k = (0 :: 32 word)"
proof -
  have "(4294967296 :: 32 word) = 0" by simp
  then show ?thesis by (simp only: mult_zero_left)
qed

text \<open>An integer that does not fit its option is cut to its low bits before it is validated: a
  port of \<open>2 ^ 32 + 8080\<close> loads, and passes, as 8080.\<close>
theorem large_port_wraps:
  "LoadFromFile (\<lambda>_. Some (J_object [''server'' \<mapsto> J_object [''port'' \<mapsto> J_int (4294967296 * k + 8080)]]))
     (\<lambda>_. None) (Some t) = default_config
   \<and> config_Validate default_config = []"
  by (simp add: LoadFromFile_def LoadFromJsonObject_def load_group_def json_field_def load_server_def
      load_string_def load_bool_def load_int_def high_word_vanishes default_config_def default_valid[unfolded default_config_def])

end
