(* ===== verification/Sockets.thy ===== *)
theory Sockets
  imports Prelude "HOL-Library.Multiset"
begin

text \<open>
  Listening sockets: \<open>CreateListenSocket\<close> of src/server.cpp, reactor/socket_utils.cpp and
  reactor/multi_listen_socket.cpp with include/reactor/multi_listen_socket.h.

  The answers of the kernel to the calls made for one socket are a record; for a sequence of sockets they
  are a function of its position. What an operation does to descriptors is the list of events it
  adds to a log, in order. An exception is a result of its own. The answer of \<open>inet_pton\<close> is the
  parameter \<open>ip_ok\<close>.
\<close>

datatype sock_option = Reuse_addr | Reuse_port | Tcp_nodelay | Tcp_cork

datatype fd_event =
    Fd_opened int
  | Fd_option int sock_option
  | Fd_bound int u16
  | Fd_listening int int
  | Fd_closed int

record listen_answers =
  la_socket :: int
  la_option :: "sock_option \<Rightarrow> bool"
  la_bind :: bool
  la_listen :: bool
  la_strerror :: string

datatype listen_result = Listening int | Refused | Threw string

definition set_options :: "int \<Rightarrow> sock_option list \<Rightarrow> fd_event list" where
  "set_options fd os = map (Fd_option fd) os"

subsection \<open>One socket\<close>

text \<open>The function of server.cpp ignores what \<open>setsockopt\<close> answers.\<close>

definition CreateListenSocket :: "listen_answers \<Rightarrow> u16 \<Rightarrow> int \<Rightarrow> listen_result \<times> fd_event list" where
  "CreateListenSocket ans port backlog =
     (let fd = la_socket ans
      in if fd < 0 then (Refused, [])
         else let opened = Fd_opened fd # set_options fd (List.filter (la_option ans) [Reuse_addr])
              in if \<not> la_bind ans then (Refused, opened @ [Fd_closed fd])
                 else if \<not> la_listen ans then (Refused, opened @ [Fd_bound fd port, Fd_closed fd])
                 else (Listening fd, opened @ [Fd_bound fd port, Fd_listening fd backlog]))"

text \<open>The one of socket_utils.cpp throws.\<close>

definition CreateListenSocket_opts ::
  "listen_answers \<Rightarrow> u16 \<Rightarrow> int \<Rightarrow> bool \<Rightarrow> bool \<Rightarrow> listen_result \<times> fd_event list" where
  "CreateListenSocket_opts ans port backlog tcp_nodelay tcp_cork =
     (let fd = la_socket ans
      in if fd < 0 then (Threw ''socket failed'', [])
         else let opened = Fd_opened fd # set_options fd (List.filter (la_option ans)
                     (Reuse_addr # (if tcp_nodelay then [Tcp_nodelay] else []) @ (if tcp_cork then [Tcp_cork] else [])))
              in if \<not> la_bind ans then (Threw ''bind failed'', opened @ [Fd_closed fd])
                 else if \<not> la_listen ans then (Threw ''listen failed'', opened @ [Fd_bound fd port, Fd_closed fd])
                 else (Listening fd, opened @ [Fd_bound fd port, Fd_listening fd backlog]))"

text \<open>\<open>SetNonBlocking\<close> with the answer of \<open>F_GETFL\<close> and whether \<open>F_SETFL\<close> succeeds: the flags
  set, or the exception.\<close>

definition SetNonBlocking :: "int \<Rightarrow> bool \<Rightarrow> string + u32" where
  "SetNonBlocking flags set_ok =
     (if flags < 0 then Inl ''fcntl(F_GETFL) failed''
      else if \<not> set_ok then Inl ''fcntl(F_SETFL) failed''
      else Inr (or (word_of_int flags) 2048))"

text \<open>The one of \<open>MultiListenSocket\<close> stops at the first option that cannot be set.\<close>

fun first_options :: "(sock_option \<Rightarrow> bool) \<Rightarrow> sock_option list \<Rightarrow> sock_option list \<times> bool" where
  "first_options ok [] = ([], True)"
| "first_options ok (opt # os) =
     (if \<not> ok opt then ([], False) else let (set_ones, b) = first_options ok os in (opt # set_ones, b))"

definition SetSocketOptions :: "(sock_option \<Rightarrow> bool) \<Rightarrow> bool \<Rightarrow> bool \<Rightarrow> sock_option list \<times> bool" where
  "SetSocketOptions ok tcp_nodelay tcp_cork =
     first_options ok ([Reuse_addr, Reuse_port] @ (if tcp_nodelay then [Tcp_nodelay] else [])
       @ (if tcp_cork then [Tcp_cork] else []))"

text \<open>\<open>CreateSocketAddress\<close>: \<open>None\<close> where it throws, else the address is that of every interface or
  the one of \<open>ip\<close>.\<close>

definition CreateSocketAddress :: "(string \<Rightarrow> u32 option) \<Rightarrow> string \<Rightarrow> u16 \<Rightarrow> string + (u32 \<times> u16)" where
  "CreateSocketAddress inet_pton ip port =
     (if ip = [] \<or> ip = ''0.0.0.0'' then Inr (0, port)
      else case inet_pton ip of None \<Rightarrow> Inl (''Invalid IP address: '' @ ip) | Some a \<Rightarrow> Inr (a, port))"

definition multi_CreateListenSocket ::
  "(string \<Rightarrow> u32 option) \<Rightarrow> listen_answers \<Rightarrow> string \<Rightarrow> u16 \<Rightarrow> int \<Rightarrow> bool \<Rightarrow> bool \<Rightarrow>
   listen_result \<times> fd_event list" where
  "multi_CreateListenSocket inet_pton ans ip port backlog tcp_nodelay tcp_cork =
     (let fd = la_socket ans
      in if fd < 0 then (Refused, [])
         else let (os, ok) = SetSocketOptions (la_option ans) tcp_nodelay tcp_cork;
                  opened = Fd_opened fd # set_options fd os
              in if \<not> ok then (Refused, opened @ [Fd_closed fd])
                 else case CreateSocketAddress inet_pton ip port of
                   Inl e \<Rightarrow> (Threw e, opened)
                 | Inr addr \<Rightarrow>
                     if \<not> la_bind ans then (Refused, opened @ [Fd_closed fd])
                     else if \<not> la_listen ans then (Refused, opened @ [Fd_bound fd port, Fd_closed fd])
                     else (Listening fd, opened @ [Fd_bound fd port, Fd_listening fd backlog]))"

definition IsSOReusePortSupported :: "listen_answers \<Rightarrow> bool \<times> fd_event list" where
  "IsSOReusePortSupported ans =
     (let fd = la_socket ans
      in if fd < 0 then (False, [])
         else (la_option ans Reuse_port,
               Fd_opened fd # set_options fd (List.filter (la_option ans) [Reuse_port]) @ [Fd_closed fd]))"

subsection \<open>Several sockets on one port\<close>

record multi_listen =
  ml_fds :: "int list"
  ml_error :: string
  ml_valid :: bool
  ml_ip :: string
  ml_port :: u16
  ml_backlog :: int
  ml_tcp_nodelay :: bool
  ml_tcp_cork :: bool

definition GetSocketFd :: "multi_listen \<Rightarrow> nat \<Rightarrow> int" where
  "GetSocketFd s index = (if index \<ge> length (ml_fds s) then - 1 else ml_fds s ! index)"

definition CloseAll :: "multi_listen \<Rightarrow> multi_listen \<times> fd_event list" where
  "CloseAll s = (s\<lparr>ml_fds := [], ml_valid := False\<rparr>, map Fd_closed (List.filter (\<lambda>fd. 0 \<le> fd) (ml_fds s)))"

text \<open>The loop of \<open>CreateAndBindSockets\<close> from the \<open>i\<close>th socket on, with \<open>n\<close> to go. It
  runs up to the capacity the constructor has reserved, which is the number asked for.\<close>

fun CreateAndBindSockets ::
  "(string \<Rightarrow> u32 option) \<Rightarrow> (nat \<Rightarrow> listen_answers) \<Rightarrow> nat \<Rightarrow> nat \<Rightarrow> multi_listen \<Rightarrow>
   (string + bool) \<times> multi_listen \<times> fd_event list" where
  "CreateAndBindSockets inet_pton ans i 0 s = (Inr True, s, [])"
| "CreateAndBindSockets inet_pton ans i (Suc n) s =
     (case multi_CreateListenSocket inet_pton (ans i) (ml_ip s) (ml_port s) (ml_backlog s)
             (ml_tcp_nodelay s) (ml_tcp_cork s) of
        (Threw e, log) \<Rightarrow> (Inl e, s, log)
      | (Refused, log) \<Rightarrow>
          (Inr False, s\<lparr>ml_error := ''Failed to create socket '' @ dec i @ '': '' @ la_strerror (ans i)\<rparr>, log)
      | (Listening fd, log) \<Rightarrow>
          (case CreateAndBindSockets inet_pton ans (Suc i) n (s\<lparr>ml_fds := ml_fds s @ [fd]\<rparr>) of
             (r, s', log') \<Rightarrow> (r, s', log @ log')))"

text \<open>The constructor: the object, or the exception, after which no destructor runs. \<open>reserve\<close> throws
  above the greatest size of a vector of \<open>int\<close>.\<close>

definition max_fds :: int where
  "max_fds = 2305843009213693951"

definition new_multi_listen ::
  "(string \<Rightarrow> u32 option) \<Rightarrow> listen_answers \<Rightarrow> (nat \<Rightarrow> listen_answers) \<Rightarrow>
   string \<Rightarrow> u16 \<Rightarrow> nat \<Rightarrow> int \<Rightarrow> bool \<Rightarrow> bool \<Rightarrow> (string + multi_listen) \<times> fd_event list" where
  "new_multi_listen inet_pton probe ans ip port num_sockets backlog tcp_nodelay tcp_cork =
     (let s = \<lparr>ml_fds = [], ml_error = [], ml_valid = False, ml_ip = ip, ml_port = port, ml_backlog = backlog,
               ml_tcp_nodelay = tcp_nodelay, ml_tcp_cork = tcp_cork\<rparr>
      in if num_sockets = 0 then (Inr (s\<lparr>ml_error := ''Number of sockets must be greater than 0''\<rparr>), [])
         else let (supported, log) = IsSOReusePortSupported probe
              in if \<not> supported
                 then (Inr (s\<lparr>ml_error := ''SO_REUSEPORT is not supported on this system (requires Linux 3.9+)''\<rparr>), log)
                 else if int num_sockets > max_fds then (Inl ''vector::reserve'', log)
                 else case CreateAndBindSockets inet_pton ans 0 num_sockets s of
                   (Inl e, s, log') \<Rightarrow> (Inl e, log @ log')
                 | (Inr ok, s, log') \<Rightarrow>
                     if \<not> ok then let (s, closes) = CloseAll s in (Inr s, log @ log' @ closes)
                     else (Inr (s\<lparr>ml_valid := True\<rparr>), log @ log'))"

text \<open>Moving: the new object and the one moved from. A string moved from is empty.\<close>

definition move_construct :: "multi_listen \<Rightarrow> multi_listen \<times> multi_listen" where
  "move_construct other = (other, other\<lparr>ml_fds := [], ml_error := [], ml_valid := False, ml_ip := []\<rparr>)"

definition move_assign :: "multi_listen \<Rightarrow> multi_listen \<Rightarrow> (multi_listen \<times> multi_listen) \<times> fd_event list" where
  "move_assign this other =
     (let (this, closes) = CloseAll this
      in ((other, other\<lparr>ml_fds := [], ml_error := [], ml_valid := False, ml_ip := []\<rparr>), closes))"

subsection \<open>Descriptors are accounted for\<close>

fun opened_fds :: "fd_event list \<Rightarrow> int multiset" where
  "opened_fds [] = {#}"
| "opened_fds (Fd_opened fd # log) = add_mset fd (opened_fds log)"
| "opened_fds (_ # log) = opened_fds log"

fun closed_fds :: "fd_event list \<Rightarrow> int multiset" where
  "closed_fds [] = {#}"
| "closed_fds (Fd_closed fd # log) = add_mset fd (closed_fds log)"
| "closed_fds (_ # log) = closed_fds log"

lemma opened_append [simp]: "opened_fds (xs @ ys) = opened_fds xs + opened_fds ys"
  by (induction xs rule: opened_fds.induct) auto

lemma closed_append [simp]: "closed_fds (xs @ ys) = closed_fds xs + closed_fds ys"
  by (induction xs rule: closed_fds.induct) auto

lemma options_neutral [simp]: "opened_fds (set_options fd os) = {#}" "closed_fds (set_options fd os) = {#}"
  by (induction os) (simp_all add: set_options_def)

lemma closes [simp]: "opened_fds (map Fd_closed fds) = {#}" "closed_fds (map Fd_closed fds) = mset fds"
  by (induction fds) simp_all

text \<open>A listening socket is bound to the port, shares it, and listens.\<close>

definition listens_on :: "fd_event list \<Rightarrow> u16 \<Rightarrow> int \<Rightarrow> int \<Rightarrow> bool" where
  "listens_on log port backlog fd \<longleftrightarrow>
     0 \<le> fd \<and> Fd_option fd Reuse_port \<in> set log \<and> Fd_bound fd port \<in> set log \<and> Fd_listening fd backlog \<in> set log"

lemma listens_on_mono: "listens_on log port backlog fd \<Longrightarrow> listens_on (log' @ log @ log'') port backlog fd"
  by (simp add: listens_on_def)

lemma first_options_all: "first_options ok os = (done_os, True) \<Longrightarrow> done_os = os"
  by (induction os arbitrary: done_os) (auto split: if_splits prod.splits)

lemma multi_CreateListenSocket_ok:
  assumes "multi_CreateListenSocket inet_pton ans ip port backlog nd ck = (r, log)"
  shows "opened_fds log = closed_fds log
      + (case r of Listening fd \<Rightarrow> {# fd #} | Refused \<Rightarrow> {#} | Threw e \<Rightarrow> {# la_socket ans #})"
    and "r = Listening fd \<Longrightarrow> listens_on log port backlog fd"
    and "r = Threw e \<Longrightarrow> CreateSocketAddress inet_pton ip port = Inl e"
    and "r = Listening fd \<Longrightarrow> CreateSocketAddress inet_pton ip port \<noteq> Inl e"
  using assms
  by (auto simp: multi_CreateListenSocket_def Let_def listens_on_def SetSocketOptions_def set_options_def[symmetric]
      split: if_splits prod.splits sum.splits dest!: first_options_all) (auto simp: set_options_def)

lemma CreateAndBindSockets_ok:
  assumes "CreateAndBindSockets inet_pton ans i n s = (r, s', log)"
  shows "\<exists>fds. ml_fds s' = ml_fds s @ fds \<and> list_all (listens_on log (ml_port s) (ml_backlog s)) fds
     \<and> ml_valid s' = ml_valid s
     \<and> (case r of
          Inr ok \<Rightarrow> opened_fds log = closed_fds log + mset fds \<and> (ok \<longrightarrow> length fds = n)
        | Inl e \<Rightarrow> fds = [] \<and> opened_fds log = closed_fds log + {# la_socket (ans i) #}
            \<and> CreateSocketAddress inet_pton (ml_ip s) (ml_port s) = Inl e)"
  using assms
proof (induction n arbitrary: i s r s' log)
  case (Suc n)
  obtain r1 log1 where one: "multi_CreateListenSocket inet_pton (ans i) (ml_ip s) (ml_port s) (ml_backlog s)
      (ml_tcp_nodelay s) (ml_tcp_cork s) = (r1, log1)" by force
  note ok = multi_CreateListenSocket_ok[OF one]
  show ?case
  proof (cases r1)
    case (Listening fd)
    obtain r2 s2 log2 where rest:
      "CreateAndBindSockets inet_pton ans (Suc i) n (s\<lparr>ml_fds := ml_fds s @ [fd]\<rparr>) = (r2, s2, log2)"
      by (metis prod_cases3)
    from Suc.IH[OF rest] obtain fds where fds: "ml_fds s2 = ml_fds s @ fd # fds"
      "list_all (listens_on log2 (ml_port s) (ml_backlog s)) fds" "ml_valid s2 = ml_valid s"
      and r2: "case r2 of
          Inr ok \<Rightarrow> opened_fds log2 = closed_fds log2 + mset fds \<and> (ok \<longrightarrow> length fds = n)
        | Inl e \<Rightarrow> fds = [] \<and> opened_fds log2 = closed_fds log2 + {# la_socket (ans (Suc i)) #}
            \<and> CreateSocketAddress inet_pton (ml_ip s) (ml_port s) = Inl e"
      by (cases r2) auto
    obtain ok2 where "r2 = Inr ok2" using r2 ok(4)[OF Listening] by (cases r2) auto
    have "r = r2" "s' = s2" "log = log1 @ log2" using Suc.prems one rest Listening by simp_all
    moreover have "list_all (listens_on (log1 @ log2) (ml_port s) (ml_backlog s)) (fd # fds)"
      using ok(2)[OF Listening] listens_on_mono[of log1 _ _ _ "[]" log2]
        listens_on_mono[of log2 _ _ _ log1 "[]"] fds(2) by (auto simp: list_all_iff)
    ultimately show ?thesis using fds r2 \<open>r2 = Inr ok2\<close> ok(1) Listening
      by (intro exI[of _ "fd # fds"]) (auto split: sum.splits)
  qed (use Suc.prems one ok in auto)
qed simp

lemma new_multi_listen_ok:
  "case new_multi_listen inet_pton probe ans ip port n backlog nd ck of
     (Inr s, log) \<Rightarrow>
       opened_fds log = closed_fds log + mset (ml_fds s)
       \<and> list_all (listens_on log port backlog) (ml_fds s)
       \<and> length (ml_fds s) = (if ml_valid s then n else 0) \<and> ml_valid s = (ml_fds s \<noteq> [])
   | (Inl e, log) \<Rightarrow>
       if int n > max_fds then opened_fds log = closed_fds log
       else opened_fds log = closed_fds log + {# la_socket (ans 0) #}
         \<and> CreateSocketAddress inet_pton ip port = Inl e"
proof -
  let ?s = "\<lparr>ml_fds = [], ml_error = [], ml_valid = False, ml_ip = ip, ml_port = port, ml_backlog = backlog,
    ml_tcp_nodelay = nd, ml_tcp_cork = ck\<rparr>"
  obtain r s log where call: "CreateAndBindSockets inet_pton ans 0 n ?s = (r, s, log)" by (metis prod_cases3)
  obtain b log0 where probe: "IsSOReusePortSupported probe = (b, log0)" by force
  have log0: "opened_fds log0 = closed_fds log0"
    using probe by (auto simp: IsSOReusePortSupported_def Let_def split: if_splits)
  from CreateAndBindSockets_ok[OF call] have s: "list_all (listens_on log port backlog) (ml_fds s)" "\<not> ml_valid s"
    and r: "case r of
          Inr ok \<Rightarrow> opened_fds log = closed_fds log + mset (ml_fds s) \<and> (ok \<longrightarrow> length (ml_fds s) = n)
        | Inl e \<Rightarrow> opened_fds log = closed_fds log + {# la_socket (ans 0) #}
            \<and> CreateSocketAddress inet_pton ip port = Inl e"
    by (auto split: sum.splits)
  have "List.filter (\<lambda>fd. 0 \<le> fd) (ml_fds s) = ml_fds s"
    using s(1) by (auto simp: list_all_iff listens_on_def)
  moreover have "list_all (listens_on (log0 @ log) port backlog) (ml_fds s)"
    using s(1) listens_on_mono[of log _ _ _ log0 "[]"] by (auto simp: list_all_iff)
  ultimately show ?thesis
    using r s(2) log0 by (auto simp: new_multi_listen_def probe call CloseAll_def Let_def split: sum.splits)
qed

text \<open>The constructor opens all the sockets or none: whatever the kernel answers, either it holds as
  many as were asked for, each bound to the port with \<open>SO_REUSEPORT\<close> set and listening, and says
  it is valid, or it holds none and says it is not; every other descriptor it opened it has closed. Only the
  exception for a malformed address leaves one behind: the first socket is never closed.\<close>
theorem multi_listen_all_or_nothing:
  "case new_multi_listen inet_pton probe ans ip port n backlog nd ck of
     (Inr s, log) \<Rightarrow>
       opened_fds log = closed_fds log + mset (ml_fds s)
       \<and> list_all (listens_on log port backlog) (ml_fds s)
       \<and> length (ml_fds s) = (if ml_valid s then n else 0) \<and> ml_valid s = (ml_fds s \<noteq> [])
   | (Inl e, log) \<Rightarrow>
       if int n > max_fds then opened_fds log = closed_fds log
       else opened_fds log = closed_fds log + {# la_socket (ans 0) #}
         \<and> CreateSocketAddress inet_pton ip port = Inl e"
  by (rule new_multi_listen_ok)

subsection \<open>The life of the objects\<close>

text \<open>Objects in the order of their construction, \<open>None\<close> when destroyed. Using an object after its
  destruction is undefined; a constructor that throws ends the program.\<close>

datatype ml_op =
    Ml_construct listen_answers "nat \<Rightarrow> listen_answers" string u16 nat int bool bool
  | Ml_move nat
  | Ml_assign nat nat
  | Ml_close nat
  | Ml_destroy nat

type_synonym ml_store = "multi_listen option list"

definition ml_at :: "ml_store \<Rightarrow> nat \<Rightarrow> multi_listen option" where
  "ml_at objs i = (if i < length objs then objs ! i else None)"

fun ml_step :: "(string \<Rightarrow> u32 option) \<Rightarrow> ml_op \<Rightarrow> ml_store \<Rightarrow> (ml_store \<times> fd_event list) option" where
  "ml_step inet_pton (Ml_construct probe ans ip port n backlog nd ck) objs =
     (case new_multi_listen inet_pton probe ans ip port n backlog nd ck of
        (Inl e, log) \<Rightarrow> None
      | (Inr s, log) \<Rightarrow> Some (objs @ [Some s], log))"
| "ml_step inet_pton (Ml_move i) objs =
     map_option (\<lambda>other. let (s, other') = move_construct other in (objs[i := Some other'] @ [Some s], []))
       (ml_at objs i)"
| "ml_step inet_pton (Ml_assign i j) objs =
     (case (ml_at objs i, ml_at objs j) of
        (Some this, Some other) \<Rightarrow>
          if i = j then Some (objs, [])
          else let ((this', other'), log) = move_assign this other
               in Some (objs[i := Some this', j := Some other'], log)
      | _ \<Rightarrow> None)"
| "ml_step inet_pton (Ml_close i) objs =
     map_option (\<lambda>s. let (s', log) = CloseAll s in (objs[i := Some s'], log)) (ml_at objs i)"
| "ml_step inet_pton (Ml_destroy i) objs =
     map_option (\<lambda>s. let (s', log) = CloseAll s in (objs[i := None], log)) (ml_at objs i)"

fun ml_run :: "(string \<Rightarrow> u32 option) \<Rightarrow> ml_op list \<Rightarrow> ml_store \<Rightarrow> (ml_store \<times> fd_event list) option" where
  "ml_run inet_pton [] objs = Some (objs, [])"
| "ml_run inet_pton (a # as) objs =
     (case ml_step inet_pton a objs of
        None \<Rightarrow> None
      | Some (objs', log) \<Rightarrow> map_option (\<lambda>(objs'', log'). (objs'', log @ log')) (ml_run inet_pton as objs'))"

text \<open>The descriptors the objects hold.\<close>

fun held_fds :: "ml_store \<Rightarrow> int multiset" where
  "held_fds [] = {#}"
| "held_fds (None # objs) = held_fds objs"
| "held_fds (Some s # objs) = mset (ml_fds s) + held_fds objs"

definition ml_fine :: "multi_listen \<Rightarrow> bool" where
  "ml_fine s \<longleftrightarrow> list_all (\<lambda>fd. 0 \<le> fd) (ml_fds s) \<and> ml_valid s = (ml_fds s \<noteq> [])"

definition store_fine :: "ml_store \<Rightarrow> bool" where
  "store_fine objs \<longleftrightarrow> list_all (case_option True ml_fine) objs"

lemma held_append [simp]: "held_fds (xs @ ys) = held_fds xs + held_fds ys"
  by (induction xs rule: held_fds.induct) auto

lemma held_update:
  "i < length objs \<Longrightarrow> held_fds (objs[i := x]) + held_fds [objs ! i] = held_fds objs + held_fds [x]"
proof (induction objs arbitrary: i)
  case (Cons a objs)
  then show ?case by (cases i; cases a; cases x) (auto simp: ac_simps)
qed simp

lemma store_fine_update: "store_fine objs \<Longrightarrow> case_option True ml_fine x \<Longrightarrow> store_fine (objs[i := x])"
  unfolding store_fine_def list_all_iff using set_update_subset_insert[of objs i x] by blast

lemma ml_at_Some: "ml_at objs i = Some s \<Longrightarrow> i < length objs \<and> objs ! i = Some s"
  by (simp add: ml_at_def split: if_splits)

lemma store_fine_at: "store_fine objs \<Longrightarrow> ml_at objs i = Some s \<Longrightarrow> ml_fine s"
  by (auto simp: store_fine_def list_all_length dest!: ml_at_Some)

lemma CloseAll_fine:
  "ml_fine s \<Longrightarrow> CloseAll s = (s\<lparr>ml_fds := [], ml_valid := False\<rparr>, map Fd_closed (ml_fds s))"
proof -
  assume "ml_fine s"
  then have "List.filter (\<lambda>fd. 0 \<le> fd) (ml_fds s) = ml_fds s" by (auto simp: ml_fine_def list_all_iff)
  then show ?thesis by (simp add: CloseAll_def)
qed

lemma emptied_fine [simp]: "ml_fine (s\<lparr>ml_fds := [], ml_valid := False\<rparr>)"
  "ml_fine (s\<lparr>ml_fds := [], ml_error := e, ml_valid := False, ml_ip := ip\<rparr>)"
  by (simp_all add: ml_fine_def)

lemma held_replace:
  "ml_at objs i = Some s \<Longrightarrow> held_fds (objs[i := x]) + mset (ml_fds s) = held_fds objs + held_fds [x]"
  using held_update[of i objs x] by (auto dest!: ml_at_Some)

lemma ml_step_accounts:
  assumes "ml_step inet_pton a objs = Some (objs', log)" and fine: "store_fine objs"
  shows "store_fine objs' \<and> opened_fds log + held_fds objs = closed_fds log + held_fds objs'"
proof (cases a)
  case (Ml_construct probe ans ip port n backlog nd ck)
  then obtain s where s: "new_multi_listen inet_pton probe ans ip port n backlog nd ck = (Inr s, log)"
    "objs' = objs @ [Some s]" using assms(1) by (auto split: prod.splits sum.splits)
  have "opened_fds log = closed_fds log + mset (ml_fds s)" "ml_fine s"
    using new_multi_listen_ok[where inet_pton = inet_pton and probe = probe and ans = ans and ip = ip and
        port = port and n = n and backlog = backlog and nd = nd and ck = ck] s
    by (auto simp: ml_fine_def list_all_iff listens_on_def)
  then show ?thesis using s fine by (simp add: store_fine_def)
next
  case (Ml_move i)
  then obtain s where s: "ml_at objs i = Some s" and objs': "objs' =
      objs[i := Some (s\<lparr>ml_fds := [], ml_error := [], ml_valid := False, ml_ip := []\<rparr>)] @ [Some s]" "log = []"
    using assms(1) by (auto simp: move_construct_def)
  show ?thesis using held_replace[OF s] store_fine_at[OF fine s] store_fine_update[OF fine]
    by (simp add: objs' store_fine_def)
next
  case (Ml_assign i j)
  then obtain s t where s: "ml_at objs i = Some s" and t: "ml_at objs j = Some t"
    using assms(1) by (auto split: option.splits)
  note fs = store_fine_at[OF fine s] note ft = store_fine_at[OF fine t]
  let ?t = "Some (t\<lparr>ml_fds := [], ml_error := [], ml_valid := False, ml_ip := []\<rparr>)"
  show ?thesis
  proof (cases "i = j")
    case False
    then have objs': "objs' = objs[i := Some t, j := ?t]" "log = map Fd_closed (ml_fds s)"
      using assms(1) Ml_assign s t by (auto simp: move_assign_def CloseAll_fine[OF fs])
    have "ml_at (objs[i := Some t]) j = Some t" using t False by (auto simp: ml_at_def split: if_splits)
    from held_replace[OF this, of ?t] held_replace[OF s, of "Some t"]
    have "held_fds objs' + mset (ml_fds t) + mset (ml_fds s) = held_fds objs + mset (ml_fds t)"
      by (simp add: objs' ac_simps)
    then have "held_fds objs' + mset (ml_fds s) = held_fds objs" by (simp add: ac_simps)
    moreover have "store_fine objs'"
      unfolding objs' using store_fine_update[OF store_fine_update[OF fine]] ft by simp
    ultimately show ?thesis by (simp add: objs' ac_simps)
  qed (use assms Ml_assign s in auto)
next
  case (Ml_close i)
  then obtain s where s: "ml_at objs i = Some s" using assms(1) by auto
  show ?thesis using assms(1) Ml_close s held_replace[OF s] store_fine_update[OF fine]
    by (auto simp: CloseAll_fine[OF store_fine_at[OF fine s]] ac_simps)
next
  case (Ml_destroy i)
  then obtain s where s: "ml_at objs i = Some s" using assms(1) by auto
  show ?thesis using assms(1) Ml_destroy s held_replace[OF s] store_fine_update[OF fine]
    by (auto simp: CloseAll_fine[OF store_fine_at[OF fine s]] ac_simps)
qed

lemma ml_run_accounts:
  "ml_run inet_pton as objs = Some (objs', log) \<Longrightarrow> store_fine objs \<Longrightarrow>
   store_fine objs' \<and> opened_fds log + held_fds objs = closed_fds log + held_fds objs'"
proof (induction as arbitrary: objs objs' log)
  case (Cons a as)
  then obtain objs1 log1 log2 where steps: "ml_step inet_pton a objs = Some (objs1, log1)"
    "ml_run inet_pton as objs1 = Some (objs', log2)" "log = log1 @ log2"
    by (auto split: option.splits)
  from ml_step_accounts[OF steps(1) Cons.prems(2)] Cons.IH[OF steps(2)] show ?case
    by (auto simp: steps(3) ac_simps) (metis (no_types, lifting) add.assoc add.commute)
qed simp

text \<open>However the objects are built, moved, assigned, closed and destroyed, every descriptor they have opened is
  closed exactly as often as it was opened less the times a live object holds it, so that after the last
  destructor all is closed, once each; and an object says it is valid exactly when it holds a socket.\<close>
theorem listeners_close_what_they_open:
  assumes "ml_run inet_pton as [] = Some (objs, log)"
  shows "opened_fds log = closed_fds log + held_fds objs \<and> store_fine objs"
  using ml_run_accounts[OF assms] by (simp add: store_fine_def)

text \<open>Two sockets are opened, moved to a second object, and closed with it.\<close>

definition demo_answers :: "nat \<Rightarrow> listen_answers" where
  "demo_answers i = \<lparr>la_socket = 5 + int i, la_option = (\<lambda>_. True), la_bind = True, la_listen = True, la_strerror = []\<rparr>"

lemma ml_demo_run:
  "case ml_run (\<lambda>_. None)
      [Ml_construct (demo_answers 9) demo_answers [] 8080 2 1024 True False, Ml_move 0, Ml_destroy 1] [] of
     Some (objs, log) \<Rightarrow> held_fds objs = {#} \<and> opened_fds log = {# 14, 5, 6 #} | None \<Rightarrow> False"
  by code_simp

theorem listeners_close_what_they_open_witness:
  "\<exists>objs log. ml_run (\<lambda>_. None)
      [Ml_construct (demo_answers 9) demo_answers [] 8080 2 1024 True False, Ml_move 0, Ml_destroy 1] [] = Some (objs, log)
    \<and> closed_fds log = {# 14, 5, 6 #} \<and> held_fds objs = {#}"
proof -
  obtain objs log where run: "ml_run (\<lambda>_. None)
      [Ml_construct (demo_answers 9) demo_answers [] 8080 2 1024 True False, Ml_move 0, Ml_destroy 1] [] = Some (objs, log)"
    and "held_fds objs = {#}" "opened_fds log = {# 14, 5, 6 #}"
    using ml_demo_run by (auto split: option.splits prod.splits simp del: ml_run.simps)
  then show ?thesis using listeners_close_what_they_open[OF run] by simp
qed

end
