(* ===== verification/Server.thy ===== *)
theory Server
  imports EventLoop ServerConfig Sockets
begin

text \<open>
  The server (src/server.cpp, include/server.h) with its pool of event loops
  (reactor/event_loop_thread_pool.cpp): start-up in both modes, accepting connections, distributing
  them over the loops, and the table of connections.

  All loops of the process are a list of the model of event loops; the main loop is number 0, each
  loop the pool starts gets the next number. A connection object is its descriptor, its loop and the
  loops in whose threads it was established; objects are numbered in the order of their creation. The functors posted
  to loops are the data type below. What the connection does afterwards is the subject of its own
  theories; what plugins are told is a list of notifications. Answers of the kernel are arguments.
  \<open>None\<close> is undefined behaviour, and exceptions of the constructors are values. The log lists what
  happened to listening descriptors.
\<close>

datatype server_task =
    Establish nat
  | Listen int
  | Register int u32

record loop_pool =
  tp_num_threads :: int
  tp_next :: nat
  tp_loops :: "nat list"
  tp_assigned :: "int list"

record conn_obj =
  co_fd :: int
  co_loop :: nat
  co_established :: "nat list"

datatype conn_note = Conn_open int | Conn_close int

record server =
  sv_loops :: "server_task event_loop list"
  sv_pool :: loop_pool
  sv_listen_fd :: "int option"
  sv_accepting :: "(nat \<times> int) list"
  sv_ip :: string
  sv_port :: i32
  sv_backlog :: i32
  sv_objects :: "conn_obj list"
  sv_connections :: "int \<rightharpoonup> nat"
  sv_notes :: "conn_note list"
  sv_reuseport :: bool
  sv_num_sockets :: u64
  sv_multi :: "multi_listen option"

record os_answers =
  oa_epoll_ctl :: "int \<Rightarrow> bool"
  oa_eventfd :: "nat \<Rightarrow> int"
  oa_inet_pton :: "string \<Rightarrow> u32 option"
  oa_listen :: listen_answers
  oa_probe :: listen_answers
  oa_multi :: "nat \<Rightarrow> listen_answers"

definition EPOLLIN_ET :: u32 where
  "EPOLLIN_ET = or EPOLLIN (push_bit 31 1)"

subsection \<open>The pool of loops\<close>

definition new_loop_pool :: loop_pool where
  "new_loop_pool = \<lparr>tp_num_threads = 0, tp_next = 0, tp_loops = [], tp_assigned = []\<rparr>"

definition SetThreadNum :: "int \<Rightarrow> loop_pool \<Rightarrow> loop_pool" where
  "SetThreadNum n p = p\<lparr>tp_num_threads := n\<rparr>"

text \<open>The loop of a new thread; \<open>StartLoop\<close> returns when it exists.\<close>

definition fresh_loop :: "os_answers \<Rightarrow> nat \<Rightarrow> server_task event_loop" where
  "fresh_loop os i = new_event_loop (oa_epoll_ctl os (oa_eventfd os i)) (Register (oa_eventfd os i) EPOLLIN) (oa_eventfd os i)"

fun start_threads :: "os_answers \<Rightarrow> nat \<Rightarrow> server \<Rightarrow> server" where
  "start_threads os 0 s = s"
| "start_threads os (Suc n) s =
     (let i = length (sv_loops s)
      in start_threads os n (s\<lparr>sv_loops := sv_loops s @ [fresh_loop os i],
           sv_pool := (sv_pool s)\<lparr>tp_loops := tp_loops (sv_pool s) @ [i]\<rparr>\<rparr>))"

definition pool_Start :: "os_answers \<Rightarrow> server \<Rightarrow> server" where
  "pool_Start os s =
     (if tp_num_threads (sv_pool s) \<le> 0 then s else start_threads os (nat (tp_num_threads (sv_pool s))) s)"

fun quit_loops :: "nat list \<Rightarrow> server_task event_loop list \<Rightarrow> server_task event_loop list" where
  "quit_loops [] ls = ls"
| "quit_loops (i # is) ls = quit_loops is (ls[i := Quit False (ls ! i)])"

definition pool_Stop :: "server \<Rightarrow> server" where
  "pool_Stop s = s\<lparr>sv_loops := quit_loops (tp_loops (sv_pool s)) (sv_loops s),
     sv_pool := (sv_pool s)\<lparr>tp_loops := [], tp_next := 0\<rparr>\<rparr>"

text \<open>The index into \<open>loops_\<close> is not checked.\<close>

definition GetNextLoop :: "loop_pool \<Rightarrow> (nat \<times> loop_pool) option" where
  "GetNextLoop p =
     (if tp_loops p = [] then Some (0, p)
      else if tp_next p < length (tp_loops p)
           then Some (tp_loops p ! tp_next p, p\<lparr>tp_next := (tp_next p + 1) mod length (tp_loops p)\<rparr>)
           else None)"

definition GetLoopByIndex :: "loop_pool \<Rightarrow> nat \<Rightarrow> nat option" where
  "GetLoopByIndex p index = (if index \<ge> length (tp_loops p) then None else Some (tp_loops p ! index))"

definition GetThreadCount :: "loop_pool \<Rightarrow> nat" where
  "GetThreadCount p = length (tp_loops p)"

text \<open>For each thread the index of its socket is taken modulo their number.\<close>

definition AssignListenSockets :: "os_answers \<Rightarrow> int list \<Rightarrow> server \<Rightarrow> server option" where
  "AssignListenSockets os listen_fds s =
     (let s = s\<lparr>sv_pool := (sv_pool s)\<lparr>tp_assigned := listen_fds\<rparr>\<rparr>;
          s = (if tp_loops (sv_pool s) = [] then pool_Start os s else s)
      in if tp_loops (sv_pool s) \<noteq> [] \<and> listen_fds = [] then None else Some s)"

subsection \<open>Posting to loops\<close>

definition on_loop :: "nat \<Rightarrow> (server_task event_loop \<Rightarrow> server_task event_loop) \<Rightarrow> server \<Rightarrow> server" where
  "on_loop i f s = s\<lparr>sv_loops := (sv_loops s)[i := f (sv_loops s ! i)]\<rparr>"

text \<open>What a functor does on loop \<open>i\<close>, in its thread: \<open>ConnectEstablished\<close> sets the callbacks of the
  connection and registers it; the functor of \<open>SetupSOReusePortMode\<close> sets the accept callback and
  registers the listening socket. A callback for a descriptor replaces the one before.\<close>

fun server_exec :: "os_answers \<Rightarrow> nat \<Rightarrow> server_task \<Rightarrow> server \<Rightarrow> server" where
  "server_exec os i (Establish c) s =
     (let fd = co_fd (sv_objects s ! c);
          s = s\<lparr>sv_objects := (sv_objects s)[c := (sv_objects s ! c)
                  \<lparr>co_established := co_established (sv_objects s ! c) @ [i]\<rparr>],
                sv_accepting := removeAll (i, fd) (sv_accepting s)\<rparr>
      in on_loop i (\<lambda>l. UpdateEvent True (Register fd EPOLLIN_ET) (oa_epoll_ctl os fd) fd EPOLLIN_ET
                      (SetWriteCallback fd (SetReadCallback fd l))) s)"
| "server_exec os i (Listen fd) s =
     on_loop i (\<lambda>l. UpdateEvent True (Register fd EPOLLIN_ET) (oa_epoll_ctl os fd) fd EPOLLIN_ET (SetReadCallback fd l))
       (s\<lparr>sv_accepting := (i, fd) # sv_accepting s\<rparr>)"
| "server_exec os i (Register fd events) s =
     on_loop i (UpdateEvent True (Register fd events) (oa_epoll_ctl os fd) fd events) s"

definition post :: "os_answers \<Rightarrow> bool \<Rightarrow> nat \<Rightarrow> server_task \<Rightarrow> server \<Rightarrow> server" where
  "post os in_thread i task s =
     (if in_thread then server_exec os i task s else on_loop i (QueueInLoop False task) s)"

subsection \<open>Accepting\<close>

datatype accept_answer = Accepted int | Accept_again | Accept_interrupted | Accept_failed

text \<open>One accepted connection: the object, its entry in the table, the notification, the functor. The
  caller runs in the thread of loop \<open>here\<close>.\<close>

definition add_connection :: "os_answers \<Rightarrow> nat \<Rightarrow> nat \<Rightarrow> int \<Rightarrow> server \<Rightarrow> server" where
  "add_connection os here io_loop conn_fd s =
     (let c = length (sv_objects s);
          s = s\<lparr>sv_objects := sv_objects s @ [\<lparr>co_fd = conn_fd, co_loop = io_loop, co_established = []\<rparr>],
                sv_connections := (sv_connections s)(conn_fd \<mapsto> c),
                sv_notes := sv_notes s @ [Conn_open conn_fd]\<rparr>
      in post os (here = io_loop) io_loop (Establish c) s)"

text \<open>The loop of \<open>HandleAccept\<close>; no further answer means that nothing is pending.\<close>

fun HandleAccept :: "os_answers \<Rightarrow> accept_answer list \<Rightarrow> server \<Rightarrow> server option" where
  "HandleAccept os [] s = Some s"
| "HandleAccept os (Accept_again # as) s = Some s"
| "HandleAccept os (Accept_failed # as) s = Some s"
| "HandleAccept os (Accept_interrupted # as) s = HandleAccept os as s"
| "HandleAccept os (Accepted conn_fd # as) s =
     (case GetNextLoop (sv_pool s) of
        None \<Rightarrow> None
      | Some (io_loop, p) \<Rightarrow> HandleAccept os as (add_connection os 0 io_loop conn_fd (s\<lparr>sv_pool := p\<rparr>)))"

fun HandleAcceptInSubReactor :: "os_answers \<Rightarrow> nat \<Rightarrow> accept_answer list \<Rightarrow> server \<Rightarrow> server" where
  "HandleAcceptInSubReactor os sub_loop [] s = s"
| "HandleAcceptInSubReactor os sub_loop (Accept_again # as) s = s"
| "HandleAcceptInSubReactor os sub_loop (Accept_failed # as) s = s"
| "HandleAcceptInSubReactor os sub_loop (Accept_interrupted # as) s = HandleAcceptInSubReactor os sub_loop as s"
| "HandleAcceptInSubReactor os sub_loop (Accepted conn_fd # as) s =
     HandleAcceptInSubReactor os sub_loop as (add_connection os sub_loop sub_loop conn_fd s)"

definition RemoveConnection :: "int \<Rightarrow> server \<Rightarrow> server" where
  "RemoveConnection fd s =
     (let n = (if sv_connections s fd \<noteq> None then 1 else 0 :: nat);
          s = s\<lparr>sv_connections := (sv_connections s)(fd := None)\<rparr>
      in if n = 1 then s\<lparr>sv_notes := sv_notes s @ [Conn_close fd]\<rparr> else s)"

subsection \<open>Start-up\<close>

fun assign_accept :: "os_answers \<Rightarrow> int list \<Rightarrow> nat \<Rightarrow> nat \<Rightarrow> server \<Rightarrow> server" where
  "assign_accept os all_fds i 0 s = s"
| "assign_accept os all_fds i (Suc n) s =
     (case GetLoopByIndex (sv_pool s) i of
        None \<Rightarrow> assign_accept os all_fds (i + 1) n s
      | Some sub_loop \<Rightarrow>
          let socket_idx = i mod length all_fds;
              listen_fd = all_fds ! socket_idx
          in assign_accept os all_fds (i + 1) n (post os False sub_loop (Listen listen_fd) s))"

definition SetupSOReusePortMode :: "os_answers \<Rightarrow> server \<Rightarrow> ((string + server) \<times> fd_event list) option" where
  "SetupSOReusePortMode os s =
     (let num_sockets = unat (sv_num_sockets s);
          num_sockets = (if num_sockets = 0 then GetThreadCount (sv_pool s) else num_sockets)
      in case new_multi_listen (oa_inet_pton os) (oa_probe os) (oa_multi os) (sv_ip s) (ucast (sv_port s))
             num_sockets (sint (sv_backlog s)) True False of
        (Inl e, log) \<Rightarrow> Some (Inl e, log)
      | (Inr m, log) \<Rightarrow>
          if \<not> ml_valid m
          then Some (Inl (''Failed to create SO_REUSEPORT sockets: '' @ ml_error m), log)
          else let s = pool_Start os (s\<lparr>sv_multi := Some m\<rparr>)
               in map_option (\<lambda>s. (Inr (assign_accept os (ml_fds m) 0 (GetThreadCount (sv_pool s)) s), log))
                    (AssignListenSockets os (ml_fds m) s))"

definition SetupTraditionalMode :: "os_answers \<Rightarrow> server \<Rightarrow> (string + server) \<times> fd_event list" where
  "SetupTraditionalMode os s =
     (case CreateListenSocket (oa_listen os) (ucast (sv_port s)) (sint (sv_backlog s)) of
        (Listening fd, log) \<Rightarrow>
          (Inr (on_loop 0 (SetReadCallback fd) (s\<lparr>sv_listen_fd := Some fd, sv_accepting := [(0, fd)]\<rparr>)), log)
      | (_, log) \<Rightarrow> (Inl ''Failed to create listen socket'', log))"

definition setup_mode :: "os_answers \<Rightarrow> server \<Rightarrow> ((string + server) \<times> fd_event list) option" where
  "setup_mode os s = (if sv_reuseport s then SetupSOReusePortMode os s else Some (SetupTraditionalMode os s))"

definition blank_server ::
  "os_answers \<Rightarrow> string \<Rightarrow> i32 \<Rightarrow> i32 \<Rightarrow> loop_pool \<Rightarrow> int option \<Rightarrow> bool \<Rightarrow> u64 \<Rightarrow> server" where
  "blank_server os ip port backlog p listen_fd reuseport num =
     \<lparr>sv_loops = [fresh_loop os 0], sv_pool = p, sv_listen_fd = listen_fd, sv_accepting = [], sv_ip = ip, sv_port = port,
      sv_backlog = backlog, sv_objects = [], sv_connections = Map.empty, sv_notes = [], sv_reuseport = reuseport,
      sv_num_sockets = num, sv_multi = None\<rparr>"

definition new_server_at ::
  "os_answers \<Rightarrow> string \<Rightarrow> i32 \<Rightarrow> bool \<Rightarrow> u64 \<Rightarrow> ((string + server) \<times> fd_event list) option" where
  "new_server_at os ip port enabled num = setup_mode os (blank_server os ip port 1024 new_loop_pool (Some (- 1)) enabled num)"

text \<open>A null configuration is dereferenced before it is checked. The member \<open>listen_fd_\<close> is not
  initialised here: it is \<open>None\<close>, and reading it is undefined.\<close>

definition new_server :: "os_answers \<Rightarrow> server_config option \<Rightarrow> ((string + server) \<times> fd_event list) option" where
  "new_server os config =
     (case config of
        None \<Rightarrow> None
      | Some c \<Rightarrow>
          let o' = sc_server c;
              num = (scast (so_so_reuseport_sockets o') :: u64);
              num = (if num = 0 then scast (so_threads o') else num)
          in setup_mode os (blank_server os (so_ip o') (so_port o') (so_backlog o')
               (SetThreadNum (sint (so_threads o')) new_loop_pool) None (so_use_so_reuseport o') num))"

definition server_Start :: "os_answers \<Rightarrow> server \<Rightarrow> server" where
  "server_Start os s = pool_Start os s"

definition server_Stop :: "server \<Rightarrow> server" where
  "server_Stop s = pool_Stop (on_loop 0 (Quit True) s)"

text \<open>\<open>Run\<close> up to the call of \<open>Loop\<close>.\<close>

definition server_Run :: "os_answers \<Rightarrow> server \<Rightarrow> server option" where
  "server_Run os s =
     (if sv_reuseport s then Some s
      else map_option (\<lambda>fd. if fd \<ge> 0 then server_exec os 0 (Register fd EPOLLIN_ET) s else s) (sv_listen_fd s))"

text \<open>The destructor: the descriptors it closes.\<close>

definition server_destroy :: "server \<Rightarrow> fd_event list option" where
  "server_destroy s =
     map_option (\<lambda>fd. (if fd \<ge> 0 then [Fd_closed fd] else [])
         @ (case sv_multi s of None \<Rightarrow> [] | Some m \<Rightarrow> snd (CloseAll m)))
       (sv_listen_fd (server_Stop s))"

subsection \<open>Runs\<close>

text \<open>
  What happens to a running server: a descriptor is readable on a loop, a connection calls its close
  callback, a loop runs the functors posted to it. A readable descriptor that has no accept callback on
  that loop belongs to a connection.
\<close>

datatype server_event =
    Readable nat int "accept_answer list"
  | Removed int
  | Drain nat

fun exec_all :: "os_answers \<Rightarrow> nat \<Rightarrow> server_task list \<Rightarrow> server \<Rightarrow> server" where
  "exec_all os i [] s = s"
| "exec_all os i (f # fs) s = exec_all os i fs (server_exec os i f s)"

fun server_step :: "os_answers \<Rightarrow> server_event \<Rightarrow> server \<Rightarrow> server option" where
  "server_step os (Readable i fd as) s =
     (if (i, fd) \<notin> set (sv_accepting s) then Some s
      else if i = 0 then HandleAccept os as s
      else Some (HandleAcceptInSubReactor os i as s))"
| "server_step os (Removed fd) s = Some (RemoveConnection fd s)"
| "server_step os (Drain i) s =
     (if i < length (sv_loops s)
      then let (fs, l) = swap_pending (sv_loops s ! i)
           in Some (on_loop i end_calling (exec_all os i fs (on_loop i (\<lambda>_. l) s)))
      else Some s)"

fun server_run :: "os_answers \<Rightarrow> server_event list \<Rightarrow> server \<Rightarrow> server option" where
  "server_run os [] s = Some s"
| "server_run os (e # es) s = (case server_step os e s of None \<Rightarrow> None | Some s \<Rightarrow> server_run os es s)"

end
