(* ===== verification/ServerRuns.thy ===== *)
theory ServerRuns
  imports Server
begin

text \<open>
  Runs of the server: connections are spread over the loops in turn, each is established once in the
  thread of its loop, the table of connections agrees with what plugins are told, and what start-up with
  SO_REUSEPORT leads to.
\<close>

subsection \<open>Connections are established once, on their own loop\<close>

definition queues :: "server \<Rightarrow> server_task list list" where
  "queues s = map el_pending (sv_loops s)"

definition pending_count :: "server \<Rightarrow> nat \<Rightarrow> nat" where
  "pending_count s c = sum_list (map (\<lambda>q. count_list q (Establish c)) (queues s))"

text \<open>Either it was established in the thread of its loop, or the functor that does it is there once:
  posted, or in the batch \<open>fs\<close> a loop has taken.\<close>

definition once_with :: "server_task list \<Rightarrow> server \<Rightarrow> nat \<Rightarrow> bool" where
  "once_with fs s c \<longleftrightarrow>
     co_established (sv_objects s ! c)
       @ replicate (pending_count s c + count_list fs (Establish c)) (co_loop (sv_objects s ! c))
     = [co_loop (sv_objects s ! c)]"

definition at_home :: "nat set \<Rightarrow> server \<Rightarrow> nat \<Rightarrow> server_task list \<Rightarrow> bool" where
  "at_home A s i q \<longleftrightarrow> (\<forall>c. Establish c \<in> set q \<longrightarrow> c < length (sv_objects s) \<and> co_loop (sv_objects s ! c) = i)
     \<and> (\<forall>fd. Listen fd \<in> set q \<longrightarrow> i \<in> A)"

definition server_inv :: "nat set \<Rightarrow> server_task list \<Rightarrow> server \<Rightarrow> bool" where
  "server_inv A fs s \<longleftrightarrow>
     (\<forall>i < length (sv_loops s). at_home A s i (queues s ! i)) \<and>
     (\<forall>c < length (sv_objects s). once_with fs s c) \<and>
     (\<forall>i \<in> set (tp_loops (sv_pool s)). i < length (sv_loops s)) \<and> sv_loops s \<noteq> [] \<and>
     (\<forall>(i, fd) \<in> set (sv_accepting s). i < length (sv_loops s) \<and> i \<in> A) \<and>
     (if tp_loops (sv_pool s) = [] then tp_next (sv_pool s) = 0
      else tp_next (sv_pool s) < length (tp_loops (sv_pool s)))"

lemma length_queues [simp]: "length (queues s) = length (sv_loops s)"
  by (simp add: queues_def)

lemma pending_kept [simp]:
  "el_pending (UpdateEvent True again ok fd ev l) = el_pending l"
  "el_pending (SetReadCallback fd l) = el_pending l" "el_pending (SetWriteCallback fd l) = el_pending l"
  "el_pending (end_calling l) = el_pending l"
  by (auto simp: UpdateEvent_def SetReadCallback_def SetWriteCallback_def end_calling_def split: option.split)

lemma on_loop_frame [simp]:
  "sv_pool (on_loop i f s) = sv_pool s" "sv_objects (on_loop i f s) = sv_objects s"
  "sv_accepting (on_loop i f s) = sv_accepting s" "length (sv_loops (on_loop i f s)) = length (sv_loops s)"
  "sv_connections (on_loop i f s) = sv_connections s" "sv_notes (on_loop i f s) = sv_notes s"
  "sv_listen_fd (on_loop i f s) = sv_listen_fd s" "sv_reuseport (on_loop i f s) = sv_reuseport s"
  "sv_multi (on_loop i f s) = sv_multi s"
  by (simp_all add: on_loop_def)

lemma queues_on_loop: "i < length (sv_loops s) \<Longrightarrow>
    queues (on_loop i f s) = (queues s)[i := el_pending (f (sv_loops s ! i))]"
  by (simp add: queues_def on_loop_def map_update)

lemma queues_same [simp]: "i < length (sv_loops s) \<Longrightarrow> (queues s)[i := el_pending (sv_loops s ! i)] = queues s"
  by (simp add: queues_def list_eq_iff_nth_eq nth_list_update)

lemma map_update_same: "f x = f (xs ! i) \<Longrightarrow> map f (xs[i := x]) = map f xs"
  by (metis list_update_id map_update)

lemma queues_fields [simp]:
  "queues (s\<lparr>sv_objects := a, sv_accepting := b\<rparr>) = queues s" "queues (s\<lparr>sv_accepting := b\<rparr>) = queues s"
  "queues (s\<lparr>sv_pool := p\<rparr>) = queues s" "queues (s\<lparr>sv_notes := n\<rparr>) = queues s"
  "queues (s\<lparr>sv_connections := m\<rparr>) = queues s" "queues (s\<lparr>sv_objects := a\<rparr>) = queues s"
  by (simp_all add: queues_def)

lemma exec_frame [simp]:
  assumes "i < length (sv_loops s)"
  shows "sv_pool (server_exec os i f s) = sv_pool s" "length (sv_loops (server_exec os i f s)) = length (sv_loops s)"
    "map co_loop (sv_objects (server_exec os i f s)) = map co_loop (sv_objects s)"
    "sv_connections (server_exec os i f s) = sv_connections s" "sv_notes (server_exec os i f s) = sv_notes s"
    "queues (server_exec os i f s) = queues s"
    "length (sv_objects (server_exec os i f s)) = length (sv_objects s)"
  using assms by (cases f; simp add: Let_def queues_on_loop map_update_same)+

lemma exec_nonempty [simp]: "i < length (sv_loops s) \<Longrightarrow> sv_loops (server_exec os i f s) \<noteq> []"
  using exec_frame(2)[of i s os f] by fastforce

lemma exec_loop_of [simp]:
  "i < length (sv_loops s) \<Longrightarrow> c < length (sv_objects s) \<Longrightarrow>
   co_loop (sv_objects (server_exec os i f s) ! c) = co_loop (sv_objects s ! c)"
  using exec_frame(3)[of i s os f] by (metis exec_frame(7) nth_map)

lemma exec_accepting:
  "i < length (sv_loops s) \<Longrightarrow> set (sv_accepting (server_exec os i f s))
     \<subseteq> set (sv_accepting s) \<union> (case f of Listen fd \<Rightarrow> {(i, fd)} | _ \<Rightarrow> {})"
  by (cases f) (auto simp: Let_def)

lemma exec_once:
  assumes "once_with (f # fs) s c" "at_home A s i [f]" "i < length (sv_loops s)" "c < length (sv_objects s)"
  shows "once_with fs (server_exec os i f s) c"
proof (cases "f = Establish c")
  case True
  then have "co_loop (sv_objects s ! c) = i" using assms(2) by (simp add: at_home_def)
  moreover have "co_established (sv_objects (server_exec os i f s) ! c) = co_established (sv_objects s ! c) @ [i]"
    using True assms(4) by (simp add: Let_def)
  moreover have "co_established (sv_objects s ! c) = [] \<and> pending_count s c + count_list fs (Establish c) = 0"
    using assms(1) True by (cases "co_established (sv_objects s ! c)") (auto simp: once_with_def)
  ultimately show ?thesis using assms(3,4) by (simp add: once_with_def pending_count_def)
next
  case False
  then have "co_established (sv_objects (server_exec os i f s) ! c) = co_established (sv_objects s ! c)"
    using assms(4) by (cases f) (auto simp: Let_def nth_list_update)
  then show ?thesis using assms False by (simp add: once_with_def pending_count_def)
qed

lemma server_inv_exec:
  assumes inv: "server_inv A (f # fs) s" and home: "at_home A s i [f]" and i: "i < length (sv_loops s)"
  shows "server_inv A fs (server_exec os i f s)"
proof -
  have homes: "at_home A (server_exec os i f s) j q" if "at_home A s j q" for j q
    using that i by (auto simp: at_home_def)
  have "\<forall>(j, fd) \<in> set (sv_accepting (server_exec os i f s)). j < length (sv_loops s) \<and> j \<in> A"
    using exec_accepting[OF i, of os f] inv home i
    by (fastforce simp: server_inv_def at_home_def split: server_task.splits)
  then show ?thesis
    using inv i homes exec_once[OF _ home i] by (auto simp: server_inv_def simp del: server_exec.simps)
qed

lemma server_inv_exec_all:
  "server_inv A fs s \<Longrightarrow> at_home A s i fs \<Longrightarrow> i < length (sv_loops s) \<Longrightarrow>
   server_inv A [] (exec_all os i fs s) \<and> length (sv_loops (exec_all os i fs s)) = length (sv_loops s)
   \<and> queues (exec_all os i fs s) = queues s \<and> map co_loop (sv_objects (exec_all os i fs s)) = map co_loop (sv_objects s)
   \<and> sv_pool (exec_all os i fs s) = sv_pool s \<and> sv_connections (exec_all os i fs s) = sv_connections s
   \<and> sv_notes (exec_all os i fs s) = sv_notes s"
proof (induction fs arbitrary: s)
  case (Cons f fs)
  have "at_home A s i [f]" "at_home A (server_exec os i f s) i fs"
    using Cons.prems(2,3) by (auto simp: at_home_def)
  with Cons server_inv_exec[OF Cons.prems(1)] show ?case by (simp del: server_exec.simps)
qed simp

lemma pending_count_update:
  assumes "i < length (sv_loops s)" "queues t = (queues s)[i := q]"
  shows "pending_count t c + count_list (queues s ! i) (Establish c) = pending_count s c + count_list q (Establish c)"
proof -
  let ?g = "\<lambda>q. count_list q (Establish c)"
  have "?g (queues s ! i) \<le> sum_list (map ?g (queues s))"
    using elem_le_sum_list[of i "map ?g (queues s)"] assms(1) by simp
  moreover have "sum_list (map ?g ((queues s)[i := q])) = sum_list (map ?g (queues s)) + ?g q - ?g (queues s ! i)"
    using sum_list_update[of i "map ?g (queues s)" "?g q"] assms(1) by (simp only: map_update length_map length_queues nth_map)
  ultimately show ?thesis unfolding pending_count_def assms(2) by linarith
qed

lemma no_tasks_for_new:
  assumes "server_inv A fs s"
  shows "pending_count s (length (sv_objects s)) = 0"
proof -
  have "Establish (length (sv_objects s)) \<notin> set q" if q: "q \<in> set (queues s)" for q
  proof -
    obtain i where "i < length (sv_loops s)" "q = queues s ! i" using q by (auto simp: in_set_conv_nth)
    then have "at_home A s i q" using assms by (simp add: server_inv_def)
    then show ?thesis by (auto simp: at_home_def)
  qed
  then show ?thesis by (auto simp: pending_count_def sum_list_eq_0_iff)
qed

lemma pending_QueueInLoop [simp]: "el_pending (QueueInLoop b f l) = el_pending l @ [f]"
  by (simp add: QueueInLoop_def Wakeup_def Let_def)

lemma server_inv_queue:
  assumes inv: "server_inv A (f # fs) s" and home: "at_home A s i [f]" and i: "i < length (sv_loops s)"
  shows "server_inv A fs (on_loop i (QueueInLoop False f) s)" (is "server_inv A fs ?t")
proof -
  have q: "queues ?t = (queues s)[i := queues s ! i @ [f]]"
    using i by (simp add: queues_on_loop) (simp add: queues_def)
  have "pending_count ?t c = pending_count s c + count_list [f] (Establish c)" for c
    using pending_count_update[OF i q, of c] by simp
  then have "once_with fs ?t c = once_with (f # fs) s c" for c
    by (auto simp: once_with_def algebra_simps)
  moreover have "at_home A ?t j (queues ?t ! j)" if "j < length (sv_loops s)" for j
    using inv home that by (cases "j = i") (auto simp: q server_inv_def at_home_def)
  moreover have "sv_loops ?t \<noteq> []" using i by (auto simp: on_loop_def)
  ultimately show ?thesis using inv by (simp add: server_inv_def)
qed

lemma server_inv_take:
  assumes inv: "server_inv A [] s" and i: "i < length (sv_loops s)" and l: "el_pending l = []"
  shows "server_inv A (queues s ! i) (on_loop i (\<lambda>_. l) s)" (is "server_inv A ?q ?t")
proof -
  have q: "queues ?t = (queues s)[i := []]" using i l by (simp add: queues_on_loop)
  have "pending_count ?t c + count_list ?q (Establish c) = pending_count s c" for c
    using pending_count_update[OF i q, of c] by simp
  then have "once_with ?q ?t c = once_with [] s c" for c by (simp add: once_with_def)
  moreover have "at_home A ?t j (queues ?t ! j)" if "j < length (sv_loops s)" for j
    using inv that by (cases "j = i") (auto simp: q server_inv_def at_home_def)
  moreover have "sv_loops ?t \<noteq> []" using i by (auto simp: on_loop_def)
  ultimately show ?thesis using inv by (simp add: server_inv_def)
qed

lemma server_inv_post:
  "server_inv A (f # fs) s \<Longrightarrow> at_home A s i [f] \<Longrightarrow> i < length (sv_loops s) \<Longrightarrow>
   server_inv A fs (post os b i f s) \<and> length (sv_loops (post os b i f s)) = length (sv_loops s)
   \<and> map co_loop (sv_objects (post os b i f s)) = map co_loop (sv_objects s) \<and> sv_pool (post os b i f s) = sv_pool s
   \<and> sv_connections (post os b i f s) = sv_connections s \<and> sv_notes (post os b i f s) = sv_notes s
   \<and> length (sv_objects (post os b i f s)) = length (sv_objects s)"
  by (simp add: post_def server_inv_exec server_inv_queue)

lemma server_inv_new_object:
  assumes "server_inv A [] s"
  shows "server_inv A [Establish (length (sv_objects s))]
    (s\<lparr>sv_objects := sv_objects s @ [\<lparr>co_fd = fd, co_loop = i, co_established = []\<rparr>],
       sv_connections := m, sv_notes := n\<rparr>)" (is "server_inv A _ ?t")
proof -
  have q: "queues ?t = queues s" by (simp add: queues_def)
  have "once_with [Establish (length (sv_objects s))] ?t c" if "c < length (sv_objects ?t)" for c
  proof (cases "c = length (sv_objects s)")
    case True
    then show ?thesis using no_tasks_for_new[OF assms] by (simp add: once_with_def pending_count_def q)
  next
    case False
    then have "c < length (sv_objects s)" using that by simp
    then show ?thesis using assms by (auto simp: server_inv_def once_with_def pending_count_def q nth_append)
  qed
  moreover have "at_home A ?t j p" if "at_home A s j p" for j p
    using that by (auto simp: at_home_def nth_append)
  ultimately show ?thesis using assms by (simp add: server_inv_def q)
qed

text \<open>One accepted connection, and a whole accept loop.\<close>

lemma add_connection_ok:
  assumes "server_inv A [] s" "i < length (sv_loops s)"
  shows "server_inv A [] (add_connection os here i fd s)
    \<and> length (sv_loops (add_connection os here i fd s)) = length (sv_loops s)
    \<and> map co_loop (sv_objects (add_connection os here i fd s)) = map co_loop (sv_objects s) @ [i]
    \<and> sv_pool (add_connection os here i fd s) = sv_pool s
    \<and> length (sv_objects (add_connection os here i fd s)) = length (sv_objects s) + 1"
proof -
  let ?t = "s\<lparr>sv_objects := sv_objects s @ [\<lparr>co_fd = fd, co_loop = i, co_established = []\<rparr>],
      sv_connections := (sv_connections s)(fd \<mapsto> length (sv_objects s)), sv_notes := sv_notes s @ [Conn_open fd]\<rparr>"
  have "at_home A ?t i [Establish (length (sv_objects s))]" by (simp add: at_home_def)
  from server_inv_post[OF server_inv_new_object[OF assms(1)] this]
  show ?thesis using assms(2) by (simp add: add_connection_def Let_def)
qed

text \<open>The loops of the pool and their next index; \<open>L\<close> are the loops.\<close>

definition spread :: "nat list \<Rightarrow> nat \<Rightarrow> nat" where
  "spread L j = (if L = [] then 0 else L ! (j mod length L))"

lemma spread_threads: "spread [1..<1 + n] j = (if n = 0 then 0 else 1 + j mod n)"
  by (simp add: spread_def del: upt_Suc)

definition round_robin :: "nat list \<Rightarrow> server \<Rightarrow> bool" where
  "round_robin L s \<longleftrightarrow>
     tp_loops (sv_pool s) = L \<and> (L = [] \<or> tp_next (sv_pool s) = length (sv_objects s) mod length L) \<and>
     map co_loop (sv_objects s) = map (spread L) [0..<length (sv_objects s)]"

lemma server_inv_pool:
  "server_inv A [] s \<Longrightarrow> GetNextLoop (sv_pool s) = Some (i, p) \<Longrightarrow>
   server_inv A [] (s\<lparr>sv_pool := p\<rparr>) \<and> i < length (sv_loops s) \<and> tp_loops p = tp_loops (sv_pool s)"
  by (auto simp: server_inv_def at_home_def once_with_def pending_count_def GetNextLoop_def split: if_splits)

lemma HandleAccept_ok:
  "server_inv A [] s \<Longrightarrow> round_robin L s \<Longrightarrow>
   \<exists>t. HandleAccept os as s = Some t \<and> server_inv A [] t \<and> round_robin L t \<and> length (sv_loops t) = length (sv_loops s)"
proof (induction os as s rule: HandleAccept.induct)
  case (5 os fd as s)
  have "GetNextLoop (sv_pool s) \<noteq> None" using 5(2) by (auto simp: server_inv_def GetNextLoop_def)
  then obtain i p where next_one: "GetNextLoop (sv_pool s) = Some (i, p)" by force
  let ?t = "add_connection os 0 i fd (s\<lparr>sv_pool := p\<rparr>)"
  have i: "i < length (sv_loops s)" and inv: "server_inv A [] (s\<lparr>sv_pool := p\<rparr>)" and L: "tp_loops p = L"
    using server_inv_pool[OF 5(2) next_one] 5(3) by (simp_all add: round_robin_def)
  note ok = add_connection_ok[OF inv, of i os 0 fd]
  have "i = spread L (length (sv_objects s))" "L = [] \<or> tp_next p = (length (sv_objects s) + 1) mod length L"
    using next_one 5(3) by (auto simp: GetNextLoop_def round_robin_def spread_def mod_Suc_eq split: if_splits)
  then have "round_robin L ?t" using ok i L 5(3) by (simp add: round_robin_def)
  with 5(1)[OF next_one refl] ok i show ?case by (simp add: next_one)
qed auto

lemma HandleAcceptInSubReactor_ok:
  "server_inv A [] s \<Longrightarrow> i < length (sv_loops s) \<Longrightarrow>
   server_inv A [] (HandleAcceptInSubReactor os i as s)
   \<and> length (sv_loops (HandleAcceptInSubReactor os i as s)) = length (sv_loops s)
   \<and> set (map co_loop (sv_objects (HandleAcceptInSubReactor os i as s))) \<subseteq> insert i (set (map co_loop (sv_objects s)))"
proof (induction os i as s rule: HandleAcceptInSubReactor.induct)
  case (5 os i fd as s)
  note ok = add_connection_ok[OF 5(2,3), of os i fd]
  then have "set (map co_loop (sv_objects (add_connection os i i fd s))) = insert i (set (map co_loop (sv_objects s)))"
    by simp
  with 5(1) ok 5(3) show ?case by simp
qed auto

lemma drain_ok:
  assumes inv: "server_inv A [] s"
  shows "\<exists>t. server_step os (Drain i) s = Some t \<and> server_inv A [] t \<and> length (sv_loops t) = length (sv_loops s)
    \<and> map co_loop (sv_objects t) = map co_loop (sv_objects s) \<and> sv_pool t = sv_pool s
    \<and> sv_connections t = sv_connections s \<and> sv_notes t = sv_notes s
    \<and> queues t = (queues s)[i := []]"
proof (cases "i < length (sv_loops s)")
  case True
  obtain fs l where sw: "swap_pending (sv_loops s ! i) = (fs, l)" by force
  then have fs: "fs = queues s ! i" and l: "el_pending l = []"
    using True by (auto simp: swap_pending_def queues_def)
  let ?s = "on_loop i (\<lambda>_. l) s"
  note inv1 = server_inv_take[OF inv True l, folded fs]
  have "at_home A ?s i fs" using inv True by (simp add: server_inv_def fs at_home_def)
  note ok = server_inv_exec_all[OF inv1 this, of os]
  have q: "queues ?s = (queues s)[i := []]" using True l by (simp add: queues_on_loop)
  let ?t = "on_loop i end_calling (exec_all os i fs ?s)"
  have qt: "queues ?t = queues (exec_all os i fs ?s)"
  proof -
    have "i < length (sv_loops (exec_all os i fs ?s))" using ok True by simp
    then show ?thesis by (simp add: queues_on_loop)
  qed
  then have "server_inv A [] ?t"
    using ok True by (auto simp: server_inv_def at_home_def once_with_def pending_count_def on_loop_def)
  then show ?thesis using ok True qt q by (simp add: sw)
next
  case False
  then have "(queues s)[i := []] = queues s" by (simp add: list_update_beyond)
  then show ?thesis using inv False by simp
qed

lemma RemoveConnection_ok:
  "server_inv A [] s \<Longrightarrow> server_inv A [] (RemoveConnection fd s) \<and> sv_loops (RemoveConnection fd s) = sv_loops s
   \<and> sv_objects (RemoveConnection fd s) = sv_objects s \<and> sv_pool (RemoveConnection fd s) = sv_pool s"
  by (auto simp: RemoveConnection_def server_inv_def at_home_def once_with_def pending_count_def queues_def Let_def)

lemma readable_here:
  "server_inv A [] s \<Longrightarrow> (i, fd) \<in> set (sv_accepting s) \<Longrightarrow> i < length (sv_loops s) \<and> i \<in> A"
  by (auto simp: server_inv_def)

lemma round_robin_step:
  assumes "server_inv {0} [] s" "round_robin L s"
  shows "\<exists>t. server_step os e s = Some t \<and> server_inv {0} [] t \<and> round_robin L t
    \<and> length (sv_loops t) = length (sv_loops s)"
proof (cases e)
  case (Readable i fd as)
  then show ?thesis using assms HandleAccept_ok[OF assms, of os as] readable_here[OF assms(1)] by auto
next
  case (Removed fd)
  then show ?thesis using RemoveConnection_ok[OF assms(1), of fd] assms(2) by (simp add: round_robin_def)
next
  case (Drain i)
  obtain t where t: "server_step os (Drain i) s = Some t" "server_inv {0} [] t" "sv_pool t = sv_pool s"
    "map co_loop (sv_objects t) = map co_loop (sv_objects s)" "length (sv_loops t) = length (sv_loops s)"
    using drain_ok[OF assms(1)] by blast
  then have "round_robin L t" using assms(2) map_eq_imp_length_eq[OF t(4)] by (simp add: round_robin_def)
  then show ?thesis using t Drain by blast
qed

lemma round_robin_run:
  "server_inv {0} [] s \<Longrightarrow> round_robin L s \<Longrightarrow>
   \<exists>t. server_run os es s = Some t \<and> server_inv {0} [] t \<and> round_robin L t \<and> length (sv_loops t) = length (sv_loops s)"
proof (induction es arbitrary: s)
  case (Cons e es)
  obtain u where u: "server_step os e s = Some u" "server_inv {0} [] u" "round_robin L u"
    "length (sv_loops u) = length (sv_loops s)"
    using round_robin_step[OF Cons.prems] by blast
  from Cons.IH[OF u(2,3)] u(1,4) show ?case by (simp del: server_step.simps)
qed auto

lemma sub_reactor_step:
  assumes inv: "server_inv A [] s" and A: "0 \<notin> A" "set (map co_loop (sv_objects s)) \<subseteq> A"
  shows "\<exists>t. server_step os e s = Some t \<and> server_inv A [] t \<and> set (map co_loop (sv_objects t)) \<subseteq> A
    \<and> length (sv_loops t) = length (sv_loops s)"
proof (cases e)
  case (Readable i fd as)
  show ?thesis
  proof (cases "(i, fd) \<in> set (sv_accepting s)")
    case True
    note here = readable_here[OF inv True]
    then have "i \<noteq> 0" using A(1) by metis
    have "set (map co_loop (sv_objects (HandleAcceptInSubReactor os i as s))) \<subseteq> A"
      using HandleAcceptInSubReactor_ok[OF inv, of i os as] here A(2) by blast
    then show ?thesis
      using HandleAcceptInSubReactor_ok[OF inv, of i os as] here Readable True \<open>i \<noteq> 0\<close> by simp
  qed (use assms Readable in simp)
next
  case (Removed fd)
  then show ?thesis using RemoveConnection_ok[OF inv, of fd] A(2) by simp
next
  case (Drain i)
  then show ?thesis using drain_ok[OF inv, of os i] A(2) by metis
qed

lemma sub_reactor_run:
  "server_inv A [] s \<Longrightarrow> 0 \<notin> A \<Longrightarrow> set (map co_loop (sv_objects s)) \<subseteq> A \<Longrightarrow>
   \<exists>t. server_run os es s = Some t \<and> server_inv A [] t \<and> set (map co_loop (sv_objects t)) \<subseteq> A
    \<and> length (sv_loops t) = length (sv_loops s)"
proof (induction es arbitrary: s)
  case (Cons e es)
  obtain u where u: "server_step os e s = Some u" "server_inv A [] u" "set (map co_loop (sv_objects u)) \<subseteq> A"
    "length (sv_loops u) = length (sv_loops s)"
    using sub_reactor_step[OF Cons.prems] by blast
  from Cons.IH[OF u(2) Cons.prems(2) u(3)] u(1,4) show ?case by (simp del: server_step.simps)
qed auto

subsection \<open>The table of connections\<close>

text \<open>The descriptors plugins were told are open, and the connections they were told of.\<close>

fun open_after :: "conn_note list \<Rightarrow> int set \<Rightarrow> int set" where
  "open_after [] X = X"
| "open_after (Conn_open fd # ns) X = open_after ns (insert fd X)"
| "open_after (Conn_close fd # ns) X = open_after ns (X - {fd})"

fun opens :: "conn_note list \<Rightarrow> int list" where
  "opens [] = []"
| "opens (Conn_open fd # ns) = fd # opens ns"
| "opens (Conn_close fd # ns) = opens ns"

definition table_ok :: "int list \<Rightarrow> (int \<rightharpoonup> nat) \<Rightarrow> conn_note list \<Rightarrow> bool" where
  "table_ok F m notes \<longleftrightarrow>
     dom m = open_after notes {} \<and> opens notes = F
     \<and> (\<forall>fd c. m fd = Some c \<longrightarrow> c < length F \<and> F ! c = fd \<and> fd \<notin> set (drop (Suc c) F))"

definition table_inv :: "server \<Rightarrow> bool" where
  "table_inv s \<longleftrightarrow> table_ok (map co_fd (sv_objects s)) (sv_connections s) (sv_notes s)"

lemma open_after_append [simp]: "open_after (xs @ ys) X = open_after ys (open_after xs X)"
  by (induction xs X rule: open_after.induct) auto

lemma opens_append [simp]: "opens (xs @ ys) = opens xs @ opens ys"
  by (induction xs rule: opens.induct) auto

lemma exec_fds: "map co_fd (sv_objects (server_exec os i f s)) = map co_fd (sv_objects s)"
  "sv_connections (server_exec os i f s) = sv_connections s" "sv_notes (server_exec os i f s) = sv_notes s"
  by (cases f; simp add: Let_def map_update_same)+

lemma table_inv_cong:
  assumes "map co_fd (sv_objects t) = map co_fd (sv_objects s)" "sv_connections t = sv_connections s" "sv_notes t = sv_notes s"
  shows "table_inv t = table_inv s"
  using assms by (simp add: table_inv_def)

lemma table_inv_exec: "table_inv (server_exec os i f s) = table_inv s"
  by (rule table_inv_cong) (simp_all add: exec_fds del: server_exec.simps)

lemma table_inv_on_loop [simp]: "table_inv (on_loop i f s) = table_inv s"
  by (rule table_inv_cong) simp_all

lemma table_inv_post: "table_inv (post os b i f s) = table_inv s"
  by (simp add: post_def table_inv_exec)

lemma table_inv_exec_all: "table_inv (exec_all os i fs s) = table_inv s"
  by (induction fs arbitrary: s) (simp_all add: table_inv_exec del: server_exec.simps)

lemma table_inv_pool [simp]: "table_inv (s\<lparr>sv_pool := p\<rparr>) = table_inv s"
  by (rule table_inv_cong) simp_all

lemma table_ok_add: "table_ok F m notes \<Longrightarrow> table_ok (F @ [fd]) (m(fd \<mapsto> length F)) (notes @ [Conn_open fd])"
  by (fastforce simp: table_ok_def nth_append split: if_splits)

lemma table_inv_add: "table_inv s \<Longrightarrow> table_inv (add_connection os here i fd s)"
  using table_ok_add[of "map co_fd (sv_objects s)" "sv_connections s" "sv_notes s" fd]
  by (simp add: add_connection_def Let_def table_inv_post) (simp add: table_inv_def)

lemma table_ok_remove: "table_ok F m notes \<Longrightarrow> table_ok F (m(fd := None)) (notes @ [Conn_close fd])"
  by (auto simp: table_ok_def)

lemma table_inv_remove: "table_inv s \<Longrightarrow> table_inv (RemoveConnection fd s)"
  using table_ok_remove[of "map co_fd (sv_objects s)" "sv_connections s" "sv_notes s" fd]
  by (auto simp: RemoveConnection_def table_inv_def Let_def fun_upd_idem split: if_splits)

lemma table_inv_accept: "HandleAccept os as s = Some t \<Longrightarrow> table_inv s \<Longrightarrow> table_inv t"
  by (induction os as s rule: HandleAccept.induct) (auto simp: table_inv_add split: option.splits)

lemma table_inv_accept_sub: "table_inv s \<Longrightarrow> table_inv (HandleAcceptInSubReactor os i as s)"
  by (induction os i as s rule: HandleAcceptInSubReactor.induct) (auto simp: table_inv_add)

lemma table_inv_step: "server_step os e s = Some t \<Longrightarrow> table_inv s \<Longrightarrow> table_inv t"
  by (cases e) (auto simp: table_inv_remove table_inv_accept table_inv_accept_sub table_inv_exec_all Let_def
      split: if_splits prod.splits)

lemma table_inv_run: "server_run os es s = Some t \<Longrightarrow> table_inv s \<Longrightarrow> table_inv t"
  by (induction es arbitrary: s) (auto simp: table_inv_step split: option.splits simp del: server_step.simps)

subsection \<open>Start-up\<close>

lemma fresh_pending [simp]: "el_pending (fresh_loop os i) = []"
  by (simp add: fresh_loop_def new_event_loop_def)

lemma start_threads_frame:
  "queues (start_threads os n s) = queues s @ replicate n []"
  "length (sv_loops (start_threads os n s)) = length (sv_loops s) + n"
  "tp_loops (sv_pool (start_threads os n s)) = tp_loops (sv_pool s) @ [length (sv_loops s)..<length (sv_loops s) + n]"
  "tp_next (sv_pool (start_threads os n s)) = tp_next (sv_pool s)"
  "tp_num_threads (sv_pool (start_threads os n s)) = tp_num_threads (sv_pool s)"
  "sv_objects (start_threads os n s) = sv_objects s" "sv_accepting (start_threads os n s) = sv_accepting s"
  "sv_connections (start_threads os n s) = sv_connections s" "sv_notes (start_threads os n s) = sv_notes s"
  "sv_reuseport (start_threads os n s) = sv_reuseport s" "sv_listen_fd (start_threads os n s) = sv_listen_fd s"
  by (induction n arbitrary: s)
    (auto simp: Let_def queues_def upt_conv_Cons append_eq_append_conv2 intro: exI)

lemma pending_of_queues: "queues t = queues s @ replicate n [] \<Longrightarrow> pending_count t c = pending_count s c"
  by (simp add: pending_count_def sum_list_replicate)

lemma server_inv_start:
  assumes "server_inv A [] s"
  shows "server_inv A [] (pool_Start os s)"
proof -
  have "server_inv A [] (start_threads os n s)" for n
  proof -
    note frame = start_threads_frame[of os n s]
    have "at_home A (start_threads os n s) i (queues (start_threads os n s) ! i)"
      if "i < length (sv_loops s) + n" for i
      using assms that by (auto simp: frame nth_append server_inv_def at_home_def)
    moreover have "once_with [] (start_threads os n s) c = once_with [] s c" for c
      by (simp add: once_with_def frame pending_of_queues[OF frame(1)])
    moreover have "sv_loops (start_threads os n s) \<noteq> []"
    proof -
      have "0 < length (sv_loops s)" using assms by (simp add: server_inv_def)
      then show ?thesis using frame(2) by (simp flip: length_greater_0_conv)
    qed
    ultimately show ?thesis using assms by (auto simp: server_inv_def frame split: if_splits)
  qed
  then show ?thesis using assms by (simp add: pool_Start_def)
qed

definition threads_of :: "loop_pool \<Rightarrow> nat" where
  "threads_of p = nat (tp_num_threads p)"

lemma pool_Start_frame:
  "queues (pool_Start os s) = queues s @ replicate (threads_of (sv_pool s)) []"
  "length (sv_loops (pool_Start os s)) = length (sv_loops s) + threads_of (sv_pool s)"
  "tp_loops (sv_pool (pool_Start os s)) =
     tp_loops (sv_pool s) @ [length (sv_loops s)..<length (sv_loops s) + threads_of (sv_pool s)]"
  "tp_next (sv_pool (pool_Start os s)) = tp_next (sv_pool s)"
  "threads_of (sv_pool (pool_Start os s)) = threads_of (sv_pool s)"
  "sv_objects (pool_Start os s) = sv_objects s" "sv_accepting (pool_Start os s) = sv_accepting s"
  "sv_connections (pool_Start os s) = sv_connections s" "sv_notes (pool_Start os s) = sv_notes s"
  "sv_reuseport (pool_Start os s) = sv_reuseport s" "sv_listen_fd (pool_Start os s) = sv_listen_fd s"
  by (simp_all add: pool_Start_def threads_of_def start_threads_frame)

lemma blank_inv: "server_inv A [] (blank_server os ip port b p fd r num)" if "tp_loops p = []" "tp_next p = 0"
  using that by (simp add: server_inv_def blank_server_def queues_def at_home_def)

text \<open>What the constructor has made of a configuration, in either mode.\<close>

definition config_blank :: "os_answers \<Rightarrow> server_config \<Rightarrow> server" where
  "config_blank os c =
     (let o' = sc_server c; num = (scast (so_so_reuseport_sockets o') :: u64);
          num = (if num = 0 then scast (so_threads o') else num)
      in blank_server os (so_ip o') (so_port o') (so_backlog o')
           (SetThreadNum (sint (so_threads o')) new_loop_pool) None (so_use_so_reuseport o') num)"

lemma new_server_blank: "new_server os (Some c) = setup_mode os (config_blank os c)"
  by (simp add: new_server_def config_blank_def Let_def)

lemma config_blank_fields:
  "queues (config_blank os c) = [[]]" "length (sv_loops (config_blank os c)) = 1" "tp_loops (sv_pool (config_blank os c)) = []"
  "tp_next (sv_pool (config_blank os c)) = 0"
  "threads_of (sv_pool (config_blank os c)) = nat (sint (so_threads (sc_server c)))"
  "sv_objects (config_blank os c) = []" "sv_accepting (config_blank os c) = []"
  "sv_connections (config_blank os c) = Map.empty" "sv_notes (config_blank os c) = []"
  "sv_reuseport (config_blank os c) = so_use_so_reuseport (sc_server c)" "sv_listen_fd (config_blank os c) = None"
  "server_inv A [] (config_blank os c)"
  by (simp_all add: config_blank_def blank_server_def queues_def SetThreadNum_def new_loop_pool_def threads_of_def Let_def
      blank_inv[unfolded blank_server_def])

lemma traditional_start:
  assumes new: "new_server os (Some c) = Some (Inr s0, log)" and mode: "\<not> so_use_so_reuseport (sc_server c)"
  obtains fd where "sv_listen_fd s0 = Some fd" "0 \<le> fd" "server_inv {0} [] s0" "length (sv_loops s0) = 1"
    "tp_loops (sv_pool s0) = []" "tp_next (sv_pool s0) = 0" "sv_objects s0 = []" "\<not> sv_reuseport s0"
    "threads_of (sv_pool s0) = nat (sint (so_threads (sc_server c)))" "table_inv s0"
proof -
  note f = config_blank_fields[where os = os and c = c]
  obtain fd where fd: "s0 = on_loop 0 (SetReadCallback fd)
      ((config_blank os c)\<lparr>sv_listen_fd := Some fd, sv_accepting := [(0, fd)]\<rparr>)" "0 \<le> fd"
    using new mode f(10) by (auto simp: new_server_blank setup_mode_def SetupTraditionalMode_def
        CreateListenSocket_def Let_def split: listen_result.splits if_splits)
  have len: "0 < length (sv_loops (config_blank os c))" using f(2) by simp
  have q: "queues s0 = [[]]"
    using f(1) len by (cases "sv_loops (config_blank os c)") (simp_all add: fd queues_def on_loop_def)
  have fields: "length (sv_loops s0) = 1" "sv_loops s0 \<noteq> []" "tp_loops (sv_pool s0) = []" "sv_objects s0 = []"
    "sv_accepting s0 = [(0, fd)]" "tp_next (sv_pool s0) = 0"
    using f len by (auto simp: fd on_loop_def)
  then have "server_inv {0} [] s0" by (simp add: server_inv_def q at_home_def)
  then show thesis using f mode by (intro that[of fd]) (simp_all add: fd table_inv_def table_ok_def)
qed

definition started :: "os_answers \<Rightarrow> server_event list \<Rightarrow> server \<Rightarrow> server option" where
  "started os es s = Option.bind (server_Run os (server_Start os s)) (server_run os es)"

lemma server_inv_register:
  "server_inv A [] s \<Longrightarrow> i < length (sv_loops s) \<Longrightarrow> server_inv A [] (server_exec os i (Register fd ev) s)"
  by (rule server_inv_exec) (simp_all add: at_home_def server_inv_def once_with_def)

lemma all_established_once:
  "server_inv A [] s \<Longrightarrow> list_all (once_with [] s) [0..<length (sv_objects s)]"
  by (simp add: server_inv_def list_all_iff)

text \<open>C9: In the traditional mode the main loop accepts, and hands the connections to the loops of the pool in
  turn: whatever is accepted, closed and run in whatever order, the \<open>j\<close>th connection ever accepted
  belongs to loop \<open>1 + j mod n\<close> of the \<open>n\<close> configured threads, or to the main loop when there
  are none. Each is established once, in the thread of its loop, or the functor that does it is waiting
  there. Nothing undefined happens.\<close>
theorem connections_spread_evenly:
  assumes "new_server os (Some c) = Some (Inr s0, log)" and "\<not> so_use_so_reuseport (sc_server c)"
  shows "case started os es s0 of
      None \<Rightarrow> False
    | Some s \<Rightarrow>
        map co_loop (sv_objects s)
          = map (\<lambda>j. let n = nat (sint (so_threads (sc_server c))) in if n = 0 then 0 else 1 + j mod n)
              [0..<length (sv_objects s)]
        \<and> list_all (once_with [] s) [0..<length (sv_objects s)]"
proof -
  from traditional_start[OF assms] obtain fd where s0: "sv_listen_fd s0 = Some fd" "0 \<le> fd" "server_inv {0} [] s0"
    "length (sv_loops s0) = 1" "tp_loops (sv_pool s0) = []" "tp_next (sv_pool s0) = 0" "sv_objects s0 = []"
    "\<not> sv_reuseport s0" "threads_of (sv_pool s0) = nat (sint (so_threads (sc_server c)))" "table_inv s0" .
  let ?n = "nat (sint (so_threads (sc_server c)))"
  let ?s1 = "server_exec os 0 (Register fd EPOLLIN_ET) (server_Start os s0)"
  have len: "0 < length (sv_loops (server_Start os s0))" using s0(4) by (simp add: server_Start_def pool_Start_frame)
  have run: "server_Run os (server_Start os s0) = Some ?s1"
    using s0(1,2,8) by (simp add: server_Run_def server_Start_def pool_Start_frame del: server_exec.simps)
  have inv: "server_inv {0} [] ?s1"
    using server_inv_register[OF server_inv_start[OF s0(3)]] len by (simp add: server_Start_def del: server_exec.simps)
  have "map co_loop (sv_objects ?s1) = []" "tp_loops (sv_pool ?s1) = [1..<1 + ?n]" "tp_next (sv_pool ?s1) = 0"
    using len s0 by (simp_all add: server_Start_def pool_Start_frame del: server_exec.simps)
  then have "round_robin [1..<1 + ?n] ?s1" by (auto simp: round_robin_def)
  from round_robin_run[OF inv this, of os es] obtain s where s: "started os es s0 = Some s" "server_inv {0} [] s"
    "round_robin [1..<1 + ?n] s" by (auto simp: started_def run simp del: server_exec.simps)
  have "spread [1..<1 + ?n] = (\<lambda>j. if ?n = 0 then 0 else 1 + j mod ?n)"
    by (rule ext) (rule spread_threads)
  then show ?thesis
    using s(1,3) all_established_once[OF s(2)] by (simp add: round_robin_def Let_def)
qed

text \<open>In the other mode each thread of the pool gets one of the listening sockets.\<close>

definition listen_task :: "int list \<Rightarrow> nat \<Rightarrow> server_task list" where
  "listen_task fds i = [Listen (fds ! (i mod length fds))]"

lemma replicate_Suc_at: "(xs @ replicate (Suc k) y)[length xs := z] = xs @ [z] @ replicate k y"
  by simp

lemma assign_accept_ok:
  assumes "tp_loops (sv_pool s) = [1..<1 + n]" "length (sv_loops s) = 1 + n" "i + k = n"
    "queues s = ([] # map (listen_task fds) [0..<i]) @ replicate k []" "server_inv {1..n} [] s"
  shows "queues (assign_accept os fds i k s) = [] # map (listen_task fds) [0..<n]
    \<and> server_inv {1..n} [] (assign_accept os fds i k s)
    \<and> length (sv_loops (assign_accept os fds i k s)) = 1 + n
    \<and> sv_pool (assign_accept os fds i k s) = sv_pool s \<and> sv_objects (assign_accept os fds i k s) = sv_objects s
    \<and> sv_reuseport (assign_accept os fds i k s) = sv_reuseport s
    \<and> sv_listen_fd (assign_accept os fds i k s) = sv_listen_fd s
    \<and> table_inv (assign_accept os fds i k s) = table_inv s"
  using assms
proof (induction k arbitrary: i s)
  case (Suc k)
  have loop: "GetLoopByIndex (sv_pool s) i = Some (1 + i)"
    using Suc.prems(1,3) by (simp add: GetLoopByIndex_def del: upt_Suc)
  let ?f = "Listen (fds ! (i mod length fds))"
  let ?t = "on_loop (1 + i) (QueueInLoop False ?f) s"
  have len: "1 + i < length (sv_loops s)" using Suc.prems(2,3) by simp
  have "server_inv {1..n} [?f] s" using Suc.prems(5) by (simp add: server_inv_def once_with_def)
  moreover have "at_home {1..n} s (1 + i) [?f]" using Suc.prems(3) by (simp add: at_home_def)
  ultimately have inv: "server_inv {1..n} [] ?t" using server_inv_queue len by blast
  have at: "length ([] # map (listen_task fds) [0..<i]) = 1 + i" by simp
  have "queues s ! (1 + i) = []" unfolding Suc.prems(4) by (simp add: nth_append)
  then have "queues ?t = (queues s)[1 + i := [?f]]"
    using len by (simp add: queues_on_loop) (simp add: queues_def)
  also have "\<dots> = ([] # map (listen_task fds) [0..<Suc i]) @ replicate k []"
    using replicate_Suc_at[of "[] # map (listen_task fds) [0..<i]" k "[]" "[?f]"]
    unfolding Suc.prems(4) at by (simp add: listen_task_def)
  finally have q: "queues ?t = ([] # map (listen_task fds) [0..<Suc i]) @ replicate k []" .
  from Suc.IH[of ?t "Suc i", OF _ _ _ q inv] Suc.prems(1-3) loop
  show ?case by (simp add: post_def Let_def)
qed auto

lemma reuseport_start:
  assumes new: "new_server os (Some c) = Some (Inr s0, log)" and mode: "so_use_so_reuseport (sc_server c)"
  defines "n \<equiv> nat (sint (so_threads (sc_server c)))"
  obtains m :: multi_listen where "ml_valid m" "queues s0 = [] # map (listen_task (ml_fds m)) [0..<n]"
    "server_inv {1..n} [] s0" "length (sv_loops s0) = 1 + n" "threads_of (sv_pool s0) = n"
    "sv_objects s0 = []" "sv_reuseport s0" "sv_listen_fd s0 = None" "table_inv s0"
    "list_all (listens_on log (ucast (so_port (sc_server c))) (sint (so_backlog (sc_server c)))) (ml_fds m)" "ml_fds m \<noteq> []"
proof -
  note f = config_blank_fields[where os = os and c = c]
  let ?b = "config_blank os c"
  define num where "num = (if unat (sv_num_sockets ?b) = 0 then GetThreadCount (sv_pool ?b) else unat (sv_num_sockets ?b))"
  obtain r log1 where ml: "new_multi_listen (oa_inet_pton os) (oa_probe os) (oa_multi os) (sv_ip ?b) (ucast (sv_port ?b))
      num (sint (sv_backlog ?b)) True False = (r, log1)" by force
  have set_up: "SetupSOReusePortMode os ?b = Some (Inr s0, log)"
    using new mode f(10) by (simp add: new_server_blank setup_mode_def)
  then obtain m where m: "r = Inr m" "ml_valid m" "log = log1"
    by (auto simp: SetupSOReusePortMode_def num_def[symmetric] ml Let_def split: sum.splits if_splits)
  let ?s1 = "pool_Start os (?b\<lparr>sv_multi := Some m\<rparr>)"
  let ?s2 = "?s1\<lparr>sv_pool := (sv_pool ?s1)\<lparr>tp_assigned := ml_fds m\<rparr>\<rparr>"
  note ok = new_multi_listen_ok[where inet_pton = "oa_inet_pton os" and probe = "oa_probe os" and ans = "oa_multi os" and
      ip = "sv_ip ?b" and port = "ucast (sv_port ?b)" and n = num and backlog = "sint (sv_backlog ?b)" and nd = True and ck = False,
      unfolded ml m(1), simplified]
  have fds: "ml_fds m \<noteq> []" using ok m(2) by auto
  have bm: "server_inv A [] (?b\<lparr>sv_multi := Some m\<rparr>)" "queues (?b\<lparr>sv_multi := Some m\<rparr>) = [[]]" for A
    using f(12)[of A] f(1) by (auto simp: server_inv_def at_home_def once_with_def pending_count_def queues_def)
  note fr = pool_Start_frame[of os "?b\<lparr>sv_multi := Some m\<rparr>"]
  have nt: "threads_of (sv_pool ?b) = n" using f(5) by (simp add: n_def)
  have inv: "server_inv {1..n} [] ?s2"
    using server_inv_start[OF bm(1), of "{1..n}" os]
    by (auto simp: server_inv_def at_home_def once_with_def pending_count_def)
  have s2: "tp_loops (sv_pool ?s2) = [1..<1 + n]" "length (sv_loops ?s2) = 1 + n"
    "queues ?s2 = ([] # map (listen_task (ml_fds m)) [0..<0]) @ replicate n []" "sv_objects ?s2 = []" "sv_reuseport ?s2"
    "sv_listen_fd ?s2 = None" "threads_of (sv_pool ?s2) = n"
    using f mode fr nt bm(2) by (simp_all add: threads_of_def)
  have again: "(if tp_loops (sv_pool ?s2) = [] then pool_Start os ?s2 else ?s2) = ?s2"
    using s2(1,7) by (auto simp: pool_Start_def threads_of_def)
  have assign: "AssignListenSockets os (ml_fds m) ?s1 = Some ?s2"
    using again fds by (simp add: AssignListenSockets_def Let_def)
  have s0: "s0 = assign_accept os (ml_fds m) 0 n ?s2"
    using set_up s2(1) by (simp add: SetupSOReusePortMode_def num_def[symmetric] ml m(1,2) assign GetThreadCount_def Let_def del: upt_Suc)
  have port: "sv_port ?b = so_port (sc_server c)" "sv_backlog ?b = so_backlog (sc_server c)"
    by (simp_all add: config_blank_def blank_server_def Let_def)
  have "sv_pool s0 = sv_pool ?s2" "sv_objects s0 = sv_objects ?s2" "sv_reuseport s0 = sv_reuseport ?s2"
    "sv_listen_fd s0 = sv_listen_fd ?s2"
    using assign_accept_ok[OF s2(1,2) _ s2(3) inv, of os] unfolding s0 by simp_all
  with s2 have fields: "threads_of (sv_pool s0) = n" "sv_objects s0 = []" "sv_reuseport s0" "sv_listen_fd s0 = None"
    by metis+
  have "list_all (listens_on log (ucast (so_port (sc_server c))) (sint (so_backlog (sc_server c)))) (ml_fds m)"
    using ok by (simp add: m port)
  moreover have "queues s0 = [] # map (listen_task (ml_fds m)) [0..<n]" "server_inv {1..n} [] s0"
    "length (sv_loops s0) = 1 + n"
    using assign_accept_ok[OF s2(1,2) _ s2(3) inv, of os] unfolding s0 by simp_all
  moreover have "table_inv ?s2" using f fr by (simp add: table_inv_def table_ok_def)
  then have "table_inv s0" using assign_accept_ok[OF s2(1,2) add_0 s2(3) inv, of os] unfolding s0 by blast
  ultimately show thesis using that[of m] m(2) fields fds by blast
qed

text \<open>With SO_REUSEPORT every socket of the list is bound to the port and listening, and each of the
  \<open>n\<close> loops started by the constructor is posted one of them. \<open>Start\<close> then starts the pool
  a second time: there are \<open>2 * n\<close> loops, and whatever happens, the loops from \<open>n + 1\<close> on never
  get a connection. The others are established once, in the thread that accepted them.\<close>
theorem second_pool_never_serves:
  assumes "new_server os (Some c) = Some (Inr s0, log)" and "so_use_so_reuseport (sc_server c)"
  shows "\<exists>fds n. n = nat (sint (so_threads (sc_server c))) \<and> fds \<noteq> []
    \<and> list_all (listens_on log (ucast (so_port (sc_server c))) (sint (so_backlog (sc_server c)))) fds
    \<and> queues (server_Start os s0) = [] # map (listen_task fds) [0..<n] @ replicate n []
    \<and> (case started os es s0 of
          None \<Rightarrow> False
        | Some s \<Rightarrow> length (sv_loops s) = 1 + 2 * n \<and> set (map co_loop (sv_objects s)) \<subseteq> {1..n}
            \<and> list_all (once_with [] s) [0..<length (sv_objects s)])"
proof -
  let ?n = "nat (sint (so_threads (sc_server c)))"
  from reuseport_start[OF assms] obtain m :: multi_listen where m: "ml_valid m"
    "queues s0 = [] # map (listen_task (ml_fds m)) [0..<?n]" "server_inv {1..?n} [] s0" "length (sv_loops s0) = 1 + ?n"
    "threads_of (sv_pool s0) = ?n" "sv_objects s0 = []" "sv_reuseport s0" "sv_listen_fd s0 = None" "table_inv s0"
    "list_all (listens_on log (ucast (so_port (sc_server c))) (sint (so_backlog (sc_server c)))) (ml_fds m)" "ml_fds m \<noteq> []" .
  let ?s1 = "server_Start os s0"
  have "server_inv {1..?n} [] ?s1" "sv_objects ?s1 = []" "length (sv_loops ?s1) = 1 + 2 * ?n"
    "queues ?s1 = [] # map (listen_task (ml_fds m)) [0..<?n] @ replicate ?n []" "sv_reuseport ?s1"
    using m by (simp_all add: server_Start_def server_inv_start pool_Start_frame)
  moreover from sub_reactor_run[OF this(1), of os es] this
  obtain s where "started os es s0 = Some s" "server_inv {1..?n} [] s" "set (map co_loop (sv_objects s)) \<subseteq> {1..?n}"
    "length (sv_loops s) = 1 + 2 * ?n"
    by (auto simp: started_def server_Run_def)
  ultimately show ?thesis using m(10,11) all_established_once[of "{1..?n}" s] by (intro exI[of _ "ml_fds m"] exI[of _ ?n]) simp
qed

text \<open>The constructor from a configuration leaves the listening descriptor uninitialised when it uses several
  sockets, and the destructor reads it; in the other mode it closes the one socket.\<close>
theorem reuseport_destructor_undefined:
  assumes "new_server os (Some c) = Some (Inr s0, log)"
  shows "server_destroy s0 =
    (if so_use_so_reuseport (sc_server c) then None else Some [Fd_closed (la_socket (oa_listen os))])"
proof (cases "so_use_so_reuseport (sc_server c)")
  case True
  have "sv_listen_fd s0 = None" by (rule reuseport_start[OF assms True])
  then show ?thesis using True by (simp add: server_destroy_def server_Stop_def pool_Stop_def)
next
  case False
  then have "setup_mode os (config_blank os c) = Some (SetupTraditionalMode os (config_blank os c))"
    using config_blank_fields(10)[of os c] by (simp add: setup_mode_def)
  then have "SetupTraditionalMode os (config_blank os c) = (Inr s0, log)"
    using assms by (simp add: new_server_blank)
  then obtain fd where "s0 = on_loop 0 (SetReadCallback fd)
      ((config_blank os c)\<lparr>sv_listen_fd := Some fd, sv_accepting := [(0, fd)]\<rparr>)" "0 \<le> fd" "fd = la_socket (oa_listen os)"
    by (auto simp: SetupTraditionalMode_def CreateListenSocket_def Let_def split: listen_result.splits if_splits)
  moreover have "sv_multi (config_blank os c) = None" by (simp add: config_blank_def blank_server_def Let_def)
  ultimately show ?thesis using False by (simp add: server_destroy_def server_Stop_def pool_Stop_def)
qed



subsection \<open>Whatever the mode\<close>

lemma table_inv_start: "table_inv (server_Start os s) = table_inv s"
  by (rule table_inv_cong) (simp_all add: server_Start_def pool_Start_frame)

lemma table_inv_Run: "server_Run os s = Some t \<Longrightarrow> table_inv t = table_inv s"
  by (auto simp: server_Run_def table_inv_exec simp del: server_exec.simps split: if_splits)

lemma started_inv:
  assumes new: "new_server os (Some c) = Some (Inr s0, log)" and s: "started os es s0 = Some s"
  shows "table_inv s \<and> (\<exists>A. server_inv A [] s)"
proof -
  obtain s1 where s1: "server_Run os (server_Start os s0) = Some s1" "server_run os es s1 = Some s"
    using s by (auto simp: started_def bind_eq_Some_conv)
  have table: "table_inv s" if "table_inv s0"
    using that s1 by (auto simp: table_inv_Run table_inv_start intro: table_inv_run)
  show ?thesis
  proof (cases "so_use_so_reuseport (sc_server c)")
    case True
    then obtain A where A: "server_inv A [] s0" "sv_objects s0 = []" "sv_reuseport s0" "table_inv s0" "0 \<notin> A"
      by (rule reuseport_start[OF new]) (metis atLeastAtMost_iff not_one_le_zero)
    then have "server_inv A [] s1" "sv_objects s1 = []"
      using s1(1) by (auto simp: server_Run_def server_Start_def pool_Start_frame server_inv_start)
    with sub_reactor_run[OF this(1) A(5), of os es] s1(2) table A(4) show ?thesis by auto
  next
    case False
    then obtain fd where A: "server_inv {0} [] s0" "sv_listen_fd s0 = Some fd" "0 \<le> fd" "sv_objects s0 = []"
      "length (sv_loops s0) = 1" "\<not> sv_reuseport s0" "table_inv s0" "tp_next (sv_pool s0) = 0"
      by (rule traditional_start[OF new])
    have len: "0 < length (sv_loops (server_Start os s0))" using A(5) by (simp add: server_Start_def pool_Start_frame)
    have "s1 = server_exec os 0 (Register fd EPOLLIN_ET) (server_Start os s0)"
      using s1(1) A(2,3,6) by (simp add: server_Run_def server_Start_def pool_Start_frame del: server_exec.simps)
    moreover have "server_inv {0} [] (server_Start os s0)" using A(1) by (simp add: server_Start_def server_inv_start)
    ultimately have "server_inv {0} [] s1" "sv_objects s1 = []" "tp_next (sv_pool s1) = 0"
      using server_inv_register len A(4,8) by (auto simp: server_Start_def pool_Start_frame)
    then have "round_robin (tp_loops (sv_pool s1)) s1" by (simp add: round_robin_def)
    from round_robin_run[OF \<open>server_inv {0} [] s1\<close> this, of os es] s1(2) table A(7) show ?thesis by auto
  qed
qed


lemma drains_ok:
  "server_inv A [] s \<Longrightarrow>
   \<exists>t. server_run os (map Drain js) s = Some t \<and> server_inv A [] t
     \<and> map co_loop (sv_objects t) = map co_loop (sv_objects s) \<and> length (queues t) = length (queues s)
     \<and> (\<forall>j < length (queues s). queues t ! j = (if j \<in> set js then [] else queues s ! j))"
proof (induction js arbitrary: s)
  case (Cons i js)
  obtain u where u: "server_step os (Drain i) s = Some u" "server_inv A [] u"
    "map co_loop (sv_objects u) = map co_loop (sv_objects s)" "queues u = (queues s)[i := []]"
    using drain_ok[OF Cons.prems] by blast
  obtain t where "server_run os (map Drain js) u = Some t" "server_inv A [] t"
    "map co_loop (sv_objects t) = map co_loop (sv_objects u)" "length (queues t) = length (queues u)"
    "\<forall>j < length (queues u). queues t ! j = (if j \<in> set js then [] else queues u ! j)"
    using Cons.IH[OF u(2)] by blast
  then show ?case using u by (auto simp: nth_list_update simp del: server_step.simps length_queues)
qed auto

text \<open>C22: Every accepted connection gets established: from whatever state a running server has reached, once every loop
  has made one more turn each connection accepted so far has been established exactly once, in the thread
  of its own loop.\<close>
theorem accepted_connections_get_established:
  assumes "new_server os (Some c) = Some (Inr s0, log)" and "started os es s0 = Some s"
  shows "case server_run os (map Drain [0..<length (sv_loops s)]) s of
      None \<Rightarrow> False
    | Some t \<Rightarrow> map co_established (sv_objects t) = map (\<lambda>x. [co_loop x]) (sv_objects s)"
proof -
  obtain A where "server_inv A [] s" using started_inv[OF assms] by blast
  from drains_ok[OF this, of os "[0..<length (sv_loops s)]"]
  obtain t where t: "server_run os (map Drain [0..<length (sv_loops s)]) s = Some t" "server_inv A [] t"
    "map co_loop (sv_objects t) = map co_loop (sv_objects s)" "length (queues t) = length (queues s)"
    "\<forall>j < length (queues s). queues t ! j = []" by auto
  have "set (queues t) \<subseteq> {[]}" using t(4,5) by (auto simp: in_set_conv_nth)
  then have "pending_count t c = 0" for c by (force simp: pending_count_def sum_list_eq_0_iff)
  then have "co_established (sv_objects t ! c) = [co_loop (sv_objects t ! c)]" if "c < length (sv_objects t)" for c
    using t(2) that by (simp add: server_inv_def once_with_def)
  then have "map co_established (sv_objects t) = map (\<lambda>l. [l]) (map co_loop (sv_objects t))"
    by (simp add: list_eq_iff_nth_eq)
  then show ?thesis by (simp add: t(1,3) del: server_run.simps)
qed

subsection \<open>Examples\<close>

definition demo_os :: os_answers where
  "demo_os = \<lparr>oa_epoll_ctl = (\<lambda>_. True), oa_eventfd = (\<lambda>i. 100 + int i), oa_inet_pton = (\<lambda>_. None),
     oa_listen = demo_answers 0, oa_probe = demo_answers 9, oa_multi = demo_answers\<rparr>"

definition demo_config :: server_config where
  "demo_config = default_config\<lparr>sc_server := (sc_server default_config)\<lparr>so_threads := 2\<rparr>\<rparr>"

definition reuse_config :: server_config where
  "reuse_config = default_config\<lparr>sc_server := (sc_server default_config)\<lparr>so_threads := 2, so_use_so_reuseport := True\<rparr>\<rparr>"

definition demo_events :: "server_event list" where
  "demo_events = [Drain 1, Drain 2, Readable 0 5 [Accepted 20, Accept_interrupted, Accepted 21, Accept_again],
     Readable 1 5 [Accepted 30], Drain 1, Removed 20, Readable 0 5 [Accepted 20]]"

lemma demo_started:
  "case new_server demo_os (Some demo_config) of
     Some (Inr s0, log) \<Rightarrow>
       (case started demo_os demo_events s0 of Some s \<Rightarrow> map co_fd (sv_objects s) = [20, 21, 20] | None \<Rightarrow> False)
   | _ \<Rightarrow> False"
  by code_simp

lemma reuse_started:
  "case new_server demo_os (Some reuse_config) of
     Some (Inr s0, log) \<Rightarrow>
       (case started demo_os demo_events s0 of Some s \<Rightarrow> map co_loop (sv_objects s) = [1] | None \<Rightarrow> False)
   | _ \<Rightarrow> False"
  by code_simp

lemma demo_run:
  obtains s0 log s where "new_server demo_os (Some demo_config) = Some (Inr s0, log)" "started demo_os demo_events s0 = Some s"
    "map co_fd (sv_objects s) = [20, 21, 20]"
  using demo_started by (auto split: option.splits sum.splits prod.splits)

lemma reuse_run:
  obtains s0 log s where "new_server demo_os (Some reuse_config) = Some (Inr s0, log)" "started demo_os demo_events s0 = Some s"
    "map co_loop (sv_objects s) = [1]"
  using reuse_started by (auto split: option.splits sum.splits prod.splits)

lemma demo_options:
  "\<not> so_use_so_reuseport (sc_server demo_config)" "sint (so_threads (sc_server demo_config)) = 2"
  "so_use_so_reuseport (sc_server reuse_config)" "sint (so_threads (sc_server reuse_config)) = 2"
  by (simp_all add: demo_config_def reuse_config_def default_config_def)

theorem connections_spread_evenly_witness:
  "\<exists>s0 log s. new_server demo_os (Some demo_config) = Some (Inr s0, log) \<and> started demo_os demo_events s0 = Some s
    \<and> map co_loop (sv_objects s) = [1, 2, 1]"
proof -
  from demo_run obtain s0 log s where run: "new_server demo_os (Some demo_config) = Some (Inr s0, log)"
    "started demo_os demo_events s0 = Some s" "map co_fd (sv_objects s) = [20, 21, 20]" .
  have "length (sv_objects s) = 3" using arg_cong[OF run(3), of length] by simp
  then show ?thesis
    using connections_spread_evenly[OF run(1) demo_options(1), of demo_events] run
    by (simp add: demo_options numeral_3_eq_3 Let_def)
qed

theorem second_pool_never_serves_witness:
  "\<exists>s0 log s. new_server demo_os (Some reuse_config) = Some (Inr s0, log) \<and> started demo_os demo_events s0 = Some s
    \<and> length (sv_loops s) = 5 \<and> set (map co_loop (sv_objects s)) \<subseteq> {1..2} \<and> sv_objects s \<noteq> []"
proof -
  from reuse_run obtain s0 log s where run: "new_server demo_os (Some reuse_config) = Some (Inr s0, log)"
    "started demo_os demo_events s0 = Some s" "map co_loop (sv_objects s) = [1]" .
  from second_pool_never_serves[OF run(1) demo_options(3), of demo_events] run show ?thesis
    by (auto simp: demo_options)
qed


theorem accepted_connections_get_established_witness:
  "\<exists>s0 log s t. new_server demo_os (Some reuse_config) = Some (Inr s0, log) \<and> started demo_os demo_events s0 = Some s
    \<and> server_run demo_os (map Drain [0..<length (sv_loops s)]) s = Some t \<and> map co_established (sv_objects t) = [[1]]"
proof -
  from reuse_run obtain s0 log s where run: "new_server demo_os (Some reuse_config) = Some (Inr s0, log)"
    "started demo_os demo_events s0 = Some s" "map co_loop (sv_objects s) = [1]" .
  then have "map (\<lambda>x. [co_loop x]) (sv_objects s) = [[1]]" by auto
  with accepted_connections_get_established[OF run(1,2)] run show ?thesis by (auto split: option.splits)
qed

theorem reuseport_destructor_undefined_witness:
  "\<exists>s0 log. new_server demo_os (Some reuse_config) = Some (Inr s0, log) \<and> server_destroy s0 = None"
proof -
  from reuse_run obtain s0 log s where run: "new_server demo_os (Some reuse_config) = Some (Inr s0, log)" .
  from reuseport_destructor_undefined[OF run] run show ?thesis by (simp add: demo_options)
qed

end
