(* ===== verification/AsyncLogger.thy ===== *)
theory AsyncLogger
  imports Prelude
begin

text \<open>
  The asynchronous logger (include/log_buffer.h, include/async_logger.h, src/async_Logger.cpp):
  threads append lines to a buffer, a backend thread takes the full buffers and writes them to the file.

  A buffer is its contents; \<open>None\<close> is a null pointer. The operations under the mutex are functions on
  the members of the class. The threads are a step relation between whose steps everything else may
  happen: an append checks that the logger runs, and later takes the lock; the backend goes through
  the phases of \<open>ThreadFunc\<close>; \<open>Stop\<close> joins it and writes what is left; \<open>Flush\<close> waits on a condition.
  The answers of \<open>fopen\<close> and \<open>fwrite\<close> are not fixed; \<open>lp_failed\<close> remembers that one failed.
  The wait of the backend may end at any time (timeout, notification, spurious wakeup).
\<close>

subsection \<open>Buffers\<close>

definition kLargeBuffer :: nat where
  "kLargeBuffer = 4000 * 1024"

type_synonym log_buffer = string

definition Avail :: "log_buffer \<Rightarrow> nat" where
  "Avail b = kLargeBuffer - length b"

definition fb_Append :: "string \<Rightarrow> log_buffer \<Rightarrow> nat \<times> log_buffer" where
  "fb_Append buf b = (if Avail b \<ge> length buf then (length buf, b @ buf) else (0, b))"

definition AppendSafe :: "string \<Rightarrow> log_buffer \<Rightarrow> bool \<times> log_buffer" where
  "AppendSafe buf b =
     (let to_copy = min (length buf) (Avail b) in (to_copy = length buf, b @ take to_copy buf))"

subsection \<open>The operations under the lock\<close>

record async_logger =
  al_running :: bool
  al_thread_started :: bool
  al_current :: "log_buffer option"
  al_next :: "log_buffer option"
  al_buffers :: "log_buffer option list"
  al_total_written :: nat
  al_dropped :: nat

definition new_logger :: async_logger where
  "new_logger = \<lparr>al_running = False, al_thread_started = False, al_current = Some [], al_next = Some [],
     al_buffers = [], al_total_written = 0, al_dropped = 0\<rparr>"

definition has_content :: "log_buffer option \<Rightarrow> bool" where
  "has_content b = (case b of None \<Rightarrow> False | Some c \<Rightarrow> length c > 0)"

text \<open>\<open>Append\<close> after its check. A line is first tried in the current buffer, whose room is compared
  with the length cast to \<open>int\<close>; then the buffer is handed on and the next one is used.\<close>

definition hand_over :: "('z) async_logger_scheme \<Rightarrow> ('z) async_logger_scheme" where
  "hand_over l =
     (let l = (if has_content (al_current l)
               then l\<lparr>al_buffers := al_buffers l @ [al_current l], al_current := None\<rparr> else l)
      in case al_next l of
           Some b \<Rightarrow> l\<lparr>al_current := Some b, al_next := None\<rparr>
         | None \<Rightarrow> l\<lparr>al_current := Some []\<rparr>)"

definition append_next :: "string \<Rightarrow> ('z) async_logger_scheme \<Rightarrow> bool \<times> ('z) async_logger_scheme" where
  "append_next line l =
     (let l = hand_over l;
          (ok, b) = AppendSafe line (the (al_current l))
      in if ok then (True, l\<lparr>al_current := Some b\<rparr>)
         else (False, l\<lparr>al_dropped := al_dropped l + 1,
                 al_buffers := al_buffers l @ [Some (snd (AppendSafe line []))], al_current := Some []\<rparr>))"

definition Append_locked :: "string \<Rightarrow> ('z) async_logger_scheme \<Rightarrow> bool \<times> ('z) async_logger_scheme" where
  "Append_locked line l =
     (case al_current l of
        Some b \<Rightarrow>
          if int (Avail b) \<ge> sint (of_nat (length line) :: 32 word) \<and> fst (fb_Append line b) \<noteq> 0
          then (True, l\<lparr>al_current := Some (snd (fb_Append line b))\<rparr>)
          else append_next line l
      | None \<Rightarrow> append_next line l)"

text \<open>What \<open>Flush\<close> does before it waits.\<close>

definition flush_push :: "('z) async_logger_scheme \<Rightarrow> ('z) async_logger_scheme" where
  "flush_push l =
     (if has_content (al_current l)
      then l\<lparr>al_buffers := al_buffers l @ [al_current l], al_current := Some []\<rparr> else l)"

text \<open>The section of the backend under the lock: its buffers, the front buffers, and what is to be
  written.\<close>

definition swap_front ::
  "log_buffer option \<Rightarrow> log_buffer option \<Rightarrow> ('z) async_logger_scheme \<Rightarrow>
   log_buffer option list \<times> log_buffer option \<times> ('z) async_logger_scheme" where
  "swap_front buffer1 buffer2 l =
     (let to_write = al_buffers l @ [al_current l];
          l = l\<lparr>al_current := buffer1, al_buffers := []\<rparr>
      in if al_next l = None then (to_write, None, l\<lparr>al_next := buffer2\<rparr>)
         else (to_write, buffer2, l))"

text \<open>The same section of \<open>WriteBuffersToFile\<close>.\<close>

definition take_remaining :: "('z) async_logger_scheme \<Rightarrow> log_buffer option list \<times> ('z) async_logger_scheme" where
  "take_remaining l =
     (let l = (if has_content (al_current l)
               then l\<lparr>al_buffers := al_buffers l @ [al_current l], al_current := None\<rparr> else l)
      in (al_buffers l, l\<lparr>al_buffers := []\<rparr>))"

subsection \<open>The threads\<close>

datatype backend_phase =
  B_absent | B_opening | B_top | B_waiting | B_writing | B_final | B_closing | B_done

datatype stop_phase = S_none | S_joining | S_final | S_writing | S_returned

datatype flush_phase = F_none | F_checking nat | F_sleeping nat | F_returned nat

record logger_process = async_logger +
  lp_file :: string
  lp_backend :: backend_phase
  lp_buffer1 :: "log_buffer option"
  lp_buffer2 :: "log_buffer option"
  lp_to_write :: "log_buffer option list"
  lp_remaining :: "log_buffer option list"
  lp_inflight :: "string list"
  lp_log :: string
  lp_flush :: flush_phase
  lp_stop :: stop_phase
  lp_mark :: nat
  lp_failed :: bool

definition start_logger :: logger_process where
  "start_logger = async_logger.extend new_logger
     \<lparr>lp_file = [], lp_backend = B_absent, lp_buffer1 = Some [], lp_buffer2 = Some [], lp_to_write = [],
      lp_remaining = [], lp_inflight = [], lp_log = [], lp_flush = F_none, lp_stop = S_none, lp_mark = 0,
      lp_failed = False\<rparr>"

text \<open>The bytes in a list of buffers; null pointers and empty buffers are skipped when writing.\<close>

fun text_of :: "log_buffer option list \<Rightarrow> string" where
  "text_of [] = []"
| "text_of (None # bs) = text_of bs"
| "text_of (Some b # bs) = b @ text_of bs"

text \<open>One buffer of the writing loop, of which \<open>n\<close> bytes get to the file, and its reuse.\<close>

definition write_buffer :: "nat \<Rightarrow> logger_process \<Rightarrow> logger_process" where
  "write_buffer n s =
     (case lp_to_write s of
        [] \<Rightarrow> s
      | b # bs \<Rightarrow>
          let s = s\<lparr>lp_to_write := bs\<rparr>
          in if \<not> has_content b then s
             else let c = the b;
                      s = s\<lparr>lp_file := lp_file s @ take n c, al_total_written := al_total_written s + min n (length c),
                            lp_failed := (lp_failed s \<or> n < length c)\<rparr>
                  in if lp_buffer1 s = None then s\<lparr>lp_buffer1 := Some []\<rparr>
                     else if lp_buffer2 s = None then s\<lparr>lp_buffer2 := Some []\<rparr>
                     else s)"

definition notify_flush :: "logger_process \<Rightarrow> logger_process" where
  "notify_flush s = (case lp_flush s of F_sleeping n \<Rightarrow> s\<lparr>lp_flush := F_checking n\<rparr> | _ \<Rightarrow> s)"

text \<open>\<open>WriteBuffersToFile\<close> after its lock: \<open>None\<close> when the file cannot be opened, else how many
  bytes of each buffer get to the file.\<close>

fun write_all :: "nat list \<Rightarrow> log_buffer option list \<Rightarrow> string \<times> bool" where
  "write_all ns [] = ([], True)"
| "write_all ns (b # bs) =
     (if \<not> has_content b then write_all ns bs
      else case ns of
        [] \<Rightarrow> ([], False)
      | n # ns \<Rightarrow> let (text, ok) = write_all ns bs in (take n (the b) @ text, ok \<and> n \<ge> length (the b)))"

definition write_remaining :: "nat list option \<Rightarrow> logger_process \<Rightarrow> logger_process" where
  "write_remaining answers s =
     (let (text, ok) = (if lp_remaining s = [] then ([], True)
                        else case answers of None \<Rightarrow> ([], False) | Some ns \<Rightarrow> write_all ns (lp_remaining s))
      in s\<lparr>lp_file := lp_file s @ text, lp_remaining := [], lp_failed := (lp_failed s \<or> \<not> ok)\<rparr>)"

inductive logger_step :: "logger_process \<Rightarrow> logger_process \<Rightarrow> bool" where
  start: "\<not> al_thread_started s \<Longrightarrow> lp_backend s = B_absent \<Longrightarrow>
    logger_step s (s\<lparr>al_running := True, al_thread_started := True, lp_backend := B_opening\<rparr>)"
| append_refused: "\<not> al_running s \<or> line = ([] :: string) \<Longrightarrow> logger_step s (s\<lparr>al_dropped := al_dropped s + 1\<rparr>)"
| append_check: "al_running s \<Longrightarrow> line \<noteq> [] \<Longrightarrow> logger_step s (s\<lparr>lp_inflight := line # lp_inflight s\<rparr>)"
| append_lock: "line \<in> set (lp_inflight s) \<Longrightarrow> Append_locked line s = (ok, t) \<Longrightarrow>
    logger_step s (t\<lparr>lp_inflight := remove1 line (lp_inflight s), lp_log := lp_log s @ take kLargeBuffer line\<rparr>)"
| open_ok: "lp_backend s = B_opening \<Longrightarrow> logger_step s (s\<lparr>lp_backend := B_top\<rparr>)"
| open_failed: "lp_backend s = B_opening \<Longrightarrow>
    logger_step s (s\<lparr>al_running := False, lp_backend := B_done, lp_failed := True\<rparr>)"
| loop: "lp_backend s = B_top \<Longrightarrow> al_running s \<Longrightarrow> logger_step s (s\<lparr>lp_backend := B_waiting\<rparr>)"
| leave: "lp_backend s = B_top \<Longrightarrow> \<not> al_running s \<Longrightarrow> logger_step s (s\<lparr>lp_backend := B_final\<rparr>)"
| swap: "lp_backend s = B_waiting \<Longrightarrow> swap_front (lp_buffer1 s) (lp_buffer2 s) s = (bs, buffer2, t) \<Longrightarrow>
    logger_step s (t\<lparr>lp_backend := B_writing, lp_to_write := bs, lp_buffer1 := None, lp_buffer2 := buffer2\<rparr>)"
| write_one: "lp_backend s = B_writing \<Longrightarrow> lp_to_write s \<noteq> [] \<Longrightarrow> logger_step s (write_buffer n s)"
| written: "lp_backend s = B_writing \<Longrightarrow> lp_to_write s = [] \<Longrightarrow>
    logger_step s ((notify_flush s)\<lparr>lp_backend := B_top\<rparr>)"
| final_take: "lp_backend s = B_final \<Longrightarrow> take_remaining s = (bs, t) \<Longrightarrow>
    logger_step s (t\<lparr>lp_backend := B_closing, lp_remaining := bs\<rparr>)"
| final_write: "lp_backend s = B_closing \<Longrightarrow> logger_step s ((write_remaining ns s)\<lparr>lp_backend := B_done\<rparr>)"
| stop: "al_thread_started s \<Longrightarrow> lp_stop s = S_none \<Longrightarrow>
    logger_step s (s\<lparr>al_running := False, lp_stop := S_joining\<rparr>)"
| join: "lp_stop s = S_joining \<Longrightarrow> lp_backend s = B_done \<Longrightarrow>
    logger_step s (s\<lparr>al_thread_started := False, lp_stop := S_final\<rparr>)"
| stop_take: "lp_stop s = S_final \<Longrightarrow> take_remaining s = (bs, t) \<Longrightarrow>
    logger_step s (t\<lparr>lp_stop := S_writing, lp_remaining := bs, lp_mark := length (lp_log s)\<rparr>)"
| stop_write: "lp_stop s = S_writing \<Longrightarrow> logger_step s ((write_remaining ns s)\<lparr>lp_stop := S_returned\<rparr>)"
| flush_enter: "al_running s \<Longrightarrow> lp_flush s = F_none \<Longrightarrow>
    logger_step s ((flush_push s)\<lparr>lp_flush := F_checking (length (lp_log s))\<rparr>)"
| flush_other: "al_running s \<Longrightarrow> logger_step s (flush_push s)"
| flush_through: "lp_flush s = F_checking n \<Longrightarrow> al_buffers s = [] \<Longrightarrow> logger_step s (s\<lparr>lp_flush := F_returned n\<rparr>)"
| flush_sleep: "lp_flush s = F_checking n \<Longrightarrow> al_buffers s \<noteq> [] \<Longrightarrow> logger_step s (s\<lparr>lp_flush := F_sleeping n\<rparr>)"

inductive logger_reaches :: "logger_process \<Rightarrow> logger_process \<Rightarrow> bool" where
  here: "logger_reaches s s"
| there: "logger_reaches s t \<Longrightarrow> logger_step t u \<Longrightarrow> logger_reaches s u"

end
