(* ===== verification/LoggerRuns.thy ===== *)
theory LoggerRuns
  imports AsyncLogger
begin

text \<open>
  Runs of the asynchronous logger: nothing accepted is lost, doubled or moved while it runs and after it
  was stopped in order; the backend makes progress; and what \<open>Flush\<close> and a late append do not
  guarantee.
\<close>

subsection \<open>What is accepted reaches the file\<close>

lemma text_of_append [simp]: "text_of (xs @ ys) = text_of xs @ text_of ys"
  by (induction xs rule: text_of.induct) auto

lemma no_content [simp]: "\<not> has_content b \<Longrightarrow> text_of (b # bs) = text_of bs"
  by (cases b) (auto simp: has_content_def)

lemma with_content: "has_content b \<Longrightarrow> text_of (b # bs) = the b @ text_of bs"
  by (cases b) (auto simp: has_content_def)

definition front :: "('z) async_logger_scheme \<Rightarrow> string" where
  "front l = text_of (al_buffers l) @ text_of [al_current l]"

lemma hand_over_ok:
  "text_of [al_next l] = [] \<Longrightarrow>
   text_of (al_buffers (hand_over l)) = front l \<and> al_current (hand_over l) = Some [] \<and> text_of [al_next (hand_over l)] = []
   \<and> async_logger.more (hand_over l) = async_logger.more l \<and> al_running (hand_over l) = al_running l
   \<and> al_thread_started (hand_over l) = al_thread_started l"
  by (cases "al_next l") (auto simp: hand_over_def front_def with_content Let_def)

lemma append_next_ok:
  assumes "append_next line l = (ok, t)" "text_of [al_next l] = []"
  shows "front t = front l @ take kLargeBuffer line" "text_of [al_next t] = []"
    "\<exists>x. text_of (al_buffers t) = text_of (al_buffers l) @ x" "ok = (length line \<le> kLargeBuffer)"
    "async_logger.more t = async_logger.more l" "al_running t = al_running l" "al_thread_started t = al_thread_started l"
  using assms hand_over_ok[OF assms(2)]
  by (auto simp: append_next_def AppendSafe_def Avail_def Let_def front_def min_def split: if_splits)

lemma Append_locked_ok:
  assumes "Append_locked line l = (ok, t)" "text_of [al_next l] = []" "line \<noteq> []"
  shows "front t = front l @ take kLargeBuffer line" "text_of [al_next t] = []"
    "\<exists>x. text_of (al_buffers t) = text_of (al_buffers l) @ x" "ok = (length line \<le> kLargeBuffer)"
    "async_logger.more t = async_logger.more l" "al_running t = al_running l" "al_thread_started t = al_thread_started l"
proof -
  consider (fits) b where "al_current l = Some b" "length line \<le> Avail b" "ok" "t = l\<lparr>al_current := Some (b @ line)\<rparr>"
    | (moves) "append_next line l = (ok, t)"
    using assms by (auto simp: Append_locked_def fb_Append_def split: option.splits if_splits)
  then have facts: "front t = front l @ take kLargeBuffer line \<and> text_of [al_next t] = []
    \<and> (\<exists>x. text_of (al_buffers t) = text_of (al_buffers l) @ x) \<and> ok = (length line \<le> kLargeBuffer)
    \<and> async_logger.more t = async_logger.more l \<and> al_running t = al_running l
    \<and> al_thread_started t = al_thread_started l"
  proof cases
    case fits
    then show ?thesis using assms(2) by (auto simp: front_def Avail_def)
  next
    case moves
    then show ?thesis using append_next_ok[OF moves assms(2)] by simp
  qed
  then show "front t = front l @ take kLargeBuffer line" "text_of [al_next t] = []"
    "\<exists>x. text_of (al_buffers t) = text_of (al_buffers l) @ x" "ok = (length line \<le> kLargeBuffer)"
    "async_logger.more t = async_logger.more l" "al_running t = al_running l" "al_thread_started t = al_thread_started l"
    by simp_all
qed

lemma flush_push_ok [simp]:
  "text_of (al_buffers (flush_push l)) = front l" "text_of [al_current (flush_push l)] = []" "front (flush_push l) = front l"
  "al_next (flush_push l) = al_next l" "async_logger.more (flush_push l) = async_logger.more l"
  "al_running (flush_push l) = al_running l" "al_thread_started (flush_push l) = al_thread_started l"
  by (auto simp: flush_push_def front_def)

lemma swap_front_ok:
  assumes "swap_front b1 b2 l = (bs, b2', t)" "text_of [b1] = []" "text_of [b2] = []" "text_of [al_next l] = []"
  shows "text_of bs = front l" "front t = []" "al_buffers t = []" "text_of [b2'] = []" "text_of [al_next t] = []"
    "async_logger.more t = async_logger.more l" "al_running t = al_running l" "al_thread_started t = al_thread_started l"
  using assms by (auto simp: swap_front_def front_def Let_def split: if_splits)

lemma take_remaining_ok:
  assumes "take_remaining l = (bs, t)"
  shows "text_of bs = front l" "front t = []" "al_buffers t = []" "al_next t = al_next l"
    "async_logger.more t = async_logger.more l" "al_running t = al_running l" "al_thread_started t = al_thread_started l"
  using assms by (auto simp: take_remaining_def front_def Let_def split: if_splits)

lemma write_all_ok: "write_all ns bs = (w, True) \<Longrightarrow> w = text_of bs"
  by (induction ns bs arbitrary: w rule: write_all.induct)
    (auto simp: with_content split: if_splits list.splits prod.splits)

text \<open>What the backend, or \<open>Stop\<close>, has taken over.\<close>

definition taken :: "logger_process \<Rightarrow> string" where
  "taken s = lp_file s @ text_of (lp_to_write s) @ text_of (lp_remaining s)"

definition flush_inv :: "logger_process \<Rightarrow> bool" where
  "flush_inv s \<longleftrightarrow>
     (case lp_flush s of
        F_none \<Rightarrow> True
      | F_checking n \<Rightarrow> n \<le> length (taken s @ text_of (al_buffers s))
      | F_sleeping n \<Rightarrow> n \<le> length (taken s @ text_of (al_buffers s))
      | F_returned n \<Rightarrow> n \<le> length (taken s))"

definition content_inv :: "logger_process \<Rightarrow> bool" where
  "content_inv s \<longleftrightarrow>
     (\<not> lp_failed s \<longrightarrow>
        taken s @ front s = lp_log s \<and> flush_inv s
        \<and> (lp_stop s = S_writing \<longrightarrow> lp_mark s \<le> length (taken s))
        \<and> (lp_stop s = S_returned \<longrightarrow> lp_mark s \<le> length (lp_file s)))"

definition phase_inv :: "logger_process \<Rightarrow> bool" where
  "phase_inv s \<longleftrightarrow>
     (lp_backend s \<noteq> B_writing \<longrightarrow> lp_to_write s = [])
     \<and> (lp_remaining s \<noteq> [] \<longrightarrow> lp_backend s = B_closing \<or> lp_stop s = S_writing)
     \<and> (lp_stop s \<noteq> S_none \<longrightarrow> lp_stop s \<noteq> S_joining \<longrightarrow> lp_backend s = B_done)
     \<and> [] \<notin> set (lp_inflight s)"

definition clean_inv :: "logger_process \<Rightarrow> bool" where
  "clean_inv s \<longleftrightarrow>
     text_of [al_next s] = [] \<and> text_of [lp_buffer1 s] = [] \<and> text_of [lp_buffer2 s] = []"

definition logger_inv :: "logger_process \<Rightarrow> bool" where
  "logger_inv s \<longleftrightarrow> content_inv s \<and> phase_inv s \<and> clean_inv s"

lemma more_fields:
  assumes "async_logger.more t = async_logger.more (s :: logger_process)"
  shows "lp_file t = lp_file s" "lp_backend t = lp_backend s" "lp_buffer1 t = lp_buffer1 s" "lp_buffer2 t = lp_buffer2 s"
    "lp_to_write t = lp_to_write s" "lp_remaining t = lp_remaining s" "lp_inflight t = lp_inflight s" "lp_log t = lp_log s"
    "lp_flush t = lp_flush s" "lp_stop t = lp_stop s" "lp_mark t = lp_mark s" "lp_failed t = lp_failed s"
  using assms by (cases s; cases t; simp)+

lemma flush_mono:
  assumes "flush_inv s" "lp_flush u = lp_flush s" "length (taken s) \<le> length (taken u)"
    "length (taken s @ text_of (al_buffers s)) \<le> length (taken u @ text_of (al_buffers u))"
  shows "flush_inv u"
  using assms unfolding flush_inv_def by (cases "lp_flush s") (simp_all add: order.trans)

lemma content_keep:
  assumes "content_inv s" "lp_failed s \<Longrightarrow> lp_failed u"
    and log: "\<not> lp_failed u \<Longrightarrow> \<exists>w. taken u @ front u = taken s @ front s @ w \<and> lp_log u = lp_log s @ w"
    and grow: "\<not> lp_failed u \<Longrightarrow> length (taken s) \<le> length (taken u)"
      "\<not> lp_failed u \<Longrightarrow> length (taken s @ text_of (al_buffers s)) \<le> length (taken u @ text_of (al_buffers u))"
      "length (lp_file s) \<le> length (lp_file u)"
    and same: "lp_flush u = lp_flush s" "lp_stop u = lp_stop s" "lp_mark u = lp_mark s"
  shows "content_inv u"
  unfolding content_inv_def
proof (intro impI)
  assume u: "\<not> lp_failed u"
  then have s: "taken s @ front s = lp_log s" "flush_inv s" "lp_stop s = S_writing \<Longrightarrow> lp_mark s \<le> length (taken s)"
    "lp_stop s = S_returned \<Longrightarrow> lp_mark s \<le> length (lp_file s)"
    using assms(1,2) by (auto simp: content_inv_def)
  obtain w where w: "taken u @ front u = taken s @ front s @ w" "lp_log u = lp_log s @ w" using log[OF u] by blast
  have "taken u @ front u = lp_log u" using w s(1) by (metis append_assoc)
  moreover have "flush_inv u" by (rule flush_mono[OF s(2) same(1) grow(1,2)[OF u]])
  ultimately show "taken u @ front u = lp_log u \<and> flush_inv u \<and> (lp_stop u = S_writing \<longrightarrow> lp_mark u \<le> length (taken u))
      \<and> (lp_stop u = S_returned \<longrightarrow> lp_mark u \<le> length (lp_file u))"
    using s(3,4) grow(1)[OF u] grow(3) same by auto
qed

lemma step_append_lock:
  assumes inv: "logger_inv s" and line: "line \<in> set (lp_inflight s)" and lock: "Append_locked line s = (ok, t)"
  shows "logger_inv (t\<lparr>lp_inflight := remove1 line (lp_inflight s), lp_log := lp_log s @ take kLargeBuffer line\<rparr>)"
    (is "logger_inv ?u")
proof -
  have "line \<noteq> []" "text_of [al_next s] = []" using inv line by (auto simp: logger_inv_def phase_inv_def clean_inv_def)
  note ok = Append_locked_ok[OF lock this(2,1)]
  note f = more_fields[OF ok(5)]
  have content: "content_inv s" using inv by (simp add: logger_inv_def)
  obtain x where x: "text_of (al_buffers t) = text_of (al_buffers s) @ x" using ok(3) by blast
  have "[] \<notin> set (remove1 line (lp_inflight s))"
    using inv by (simp add: logger_inv_def phase_inv_def notin_set_remove1)
  then have "phase_inv ?u" using inv f by (simp add: logger_inv_def phase_inv_def)
  moreover have "clean_inv ?u" using inv f ok(2) by (simp add: logger_inv_def clean_inv_def)
  moreover have fr: "front ?u = front s @ take kLargeBuffer line" using ok(1) by (simp add: front_def)
  have "content_inv ?u"
    by (rule content_keep[OF content]) (use fr f x in \<open>simp_all add: taken_def\<close>)
  ultimately show ?thesis by (simp add: logger_inv_def)
qed

lemma step_flush_push:
  assumes inv: "logger_inv s"
  shows "logger_inv (flush_push s)"
    and "lp_flush s = F_none \<Longrightarrow> logger_inv ((flush_push s)\<lparr>lp_flush := F_checking (length (lp_log s))\<rparr>)"
proof -
  note f = more_fields[OF flush_push_ok(5)[of s]]
  have content: "content_inv s" using inv by (simp add: logger_inv_def)
  have "phase_inv (flush_push s)" "clean_inv (flush_push s)"
    using inv by (simp_all add: logger_inv_def phase_inv_def clean_inv_def f)
  moreover have "content_inv (flush_push s)"
    by (rule content_keep[OF content]) (simp_all add: taken_def f, simp_all add: front_def)
  ultimately show all: "logger_inv (flush_push s)" by (simp add: logger_inv_def)
  let ?u = "(flush_push s)\<lparr>lp_flush := F_checking (length (lp_log s))\<rparr>"
  have "taken ?u = taken s" "text_of (al_buffers ?u) = front s" by (simp_all add: taken_def f)
  then show "logger_inv ?u" if "lp_flush s = F_none"
    using all content by (auto simp: logger_inv_def content_inv_def phase_inv_def clean_inv_def flush_inv_def f taken_def front_def)
qed

lemma step_swap:
  assumes inv: "logger_inv s" and phase: "lp_backend s = B_waiting"
    and sw: "swap_front (lp_buffer1 s) (lp_buffer2 s) s = (bs, b2, t)"
  shows "logger_inv (t\<lparr>lp_backend := B_writing, lp_to_write := bs, lp_buffer1 := None, lp_buffer2 := b2\<rparr>)" (is "logger_inv ?u")
proof -
  have clean: "text_of [lp_buffer1 s] = []" "text_of [lp_buffer2 s] = []" "text_of [al_next s] = []"
    and content: "content_inv s" and none: "lp_to_write s = []" "lp_remaining s = []"
    using inv phase by (auto simp: logger_inv_def clean_inv_def phase_inv_def)
  note ok = swap_front_ok[OF sw clean]
  note f = more_fields[OF ok(6)]
  have "phase_inv ?u" "clean_inv ?u" using inv phase ok(4,5) f by (auto simp: logger_inv_def phase_inv_def clean_inv_def)
  moreover have fr: "front ?u = []" using ok(2) by (simp add: front_def)
  have "content_inv ?u"
    by (rule content_keep[OF content]) (use fr f ok(1,3) none in \<open>simp_all add: taken_def front_def\<close>)
  ultimately show ?thesis by (simp add: logger_inv_def)
qed

lemma step_write:
  assumes inv: "logger_inv s" and phase: "lp_backend s = B_writing"
  shows "logger_inv (write_buffer n s)"
proof (cases "lp_to_write s")
  case Nil
  then show ?thesis using inv by (simp add: write_buffer_def)
next
  case (Cons b bs)
  have content: "content_inv s" using inv by (simp add: logger_inv_def)
  let ?u = "write_buffer n s"
  have "phase_inv ?u" "clean_inv ?u"
    using inv phase Cons by (auto simp: logger_inv_def phase_inv_def clean_inv_def write_buffer_def Let_def)
  moreover have "content_inv ?u"
    by (rule content_keep[OF content])
      (use Cons in \<open>auto simp: write_buffer_def Let_def taken_def front_def with_content split: if_splits\<close>)
  ultimately show ?thesis by (simp add: logger_inv_def)
qed

text \<open>Taking what remains, by the backend or by \<open>Stop\<close>; \<open>g\<close> sets the phase.\<close>

lemma take_remaining_inv:
  assumes inv: "logger_inv s" and none: "lp_remaining s = []" "lp_to_write s = []" and tk: "take_remaining s = (bs, t)"
  shows "taken (t\<lparr>lp_remaining := bs\<rparr>) = taken s @ front s" "front (t\<lparr>lp_remaining := bs\<rparr>) = []"
    "content_inv (t\<lparr>lp_remaining := bs\<rparr>)" "clean_inv (t\<lparr>lp_remaining := bs\<rparr>)"
proof -
  note ok = take_remaining_ok[OF tk]
  note f = more_fields[OF ok(5)]
  have content: "content_inv s" and clean: "clean_inv s" using inv by (simp_all add: logger_inv_def)
  show tk: "taken (t\<lparr>lp_remaining := bs\<rparr>) = taken s @ front s" using none ok(1) by (simp add: taken_def f)
  show fr: "front (t\<lparr>lp_remaining := bs\<rparr>) = []" using ok(2) by (simp add: front_def)
  show "content_inv (t\<lparr>lp_remaining := bs\<rparr>)"
    by (rule content_keep[OF content]) (use tk fr ok(3) f in \<open>simp_all add: front_def\<close>)
  show "clean_inv (t\<lparr>lp_remaining := bs\<rparr>)" using clean ok(4) f by (simp add: clean_inv_def)
qed

lemma step_final_take:
  assumes inv: "logger_inv s" and phase: "lp_backend s = B_final" and tk: "take_remaining s = (bs, t)"
  shows "logger_inv (t\<lparr>lp_backend := B_closing, lp_remaining := bs\<rparr>)"
proof -
  have none: "lp_remaining s = []" "lp_to_write s = []" "lp_stop s = S_none \<or> lp_stop s = S_joining"
    using inv phase by (auto simp: logger_inv_def phase_inv_def)
  note ok = take_remaining_inv[OF inv none(1,2) tk]
  note f = more_fields[OF take_remaining_ok(5)[OF tk]]
  let ?u = "t\<lparr>lp_backend := B_closing, lp_remaining := bs\<rparr>"
  have "content_inv ?u"
    by (rule content_keep[OF ok(3)]) (simp_all add: taken_def front_def)
  then show ?thesis using ok(4) none inv by (auto simp: logger_inv_def phase_inv_def f clean_inv_def)
qed

lemma step_stop_take:
  assumes inv: "logger_inv s" and phase: "lp_stop s = S_final" and tk: "take_remaining s = (bs, t)"
  shows "logger_inv (t\<lparr>lp_stop := S_writing, lp_remaining := bs, lp_mark := length (lp_log s)\<rparr>)"
proof -
  have none: "lp_remaining s = []" "lp_to_write s = []" "lp_backend s = B_done"
    using inv phase by (auto simp: logger_inv_def phase_inv_def)
  note ok = take_remaining_inv[OF inv none(1,2) tk]
  note f = more_fields[OF take_remaining_ok(5)[OF tk]]
  have log: "\<not> lp_failed s \<longrightarrow> taken s @ front s = lp_log s" using inv by (simp add: logger_inv_def content_inv_def)
  let ?v = "t\<lparr>lp_remaining := bs\<rparr>"
  let ?u = "t\<lparr>lp_stop := S_writing, lp_remaining := bs, lp_mark := length (lp_log s)\<rparr>"
  have same: "taken ?u = taken ?v" "front ?u = front ?v" "al_buffers ?u = al_buffers ?v" "lp_flush ?u = lp_flush ?v"
    by (simp_all add: taken_def front_def)
  have "content_inv ?u"
    unfolding content_inv_def
  proof (intro impI)
    assume "\<not> lp_failed ?u"
    then have alive: "\<not> lp_failed s" "\<not> lp_failed ?v" by (simp_all add: f)
    have "flush_inv ?v" using ok(3) alive(2) by (simp add: content_inv_def)
    then have "flush_inv ?u" by (rule flush_mono) (simp_all add: same)
    then show "taken ?u @ front ?u = lp_log ?u \<and> flush_inv ?u
        \<and> (lp_stop ?u = S_writing \<longrightarrow> lp_mark ?u \<le> length (taken ?u))
        \<and> (lp_stop ?u = S_returned \<longrightarrow> lp_mark ?u \<le> length (lp_file ?u))"
      using log alive(1) by (simp add: same ok(1,2) f flip: length_append)
  qed
  then show ?thesis using ok(4) none inv by (auto simp: logger_inv_def phase_inv_def f clean_inv_def)
qed

lemma write_remaining_inv:
  assumes inv: "logger_inv s" and none: "lp_to_write s = []"
  shows "content_inv (write_remaining ns s)" "clean_inv (write_remaining ns s)" "lp_remaining (write_remaining ns s) = []"
    "\<not> lp_failed (write_remaining ns s) \<Longrightarrow> lp_file (write_remaining ns s) = taken s"
    "lp_to_write (write_remaining ns s) = []" "lp_inflight (write_remaining ns s) = lp_inflight s"
    "lp_stop (write_remaining ns s) = lp_stop s" "lp_mark (write_remaining ns s) = lp_mark s"
    "lp_backend (write_remaining ns s) = lp_backend s"
proof -
  have content: "content_inv s" and clean: "clean_inv s" using inv by (simp_all add: logger_inv_def)
  obtain w ok where w: "(if lp_remaining s = [] then ([], True)
      else case ns of None \<Rightarrow> ([], False) | Some ns \<Rightarrow> write_all ns (lp_remaining s)) = (w, ok)" by force
  have u: "write_remaining ns s = s\<lparr>lp_file := lp_file s @ w, lp_remaining := [], lp_failed := (lp_failed s \<or> \<not> ok)\<rparr>"
    by (simp add: write_remaining_def w Let_def)
  have wr: "w = text_of (lp_remaining s)" if ok
    using w that by (auto dest: write_all_ok split: if_splits option.splits)
  show written: "lp_file (write_remaining ns s) = taken s" if "\<not> lp_failed (write_remaining ns s)"
    using that wr none by (auto simp: u taken_def)
  show "content_inv (write_remaining ns s)"
    by (rule content_keep[OF content]) (use wr none in \<open>auto simp: u taken_def front_def\<close>)
  show "clean_inv (write_remaining ns s)" "lp_remaining (write_remaining ns s) = []"
    "lp_to_write (write_remaining ns s) = []" "lp_inflight (write_remaining ns s) = lp_inflight s"
    "lp_stop (write_remaining ns s) = lp_stop s" "lp_mark (write_remaining ns s) = lp_mark s"
    "lp_backend (write_remaining ns s) = lp_backend s"
    using clean none by (simp_all add: u clean_inv_def)
qed

text \<open>Steps that move no text.\<close>

lemma step_quiet:
  assumes inv: "logger_inv s" and f: "taken u = taken s" "front u = front s" "al_buffers u = al_buffers s" "lp_file u = lp_file s"
      "lp_log u = lp_log s" "lp_flush u = lp_flush s" "lp_mark u = lp_mark s" "lp_failed s \<Longrightarrow> lp_failed u"
      "al_next u = al_next s" "lp_buffer1 u = lp_buffer1 s" "lp_buffer2 u = lp_buffer2 s"
    and stop: "lp_stop u = lp_stop s \<or> lp_stop u = S_joining \<or> lp_stop u = S_final" and phase: "phase_inv u"
  shows "logger_inv u"
proof -
  have content: "content_inv s" and "clean_inv s" using inv by (simp_all add: logger_inv_def)
  have "content_inv u"
  proof (cases "lp_stop u = lp_stop s")
    case True
    show ?thesis by (rule content_keep[OF content]) (use f True in auto)
  next
    case False
    then have "lp_stop u = S_joining \<or> lp_stop u = S_final" using stop by blast
    moreover have "flush_inv s \<Longrightarrow> flush_inv u" using f by (intro flush_mono[of s u]) simp_all
    ultimately show ?thesis using content f by (auto simp: content_inv_def)
  qed
  with \<open>clean_inv s\<close> phase f show ?thesis by (simp add: logger_inv_def clean_inv_def)
qed

lemma step_flush_move:
  assumes inv: "logger_inv s"
  shows "lp_flush s = F_checking n \<Longrightarrow> al_buffers s = [] \<Longrightarrow> logger_inv (s\<lparr>lp_flush := F_returned n\<rparr>)"
    and "lp_flush s = F_checking n \<Longrightarrow> logger_inv (s\<lparr>lp_flush := F_sleeping n\<rparr>)"
    and "logger_inv (notify_flush s)"
  using inv by (auto simp: logger_inv_def content_inv_def phase_inv_def clean_inv_def flush_inv_def taken_def front_def
      notify_flush_def split: flush_phase.splits)

lemma logger_step_inv: "logger_step s u \<Longrightarrow> logger_inv s \<Longrightarrow> logger_inv u"
proof (induction rule: logger_step.induct)
  case (append_lock line s ok t)
  then show ?case using step_append_lock by blast
next
  case (swap s bs b2 t)
  then show ?case using step_swap by blast
next
  case (write_one s n)
  then show ?case using step_write by blast
next
  case (written s)
  note inv = step_flush_move(3)[OF written(3)]
  have f: "lp_backend (notify_flush s) = lp_backend s" "lp_to_write (notify_flush s) = lp_to_write s"
    "lp_remaining (notify_flush s) = lp_remaining s"
    by (auto simp: notify_flush_def split: flush_phase.splits)
  show ?case
    by (rule step_quiet[OF inv]) (use inv written f in \<open>auto simp: taken_def front_def logger_inv_def phase_inv_def\<close>)
next
  case (final_take s bs t)
  then show ?case using step_final_take by blast
next
  case (final_write s ns)
  then have none: "lp_to_write s = []" "lp_stop s = S_none \<or> lp_stop s = S_joining"
    by (auto simp: logger_inv_def phase_inv_def)
  note ok = write_remaining_inv[OF final_write(2) none(1), of ns]
  have inv: "logger_inv (write_remaining ns s)"
    using ok final_write by (auto simp: logger_inv_def phase_inv_def)
  show ?case
    by (rule step_quiet[OF inv]) (use inv ok none in \<open>auto simp: taken_def front_def logger_inv_def phase_inv_def\<close>)
next
  case (stop_take s bs t)
  then show ?case using step_stop_take by blast
next
  case (stop_write s ns)
  then have none: "lp_to_write s = []" "lp_backend s = B_done" by (auto simp: logger_inv_def phase_inv_def)
  note ok = write_remaining_inv[OF stop_write(2) none(1), of ns]
  let ?v = "write_remaining ns s"
  have "content_inv (?v\<lparr>lp_stop := S_returned\<rparr>)"
    unfolding content_inv_def
  proof (intro impI)
    assume "\<not> lp_failed (?v\<lparr>lp_stop := S_returned\<rparr>)"
    then have alive: "\<not> lp_failed ?v" by simp
    then have v: "taken ?v @ front ?v = lp_log ?v" "flush_inv ?v" "lp_mark ?v \<le> length (taken ?v)"
      using ok(1,7) stop_write(1) by (auto simp: content_inv_def)
    have "taken ?v = lp_file ?v" using ok(3,5) by (simp add: taken_def)
    then show "taken (?v\<lparr>lp_stop := S_returned\<rparr>) @ front (?v\<lparr>lp_stop := S_returned\<rparr>) = lp_log (?v\<lparr>lp_stop := S_returned\<rparr>)
        \<and> flush_inv (?v\<lparr>lp_stop := S_returned\<rparr>)
        \<and> (lp_stop (?v\<lparr>lp_stop := S_returned\<rparr>) = S_writing \<longrightarrow> lp_mark (?v\<lparr>lp_stop := S_returned\<rparr>) \<le> length (taken (?v\<lparr>lp_stop := S_returned\<rparr>)))
        \<and> (lp_stop (?v\<lparr>lp_stop := S_returned\<rparr>) = S_returned \<longrightarrow> lp_mark (?v\<lparr>lp_stop := S_returned\<rparr>) \<le> length (lp_file (?v\<lparr>lp_stop := S_returned\<rparr>)))"
      using v flush_mono[OF v(2), of "?v\<lparr>lp_stop := S_returned\<rparr>"] by (simp add: taken_def front_def)
  qed
  then show ?case using ok none stop_write(2) by (auto simp: logger_inv_def phase_inv_def clean_inv_def)
next
  case (flush_enter s)
  then show ?case using step_flush_push(2) by blast
next
  case (flush_other s)
  then show ?case using step_flush_push(1) by blast
next
  case (flush_through s n)
  then show ?case using step_flush_move(1) by blast
next
  case (flush_sleep s n)
  then show ?case using step_flush_move(2) by blast
qed ((rule step_quiet, assumption; auto simp: logger_inv_def phase_inv_def taken_def front_def)+)

lemma start_logger_inv: "logger_inv start_logger"
  by (simp add: start_logger_def new_logger_def async_logger.defs logger_inv_def content_inv_def phase_inv_def
      clean_inv_def flush_inv_def taken_def front_def)

lemma logger_reaches_inv: "logger_reaches s u \<Longrightarrow> logger_inv s \<Longrightarrow> logger_inv u"
  by (induction rule: logger_reaches.induct) (auto intro: logger_step_inv)

text \<open>C12: No accepted byte is lost, doubled or moved: at every moment and whatever the threads do, what is in the file,
  what the backend or \<open>Stop\<close> has taken, and what is in the front buffers is, in this order, everything
  accepted, in the order in which the lock was taken; and when \<open>Stop\<close> has returned, all that was
  accepted when it took over is in the file. Only a failure of \<open>fopen\<close> or a short \<open>fwrite\<close> is excepted.\<close>
theorem logger_keeps_every_line:
  assumes "logger_reaches start_logger s"
  shows "lp_failed s \<or>
    lp_file s @ text_of (lp_to_write s) @ text_of (lp_remaining s) @ text_of (al_buffers s) @ text_of [al_current s] = lp_log s
    \<and> (if lp_stop s = S_returned then lp_mark s \<le> length (lp_file s) else True)"
  using logger_reaches_inv[OF assms start_logger_inv]
  by (auto simp: logger_inv_def content_inv_def taken_def front_def)

subsection \<open>Runs by name\<close>

datatype logger_act =
    L_start | L_check string | L_append string | L_open | L_loop | L_leave | L_swap | L_write | L_written
  | L_final_take | L_final_write | L_stop | L_join | L_stop_take | L_stop_write | L_flush | L_flush_test

fun logger_do :: "logger_act \<Rightarrow> logger_process \<Rightarrow> logger_process option" where
  "logger_do L_start s = (if \<not> al_thread_started s \<and> lp_backend s = B_absent
     then Some (s\<lparr>al_running := True, al_thread_started := True, lp_backend := B_opening\<rparr>) else None)"
| "logger_do (L_check line) s = (if al_running s \<and> line \<noteq> [] then Some (s\<lparr>lp_inflight := line # lp_inflight s\<rparr>) else None)"
| "logger_do (L_append line) s = (if line \<in> set (lp_inflight s)
     then Some ((snd (Append_locked line s))
       \<lparr>lp_inflight := remove1 line (lp_inflight s), lp_log := lp_log s @ take kLargeBuffer line\<rparr>) else None)"
| "logger_do L_open s = (if lp_backend s = B_opening then Some (s\<lparr>lp_backend := B_top\<rparr>) else None)"
| "logger_do L_loop s = (if lp_backend s = B_top \<and> al_running s then Some (s\<lparr>lp_backend := B_waiting\<rparr>) else None)"
| "logger_do L_leave s = (if lp_backend s = B_top \<and> \<not> al_running s then Some (s\<lparr>lp_backend := B_final\<rparr>) else None)"
| "logger_do L_swap s = (if lp_backend s = B_waiting
     then let (bs, buffer2, t) = swap_front (lp_buffer1 s) (lp_buffer2 s) s
          in Some (t\<lparr>lp_backend := B_writing, lp_to_write := bs, lp_buffer1 := None, lp_buffer2 := buffer2\<rparr>) else None)"
| "logger_do L_write s = (if lp_backend s = B_writing \<and> lp_to_write s \<noteq> []
     then Some (write_buffer (length (text_of [hd (lp_to_write s)])) s) else None)"
| "logger_do L_written s = (if lp_backend s = B_writing \<and> lp_to_write s = []
     then Some ((notify_flush s)\<lparr>lp_backend := B_top\<rparr>) else None)"
| "logger_do L_final_take s = (if lp_backend s = B_final
     then let (bs, t) = take_remaining s in Some (t\<lparr>lp_backend := B_closing, lp_remaining := bs\<rparr>) else None)"
| "logger_do L_final_write s = (if lp_backend s = B_closing
     then Some ((write_remaining (Some (map (\<lambda>b. length (text_of [b])) (List.filter has_content (lp_remaining s)))) s)
       \<lparr>lp_backend := B_done\<rparr>) else None)"
| "logger_do L_stop s = (if al_thread_started s \<and> lp_stop s = S_none
     then Some (s\<lparr>al_running := False, lp_stop := S_joining\<rparr>) else None)"
| "logger_do L_join s = (if lp_stop s = S_joining \<and> lp_backend s = B_done
     then Some (s\<lparr>al_thread_started := False, lp_stop := S_final\<rparr>) else None)"
| "logger_do L_stop_take s = (if lp_stop s = S_final
     then let (bs, t) = take_remaining s
          in Some (t\<lparr>lp_stop := S_writing, lp_remaining := bs, lp_mark := length (lp_log s)\<rparr>) else None)"
| "logger_do L_stop_write s = (if lp_stop s = S_writing
     then Some ((write_remaining (Some (map (\<lambda>b. length (text_of [b])) (List.filter has_content (lp_remaining s)))) s)
       \<lparr>lp_stop := S_returned\<rparr>) else None)"
| "logger_do L_flush s = (if al_running s \<and> lp_flush s = F_none
     then Some ((flush_push s)\<lparr>lp_flush := F_checking (length (lp_log s))\<rparr>) else None)"
| "logger_do L_flush_test s = (case lp_flush s of
     F_checking n \<Rightarrow> Some (s\<lparr>lp_flush := (if al_buffers s = [] then F_returned n else F_sleeping n)\<rparr>) | _ \<Rightarrow> None)"

fun logger_acts :: "logger_act list \<Rightarrow> logger_process \<Rightarrow> logger_process option" where
  "logger_acts [] s = Some s"
| "logger_acts (a # as) s = Option.bind (logger_do a s) (logger_acts as)"

lemma logger_do_step: "logger_do a s = Some u \<Longrightarrow> logger_step s u"
proof (cases a)
  case (L_append line)
  moreover assume "logger_do a s = Some u"
  ultimately show ?thesis
    using logger_step.append_lock[of line s "fst (Append_locked line s)" "snd (Append_locked line s)"]
    by (simp split: if_splits)
qed (auto intro: logger_step.intros simp: Let_def split: if_splits prod.splits flush_phase.splits)

lemma logger_acts_reach: "logger_acts as s = Some u \<Longrightarrow> logger_reaches s0 s \<Longrightarrow> logger_reaches s0 u"
proof (induction as arbitrary: s)
  case (Cons a as)
  then obtain y where "logger_do a s = Some y" "logger_acts as y = Some u" by (auto simp: bind_eq_Some_conv)
  with Cons logger_reaches.there[OF Cons.prems(2) logger_do_step] show ?case by blast
qed simp

lemmas run_defs = start_logger_def new_logger_def async_logger.defs Append_locked_def append_next_def hand_over_def
  fb_Append_def AppendSafe_def Avail_def kLargeBuffer_def has_content_def flush_push_def swap_front_def
  take_remaining_def write_buffer_def write_remaining_def notify_flush_def

definition early_flush :: "logger_act list" where
  "early_flush = [L_start, L_open, L_check ''x'', L_append ''x'', L_loop, L_flush, L_swap, L_flush_test]"

definition lost_flush :: "logger_act list" where
  "lost_flush = [L_start, L_open, L_check ''x'', L_append ''x'', L_flush, L_flush_test, L_stop, L_leave, L_final_take,
     L_final_write, L_join, L_stop_take, L_stop_write]"

definition late_append :: "logger_act list" where
  "late_append = [L_start, L_open, L_check ''x'', L_stop, L_leave, L_final_take, L_final_write, L_join, L_stop_take,
     L_stop_write, L_append ''x'']"

lemma early_flush_run: "case logger_acts early_flush start_logger of
    Some s \<Rightarrow> lp_flush s = F_returned 1 \<and> lp_file s = [] \<and> \<not> lp_failed s \<and> lp_log s = ''x'' | None \<Rightarrow> False"
  by (simp add: early_flush_def run_defs)

lemma lost_flush_run: "case logger_acts lost_flush start_logger of
    Some s \<Rightarrow> lp_flush s = F_sleeping 1 \<and> lp_stop s = S_returned \<and> lp_backend s = B_done \<and> lp_file s = ''x'' | None \<Rightarrow> False"
  by (simp add: lost_flush_def run_defs)

lemma late_append_run: "case logger_acts late_append start_logger of
    Some s \<Rightarrow> lp_stop s = S_returned \<and> lp_backend s = B_done \<and> lp_file s = [] \<and> lp_log s = ''x'' \<and> \<not> lp_failed s
      \<and> lp_inflight s = [] | None \<Rightarrow> False"
  by (simp add: late_append_def run_defs)

text \<open>Once the backend has ended nobody wakes a sleeping \<open>Flush\<close>, and once \<open>Stop\<close> has returned nothing
  reaches the file.\<close>

lemma step_keeps_sleeping:
  "logger_step s u \<Longrightarrow> lp_backend s = B_done \<and> lp_flush s = F_sleeping n \<Longrightarrow> lp_backend u = B_done \<and> lp_flush u = F_sleeping n"
proof (induction rule: logger_step.induct)
  case (append_lock line s ok t)
  then show ?case using more_fields[of t s] by (auto simp: Append_locked_def append_next_def hand_over_def Let_def
      split: option.splits if_splits prod.splits)
qed (auto simp: take_remaining_def write_remaining_def flush_push_def swap_front_def Let_def split: if_splits prod.splits)

lemma step_keeps_file:
  "logger_step s u \<Longrightarrow> lp_backend s = B_done \<and> lp_stop s = S_returned \<and> lp_file s = w \<Longrightarrow>
   lp_backend u = B_done \<and> lp_stop u = S_returned \<and> lp_file u = w"
proof (induction rule: logger_step.induct)
  case (append_lock line s ok t)
  then show ?case using more_fields[of t s] by (auto simp: Append_locked_def append_next_def hand_over_def Let_def
      split: option.splits if_splits prod.splits)
qed (auto simp: take_remaining_def flush_push_def Let_def split: if_splits prod.splits)

lemma reaches_keeps:
  "logger_reaches s u \<Longrightarrow> lp_backend s = B_done \<and> lp_flush s = F_sleeping n \<Longrightarrow> lp_backend u = B_done \<and> lp_flush u = F_sleeping n"
  by (induction rule: logger_reaches.induct) (auto dest: step_keeps_sleeping)

lemma reaches_keeps_file:
  "logger_reaches s u \<Longrightarrow> lp_backend s = B_done \<and> lp_stop s = S_returned \<and> lp_file s = w \<Longrightarrow>
   lp_backend u = B_done \<and> lp_stop u = S_returned \<and> lp_file u = w"
  by (induction rule: logger_reaches.induct) (auto dest: step_keeps_file)

text \<open>\<open>Flush\<close> is no barrier: it can return while what was accepted before it is still to be
  written; and when \<open>Stop\<close> gets in between it sleeps for ever, although the file holds everything.\<close>
theorem flush_is_no_barrier:
  "(\<exists>s. logger_reaches start_logger s \<and> \<not> lp_failed s \<and> lp_flush s = F_returned 1 \<and> lp_file s = [] \<and> lp_log s = ''x'')
   \<and> (\<exists>s. logger_reaches start_logger s \<and> lp_stop s = S_returned \<and> lp_file s = ''x''
         \<and> {u. logger_reaches s u} \<subseteq> {u. lp_flush u = F_sleeping 1})"
proof -
  obtain s where s: "logger_acts early_flush start_logger = Some s" "lp_flush s = F_returned 1" "lp_file s = []"
    "\<not> lp_failed s" "lp_log s = ''x''" using early_flush_run by (auto split: option.splits)
  obtain t where t: "logger_acts lost_flush start_logger = Some t" "lp_flush t = F_sleeping 1" "lp_stop t = S_returned"
    "lp_backend t = B_done" "lp_file t = ''x''" using lost_flush_run by (auto split: option.splits)
  note reach = logger_acts_reach[OF _ logger_reaches.here]
  show ?thesis using reach[OF s(1)] s reach[OF t(1)] t reaches_keeps[of t _ 1] by blast
qed

text \<open>An append that checked the logger before \<open>Stop\<close> can take the lock after it: it reports success, and its
  line never reaches the file.\<close>
theorem late_line_is_lost:
  "\<exists>s. logger_reaches start_logger s \<and> \<not> lp_failed s \<and> lp_stop s = S_returned \<and> lp_inflight s = [] \<and> lp_log s = ''x''
     \<and> {u. logger_reaches s u} \<subseteq> {u. lp_file u = []}"
proof -
  obtain t where t: "logger_acts late_append start_logger = Some t" "lp_stop t = S_returned"
    "lp_backend t = B_done" "lp_file t = []" "lp_log t = ''x''" "\<not> lp_failed t" "lp_inflight t = []"
    using late_append_run by (auto split: option.splits)
  show ?thesis using logger_acts_reach[OF t(1) logger_reaches.here] t reaches_keeps_file[of t _ "[]"] by blast
qed

theorem logger_keeps_every_line_witness:
  "\<exists>s. logger_reaches start_logger s \<and> text_of (lp_to_write s) @ text_of (lp_remaining s) @ text_of (al_buffers s)
     @ text_of [al_current s] = ''x''"
proof -
  obtain s where s: "logger_acts early_flush start_logger = Some s" "lp_file s = []"
    "\<not> lp_failed s" "lp_log s = ''x''" using early_flush_run by (auto split: option.splits)
  note reach = logger_acts_reach[OF s(1) logger_reaches.here]
  show ?thesis using logger_keeps_every_line[OF reach] s reach by auto
qed

subsection \<open>The backend makes progress\<close>

lemma write_out:
  "lp_backend s = B_writing \<Longrightarrow> logger_reaches s0 s \<Longrightarrow> \<exists>u. logger_reaches s0 u \<and> lp_backend u = B_writing \<and> lp_to_write u = []
     \<and> lp_file u = lp_file s @ text_of (lp_to_write s) \<and> lp_log u = lp_log s \<and> lp_failed u = lp_failed s
     \<and> al_running u = al_running s"
proof (induction "lp_to_write s" arbitrary: s)
  case (Cons b bs)
  let ?t = "write_buffer (length (text_of [b])) s"
  have t: "lp_backend ?t = B_writing" "lp_to_write ?t = bs" "lp_file ?t @ text_of bs = lp_file s @ text_of (lp_to_write s)"
    "lp_log ?t = lp_log s" "lp_failed ?t = lp_failed s" "al_running ?t = al_running s"
    using Cons(2)[symmetric] Cons(3) by (auto simp: write_buffer_def Let_def with_content)
  have "logger_reaches s0 ?t"
    by (rule logger_reaches.there[OF Cons(4) logger_step.write_one]) (use Cons in auto)
  from Cons(1)[OF t(2)[symmetric] t(1) this] t show ?case by (auto simp flip: append_assoc)
qed auto

definition run_inv :: "logger_process \<Rightarrow> bool" where
  "run_inv s \<longleftrightarrow> (al_running s \<longrightarrow>
     lp_backend s = B_opening \<or> lp_backend s = B_top \<or> lp_backend s = B_waiting \<or> lp_backend s = B_writing)"

lemma run_inv_step: "logger_step s u \<Longrightarrow> run_inv s \<Longrightarrow> run_inv u"
proof (induction rule: logger_step.induct)
  case (append_lock line s ok t)
  then show ?case using more_fields[of t s] by (auto simp: run_inv_def Append_locked_def append_next_def hand_over_def Let_def
      split: option.splits if_splits prod.splits)
next
  case (swap s bs b2 t)
  then show ?case by (auto simp: run_inv_def)
next
  case (write_one s n)
  then show ?case by (auto simp: run_inv_def write_buffer_def Let_def split: list.splits)
qed (auto simp: run_inv_def take_remaining_def write_remaining_def notify_flush_def more_fields[OF flush_push_ok(5)] Let_def
    split: if_splits prod.splits flush_phase.splits)

lemma run_inv_reaches: "logger_reaches s u \<Longrightarrow> run_inv s \<Longrightarrow> run_inv u"
  by (induction rule: logger_reaches.induct) (auto intro: run_inv_step)

lemma logger_reaches_trans: "logger_reaches t u \<Longrightarrow> logger_reaches s t \<Longrightarrow> logger_reaches s u"
  by (induction rule: logger_reaches.induct) (auto intro: logger_reaches.there)

lemma waiting_writes_all:
  assumes s: "logger_reaches start_logger s" "lp_backend s = B_waiting" "\<not> lp_failed s"
  shows "\<exists>u. logger_reaches s u \<and> lp_file u = lp_log s \<and> lp_log u = lp_log s"
proof -
  have inv: "logger_inv s" using logger_reaches_inv[OF s(1) start_logger_inv] .
  obtain bs b2 t where sw: "swap_front (lp_buffer1 s) (lp_buffer2 s) s = (bs, b2, t)" by (metis prod_cases3)
  have clean: "text_of [lp_buffer1 s] = []" "text_of [lp_buffer2 s] = []" "text_of [al_next s] = []"
    and none: "lp_to_write s = []" "lp_remaining s = []"
    and log: "taken s @ front s = lp_log s"
    using inv s(2,3) by (auto simp: logger_inv_def clean_inv_def phase_inv_def content_inv_def)
  note ok = swap_front_ok[OF sw clean]
  note f = more_fields[OF ok(6)]
  let ?u = "t\<lparr>lp_backend := B_writing, lp_to_write := bs, lp_buffer1 := None, lp_buffer2 := b2\<rparr>"
  have "logger_reaches s ?u" by (rule logger_reaches.there[OF logger_reaches.here logger_step.swap[OF s(2) sw]])
  from write_out[OF _ this] obtain v where "logger_reaches s v" "lp_file v = lp_file ?u @ text_of (lp_to_write ?u)"
    "lp_log v = lp_log ?u" by auto
  moreover have "lp_file ?u @ text_of (lp_to_write ?u) = lp_log s"
    using log none ok(1) by (simp add: taken_def f)
  ultimately show ?thesis by (auto simp: f)
qed



end
