(* ===== verification/Logger.thy ===== *)
theory Logger
  imports HttpRequest AsyncLogger
begin

text \<open>
  The front end of the log (include/Logger.h, src/Logger.cpp) and the messages of the request parser.

  The time, and the message as \<open>vsnprintf\<close> would write it in full, are arguments; \<open>None\<close> as message is
  its failure. \<open>Log\<close> writes into an array of 4096 characters: an access outside it is undefined, and
  is the result \<open>None\<close>. \<open>%s\<close> prints a string up to its first null character.
\<close>

datatype log_level = LOG_LEVEL_DEBUG | LOG_LEVEL_INFO | LOG_LEVEL_WARN | LOG_LEVEL_ERROR | LOG_LEVEL_FATAL

fun log_level_int :: "log_level \<Rightarrow> nat" where
  "log_level_int LOG_LEVEL_DEBUG = 0"
| "log_level_int LOG_LEVEL_INFO = 1"
| "log_level_int LOG_LEVEL_WARN = 2"
| "log_level_int LOG_LEVEL_ERROR = 3"
| "log_level_int LOG_LEVEL_FATAL = 4"

fun LevelToString :: "log_level \<Rightarrow> string" where
  "LevelToString LOG_LEVEL_DEBUG = ''DEBUG''"
| "LevelToString LOG_LEVEL_INFO = ''INFO ''"
| "LevelToString LOG_LEVEL_WARN = ''WARN ''"
| "LevelToString LOG_LEVEL_ERROR = ''ERROR''"
| "LevelToString LOG_LEVEL_FATAL = ''FATAL''"

record front_logger =
  fl_impl :: "async_logger option"
  fl_min_level :: log_level

definition new_front_logger :: front_logger where
  "new_front_logger = \<lparr>fl_impl = None, fl_min_level = LOG_LEVEL_INFO\<rparr>"

text \<open>\<open>Init\<close> makes a new logger and starts it.\<close>

definition logger_Start :: "async_logger \<Rightarrow> bool \<times> async_logger" where
  "logger_Start l =
     (if al_thread_started l then (False, l)
      else (True, l\<lparr>al_running := True, al_thread_started := True\<rparr>))"

definition logger_Init :: "log_level \<Rightarrow> front_logger \<Rightarrow> front_logger" where
  "logger_Init min_level l = l\<lparr>fl_min_level := min_level, fl_impl := Some (snd (logger_Start new_logger))\<rparr>"

definition SetMinLevel :: "log_level \<Rightarrow> front_logger \<Rightarrow> front_logger" where
  "SetMinLevel level l = l\<lparr>fl_min_level := level\<rparr>"

text \<open>The whole of \<open>AsyncLogger::Append\<close>, when nothing comes between its check and its lock.\<close>

definition logger_Append :: "string \<Rightarrow> async_logger \<Rightarrow> bool \<times> async_logger" where
  "logger_Append line l =
     (if \<not> al_running l \<or> line = [] then (False, l\<lparr>al_dropped := al_dropped l + 1\<rparr>) else Append_locked line l)"

subsection \<open>One line\<close>

abbreviation NUL :: char where "NUL \<equiv> CHR 0x00"

definition c_string :: "string \<Rightarrow> string" where
  "c_string s = takeWhile (\<lambda>c. c \<noteq> NUL) s"

text \<open>What follows the last occurrence of a character.\<close>

definition after_last :: "char \<Rightarrow> string \<Rightarrow> string" where
  "after_last x s = rev (takeWhile (\<lambda>c. c \<noteq> x) (rev s))"

definition log_filename :: "string \<Rightarrow> string" where
  "log_filename path =
     (if CHR ''/'' \<in> set path then after_last CHR ''/'' path
      else if CHR 0x5C \<in> set path then after_last CHR 0x5C path else path)"

definition log_prefix :: "string \<Rightarrow> log_level \<Rightarrow> string \<Rightarrow> int \<Rightarrow> string" where
  "log_prefix time level path line =
     take 511 (''['' @ time @ ''] ['' @ LevelToString level @ ''] ['' @ log_filename path @ '':'' @ dec_int line @ ''] '')"

text \<open>The array after \<open>vsnprintf\<close>: as much as fits, and the null character behind it.\<close>

definition message_at :: "string \<Rightarrow> nat \<Rightarrow> char" where
  "message_at msg i = (if i < min (length msg) 4095 then msg ! i else NUL)"

text \<open>The two assignments that end the line. \<open>len\<close> is what \<open>vsnprintf\<close> returned, the length of the
  whole message.\<close>

definition end_line :: "string \<Rightarrow> string option" where
  "end_line msg =
     (let len = length msg
      in if len \<noteq> 0 \<and> len - 1 \<ge> 4096 then None
         else if len = 0 \<or> message_at msg (len - 1) \<noteq> LF
         then (if len + 1 \<ge> 4096 then None else Some (msg @ [LF]))
         else Some (take 4095 msg))"

text \<open>\<open>Logger::Log\<close>: the logger afterwards. The flush of the highest level is the push it starts with.\<close>

definition Log ::
  "string \<Rightarrow> log_level \<Rightarrow> string \<Rightarrow> int \<Rightarrow> string option \<Rightarrow> front_logger \<Rightarrow> front_logger option" where
  "Log time level path line msg l =
     (case fl_impl l of
        None \<Rightarrow> Some l
      | Some impl \<Rightarrow>
          if log_level_int level < log_level_int (fl_min_level l) then Some l
          else case msg of
                 None \<Rightarrow> Some l
               | Some m \<Rightarrow>
                   map_option (\<lambda>m.
                     let impl = snd (logger_Append (log_prefix time level path line @ m) impl);
                         impl = (if level = LOG_LEVEL_FATAL \<and> al_running impl then flush_push impl else impl)
                     in l\<lparr>fl_impl := Some impl\<rparr>) (end_line m))"

text \<open>The macro: the level is looked at before the call.\<close>

definition LOG_BASE ::
  "string \<Rightarrow> log_level \<Rightarrow> string \<Rightarrow> int \<Rightarrow> string option \<Rightarrow> front_logger \<Rightarrow> front_logger option" where
  "LOG_BASE time level path line msg l =
     (if log_level_int level \<ge> log_level_int (fl_min_level l) then Log time level path line msg l else Some l)"

text \<open>What is defined, and what is then appended.\<close>

lemma end_line_cases:
  "end_line msg =
     (if length msg \<le> 4094 then Some (if msg \<noteq> [] \<and> last msg = LF then msg else msg @ [LF])
      else if length msg = 4095 \<and> last msg = LF then Some msg else None)"
proof -
  have "message_at msg (length msg - 1) = (if length msg \<le> 4095 then last msg else NUL)" if "msg \<noteq> []"
    using that by (auto simp: message_at_def last_conv_nth)
  then show ?thesis by (cases "msg = []") (auto simp: end_line_def Let_def)
qed

text \<open>A message is logged as a line that ends in exactly the newline it has or else gets, if it has at most
  4094 characters, or 4095 with a newline; every longer one writes outside the array.\<close>
theorem long_messages_overflow:
  "Log time level path line (Some msg) \<lparr>fl_impl = Some impl, fl_min_level = m\<rparr> =
     (if log_level_int level < log_level_int m then Some \<lparr>fl_impl = Some impl, fl_min_level = m\<rparr>
      else if 4095 < length msg \<or> length msg = 4095 \<and> last msg \<noteq> LF then None
      else let impl = snd (logger_Append (log_prefix time level path line
                 @ (if msg \<noteq> [] \<and> last msg = LF then msg else msg @ [LF])) impl)
           in Some \<lparr>fl_impl = Some (if level = LOG_LEVEL_FATAL \<and> al_running impl then flush_push impl else impl),
                    fl_min_level = m\<rparr>)"
  by (auto simp: Log_def end_line_cases Let_def)

subsection \<open>The messages of the request parser\<close>

text \<open>\<open>HttpRequest::Parse\<close> with its error messages. Those of lower levels do not reach the log with the
  level the server sets.\<close>

definition log_error :: "string \<Rightarrow> int \<Rightarrow> string \<Rightarrow> front_logger \<Rightarrow> front_logger option" where
  "log_error time line msg l = LOG_BASE time LOG_LEVEL_ERROR ''src/http_request.cpp'' line (Some msg) l"

fun parse_header_lines_log ::
  "string \<Rightarrow> http_request \<Rightarrow> string list \<Rightarrow> front_logger \<Rightarrow> ((bool \<times> http_request) \<times> front_logger) option" where
  "parse_header_lines_log time r [] lg = Some ((True, r), lg)"
| "parse_header_lines_log time r (l # ls) lg =
     (let line = strip_cr l
      in if line = [] then Some ((True, r), lg)
         else case ParseHeaderLine r line of
                (ok, r') \<Rightarrow>
                  if \<not> ok then map_option (\<lambda>lg. ((False, r'), lg)) (log_error time 42 (''Invalid header line: '' @ c_string line) lg)
                  else parse_header_lines_log time r' ls lg)"

definition request_Parse_log ::
  "string \<Rightarrow> http_request \<Rightarrow> string \<Rightarrow> front_logger \<Rightarrow> ((bool \<times> http_request) \<times> front_logger) option" where
  "request_Parse_log time r buffer lg =
     (case find_sub [CR, LF, CR, LF] buffer of
        None \<Rightarrow> Some ((False, r), lg)
      | Some header_end \<Rightarrow>
          (case getlines LF (take header_end buffer) of
             [] \<Rightarrow> Some ((False, r), lg)
           | l # ls \<Rightarrow>
               (case ParseRequestLine r (strip_cr l) of
                  (ok, r') \<Rightarrow>
                    if \<not> ok then map_option (\<lambda>lg. ((False, r'), lg))
                         (log_error time 29 (''Invalid request line: '' @ c_string (strip_cr l)) lg)
                    else map_option (\<lambda>((ok, r), lg). ((if \<not> ok then (False, r) else (True, r\<lparr>rq_finished := True\<rparr>)), lg))
                           (parse_header_lines_log time r' ls lg))))"

lemma log_error_cases:
  assumes "fl_impl lg = Some impl" "log_level_int (fl_min_level lg) \<le> 3"
  shows "log_error time n msg lg = None \<longleftrightarrow> 4095 < length msg \<or> length msg = 4095 \<and> last msg \<noteq> LF"
  using assms by (auto simp: log_error_def LOG_BASE_def Log_def end_line_cases Let_def)

lemma Log_defined: "end_line msg = Some m \<Longrightarrow> Log time level path line (Some msg) l \<noteq> None"
  unfolding Log_def by (cases "fl_impl l") simp_all

lemma log_error_short:
  assumes "length msg \<le> 4094"
  shows "\<exists>lg'. log_error time n msg lg = Some lg'"
proof -
  obtain m where "end_line msg = Some m" using assms by (simp add: end_line_cases)
  from Log_defined[OF this] have "log_error time n msg lg \<noteq> None" unfolding log_error_def LOG_BASE_def by simp
  then show ?thesis by blast
qed

text \<open>A line of one word is no request line.\<close>

lemma single_token_refused: "token line \<Longrightarrow> fst (ParseRequestLine r line) = False"
proof -
  assume "token line"
  then have "next_word line = Some (line, [])" using next_word_token(1)[of line "[]"] by simp
  moreover have "next_word [] = None" by (simp add: next_word_def)
  ultimately show ?thesis by (simp add: ParseRequestLine_def extract3_def Let_def)
qed

lemma first_line:
  assumes "token line"
  shows "find_sub [CR, LF, CR, LF] (line @ [CR, LF, CR, LF] @ rest) = Some (length line)"
    and "getlines LF line = [line]" and "strip_cr line = line"
proof -
  note no = token_no_crlf[OF assms]
  have ne: "line \<noteq> []" using assms by (simp add: token_def)
  show "find_sub [CR, LF, CR, LF] (line @ [CR, LF, CR, LF] @ rest) = Some (length line)"
    using find_sub_skip[of CR line "[LF, CR, LF]" "[CR, LF, CR, LF] @ rest"] no by simp
  show "getlines LF line = [line]" by (rule getlines_last) (use no ne in simp_all)
  have "last line \<noteq> CR" using no last_in_set[OF ne] by metis
  then show "strip_cr line = line" by (simp add: strip_cr_def)
qed

text \<open>C6: A client brings the server down, or worse, with one long word: when the first line of its request is
  a single word, Parse refuses it and logs it, and from 4073 characters on the log writes outside its
  array. The limit of 65536 bytes on the input is only checked after everything that has arrived was read.\<close>
theorem long_request_line_overflows:
  assumes "token line" and "NUL \<notin> set line" and "fl_impl lg = Some impl" and "log_level_int (fl_min_level lg) \<le> 3"
  shows "fst (request_Parse r (line @ [CR, LF, CR, LF] @ rest)) = False
    \<and> (request_Parse_log time r (line @ [CR, LF, CR, LF] @ rest) lg = None \<longleftrightarrow> 4073 \<le> length line)"
proof -
  have c: "c_string line = line" using assms(2) by (auto simp: c_string_def takeWhile_eq_all_conv)
  obtain r' where r': "ParseRequestLine r line = (False, r')"
    using single_token_refused[OF assms(1), of r] by (cases "ParseRequestLine r line") auto
  have "line \<noteq> []" "LF \<notin> set line" using assms(1) token_no_crlf by (auto simp: token_def)
  then have "last (''Invalid request line: '' @ line) \<noteq> LF" by (metis last_appendR last_in_set)
  then show ?thesis
    using first_line[OF assms(1)] log_error_cases[OF assms(3,4), of time 29 "''Invalid request line: '' @ line"]
    by (auto simp: request_Parse_def request_Parse_log_def r' c)
qed

theorem long_request_line_overflows_witness:
  "request_Parse_log [] new_request (replicate 4073 CHR ''A'' @ [CR, LF, CR, LF] @ [])
     (logger_Init LOG_LEVEL_INFO new_front_logger) = None"
proof -
  have "token (replicate 4073 CHR ''A'')" "NUL \<notin> set (replicate 4073 CHR ''A'')"
    by (auto simp: token_def isspace_def)
  then show ?thesis
    using long_request_line_overflows[of "replicate 4073 CHR ''A''" "logger_Init LOG_LEVEL_INFO new_front_logger" _
        new_request "[]" "[]"]
    by (simp add: logger_Init_def)
qed

text \<open>Logging does not change what is parsed, and a block of at most 4072 characters is logged safely.\<close>

lemma getlines_length: "l \<in> set (getlines d s) \<Longrightarrow> length l \<le> length s"
proof (induction s arbitrary: l)
  case (Cons c s)
  then show ?case by (cases "getlines d s") (fastforce split: if_splits)+
qed simp

lemma c_string_length: "length (c_string s) \<le> length s"
  by (simp add: c_string_def length_takeWhile_le)

lemma strip_cr_length: "length (strip_cr s) \<le> length s"
  by (simp add: strip_cr_def)

lemma header_lines_log:
  "(\<And>l. l \<in> set ls \<Longrightarrow> length l \<le> 4073) \<Longrightarrow> \<exists>lg'. parse_header_lines_log time r ls lg = Some (parse_header_lines r ls, lg')"
proof (induction ls arbitrary: r lg)
  case (Cons l ls)
  have "length (''Invalid header line: '' @ c_string (strip_cr l)) \<le> 4094"
    using Cons.prems[of l] c_string_length[of "strip_cr l"] strip_cr_length[of l] by simp
  from log_error_short[OF this, of time 42] Cons show ?case
    by (auto simp: Let_def split: prod.splits)
qed simp

theorem short_blocks_are_logged:
  assumes "length buffer \<le> 4072"
  shows "\<exists>lg'. request_Parse_log time r buffer lg = Some (request_Parse r buffer, lg')"
proof (cases "find_sub [CR, LF, CR, LF] buffer")
  case (Some he)
  show ?thesis
  proof (cases "getlines LF (take he buffer)")
    case (Cons l ls)
    have len: "length k \<le> 4072" if "k = l \<or> k \<in> set ls" for k
      using getlines_length[of k LF "take he buffer"] that Cons assms by auto
    obtain ok r' where r': "ParseRequestLine r (strip_cr l) = (ok, r')" by force
    have "length (''Invalid request line: '' @ c_string (strip_cr l)) \<le> 4094"
      using len[of l] c_string_length[of "strip_cr l"] strip_cr_length[of l] by simp
    from log_error_short[OF this, of time 29 lg] header_lines_log[of ls time r' lg] len show ?thesis
      by (fastforce simp: request_Parse_def request_Parse_log_def Some Cons r' split: prod.splits)
  qed (simp add: request_Parse_def request_Parse_log_def Some)
qed (simp add: request_Parse_def request_Parse_log_def)

end
