(* ===== verification/StructuredLog.thy ===== *)
theory StructuredLog
  imports ConditionalRequest Logger ServerConfig
begin

text \<open>
  The structured logger (include/logging/structured_logger.h, src/logging/structured_logger.cpp):
  entries, their text and JSON forms, the manager and the logger over \<open>AsyncLogger\<close>.

  The local time of the text form depends on the zone of the server: \<open>localtime\<close> is a parameter,
  \<open>None\<close> its failure. \<open>put_time\<close> is written out for the two formats that are used.
\<close>

datatype structured_level = SL_DEBUG | SL_INFO | SL_WARN | SL_ERROR | SL_FATAL

record structured_entry =
  se_timestamp :: int
  se_level :: structured_level
  se_message :: string
  se_file :: string
  se_line :: int
  se_function :: string
  se_request_id :: "string option"
  se_connection_id :: "int option"
  se_client_ip :: "string option"
  se_user_agent :: "string option"
  se_response_status :: "int option"

fun level_str :: "structured_level \<Rightarrow> string" where
  "level_str SL_DEBUG = ''DEBUG''"
| "level_str SL_INFO = ''INFO''"
| "level_str SL_WARN = ''WARN''"
| "level_str SL_ERROR = ''ERROR''"
| "level_str SL_FATAL = ''FATAL''"

fun color_code :: "structured_level \<Rightarrow> string" where
  "color_code SL_DEBUG = CHR 0x1B # ''[36m''"
| "color_code SL_INFO = CHR 0x1B # ''[32m''"
| "color_code SL_WARN = CHR 0x1B # ''[33m''"
| "color_code SL_ERROR = CHR 0x1B # ''[31m''"
| "color_code SL_FATAL = CHR 0x1B # ''[35m''"

definition put_date :: "broken_time \<Rightarrow> string" where
  "put_date tm = dec_int (tm_year tm + 1900) @ ''-'' @ two_digits (tm_mon tm + 1) @ ''-'' @ two_digits (tm_mday tm)"

definition put_clock :: "broken_time \<Rightarrow> string" where
  "put_clock tm = two_digits (tm_hour tm) @ '':'' @ two_digits (tm_min tm) @ '':'' @ two_digits (tm_sec tm)"

subsection \<open>The forms of an entry\<close>

definition when_some :: "'a option \<Rightarrow> ('a \<Rightarrow> string) \<Rightarrow> string" where
  "when_some x f = (case x of None \<Rightarrow> [] | Some v \<Rightarrow> f v)"

definition ToText :: "(int \<Rightarrow> broken_time option) \<Rightarrow> structured_entry \<Rightarrow> string" where
  "ToText localtime e =
     (case localtime (cast_seconds (se_timestamp e)) of
        Some tm \<Rightarrow> put_date tm @ '' '' @ put_clock tm
      | None \<Rightarrow> ''1970-01-01 00:00:00'')
     @ '' ['' @ level_str (se_level e) @ ''] ''
     @ ''['' @ se_file e @ '':'' @ dec_int (se_line e) @ '':'' @ se_function e @ ''] ''
     @ se_message e
     @ when_some (se_request_id e) (\<lambda>v. '' [req_id='' @ v @ '']'')
     @ when_some (se_connection_id e) (\<lambda>v. '' [conn_id='' @ dec_int v @ '']'')
     @ when_some (se_client_ip e) (\<lambda>v. '' [client_ip='' @ v @ '']'')
     @ when_some (se_response_status e) (\<lambda>v. '' [status='' @ dec_int v @ '']'')"

definition ToColoredText :: "(int \<Rightarrow> broken_time option) \<Rightarrow> structured_entry \<Rightarrow> string" where
  "ToColoredText localtime e = color_code (se_level e) @ ToText localtime e @ CHR 0x1B # ''[0m''"

abbreviation DQ :: char where "DQ \<equiv> CHR 0x22"
abbreviation BS :: char where "BS \<equiv> CHR 0x5C"

definition escape_message :: "string \<Rightarrow> string" where
  "escape_message s = concat (map (\<lambda>c.
     if c = DQ then [BS, DQ] else if c = BS then [BS, BS] else if c = CHR 0x08 then BS # ''b''
     else if c = CHR 0x0C then BS # ''f'' else if c = LF then BS # ''n'' else if c = CR then BS # ''r''
     else if c = CHR 0x09 then BS # ''t'' else [c]) s)"

definition escape_ua :: "string \<Rightarrow> string" where
  "escape_ua s = concat (map (\<lambda>c. if c = DQ then [BS, DQ] else if c = BS then [BS, BS] else [c]) s)"

definition quoted :: "string \<Rightarrow> string" where
  "quoted s = DQ # s @ [DQ]"

text \<open>\<open>gmtime_r\<close> succeeds: the seconds of a time point are far from the limits of the year.\<close>

definition ToJson :: "structured_entry \<Rightarrow> string" where
  "ToJson e = ''{''
     @ (let tm = gmtime (cast_seconds (se_timestamp e))
        in quoted ''timestamp'' @ '': '' @ quoted (put_date tm @ ''T'' @ put_clock tm @ ''Z'') @ '', '')
     @ quoted ''level'' @ '': '' @ quoted (level_str (se_level e)) @ '', ''
     @ quoted ''file'' @ '': '' @ quoted (se_file e) @ '', ''
     @ quoted ''line'' @ '': '' @ dec_int (se_line e) @ '', ''
     @ quoted ''function'' @ '': '' @ quoted (se_function e) @ '', ''
     @ quoted ''message'' @ '': '' @ quoted (escape_message (se_message e))
     @ when_some (se_request_id e) (\<lambda>v. '', '' @ quoted ''request_id'' @ '': '' @ quoted v)
     @ when_some (se_connection_id e) (\<lambda>v. '', '' @ quoted ''connection_id'' @ '': '' @ dec_int v)
     @ when_some (se_client_ip e) (\<lambda>v. '', '' @ quoted ''client_ip'' @ '': '' @ quoted v)
     @ when_some (se_user_agent e) (\<lambda>v. '', '' @ quoted ''user_agent'' @ '': '' @ quoted (escape_ua v))
     @ when_some (se_response_status e) (\<lambda>v. '', '' @ quoted ''response_status'' @ '': '' @ dec_int v)
     @ ''}''"

subsection \<open>The logger and the manager\<close>

record structured_logger =
  sg_format :: string
  sg_log_path :: string
  sg_flush_interval :: i32
  sg_impl :: async_logger

definition new_structured_logger :: "string \<Rightarrow> string \<Rightarrow> i32 \<Rightarrow> structured_logger" where
  "new_structured_logger log_path fmt flush_interval =
     \<lparr>sg_format = fmt, sg_log_path = log_path, sg_flush_interval = flush_interval,
      sg_impl = snd (logger_Start new_logger)\<rparr>"

definition format_entry :: "(int \<Rightarrow> broken_time option) \<Rightarrow> string \<Rightarrow> structured_entry \<Rightarrow> string" where
  "format_entry localtime fmt e =
     (let formatted = (if fmt = ''json'' then ToJson e
                       else if fmt = ''colored'' then ToColoredText localtime e else ToText localtime e)
      in if formatted \<noteq> [] \<and> last formatted \<noteq> LF then formatted @ [LF] else formatted)"

definition structured_Log ::
  "(int \<Rightarrow> broken_time option) \<Rightarrow> structured_entry \<Rightarrow> structured_logger \<Rightarrow> structured_logger" where
  "structured_Log localtime e g =
     g\<lparr>sg_impl := snd (logger_Append (format_entry localtime (sg_format g) e) (sg_impl g))\<rparr>"

definition SetOutputFormat :: "string \<Rightarrow> structured_logger \<Rightarrow> structured_logger" where
  "SetOutputFormat fmt g = g\<lparr>sg_format := fmt\<rparr>"

type_synonym log_manager = "structured_logger option"

definition manager_Init :: "structured_logger \<Rightarrow> log_manager \<Rightarrow> log_manager" where
  "manager_Init logger mgr = Some logger"

definition IsInitialized :: "log_manager \<Rightarrow> bool" where
  "IsInitialized mgr \<longleftrightarrow> mgr \<noteq> None"

definition manager_Log ::
  "(int \<Rightarrow> broken_time option) \<Rightarrow> structured_entry \<Rightarrow> log_manager \<Rightarrow> log_manager" where
  "manager_Log localtime e mgr = map_option (structured_Log localtime e) mgr"

definition InitStructuredLoggerFromConfig :: "server_config option \<Rightarrow> log_manager \<Rightarrow> log_manager" where
  "InitStructuredLoggerFromConfig config mgr =
     (case config of
        None \<Rightarrow> mgr
      | Some c \<Rightarrow>
          (let logging_opts = sc_logging c
           in if lg_async logging_opts
              then manager_Init (new_structured_logger (lg_file logging_opts) ''text'' (lg_flush_interval logging_opts)) mgr
              else mgr))"

text \<open>The two macros: the message, as \<open>snprintf\<close> would write it in full, goes through an array of 4096
  characters, of which the last is the null character.\<close>

record request_context =
  rx_request_id :: "string option"
  rx_connection_id :: "int option"
  rx_client_ip :: "string option"
  rx_user_agent :: "string option"
  rx_response_status :: "int option"

definition base_entry :: "int \<Rightarrow> structured_level \<Rightarrow> string \<Rightarrow> int \<Rightarrow> string \<Rightarrow> string \<Rightarrow> structured_entry" where
  "base_entry now lvl path line func msg =
     \<lparr>se_timestamp = now, se_level = lvl, se_message = c_string (take 4095 msg), se_file = path, se_line = line,
      se_function = func, se_request_id = None, se_connection_id = None, se_client_ip = None,
      se_user_agent = None, se_response_status = None\<rparr>"

definition LOG_STRUCTURED ::
  "(int \<Rightarrow> broken_time option) \<Rightarrow> int \<Rightarrow> structured_level \<Rightarrow> string \<Rightarrow> int \<Rightarrow> string \<Rightarrow> string \<Rightarrow> log_manager \<Rightarrow> log_manager" where
  "LOG_STRUCTURED localtime now lvl path line func msg mgr =
     (if IsInitialized mgr then manager_Log localtime (base_entry now lvl path line func msg) mgr else mgr)"

definition LOG_STRUCTURED_CTX ::
  "(int \<Rightarrow> broken_time option) \<Rightarrow> int \<Rightarrow> structured_level \<Rightarrow> string \<Rightarrow> int \<Rightarrow> string \<Rightarrow> request_context \<Rightarrow> string
   \<Rightarrow> log_manager \<Rightarrow> log_manager" where
  "LOG_STRUCTURED_CTX localtime now lvl path line func ctx msg mgr =
     (if IsInitialized mgr
      then manager_Log localtime ((base_entry now lvl path line func msg)
             \<lparr>se_request_id := rx_request_id ctx, se_connection_id := rx_connection_id ctx,
              se_client_ip := rx_client_ip ctx, se_user_agent := rx_user_agent ctx,
              se_response_status := rx_response_status ctx\<rparr>) mgr
      else mgr)"

subsection \<open>Reading an entry back\<close>

text \<open>A reader for the objects of the log, by the grammar of JSON (RFC 8259): members are strings and
  whole numbers. A string has no control characters; \<open>\u\<close> escapes, which the log never writes, are left out.\<close>

datatype json_value = JV_str string | JV_int int

fun unescape :: "char \<Rightarrow> char option" where
  "unescape c =
     (if c = DQ then Some DQ else if c = BS then Some BS else if c = CHR ''/'' then Some CHR ''/''
      else if c = CHR ''b'' then Some (CHR 0x08) else if c = CHR ''f'' then Some (CHR 0x0C)
      else if c = CHR ''n'' then Some LF else if c = CHR ''r'' then Some CR
      else if c = CHR ''t'' then Some (CHR 0x09) else None)"

definition control :: "char \<Rightarrow> bool" where
  "control c \<longleftrightarrow> (of_char c :: nat) < 32"

fun read_string :: "string \<Rightarrow> (string \<times> string) option" where
  "read_string [] = None"
| "read_string (c # cs) =
     (if c = DQ then Some ([], cs)
      else if c = BS then
        (case cs of [] \<Rightarrow> None
         | d # ds \<Rightarrow> (case unescape d of None \<Rightarrow> None
                     | Some x \<Rightarrow> map_option (\<lambda>(s, r). (x # s, r)) (read_string ds)))
      else if control c then None
      else map_option (\<lambda>(s, r). (c # s, r)) (read_string cs))"

definition read_int :: "string \<Rightarrow> (int \<times> string) option" where
  "read_int s =
     (let (neg, t) = (case s of c # cs \<Rightarrow> if c = CHR ''-'' then (True, cs) else (False, s) | [] \<Rightarrow> (False, []));
          ds = takeWhile isdigit t
      in if ds = [] then None
         else Some ((if neg then - int (digits_value 0 ds) else int (digits_value 0 ds)), drop (length ds) t))"

definition read_value :: "string \<Rightarrow> (json_value \<times> string) option" where
  "read_value s =
     (case s of [] \<Rightarrow> None
      | c # cs \<Rightarrow> if c = DQ then map_option (\<lambda>(v, r). (JV_str v, r)) (read_string cs)
                else map_option (\<lambda>(v, r). (JV_int v, r)) (read_int s))"

fun read_members :: "nat \<Rightarrow> string \<Rightarrow> (string \<times> json_value) list option" where
  "read_members 0 s = None"
| "read_members (Suc n) s =
     (if s = [] \<or> hd s \<noteq> DQ then None
      else case read_string (tl s) of
             None \<Rightarrow> None
           | Some (k, r) \<Rightarrow>
               if \<not> is_prefix '': '' r then None
               else case read_value (drop 2 r) of
                      None \<Rightarrow> None
                    | Some (v, r) \<Rightarrow>
                        if r = ''}'' then Some [(k, v)]
                        else if is_prefix '', '' r then map_option (Cons (k, v)) (read_members n (drop 2 r))
                        else None)"

definition read_object :: "string \<Rightarrow> (string \<times> json_value) list option" where
  "read_object s =
     (case s of [] \<Rightarrow> None | c # r \<Rightarrow> if c = CHR ''{'' then read_members (length r) r else None)"

text \<open>What each way of writing a string can be read back from.\<close>

definition plain :: "string \<Rightarrow> bool" where
  "plain s \<longleftrightarrow> (\<forall>c \<in> set s. c \<noteq> DQ \<and> c \<noteq> BS \<and> \<not> control c)"

definition has_escape :: "char \<Rightarrow> bool" where
  "has_escape c \<longleftrightarrow> c \<in> {CHR 0x08, CHR 0x0C, LF, CR, CHR 0x09}"

lemma read_plain: "plain s \<Longrightarrow> read_string (s @ DQ # r) = Some (s, r)"
  by (induction s) (auto simp: plain_def)

lemma read_escaped_message:
  "read_string (escape_message s @ DQ # r) = (if \<exists>c \<in> set s. control c \<and> \<not> has_escape c then None else Some (s, r))"
proof (induction s)
  case (Cons c s)
  have "escape_message (c # s) =
     (if c = DQ then [BS, DQ] else if c = BS then [BS, BS] else if c = CHR 0x08 then BS # ''b''
     else if c = CHR 0x0C then BS # ''f'' else if c = LF then BS # ''n'' else if c = CR then BS # ''r''
     else if c = CHR 0x09 then BS # ''t'' else [c]) @ escape_message s"
    by (simp add: escape_message_def)
  moreover have "\<not> control DQ" "\<not> control BS" by (simp_all add: control_def)
  ultimately show ?case using Cons by (auto simp: has_escape_def)
qed (simp add: escape_message_def)

lemma read_escaped_ua:
  "read_string (escape_ua s @ DQ # r) = (if \<exists>c \<in> set s. control c then None else Some (s, r))"
proof (induction s)
  case (Cons c s)
  have "escape_ua (c # s) = (if c = DQ then [BS, DQ] else if c = BS then [BS, BS] else [c]) @ escape_ua s"
    by (simp add: escape_ua_def)
  moreover have "\<not> control DQ" "\<not> control BS" by (simp_all add: control_def)
  ultimately show ?case using Cons by auto
qed (simp add: escape_ua_def)

lemma read_dec:
  assumes "r = [] \<or> \<not> isdigit (hd r)"
  shows "read_int (dec_int i @ r) = Some (i, r)"
proof -
  have tw: "takeWhile isdigit (dec n @ r) = dec n" for n
    using assms dec_digits by (cases r) (auto simp: takeWhile_append)
  have dash: "hd (dec n) \<noteq> CHR ''-''" for n using dec_chars[of "hd (dec n)" n] by simp
  show ?thesis
  proof (cases "i < 0")
    case True
    then show ?thesis by (simp add: read_int_def dec_int_def tw digits_value_dec)
  next
    case False
    then have "dec_int i = dec (nat i)" by (simp add: dec_int_def)
    moreover obtain c cs where "dec (nat i) = c # cs" by (metis dec_nonempty list.exhaust)
    ultimately show ?thesis using False dash[of "nat i"] tw[of "nat i"] digits_value_dec[of "nat i"]
      by (simp add: read_int_def)
  qed
qed

subsection \<open>JSON entries\<close>

text \<open>The members of an entry, each with the text it is written as and the value it stands for.\<close>

type_synonym member = "string \<times> string \<times> json_value"

definition jstr :: "string \<Rightarrow> string \<Rightarrow> string \<Rightarrow> member" where
  "jstr k t v = (k, quoted t, JV_str v)"

definition jint :: "string \<Rightarrow> int \<Rightarrow> member" where
  "jint k i = (k, dec_int i, JV_int i)"

definition opt_member :: "'a option \<Rightarrow> ('a \<Rightarrow> member) \<Rightarrow> member list" where
  "opt_member x f = (case x of None \<Rightarrow> [] | Some v \<Rightarrow> [f v])"

definition json_time :: "structured_entry \<Rightarrow> string" where
  "json_time e = (let tm = gmtime (cast_seconds (se_timestamp e)) in put_date tm @ ''T'' @ put_clock tm @ ''Z'')"

definition entry_members :: "structured_entry \<Rightarrow> member list" where
  "entry_members e =
     [jstr ''timestamp'' (json_time e) (json_time e), jstr ''level'' (level_str (se_level e)) (level_str (se_level e)),
      jstr ''file'' (se_file e) (se_file e), jint ''line'' (se_line e),
      jstr ''function'' (se_function e) (se_function e), jstr ''message'' (escape_message (se_message e)) (se_message e)]
     @ opt_member (se_request_id e) (\<lambda>v. jstr ''request_id'' v v)
     @ opt_member (se_connection_id e) (jint ''connection_id'')
     @ opt_member (se_client_ip e) (\<lambda>v. jstr ''client_ip'' v v)
     @ opt_member (se_user_agent e) (\<lambda>v. jstr ''user_agent'' (escape_ua v) v)
     @ opt_member (se_response_status e) (jint ''response_status'')"

fun members_text :: "member list \<Rightarrow> string" where
  "members_text [] = []"
| "members_text ((k, t, v) # ms) = '', '' @ quoted k @ '': '' @ t @ members_text ms"

definition readable :: "member \<Rightarrow> bool" where
  "readable m \<longleftrightarrow> (case m of (k, t, v) \<Rightarrow> plain k \<and>
     (\<forall>r. r \<noteq> [] \<and> hd r \<in> {CHR '','', CHR ''}''} \<longrightarrow> read_value (t @ r) = Some (v, r)))"

lemma members_text_append [simp]: "members_text (xs @ ys) = members_text xs @ members_text ys"
  by (induction xs rule: members_text.induct) simp_all

lemma members_text_opt: "members_text (opt_member x f) = when_some x (\<lambda>v. members_text [f v])"
  by (cases x) (simp_all add: opt_member_def when_some_def)

lemma opt_member_set: "m \<in> set (opt_member x f) \<longleftrightarrow> (\<exists>v. x = Some v \<and> m = f v)"
  by (cases x) (simp_all add: opt_member_def)

lemma ToJson_members: "ToJson e = ''{'' @ drop 2 (members_text (entry_members e)) @ ''}''"
  by (simp add: ToJson_def entry_members_def members_text_opt jstr_def jint_def json_time_def Let_def)

lemma members_text_head: "r = members_text ms @ ''}'' \<Longrightarrow> r \<noteq> [] \<and> hd r \<in> {CHR '','', CHR ''}''}"
  by (cases ms) auto

lemma members_text_stop: "members_text ms @ ''}'' = ''}'' \<longleftrightarrow> ms = []"
  by (cases ms) auto

lemma read_members_text:
  assumes "\<forall>m \<in> set ms. readable m" "ms \<noteq> []" "length ms \<le> n"
  shows "read_members n (drop 2 (members_text ms) @ ''}'') = Some (map (\<lambda>(k, t, v). (k, v)) ms)"
  using assms
proof (induction ms arbitrary: n)
  case (Cons m ms)
  obtain k t v where m: "m = (k, t, v)" by (cases m)
  obtain n' where n: "n = Suc n'" using Cons.prems(3) by (cases n) auto
  have k: "plain k" and t: "read_value (t @ members_text ms @ ''}'') = Some (v, members_text ms @ ''}'')"
    using Cons.prems(1) members_text_head[OF refl, of ms] by (simp_all add: readable_def m)
  have written: "drop 2 (members_text (m # ms)) @ ''}'' = DQ # k @ DQ # '': '' @ t @ members_text ms @ ''}''"
    by (simp add: m quoted_def)
  show ?case
  proof (cases ms)
    case Nil
    then show ?thesis using t unfolding written n by (simp add: read_plain[OF k] m)
  next
    case (Cons m' ms')
    obtain k' t' v' where "m' = (k', t', v')" by (cases m')
    then have "is_prefix '', '' (members_text ms @ ''}'')" by (simp add: Cons)
    moreover have "read_members n' (drop 2 (members_text ms @ ''}'')) = Some (map (\<lambda>(k, t, v). (k, v)) ms)"
      using Cons.IH[of n'] Cons.prems n Cons \<open>m' = _\<close> by simp
    ultimately show ?thesis using t members_text_stop[of ms] Cons
      unfolding written n by (simp add: read_plain[OF k] m)
  qed
qed simp

lemma plain_append [simp]: "plain (s @ t) \<longleftrightarrow> plain s \<and> plain t"
  by (auto simp: plain_def)

lemma plain_Cons [simp]: "plain (c # s) \<longleftrightarrow> c \<noteq> DQ \<and> c \<noteq> BS \<and> \<not> control c \<and> plain s"
  by (auto simp: plain_def)

lemma plain_Nil [simp]: "plain []"
  by (simp add: plain_def)

lemma plain_dec [simp]: "plain (dec n)" "plain (dec_int i)" "plain (two_digits n)"
proof -
  have "isdigit c \<Longrightarrow> c \<noteq> DQ \<and> c \<noteq> BS \<and> \<not> control c" for c
    by (auto simp: isdigit_def control_def)
  then show "plain (dec n)" for n using dec_digits by (simp add: plain_def)
  then show "plain (dec_int i)" "plain (two_digits n)"
    by (auto simp: dec_int_def two_digits_def control_def)
qed

lemma plain_time: "plain (json_time e)"
  by (simp add: json_time_def put_date_def put_clock_def Let_def control_def)

lemma plain_level: "plain (level_str l)"
  by (cases l) (simp_all add: control_def)

lemma readable_plain: "plain k \<Longrightarrow> plain v \<Longrightarrow> readable (jstr k v v)"
  by (auto simp: readable_def jstr_def quoted_def read_value_def read_plain)

lemma readable_int: "plain k \<Longrightarrow> readable (jint k i)"
proof -
  obtain c cs where c: "dec_int i = c # cs" by (cases "dec_int i") (auto simp: dec_int_def split: if_splits)
  then have "c \<noteq> DQ" using dec_int_chars[of c i] by simp
  then have "read_value (dec_int i @ r) = map_option (\<lambda>(v, r). (JV_int v, r)) (read_int (dec_int i @ r))" for r
    by (simp add: read_value_def c)
  moreover have "\<not> isdigit c" if "c \<in> {CHR '','', CHR ''}''}" for c using that by (auto simp: isdigit_def)
  ultimately show "plain k \<Longrightarrow> readable (jint k i)" by (auto simp: readable_def jint_def read_dec)
qed

lemma readable_message:
  "plain k \<Longrightarrow> \<forall>c \<in> set v. control c \<longrightarrow> has_escape c \<Longrightarrow> readable (jstr k (escape_message v) v)"
  by (auto simp: readable_def jstr_def quoted_def read_value_def read_escaped_message)

lemma readable_ua:
  "plain k \<Longrightarrow> \<forall>c \<in> set v. \<not> control c \<Longrightarrow> readable (jstr k (escape_ua v) v)"
  by (auto simp: readable_def jstr_def quoted_def read_value_def read_escaped_ua)

text \<open>The fields that are written as they are must need no escaping.\<close>

definition clean_entry :: "structured_entry \<Rightarrow> bool" where
  "clean_entry e \<longleftrightarrow> plain (se_file e) \<and> plain (se_function e)
     \<and> (\<forall>v. se_request_id e = Some v \<longrightarrow> plain v) \<and> (\<forall>v. se_client_ip e = Some v \<longrightarrow> plain v)
     \<and> (\<forall>v. se_user_agent e = Some v \<longrightarrow> (\<forall>c \<in> set v. \<not> control c))
     \<and> (\<forall>c \<in> set (se_message e). control c \<longrightarrow> has_escape c)"

lemma plain_keys:
  "plain ''timestamp''" "plain ''level''" "plain ''file''" "plain ''line''" "plain ''function''" "plain ''message''"
  "plain ''request_id''" "plain ''connection_id''" "plain ''client_ip''" "plain ''user_agent''"
  "plain ''response_status''"
  by (simp_all add: control_def)

lemma entry_readable: "clean_entry e \<Longrightarrow> m \<in> set (entry_members e) \<Longrightarrow> readable m"
  by (auto simp: entry_members_def opt_member_set clean_entry_def simp del: plain_Cons
      intro!: readable_plain readable_int readable_message readable_ua plain_time plain_level plain_keys)

lemma members_length: "6 * length ms \<le> length (members_text ms)"
  by (induction ms rule: members_text.induct) (simp_all add: quoted_def)



text \<open>What identifies a request is written without escaping: a request id that contains a quotation mark
  writes an entry that is, to the byte, the one of another request with another client address.\<close>
theorem request_id_forges_client:
  "ToJson (e\<lparr>se_request_id := Some (a @ [DQ] @ '', '' @ quoted ''client_ip'' @ '': '' @ [DQ] @ b),
             se_connection_id := None, se_client_ip := None\<rparr>)
   = ToJson (e\<lparr>se_request_id := Some a, se_connection_id := None, se_client_ip := Some b\<rparr>)"
  by (simp add: ToJson_def when_some_def quoted_def Let_def)

subsection \<open>Lines\<close>

text \<open>In JSON an entry is one line, whatever its message.\<close>

lemma escaped_no_lf: "LF \<notin> set (escape_message s)"
  by (auto simp: escape_message_def)

lemma no_lf_parts:
  "LF \<notin> set (dec n)" "LF \<notin> set (dec_int i)" "LF \<notin> set (two_digits n)" "LF \<notin> set (level_str l)"
  using dec_chars dec_int_chars by (auto simp: two_digits_def) (cases l; simp)+

text \<open>In the JSON format every entry is written as one line: one newline, at the end, whatever the
  message is, as long as no other string of the entry has one.\<close>
theorem json_entry_is_one_line:
  assumes "\<forall>s \<in> {se_file e, se_function e} \<union> set_option (se_request_id e) \<union> set_option (se_client_ip e)
      \<union> set_option (se_user_agent e). LF \<notin> set s"
  shows "format_entry localtime ''json'' e = ToJson e @ [LF] \<and> LF \<notin> set (ToJson e)"
proof -
  have "LF \<notin> set (escape_ua v)" if "se_user_agent e = Some v" for v
    using assms that by (auto simp: escape_ua_def)
  then have no: "LF \<notin> set (ToJson e)" using assms
    by (auto simp: ToJson_def when_some_def quoted_def no_lf_parts escaped_no_lf put_date_def put_clock_def
        Let_def split: option.splits)
  moreover have "last (ToJson e) = CHR ''}''" by (simp add: ToJson_def)
  moreover have "ToJson e \<noteq> []" by (simp add: ToJson_def)
  ultimately show ?thesis by (simp add: format_entry_def)
qed

theorem json_entry_is_one_line_witness:
  "LF \<notin> set (ToJson (base_entry 0 SL_WARN ''src/a.cpp'' 7 ''f'' [LF, LF]))"
  using json_entry_is_one_line[of "base_entry 0 SL_WARN ''src/a.cpp'' 7 ''f'' [LF, LF]" "\<lambda>_. None"]
  by (simp add: base_entry_def)

text \<open>In the text format, the one the server sets up, a newline of the message is written as it is: an
  entry whose message goes on after a newline with the text of another entry puts the lines of both into the log.\<close>
theorem text_entry_forges_line:
  assumes "se_request_id e = None" "se_connection_id e = None" "se_client_ip e = None" "se_response_status e = None"
    and "last (ToText localtime f) \<noteq> LF" "se_message e \<noteq> [] \<longrightarrow> last (se_message e) \<noteq> LF"
  shows "format_entry localtime ''text'' (e\<lparr>se_message := se_message e @ [LF] @ ToText localtime f\<rparr>)
    = format_entry localtime ''text'' e @ format_entry localtime ''text'' f"
proof -
  have "ToText localtime f \<noteq> []" by (simp add: ToText_def)
  then show ?thesis using assms by (simp add: format_entry_def ToText_def when_some_def)
qed

theorem text_entry_forges_line_witness:
  "let e = base_entry 0 SL_INFO ''src/a.cpp'' 7 ''f'' ''GET /''; f = base_entry 0 SL_FATAL ''src/b.cpp'' 9 ''g'' ''disk full''
   in format_entry (\<lambda>_. None) ''text'' (e\<lparr>se_message := ''GET /'' @ [LF] @ ToText (\<lambda>_. None) f\<rparr>)
    = format_entry (\<lambda>_. None) ''text'' e @ format_entry (\<lambda>_. None) ''text'' f"
  using text_entry_forges_line[of "base_entry 0 SL_INFO ''src/a.cpp'' 7 ''f'' ''GET /''" "\<lambda>_. None"
      "base_entry 0 SL_FATAL ''src/b.cpp'' 9 ''g'' ''disk full''"]
  by (simp add: base_entry_def c_string_def ToText_def when_some_def Let_def)

text \<open>The logger that the configuration sets up has the text format, and a message of any length is safe:
  what is logged first is the entry with at most 4095 characters of it.\<close>
theorem configured_logger_writes_text:
  fixes e :: structured_entry
  assumes "lg_async (sc_logging c)" and "length (format_entry localtime ''text'' (base_entry now lvl path line func msg)) \<le> kLargeBuffer"
  shows "\<exists>g. LOG_STRUCTURED localtime now lvl path line func msg (InitStructuredLoggerFromConfig (Some c) mgr) = Some g
    \<and> sg_format g = ''text'' \<and> sg_log_path g = lg_file (sc_logging c)
    \<and> al_current (sg_impl g) = Some (format_entry localtime ''text'' (base_entry now lvl path line func msg))"
proof -
  let ?t = "format_entry localtime ''text'' (base_entry now lvl path line func msg)"
  have "?t \<noteq> []" by (simp add: format_entry_def ToText_def Let_def)
  moreover have "sint (of_nat (length ?t) :: 32 word) \<le> int kLargeBuffer"
    using assms(2) by (simp add: kLargeBuffer_def signed_of_nat signed_take_bit_int_eq_self)
  ultimately show ?thesis using assms
    by (simp add: LOG_STRUCTURED_def InitStructuredLoggerFromConfig_def manager_Init_def IsInitialized_def manager_Log_def
        structured_Log_def new_structured_logger_def logger_Start_def new_logger_def logger_Append_def Append_locked_def
        fb_Append_def Avail_def Let_def)
qed

end
