(* ===== verification/Plugins.thy ===== *)
theory Plugins
  imports MessageHandler Server "HOL-Library.Multiset"
begin

text \<open>
  Plugins (include/plugin/plugin.h, src/plugin/plugin_manager.cpp, src/plugin/example_plugin.cpp) and
  the message callback of src/main.cpp with its calls of them.

  A plugin class is the record of its virtual functions over the data \<open>'p\<close> of an object; \<open>'s\<close> is the
  server it is given to at loading. A call returns, or throws something derived from
  \<open>std::exception\<close>, or something else; either way with what it has done so far. The functions
  run under the mutex of the manager, which is not recursive: they cannot call the manager.

  The objects are kept in an \<open>unordered_map\<close>, a list here in the order it is walked through. Where a
  new entry goes, and what becomes of the order then, is the library's choice: the parameter \<open>reorder\<close>.
\<close>

datatype 'a outcome = Returned 'a | Threw_std 'a | Threw_other 'a

record ('s, 'p) plugin =
  pg_Name :: string
  pg_Version :: string
  pg_OnLoad :: "'s \<Rightarrow> 'p \<Rightarrow> (bool \<times> 's \<times> 'p) outcome"
  pg_OnUnload :: "'p \<Rightarrow> (bool \<times> 'p) outcome"
  pg_OnRequestStart :: "http_request \<Rightarrow> 'p \<Rightarrow> (http_request \<times> 'p) outcome"
  pg_OnRequestComplete :: "http_request \<times> http_response \<Rightarrow> 'p \<Rightarrow> ((http_request \<times> http_response) \<times> 'p) outcome"
  pg_OnConnectionOpen :: "int \<Rightarrow> 'p \<Rightarrow> (int \<times> 'p) outcome"
  pg_OnConnectionClose :: "int \<Rightarrow> 'p \<Rightarrow> (int \<times> 'p) outcome"

type_synonym ('s, 'p) plugin_table = "(string \<times> ('s, 'p) plugin \<times> 'p) list"

record ('s, 'p) plugin_manager =
  pm_plugins :: "('s, 'p) plugin_table"
  pm_loaded :: bool

definition new_plugin_manager :: "('s, 'p) plugin_manager" where
  "new_plugin_manager = \<lparr>pm_plugins = [], pm_loaded = False\<rparr>"

subsection \<open>The manager\<close>

definition RegisterPlugin ::
  "(('s, 'p) plugin_table \<Rightarrow> ('s, 'p) plugin_table) \<Rightarrow> ('s, 'p) plugin \<Rightarrow> 'p \<Rightarrow> ('s, 'p) plugin_manager
   \<Rightarrow> bool \<times> ('s, 'p) plugin_manager" where
  "RegisterPlugin reorder c p m =
     (if map_of (pm_plugins m) (pg_Name c) \<noteq> None then (False, m)
      else (True, m\<lparr>pm_plugins := reorder ((pg_Name c, c, p) # pm_plugins m)\<rparr>))"

text \<open>Neither loading nor unloading catches anything: the result says whether an exception went through,
  and counts the plugins that answered true.\<close>

fun load_all :: "'s \<Rightarrow> ('s, 'p) plugin_table \<Rightarrow> nat option \<times> 's \<times> ('s, 'p) plugin_table" where
  "load_all s [] = (Some 0, s, [])"
| "load_all s ((n, c, p) # ps) =
     (case pg_OnLoad c s p of
        Returned (ok, s, p) \<Rightarrow>
          (case load_all s ps of
             (r, s, ps) \<Rightarrow> (map_option (\<lambda>k. if ok then k + 1 else k) r, s, (n, c, p) # ps))
      | Threw_std (ok, s, p) \<Rightarrow> (None, s, (n, c, p) # ps)
      | Threw_other (ok, s, p) \<Rightarrow> (None, s, (n, c, p) # ps))"

definition LoadAllPlugins :: "'s \<Rightarrow> ('s, 'p) plugin_manager \<Rightarrow> nat option \<times> 's \<times> ('s, 'p) plugin_manager" where
  "LoadAllPlugins s m =
     (case load_all s (pm_plugins m) of
        (None, s, ps) \<Rightarrow> (None, s, m\<lparr>pm_plugins := ps\<rparr>)
      | (Some k, s, ps) \<Rightarrow> (Some k, s, m\<lparr>pm_plugins := ps, pm_loaded := True\<rparr>))"

fun unload_all :: "('s, 'p) plugin_table \<Rightarrow> nat option \<times> ('s, 'p) plugin_table" where
  "unload_all [] = (Some 0, [])"
| "unload_all ((n, c, p) # ps) =
     (case pg_OnUnload c p of
        Returned (ok, p) \<Rightarrow>
          (case unload_all ps of
             (r, ps) \<Rightarrow> (map_option (\<lambda>k. if ok then k + 1 else k) r, (n, c, p) # ps))
      | Threw_std (ok, p) \<Rightarrow> (None, (n, c, p) # ps)
      | Threw_other (ok, p) \<Rightarrow> (None, (n, c, p) # ps))"

definition UnloadAllPlugins :: "('s, 'p) plugin_manager \<Rightarrow> nat option \<times> ('s, 'p) plugin_manager" where
  "UnloadAllPlugins m =
     (case unload_all (pm_plugins m) of
        (None, ps) \<Rightarrow> (None, m\<lparr>pm_plugins := ps\<rparr>)
      | (Some k, ps) \<Rightarrow> (Some k, m\<lparr>pm_plugins := ps, pm_loaded := False\<rparr>))"

definition GetPlugin :: "string \<Rightarrow> ('s, 'p) plugin_manager \<Rightarrow> (('s, 'p) plugin \<times> 'p) option" where
  "GetPlugin name m = map_of (pm_plugins m) name"

definition GetPluginNames :: "('s, 'p) plugin_manager \<Rightarrow> string list" where
  "GetPluginNames m = map fst (pm_plugins m)"

definition GetPluginCount :: "('s, 'p) plugin_manager \<Rightarrow> nat" where
  "GetPluginCount m = length (pm_plugins m)"

definition IsPluginLoaded :: "string \<Rightarrow> ('s, 'p) plugin_manager \<Rightarrow> bool" where
  "IsPluginLoaded name m = (if map_of (pm_plugins m) name = None then False else pm_loaded m)"

text \<open>The four notifications walk through the table in the same way, handing on \<open>x\<close>, what the plugins
  may change. A standard exception is swallowed, and the walk goes on; any other one leaves the
  function: the first component is False then.\<close>

fun notify_all ::
  "(('s, 'p) plugin \<Rightarrow> 'x \<Rightarrow> 'p \<Rightarrow> ('x \<times> 'p) outcome) \<Rightarrow> 'x \<Rightarrow> ('s, 'p) plugin_table
   \<Rightarrow> bool \<times> 'x \<times> ('s, 'p) plugin_table" where
  "notify_all f x [] = (True, x, [])"
| "notify_all f x ((n, c, p) # ps) =
     (case f c x p of
        Returned (x, p) \<Rightarrow> (case notify_all f x ps of (ok, x, ps) \<Rightarrow> (ok, x, (n, c, p) # ps))
      | Threw_std (x, p) \<Rightarrow> (case notify_all f x ps of (ok, x, ps) \<Rightarrow> (ok, x, (n, c, p) # ps))
      | Threw_other (x, p) \<Rightarrow> (False, x, (n, c, p) # ps))"

definition notify ::
  "(('s, 'p) plugin \<Rightarrow> 'x \<Rightarrow> 'p \<Rightarrow> ('x \<times> 'p) outcome) \<Rightarrow> 'x \<Rightarrow> ('s, 'p) plugin_manager
   \<Rightarrow> bool \<times> 'x \<times> ('s, 'p) plugin_manager" where
  "notify f x m = (case notify_all f x (pm_plugins m) of (ok, x, ps) \<Rightarrow> (ok, x, m\<lparr>pm_plugins := ps\<rparr>))"

definition NotifyRequestStart :: "http_request \<Rightarrow> ('s, 'p) plugin_manager \<Rightarrow> bool \<times> http_request \<times> ('s, 'p) plugin_manager" where
  "NotifyRequestStart = notify pg_OnRequestStart"

definition NotifyRequestComplete ::
  "http_request \<times> http_response \<Rightarrow> ('s, 'p) plugin_manager \<Rightarrow> bool \<times> (http_request \<times> http_response) \<times> ('s, 'p) plugin_manager" where
  "NotifyRequestComplete = notify pg_OnRequestComplete"

definition NotifyConnectionOpen :: "int \<Rightarrow> ('s, 'p) plugin_manager \<Rightarrow> bool \<times> int \<times> ('s, 'p) plugin_manager" where
  "NotifyConnectionOpen = notify pg_OnConnectionOpen"

definition NotifyConnectionClose :: "int \<Rightarrow> ('s, 'p) plugin_manager \<Rightarrow> bool \<times> int \<times> ('s, 'p) plugin_manager" where
  "NotifyConnectionClose = notify pg_OnConnectionClose"

subsection \<open>The example plugin\<close>

record example_plugin_data =
  ep_connection_count :: nat
  ep_request_count :: nat

text \<open>The counters are \<open>int\<close> members; that they overflow is left out. So are the messages it logs.\<close>

definition ExamplePlugin :: "('s, example_plugin_data) plugin" where
  "ExamplePlugin =
     \<lparr>pg_Name = ''ExamplePlugin'', pg_Version = ''1.0.0'',
      pg_OnLoad = (\<lambda>s p. Returned (True, s, p\<lparr>ep_connection_count := 0, ep_request_count := 0\<rparr>)),
      pg_OnUnload = (\<lambda>p. Returned (True, p)),
      pg_OnRequestStart = (\<lambda>r p. Returned (r, p\<lparr>ep_request_count := ep_request_count p + 1\<rparr>)),
      pg_OnRequestComplete = (\<lambda>rr p. Returned (rr, p)),
      pg_OnConnectionOpen = (\<lambda>fd p. Returned (fd, p\<lparr>ep_connection_count := ep_connection_count p + 1\<rparr>)),
      pg_OnConnectionClose = (\<lambda>fd p. Returned (fd, p))\<rparr>"

definition new_example_data :: example_plugin_data where
  "new_example_data = \<lparr>ep_connection_count = 0, ep_request_count = 0\<rparr>"

subsection \<open>The callback\<close>

text \<open>One round with the calls of the plugins, which may change the request and the response. An exception
  that leaves a notification is caught nowhere above and ends the program: \<open>None\<close>, as for undefined behaviour.\<close>

definition serve_one_plugins ::
  "response_os \<Rightarrow> int \<Rightarrow> string \<Rightarrow> int \<Rightarrow> nat \<Rightarrow> site \<Rightarrow> ('s, 'p) plugin_manager
   \<Rightarrow> (bool \<times> site \<times> ('s, 'p) plugin_manager) option" where
  "serve_one_plugins os now static_root keep_alive_timeout header_end s m =
     (case request_Parse (ms_parser s) (chars_of (c_input (ms_conn s))) of
        (False, parser) \<Rightarrow>
          map_option (\<lambda>w. (False, s\<lparr>ms_conn := w, ms_parser := parser\<rparr>, m))
            (Shutdown True ((ms_conn s)\<lparr>c_input := []\<rparr>))
      | (True, parser) \<Rightarrow>
          (let w = conn_OnRequestStart now (IsKeepAlive parser) keep_alive_timeout (ms_conn s)
           in case NotifyRequestStart parser m of
                (False, _) \<Rightarrow> None
              | (True, parser, m) \<Rightarrow>
                  (case make_reply os static_root parser (ms_cache s) of
                     None \<Rightarrow> None
                   | Some (response, c) \<Rightarrow>
                       (case NotifyRequestComplete (parser, response) m of
                          (False, _) \<Rightarrow> None
                        | (True, (parser, response), m) \<Rightarrow>
                            (case send_reply response w of
                               None \<Rightarrow> None
                             | Some w \<Rightarrow>
                                 let w = w\<lparr>c_input := drop (header_end + 4) (c_input w)\<rparr>;
                                     w = conn_OnRequestComplete now w;
                                     s = s\<lparr>ms_parser := request_Reset parser, ms_cache := c\<rparr>
                                 in if rs_code response \<ge> 400
                                    then map_option (\<lambda>w. (False, s\<lparr>ms_conn := w\<rparr>, m)) (Shutdown True w)
                                    else Some (True, s\<lparr>ms_conn := w\<rparr>, m))))))"

lemma serve_one_plugins_consumes:
  "serve_one_plugins os now root n header_end s m = Some (True, s', m') \<Longrightarrow>
   c_input (ms_conn s') = drop (header_end + 4) (c_input (ms_conn s))"
  by (auto simp: serve_one_plugins_def Let_def split: prod.splits bool.splits option.splits if_splits
      dest!: c_input_reply)

function on_message_plugins ::
  "(nat \<Rightarrow> response_os) \<Rightarrow> (nat \<Rightarrow> int) \<Rightarrow> string \<Rightarrow> int \<Rightarrow> nat \<Rightarrow> site \<Rightarrow> ('s, 'p) plugin_manager
   \<Rightarrow> (site \<times> ('s, 'p) plugin_manager) option" where
  "on_message_plugins os now static_root keep_alive_timeout k s m =
     (case find_sub header_mark (chars_of (c_input (ms_conn s))) of
        None \<Rightarrow> Some (s, m)
      | Some header_end \<Rightarrow>
          (case serve_one_plugins (os k) (now k) static_root keep_alive_timeout header_end s m of
             None \<Rightarrow> None
           | Some (False, s, m) \<Rightarrow> Some (s, m)
           | Some (True, s, m) \<Rightarrow> on_message_plugins os now static_root keep_alive_timeout (Suc k) s m))"
  by pat_completeness auto
termination
proof (relation "measure (\<lambda>(os, now, root, n, k, s, m). length (c_input (ms_conn s)))", goal_cases)
  case (2 os now root n k s m header_end p b q s' m')
  then show ?case
    using find_sub_Some[of header_mark "chars_of (c_input (ms_conn s))" header_end]
    by (auto dest!: serve_one_plugins_consumes)
qed simp

declare on_message_plugins.simps [simp del]

subsection \<open>Registering and loading\<close>

definition names_distinct :: "('s, 'p) plugin_manager \<Rightarrow> bool" where
  "names_distinct m \<longleftrightarrow> distinct (GetPluginNames m)"

text \<open>Registering is insertion into a map by name: the first plugin of a name stays, every other name is
  looked up as before, and no name comes twice, however the container arranges its entries.\<close>
theorem register_inserts_once:
  assumes "\<And>ps :: ('s, 'p) plugin_table. mset (reorder ps) = mset ps" and "names_distinct m"
  shows "(fst (RegisterPlugin reorder c p m) \<longleftrightarrow> GetPlugin (pg_Name c) m = None)
    \<and> GetPlugin n (snd (RegisterPlugin reorder c p m)) =
      (if n = pg_Name c \<and> GetPlugin n m = None then Some (c, p) else GetPlugin n m)
    \<and> names_distinct (snd (RegisterPlugin reorder c p m))"
proof (cases "map_of (pm_plugins m) (pg_Name c)")
  case None
  let ?ps = "(pg_Name c, c, p) # pm_plugins m"
  have d: "distinct (map fst ?ps)"
    using None assms(2) by (simp add: names_distinct_def GetPluginNames_def map_of_eq_None_iff)
  have "mset (map fst (reorder ?ps)) = mset (map fst ?ps)" using assms(1)[of ?ps] by (metis mset_map)
  then have d': "distinct (map fst (reorder ?ps))" using d by (metis mset_eq_imp_distinct_iff)
  have "set (reorder ?ps) = set ?ps" using assms(1)[of ?ps] by (metis mset_eq_setD)
  then have "map_of (reorder ?ps) = map_of ?ps" using d d' map_of_inject_set by blast
  then show ?thesis using None d'
    by (simp add: RegisterPlugin_def GetPlugin_def names_distinct_def GetPluginNames_def)
next
  case (Some cp)
  then show ?thesis using assms(2) by (cases cp) (auto simp: RegisterPlugin_def GetPlugin_def)
qed

text \<open>What loading returns, and what is asked about it afterwards.\<close>

definition loads :: "('s, 'p) plugin \<Rightarrow> bool \<Rightarrow> bool" where
  "loads c b \<longleftrightarrow> (\<forall>s p. \<exists>s' p'. pg_OnLoad c s p = Returned (b, s', p'))"

lemma load_all_counts:
  "list_all (\<lambda>(n, c, p). loads c (ok n)) ps \<Longrightarrow>
   \<exists>s' ps'. load_all s ps = (Some (length (filter ok (map fst ps))), s', ps') \<and> map fst ps' = map fst ps"
proof (induction ps arbitrary: s)
  case (Cons x ps)
  obtain n c p where x: "x = (n, c, p)" by (cases x)
  with Cons.prems obtain s' p' where "pg_OnLoad c s p = Returned (ok n, s', p')" by (fastforce simp: loads_def)
  moreover obtain s'' ps' where "load_all s' ps = (Some (length (filter ok (map fst ps))), s'', ps')"
    "map fst ps' = map fst ps" using Cons.IH[of s'] Cons.prems by auto
  ultimately show ?case by (simp add: x)
qed simp

text \<open>Loading counts the plugins that accept, but keeps no record of which: afterwards every registered
  plugin is reported as loaded, those that refused included.\<close>
theorem refused_plugin_counts_as_loaded:
  assumes "list_all (\<lambda>(n, c, p). loads c (ok n)) (pm_plugins m)" and "LoadAllPlugins s m = (r, s', m')"
  shows "r = Some (length (filter ok (GetPluginNames m))) \<and> (IsPluginLoaded n m' \<longleftrightarrow> n \<in> set (GetPluginNames m))"
proof -
  obtain t ps where l: "load_all s (pm_plugins m) =
      (Some (length (filter ok (map fst (pm_plugins m)))), t, ps)" "map fst ps = map fst (pm_plugins m)"
    using load_all_counts[OF assms(1)] by blast
  have "map_of ps n = None \<longleftrightarrow> n \<notin> set (map fst (pm_plugins m))"
    by (metis l(2) map_of_eq_None_iff set_map)
  then show ?thesis using assms(2) l
    by (auto simp: LoadAllPlugins_def IsPluginLoaded_def GetPluginNames_def)
qed

subsection \<open>Notifications\<close>

text \<open>A callback that does not touch what is handed on, and throws at most standard exceptions.\<close>

definition carries_on :: "(('s, 'p) plugin \<Rightarrow> 'x \<Rightarrow> 'p \<Rightarrow> ('x \<times> 'p) outcome) \<Rightarrow> ('s, 'p) plugin \<Rightarrow> bool" where
  "carries_on f c \<longleftrightarrow> (\<forall>x p. \<exists>p'. f c x p \<in> {Returned (x, p'), Threw_std (x, p')})"

fun left_behind :: "('x \<times> 'p) outcome \<Rightarrow> 'p" where
  "left_behind (Returned (x, p)) = p"
| "left_behind (Threw_std (x, p)) = p"
| "left_behind (Threw_other (x, p)) = p"

locale observed_table =
  fixes f :: "('s, 'p) plugin \<Rightarrow> 'x \<Rightarrow> 'p \<Rightarrow> ('x \<times> 'p) outcome" and good :: "('s, 'p) plugin \<Rightarrow> bool"
  assumes carries: "good c \<Longrightarrow> carries_on f c"
begin

lemma one_call: "good c \<Longrightarrow> f c x p = Returned (x, left_behind (f c x p)) \<or> f c x p = Threw_std (x, left_behind (f c x p))"
proof -
  assume "good c"
  then obtain p' where "f c x p \<in> {Returned (x, p'), Threw_std (x, p')}" using carries by (meson carries_on_def)
  then show ?thesis by (auto simp: left_behind.simps)
qed

lemma told_all:
  "list_all (\<lambda>(n, c, p). good c) ps \<Longrightarrow>
   notify_all f x ps = (True, x, map (\<lambda>(n, c, p). (n, c, left_behind (f c x p))) ps)"
proof (induction ps)
  case (Cons e ps)
  obtain n c p where e: "e = (n, c, p)" by (cases e)
  then show ?case using one_call[of c x p] Cons by (auto split: outcome.split)
qed simp

lemma told:
  "list_all (\<lambda>(n, c, p). good c) (pm_plugins m) \<Longrightarrow> \<exists>m'. notify f x m = (True, x, m')
     \<and> pm_plugins m' = map (\<lambda>(n, c, p). (n, c, left_behind (f c x p))) (pm_plugins m) \<and> pm_loaded m' = pm_loaded m"
  by (simp add: notify_def told_all)

end

text \<open>Plugins that only look at requests and responses.\<close>

definition observing :: "('s, 'p) plugin \<Rightarrow> bool" where
  "observing c \<longleftrightarrow> carries_on pg_OnRequestStart c \<and> carries_on pg_OnRequestComplete c"

interpretation starts: observed_table pg_OnRequestStart observing
  by unfold_locales (simp add: observing_def)

interpretation completes: observed_table pg_OnRequestComplete observing
  by unfold_locales (simp add: observing_def)

interpretation opens: observed_table pg_OnConnectionOpen "carries_on pg_OnConnectionOpen"
  by unfold_locales simp

interpretation closes: observed_table pg_OnConnectionClose "carries_on pg_OnConnectionClose"
  by unfold_locales simp

definition all_observe :: "('s, 'p) plugin_manager \<Rightarrow> bool" where
  "all_observe m \<longleftrightarrow> list_all (\<lambda>(n, c, p). observing c) (pm_plugins m)"

lemma start_observed: "all_observe m \<Longrightarrow> \<exists>m'. NotifyRequestStart r m = (True, r, m') \<and> all_observe m'"
  using starts.told[of m r] by (auto simp: all_observe_def NotifyRequestStart_def list_all_iff)

lemma complete_observed: "all_observe m \<Longrightarrow> \<exists>m'. NotifyRequestComplete rr m = (True, rr, m') \<and> all_observe m'"
  using completes.told[of m rr] by (auto simp: all_observe_def NotifyRequestComplete_def list_all_iff)

lemma serve_one_observed:
  assumes "all_observe m"
  shows "\<exists>m'. all_observe m' \<and> serve_one_plugins os now root t he s m =
    map_option (\<lambda>(b, s'). (b, s', m')) (serve_one os now root t he s)"
proof (cases "request_Parse (ms_parser s) (chars_of (c_input (ms_conn s)))")
  case (Pair ok parser)
  obtain m1 where m1: "NotifyRequestStart parser m = (True, parser, m1)" "all_observe m1"
    using start_observed[OF assms] by blast
  show ?thesis
  proof (cases ok)
    case False
    then show ?thesis using assms Pair
      by (intro exI[of _ m]) (simp add: serve_one_plugins_def serve_one_def option.map_comp comp_def)
  next
    case True
    show ?thesis
    proof (cases "make_reply os root parser (ms_cache s)")
      case None
      then show ?thesis using assms Pair True m1
        by (intro exI[of _ m]) (simp add: serve_one_plugins_def serve_one_def Let_def)
    next
      case (Some rc)
      obtain response c where rc: "rc = (response, c)" by (cases rc)
      obtain m2 where "NotifyRequestComplete (parser, response) m1 = (True, (parser, response), m2)" "all_observe m2"
        using complete_observed[OF m1(2)] by blast
      then show ?thesis using Pair True m1 Some rc
        by (intro exI[of _ m2])
          (simp add: serve_one_plugins_def serve_one_def Let_def option.map_comp comp_def split: option.split)
    qed
  qed
qed

text \<open>C18: Plugins that only look at what they are shown, such as the one the server installs, change nothing: with
  them the callback leaves the same connection, parser and cache as without any, and is defined on the
  same inputs, even when they throw standard exceptions.\<close>
theorem observing_plugins_change_nothing:
  assumes "all_observe m"
  shows "map_option fst (on_message_plugins os now root t k s m) = on_message os now root t k s"
  using assms
proof (induction os now root t k s arbitrary: m rule: on_message.induct)
  case (1 os now root t k s)
  show ?case
  proof (cases "find_sub header_mark (chars_of (c_input (ms_conn s)))")
    case None
    then show ?thesis by (simp add: on_message.simps on_message_plugins.simps)
  next
    case (Some he)
    obtain m' where m': "all_observe m'" "serve_one_plugins (os k) (now k) root t he s m =
        map_option (\<lambda>(b, s'). (b, s', m')) (serve_one (os k) (now k) root t he s)"
      using serve_one_observed[OF "1.prems"] by blast
    show ?thesis
    proof (cases "serve_one (os k) (now k) root t he s")
      case None
      then show ?thesis using Some m' by (simp add: on_message.simps on_message_plugins.simps)
    next
      case (Some bs)
      obtain b s' where bs: "bs = (b, s')" by (cases bs)
      show ?thesis
        using "1.IH"[OF \<open>find_sub _ _ = _\<close> Some bs[symmetric], of m'] m' Some bs \<open>find_sub _ _ = _\<close>
        by (cases b) (simp_all add: on_message.simps[of _ _ _ _ k s] on_message_plugins.simps[of _ _ _ _ k s])
    qed
  qed
qed

text \<open>What \<open>main\<close> sets up: the example plugin alone, registered and loaded.\<close>

definition main_plugins :: "(unit, example_plugin_data) plugin_manager" where
  "main_plugins =
     (case LoadAllPlugins () (snd (RegisterPlugin id ExamplePlugin new_example_data new_plugin_manager)) of
        (r, s, m) \<Rightarrow> m)"

lemma main_plugins_is:
  "main_plugins = \<lparr>pm_plugins = [(''ExamplePlugin'', ExamplePlugin, new_example_data)], pm_loaded = True\<rparr>"
  by (simp add: main_plugins_def RegisterPlugin_def new_plugin_manager_def LoadAllPlugins_def ExamplePlugin_def
      new_example_data_def)

lemma example_observes: "observing ExamplePlugin"
  by (auto simp: observing_def carries_on_def ExamplePlugin_def)

theorem observing_plugins_change_nothing_witness:
  "map_option fst (on_message_plugins (\<lambda>_. example_os) (\<lambda>_. 0) ''d'' 15 0 put_site main_plugins)
   = on_message (\<lambda>_. example_os) (\<lambda>_. 0) ''d'' 15 0 put_site"
  by (rule observing_plugins_change_nothing) (simp add: all_observe_def main_plugins_is example_observes)

text \<open>The connections the example plugin counts are the ones the server announced.\<close>

fun tell :: "conn_note \<Rightarrow> ('s, 'p) plugin_manager \<Rightarrow> ('s, 'p) plugin_manager" where
  "tell (Conn_open fd) m = snd (snd (NotifyConnectionOpen fd m))"
| "tell (Conn_close fd) m = snd (snd (NotifyConnectionClose fd m))"

fun opened :: "conn_note list \<Rightarrow> nat" where
  "opened [] = 0"
| "opened (Conn_open fd # ns) = Suc (opened ns)"
| "opened (Conn_close fd # ns) = opened ns"

theorem example_counts_connections:
  "pm_plugins m = [(n, ExamplePlugin, p)] \<Longrightarrow>
   pm_plugins (fold tell ns m) = [(n, ExamplePlugin, p\<lparr>ep_connection_count := ep_connection_count p + opened ns\<rparr>)]"
proof (induction ns arbitrary: m p)
  case (Cons a ns)
  have "pm_plugins (tell a m) = [(n, ExamplePlugin, p\<lparr>ep_connection_count := ep_connection_count p + opened [a]\<rparr>)]"
    using Cons.prems by (cases a)
      (simp_all add: NotifyConnectionOpen_def NotifyConnectionClose_def notify_def ExamplePlugin_def)
  from Cons.IH[OF this] show ?case by (cases a) simp_all
qed simp

text \<open>An exception of a plugin that is not derived from \<open>std::exception\<close> is not caught by the notification:
  the first request that can be parsed ends the program, whatever plugins come after.\<close>
theorem foreign_exception_ends_callback:
  assumes "find_sub header_mark (chars_of (c_input (ms_conn s))) = Some he"
    and "request_Parse (ms_parser s) (chars_of (c_input (ms_conn s))) = (True, q)"
    and "pm_plugins m = ps @ (n, c, p) # ps'" and "list_all (\<lambda>(n, c, p). observing c) ps"
    and "pg_OnRequestStart c q p = Threw_other (q', p')"
  shows "on_message_plugins os now root t k s m = None"
proof -
  have "list_all (\<lambda>(n, c, p). observing c) ps \<Longrightarrow>
      \<exists>r. notify_all pg_OnRequestStart q (ps @ (n, c, p) # ps') = (False, r)" for ps
  proof (induction ps)
    case (Cons e ps)
    obtain n0 c0 p0 where e: "e = (n0, c0, p0)" by (cases e)
    then show ?case using starts.one_call[of c0 q p0] Cons by (auto split: outcome.split)
  qed (simp add: assms(5))
  from this[OF assms(4)] have "\<exists>r. NotifyRequestStart q m = (False, r)"
    by (auto simp: NotifyRequestStart_def notify_def assms(3))
  then show ?thesis using assms(1,2) by (auto simp: on_message_plugins.simps[of _ _ _ _ k s] serve_one_plugins_def Let_def)
qed

text \<open>Witnesses.\<close>

definition refusing_plugin :: "('s, example_plugin_data) plugin" where
  "refusing_plugin = ExamplePlugin\<lparr>pg_Name := ''refusing'', pg_OnLoad := (\<lambda>s p. Returned (False, s, p)),
     pg_OnRequestStart := (\<lambda>r p. Threw_other (r, p))\<rparr>"

theorem refused_plugin_counts_as_loaded_witness:
  "let m = snd (RegisterPlugin id refusing_plugin new_example_data main_plugins)
   in fst (LoadAllPlugins () m) = Some 1 \<and> IsPluginLoaded ''refusing'' (snd (snd (LoadAllPlugins () m)))"
proof -
  let ?m = "snd (RegisterPlugin id refusing_plugin new_example_data main_plugins)"
  have "list_all (\<lambda>(n, c, p). loads c (n = ''ExamplePlugin'')) (pm_plugins ?m)"
    by (simp add: RegisterPlugin_def main_plugins_is refusing_plugin_def loads_def ExamplePlugin_def)
  moreover obtain r t m' where run: "LoadAllPlugins () ?m = (r, t, m')" by (metis prod_cases3)
  moreover have "GetPluginNames ?m = [''refusing'', ''ExamplePlugin'']"
    by (simp add: RegisterPlugin_def main_plugins_is GetPluginNames_def refusing_plugin_def)
  ultimately show ?thesis
    using refused_plugin_counts_as_loaded[of "\<lambda>n. n = ''ExamplePlugin''" ?m "()" r t m' "''refusing''"]
    by (simp add: Let_def)
qed

theorem register_inserts_once_witness:
  "fst (RegisterPlugin rev refusing_plugin new_example_data main_plugins)
   \<and> names_distinct (snd (RegisterPlugin rev refusing_plugin new_example_data main_plugins))"
proof -
  have "names_distinct main_plugins" by (simp add: main_plugins_is names_distinct_def GetPluginNames_def)
  from register_inserts_once[OF mset_rev this, of refusing_plugin new_example_data]
  show ?thesis by (simp add: GetPlugin_def main_plugins_is refusing_plugin_def)
qed

theorem foreign_exception_ends_callback_witness:
  "on_message_plugins (\<lambda>_. example_os) (\<lambda>_. 0) ''d'' 15 0 put_site
     (snd (RegisterPlugin id refusing_plugin new_example_data main_plugins)) = None"
proof (rule foreign_exception_ends_callback)
  have put: "request_ok (''PUT'', ''/'', ''HTTP/1.1'', [(''Host'', ''h'')])"
    by (simp add: token_def isspace_def field_ok_def trim_def blank_def)
  have inp: "ms_parser put_site = new_request"
    "chars_of (c_input (ms_conn put_site)) = render (''PUT'', ''/'', ''HTTP/1.1'', [(''Host'', ''h'')]) @ ''GET''"
    using example_conn_good by (simp_all only: put_site_def site.simps put_requests_def list.map concat.simps
        append_Nil2 chars_of_bytes_of)
  show "find_sub header_mark (chars_of (c_input (ms_conn put_site))) =
      Some (length (render (''PUT'', ''/'', ''HTTP/1.1'', [(''Host'', ''h'')])) - 4)"
    unfolding inp by (rule parse_render(2)[OF put])
  show "request_Parse (ms_parser put_site) (chars_of (c_input (ms_conn put_site))) =
      (True, asked (''PUT'', ''/'', ''HTTP/1.1'', [(''Host'', ''h'')]))"
    unfolding inp by (rule parse_render(1)[OF put])
  show "pm_plugins (snd (RegisterPlugin id refusing_plugin new_example_data main_plugins)) =
      [] @ (''refusing'', refusing_plugin, new_example_data) # [(''ExamplePlugin'', ExamplePlugin, new_example_data)]"
    by (simp add: RegisterPlugin_def main_plugins_is refusing_plugin_def)
  show "pg_OnRequestStart refusing_plugin (asked (''PUT'', ''/'', ''HTTP/1.1'', [(''Host'', ''h'')])) new_example_data =
      Threw_other (asked (''PUT'', ''/'', ''HTTP/1.1'', [(''Host'', ''h'')]), new_example_data)"
    by (simp add: refusing_plugin_def del: asked.simps)
qed simp

end
