(* ===== verification/Stepping.thy ===== *)
theory Stepping
  imports Main
begin

text \<open>
  Systems of threads as step relations: an invariant of the steps, and systems that come to an end
  whichever step is taken next.
\<close>

locale invariant_steps =
  fixes step :: "'s \<Rightarrow> 's \<Rightarrow> bool" and inv :: "'s \<Rightarrow> bool"
  assumes step_inv: "step s t \<Longrightarrow> inv s \<Longrightarrow> inv t"
begin

lemma steps_inv: "step\<^sup>*\<^sup>* s t \<Longrightarrow> inv s \<Longrightarrow> inv t"
  by (induction rule: rtranclp_induct) (auto intro: step_inv)

lemma power_inv: "(step ^^ n) s t \<Longrightarrow> inv s \<Longrightarrow> inv t"
  by (metis steps_inv rtranclp_power)

end

locale ending_steps = invariant_steps +
  fixes goal :: "'s \<Rightarrow> bool" and rank :: "'s \<Rightarrow> nat"
  assumes step_down: "step s t \<Longrightarrow> inv s \<Longrightarrow> rank t < rank s"
    and not_stuck: "inv s \<Longrightarrow> \<not> goal s \<Longrightarrow> \<exists>t. step s t"
begin

lemma run_bounded: "(step ^^ n) s t \<Longrightarrow> inv s \<Longrightarrow> n + rank t \<le> rank s"
proof (induction n arbitrary: t)
  case (Suc n)
  then obtain u where "(step ^^ n) s u" "step u t" by auto
  with Suc step_down[of u t] power_inv[of n s u] show ?case by fastforce
qed simp

lemma run_ends: "inv s \<Longrightarrow> \<exists>t. step\<^sup>*\<^sup>* s t \<and> goal t"
proof (induction "rank s" arbitrary: s rule: less_induct)
  case less
  show ?case
  proof (cases "goal s")
    case False
    then obtain u where "step s u" using not_stuck less.prems by blast
    with less step_down step_inv show ?thesis by (meson converse_rtranclp_into_rtranclp)
  qed blast
qed

end

end
