(* ===== verification/ThreadPool.thy ===== *)
theory ThreadPool
  imports Stepping "HOL-Library.Multiset"
begin

text \<open>
  The thread pool (include/thread_pool.h, src/thread_pool.cpp): a queue of tasks and the threads that
  run them. A task is \<open>Some\<close> function, or \<open>None\<close>, an empty one, which is taken and not called.

  What is done under the mutex is one step, and so is the run of a task, which is taken to return. A
  thread that waits for the condition may go on as soon as it holds: every change that can make it
  true is followed by a notification. \<open>wp_accepted\<close>, \<open>wp_taken\<close> and \<open>wp_done\<close> remember the history.
\<close>

datatype 'f worker = W_idle | W_busy "'f option" | W_gone

datatype pool_owner = P_using | P_joining | P_destroyed

record 'f worker_pool =
  wp_stop :: bool
  wp_tasks :: "'f option list"
  wp_workers :: "'f worker list"
  wp_owner :: pool_owner
  wp_accepted :: "'f option list"
  wp_taken :: "'f option list"
  wp_done :: "'f option list"

definition new_worker_pool :: "nat \<Rightarrow> 'f worker_pool" where
  "new_worker_pool thread_count =
     \<lparr>wp_stop = False, wp_tasks = [], wp_workers = replicate thread_count W_idle, wp_owner = P_using,
      wp_accepted = [], wp_taken = [], wp_done = []\<rparr>"

definition AddTask :: "'f option \<Rightarrow> 'f worker_pool \<Rightarrow> 'f worker_pool" where
  "AddTask task p =
     (if wp_stop p then p
      else p\<lparr>wp_tasks := wp_tasks p @ [task], wp_accepted := wp_accepted p @ [task]\<rparr>)"

text \<open>The critical section of \<open>Worker\<close>, of thread \<open>i\<close>; \<open>None\<close> while it waits.\<close>

definition worker_turn :: "nat \<Rightarrow> 'f worker_pool \<Rightarrow> 'f worker_pool option" where
  "worker_turn i p =
     (if wp_stop p \<or> wp_tasks p \<noteq> []
      then if wp_stop p \<and> wp_tasks p = [] then Some (p\<lparr>wp_workers := (wp_workers p)[i := W_gone]\<rparr>)
           else Some (p\<lparr>wp_workers := (wp_workers p)[i := W_busy (hd (wp_tasks p))], wp_tasks := tl (wp_tasks p),
                        wp_taken := wp_taken p @ [hd (wp_tasks p)]\<rparr>)
      else None)"

definition worker_run :: "nat \<Rightarrow> 'f option \<Rightarrow> 'f worker_pool \<Rightarrow> 'f worker_pool" where
  "worker_run i task p = p\<lparr>wp_workers := (wp_workers p)[i := W_idle], wp_done := wp_done p @ [task]\<rparr>"

text \<open>The destructor: stopping, and the end of all joins.\<close>

definition pool_stop :: "'f worker_pool \<Rightarrow> 'f worker_pool" where
  "pool_stop p = p\<lparr>wp_stop := True, wp_owner := P_joining\<rparr>"

definition pool_joined :: "'f worker_pool \<Rightarrow> bool" where
  "pool_joined p \<longleftrightarrow> wp_owner p = P_joining \<and> list_all (\<lambda>w. w = W_gone) (wp_workers p)"

text \<open>\<open>AddTask\<close> on a stopped pool is no step: it changes nothing.\<close>

inductive workers_step :: "'f worker_pool \<Rightarrow> 'f worker_pool \<Rightarrow> bool" where
  add: "\<not> wp_stop p \<Longrightarrow> workers_step p (AddTask task p)"
| turn: "i < length (wp_workers p) \<Longrightarrow> wp_workers p ! i = W_idle \<Longrightarrow> worker_turn i p = Some q \<Longrightarrow> workers_step p q"
| run: "i < length (wp_workers p) \<Longrightarrow> wp_workers p ! i = W_busy task \<Longrightarrow> workers_step p (worker_run i task p)"
| stop: "wp_owner p = P_using \<Longrightarrow> workers_step p (pool_stop p)"
| joined: "pool_joined p \<Longrightarrow> workers_step p (p\<lparr>wp_owner := P_destroyed\<rparr>)"

subsection \<open>Every task once, in order\<close>

definition busy :: "'f worker_pool \<Rightarrow> 'f option multiset" where
  "busy p = (\<Sum>w \<leftarrow> wp_workers p. case w of W_busy t \<Rightarrow> {#t#} | _ \<Rightarrow> {#})"

lemma busy_update:
  assumes "i < length ws"
  shows "(\<Sum>w \<leftarrow> ws[i := v]. g w) + g (ws ! i) = (\<Sum>w \<leftarrow> ws. g w) + (g v :: 'a multiset)"
  using assms
proof (induction ws arbitrary: i)
  case (Cons w ws)
  then show ?case by (cases i) (simp_all add: ac_simps)
qed simp

definition pool_inv :: "nat \<Rightarrow> 'f worker_pool \<Rightarrow> bool" where
  "pool_inv n p \<longleftrightarrow> length (wp_workers p) = n \<and> wp_accepted p = wp_taken p @ wp_tasks p
     \<and> mset (wp_taken p) = mset (wp_done p) + busy p
     \<and> (W_gone \<in> set (wp_workers p) \<longrightarrow> wp_stop p \<and> wp_tasks p = [])
     \<and> (wp_stop p \<longleftrightarrow> wp_owner p \<noteq> P_using)
     \<and> (wp_owner p = P_destroyed \<longrightarrow> list_all (\<lambda>w. w = W_gone) (wp_workers p))"

lemma new_pool_inv: "pool_inv n (new_worker_pool n)"
proof -
  have "(\<Sum>w \<leftarrow> replicate n W_idle. case w of W_busy t \<Rightarrow> {#t#} | _ \<Rightarrow> {#}) = {#}" by (induction n) simp_all
  then show ?thesis by (auto simp: pool_inv_def new_worker_pool_def busy_def)
qed

lemma all_gone_update: "i < length ws \<Longrightarrow> ws ! i \<noteq> W_gone \<Longrightarrow> \<not> list_all (\<lambda>w. w = W_gone) ws"
  by (auto simp: list_all_length)

lemma workers_step_inv: "workers_step p q \<Longrightarrow> pool_inv n p \<Longrightarrow> pool_inv n q"
proof (induction rule: workers_step.induct)
  case (turn i p q)
  have not_gone: "\<not> list_all (\<lambda>w. w = W_gone) (wp_workers p)" using all_gone_update[OF turn(1)] turn(2) by simp
  show ?case
  proof (cases "wp_tasks p")
    case Nil
    then have "q = p\<lparr>wp_workers := (wp_workers p)[i := W_gone]\<rparr>" "wp_stop p"
      using turn(3) by (auto simp: worker_turn_def split: if_splits)
    moreover have "busy q = busy p"
      using busy_update[OF turn(1), of "\<lambda>w. case w of W_busy t \<Rightarrow> {#t#} | _ \<Rightarrow> {#}" W_gone] turn(2) calculation
      by (simp add: busy_def)
    ultimately show ?thesis using turn(4) Nil not_gone by (auto simp: pool_inv_def)
  next
    case (Cons t ts)
    then have q: "q = p\<lparr>wp_workers := (wp_workers p)[i := W_busy t], wp_tasks := ts, wp_taken := wp_taken p @ [t]\<rparr>"
      using turn(3) by (auto simp: worker_turn_def split: if_splits)
    have b: "busy q = add_mset t (busy p)"
      using busy_update[OF turn(1), of "\<lambda>w. case w of W_busy t \<Rightarrow> {#t#} | _ \<Rightarrow> {#}" "W_busy t"] turn(2) q
      by (simp add: busy_def)
    have g: "W_gone \<notin> set (wp_workers p)" using turn(4) Cons by (simp add: pool_inv_def)
    then have "W_gone \<notin> set (wp_workers q)"
      using set_update_subset_insert[of "wp_workers p" i "W_busy t"] by (auto simp: q)
    moreover have "wp_owner p \<noteq> P_destroyed" using turn(4) not_gone by (simp add: pool_inv_def)
    ultimately show ?thesis using turn(4) Cons b unfolding pool_inv_def by (simp add: q)
  qed
next
  case (run i p task)
  have not_gone: "\<not> list_all (\<lambda>w. w = W_gone) (wp_workers p)" using all_gone_update[OF run(1)] run(2) by simp
  have b: "add_mset task (busy (worker_run i task p)) = busy p"
    using busy_update[OF run(1), of "\<lambda>w. case w of W_busy t \<Rightarrow> {#t#} | _ \<Rightarrow> {#}" W_idle] run(2)
    by (simp add: busy_def worker_run_def)
  have g: "W_gone \<in> set (wp_workers (worker_run i task p)) \<Longrightarrow> W_gone \<in> set (wp_workers p)"
    using set_update_subset_insert[of "wp_workers p" i W_idle] by (auto simp: worker_run_def)
  have f: "length (wp_workers (worker_run i task p)) = length (wp_workers p)"
    "wp_accepted (worker_run i task p) = wp_accepted p" "wp_taken (worker_run i task p) = wp_taken p"
    "wp_tasks (worker_run i task p) = wp_tasks p" "wp_done (worker_run i task p) = wp_done p @ [task]"
    "wp_stop (worker_run i task p) = wp_stop p" "wp_owner (worker_run i task p) = wp_owner p"
    by (simp_all add: worker_run_def)
  have "wp_owner p \<noteq> P_destroyed" using run(3) not_gone by (simp add: pool_inv_def)
  then show ?case using run(3) b[symmetric] g unfolding pool_inv_def f by auto
qed (auto simp: pool_inv_def AddTask_def pool_stop_def pool_joined_def busy_def)

interpretation pools: invariant_steps workers_step "pool_inv n" for n
  by unfold_locales (rule workers_step_inv)

text \<open>C33: Whatever the threads do, tasks are taken in the order in which they were accepted, and what has been
  taken is done or being run, each once; and when the destructor of a pool with a thread returns, exactly
  the accepted tasks have been run, each once.\<close>
theorem pool_runs_each_task_once:
  assumes "workers_step\<^sup>*\<^sup>* (new_worker_pool n) p"
  shows "wp_accepted p = wp_taken p @ wp_tasks p \<and> mset (wp_taken p) = mset (wp_done p) + busy p
    \<and> (wp_owner p = P_destroyed \<and> 0 < n \<longrightarrow> mset (wp_done p) = mset (wp_accepted p))"
proof -
  have inv: "pool_inv n p" using pools.steps_inv[OF assms new_pool_inv] .
  moreover have "busy p = {#}" if "list_all (\<lambda>w. w = W_gone) (wp_workers p)"
  proof -
    have "list_all (\<lambda>w. w = W_gone) ws \<Longrightarrow> (\<Sum>w \<leftarrow> ws. case w of W_busy t \<Rightarrow> {#t#} | _ \<Rightarrow> {#}) = {#}" for ws :: "'a worker list"
      by (induction ws) simp_all
    from this[OF that] show ?thesis by (simp add: busy_def)
  qed
  moreover have "W_gone \<in> set (wp_workers p)" if "list_all (\<lambda>w. w = W_gone) (wp_workers p)" "0 < n"
    using that inv by (cases "wp_workers p") (simp_all add: pool_inv_def)
  ultimately show ?thesis by (auto simp: pool_inv_def)
qed

text \<open>A pool without threads accepts tasks and never runs one.\<close>

theorem empty_pool_runs_nothing:
  assumes "workers_step\<^sup>*\<^sup>* (new_worker_pool 0) p"
  shows "wp_done p = [] \<and> wp_tasks p = wp_accepted p"
proof -
  have inv: "pool_inv 0 p" using pools.steps_inv[OF assms new_pool_inv] .
  then have "busy p = {#}" by (simp add: pool_inv_def busy_def)
  moreover have "wp_taken q = []" if "workers_step\<^sup>*\<^sup>* (new_worker_pool 0) q" for q :: "'a worker_pool" using that
  proof (induction rule: rtranclp_induct)
    case (step p q)
    have "length (wp_workers p) = 0" using pools.steps_inv[OF step(1) new_pool_inv] by (simp add: pool_inv_def)
    with step(2,3) show ?case by cases (simp_all add: AddTask_def pool_stop_def)
  qed (simp add: new_worker_pool_def)
  ultimately show ?thesis using inv assms by (simp add: pool_inv_def)
qed

subsection \<open>The destructor returns\<close>

definition worker_rank :: "'f worker \<Rightarrow> nat" where
  "worker_rank w = (case w of W_idle \<Rightarrow> 1 | W_busy t \<Rightarrow> 2 | W_gone \<Rightarrow> 0)"

definition pool_rank :: "'f worker_pool \<Rightarrow> nat" where
  "pool_rank p = 3 * length (wp_tasks p) + (\<Sum>w \<leftarrow> wp_workers p. worker_rank w)
     + (if wp_owner p = P_destroyed then 0 else 1)"

lemma rank_update:
  "i < length ws \<Longrightarrow> (\<Sum>w \<leftarrow> ws[i := v]. g w) + g (ws ! i) = (\<Sum>w \<leftarrow> ws. g w) + (g v :: nat)"
proof (induction ws arbitrary: i)
  case (Cons w ws)
  then show ?case by (cases i) simp_all
qed simp

lemma stopped_step_down:
  assumes "workers_step p q" "pool_inv n p" "wp_stop p"
  shows "pool_rank q < pool_rank p"
  using assms
proof cases
  case (turn i)
  then show ?thesis
    using rank_update[of i "wp_workers p" worker_rank W_gone] rank_update[of i "wp_workers p" worker_rank "W_busy (hd (wp_tasks p))"] assms(3)
    by (cases "wp_tasks p") (auto simp: worker_turn_def pool_rank_def worker_rank_def split: if_splits)
next
  case (run i task)
  then show ?thesis using rank_update[of i "wp_workers p" worker_rank W_idle]
    by (auto simp: worker_run_def pool_rank_def worker_rank_def)
qed (auto simp: pool_inv_def pool_joined_def pool_rank_def)

lemma stopped_not_stuck:
  assumes "pool_inv n p" "wp_stop p" "wp_owner p \<noteq> P_destroyed"
  shows "\<exists>q. workers_step p q"
proof (cases "list_all (\<lambda>w. w = W_gone) (wp_workers p)")
  case True
  then have "pool_joined p" using assms by (cases "wp_owner p") (auto simp: pool_inv_def pool_joined_def)
  then show ?thesis using workers_step.joined by blast
next
  case False
  then obtain i where i: "i < length (wp_workers p)" "wp_workers p ! i \<noteq> W_gone" by (auto simp: list_all_length)
  show ?thesis
  proof (cases "wp_workers p ! i")
    case W_idle
    have "\<exists>q. worker_turn i p = Some q" using assms(2) by (simp add: worker_turn_def)
    then show ?thesis using workers_step.turn[OF i(1) W_idle] by blast
  next
    case (W_busy t)
    then show ?thesis using workers_step.run[OF i(1)] by blast
  qed (use i in simp)
qed

interpretation stopping: ending_steps workers_step "\<lambda>p. pool_inv n p \<and> wp_stop p" "\<lambda>p. wp_owner p = P_destroyed" pool_rank for n
proof
  show "workers_step s t \<Longrightarrow> pool_inv n s \<and> wp_stop s \<Longrightarrow> pool_inv n t \<and> wp_stop t" for s t :: "'a worker_pool"
    using workers_step_inv[of s t n]
    by (auto elim!: workers_step.cases simp: pool_stop_def AddTask_def worker_run_def worker_turn_def split: if_splits)
qed (use stopped_step_down stopped_not_stuck in blast)+

text \<open>C35: Once the destructor has started, it returns whichever thread goes next, if the tasks do: no run is longer
  than three steps for each waiting task and two for each thread, with one for the return, and every run
  that cannot go on has returned.\<close>
theorem pool_destructor_returns:
  assumes "workers_step\<^sup>*\<^sup>* (new_worker_pool n) p" and "wp_stop p" and "(workers_step ^^ k) p q"
  shows "k \<le> 3 * length (wp_tasks p) + 2 * n + 1 \<and> (wp_owner q = P_destroyed \<or> (\<exists>r. workers_step q r))"
proof -
  have inv: "pool_inv n p \<and> wp_stop p" using pools.steps_inv[OF assms(1) new_pool_inv] assms(2) by blast
  have "(\<Sum>w \<leftarrow> ws. worker_rank w) \<le> 2 * length ws" for ws :: "'a worker list"
    by (induction ws) (auto simp: worker_rank_def split: worker.split)
  from this[of "wp_workers p"] have "pool_rank p \<le> 3 * length (wp_tasks p) + 2 * n + 1"
    using inv by (simp add: pool_rank_def pool_inv_def)
  moreover have "k \<le> pool_rank p" using stopping.run_bounded[OF assms(3) inv] by simp
  moreover have "wp_owner q = P_destroyed \<or> (\<exists>r. workers_step q r)"
    using stopping.not_stuck stopping.power_inv[OF assms(3) inv] by blast
  ultimately show ?thesis by simp
qed

subsection \<open>A run\<close>

definition stopped_pool :: "nat worker_pool" where
  "stopped_pool = pool_stop (AddTask (Some 7) (new_worker_pool 1))"

definition destroyed_pool :: "nat worker_pool" where
  "destroyed_pool = \<lparr>wp_stop = True, wp_tasks = [], wp_workers = [W_gone], wp_owner = P_destroyed,
     wp_accepted = [Some 7], wp_taken = [Some 7], wp_done = [Some 7]\<rparr>"

lemma stopped_pool_reached: "workers_step\<^sup>*\<^sup>* (new_worker_pool 1) stopped_pool"
proof -
  have "workers_step (new_worker_pool 1) (AddTask (Some 7) (new_worker_pool 1))"
    by (rule workers_step.add) (simp add: new_worker_pool_def)
  moreover have "workers_step (AddTask (Some 7) (new_worker_pool 1)) stopped_pool"
    unfolding stopped_pool_def by (rule workers_step.stop) (simp add: new_worker_pool_def AddTask_def)
  ultimately show ?thesis by (meson converse_rtranclp_into_rtranclp rtranclp.rtrancl_refl)
qed

lemma destroyed_pool_reached: "(workers_step ^^ 4) stopped_pool destroyed_pool"
proof -
  note defs = stopped_pool_def new_worker_pool_def AddTask_def pool_stop_def worker_turn_def worker_run_def
    pool_joined_def destroyed_pool_def
  define p where "p = stopped_pool\<lparr>wp_workers := [W_busy (Some 7)], wp_tasks := [], wp_taken := [Some 7]\<rparr>"
  have 1: "workers_step stopped_pool p" by (rule workers_step.turn[of 0]) (simp_all add: p_def defs)
  have 2: "workers_step p (worker_run 0 (Some 7) p)" by (rule workers_step.run) (simp_all add: p_def defs)
  have 3: "workers_step (worker_run 0 (Some 7) p) (destroyed_pool\<lparr>wp_owner := P_joining\<rparr>)"
    by (rule workers_step.turn[of 0]) (simp_all add: p_def defs)
  have "workers_step (destroyed_pool\<lparr>wp_owner := P_joining\<rparr>) (destroyed_pool\<lparr>wp_owner := P_joining\<rparr>\<lparr>wp_owner := P_destroyed\<rparr>)"
    by (rule workers_step.joined) (simp add: defs)
  then have 4: "workers_step (destroyed_pool\<lparr>wp_owner := P_joining\<rparr>) destroyed_pool" by (simp add: destroyed_pool_def)
  have "(workers_step ^^ Suc (Suc (Suc (Suc 0)))) stopped_pool destroyed_pool"
    using 1 2 3 4 by (auto intro!: relcomppI)
  then show ?thesis by (simp add: numeral_eq_Suc)
qed

theorem pool_runs_each_task_once_witness:
  "mset (wp_done destroyed_pool) = mset (wp_accepted destroyed_pool)"
proof -
  have "workers_step\<^sup>*\<^sup>* (new_worker_pool 1) destroyed_pool"
    using stopped_pool_reached destroyed_pool_reached by (meson rtranclp_power rtranclp_trans)
  from pool_runs_each_task_once[OF this] show ?thesis by (simp add: destroyed_pool_def)
qed

theorem pool_destructor_returns_witness:
  "4 \<le> 3 * length (wp_tasks stopped_pool) + 2 * 1 + 1 \<and>
   (wp_owner destroyed_pool = P_destroyed \<or> (\<exists>r. workers_step destroyed_pool r))"
  by (rule pool_destructor_returns[OF stopped_pool_reached _ destroyed_pool_reached])
    (simp add: stopped_pool_def pool_stop_def)

end
