(* ===== verification/LoopThread.thy ===== *)
theory LoopThread
  imports EventLoop Stepping
begin

text \<open>
  The thread of a loop (include/reactor/event_loop_thread.h, reactor/event_loop_thread.cpp): the thread that
  owns an \<open>EventLoopThread\<close>, and the one it starts, which keeps the loop on its stack.

  The object is \<open>lt_object\<close>, \<open>None\<close> before it is made and after it is gone; \<open>lt_published\<close> is the
  member \<open>loop_\<close>, which points to it. The turns of the loop itself are left out; \<open>Loop\<close> ends at the
  test of its flag. The owner calls \<open>StartLoop\<close>, \<open>Quit\<close> on the loop it got, as \<open>EventLoopThreadPool::Stop\<close>
  does, \<open>Join\<close>, and the destructor. \<open>lt_asked\<close> remembers that \<open>Quit\<close> was called, \<open>lt_wrong\<close> remembers an access to a loop that is gone, and
  \<open>lt_aborted\<close> that a thread object was destroyed while its thread could be joined, which ends the program.
\<close>

datatype child_phase = C_none | C_started | C_publishing | C_before_loop | C_looping | C_after_loop | C_leaving | C_ended

datatype owner_phase = O_new | O_waiting | O_running | O_joining | O_joined | O_destroying | O_destroyed

record 'f loop_thread =
  lt_child :: child_phase
  lt_owner :: owner_phase
  lt_object :: "'f event_loop option"
  lt_published :: bool
  lt_joinable :: bool
  lt_asked :: bool
  lt_wrong :: bool
  lt_aborted :: bool

definition new_loop_thread :: "'f loop_thread" where
  "new_loop_thread = \<lparr>lt_child = C_none, lt_owner = O_new, lt_object = None, lt_published = False,
     lt_joinable = False, lt_asked = False, lt_wrong = False, lt_aborted = False\<rparr>"

text \<open>\<open>Quit\<close> from another thread, on a pointer to the loop.\<close>

definition quit_loop :: "'f loop_thread \<Rightarrow> 'f loop_thread" where
  "quit_loop t =
     (case lt_object t of
        None \<Rightarrow> t\<lparr>lt_asked := True, lt_wrong := True\<rparr>
      | Some l \<Rightarrow> t\<lparr>lt_asked := True, lt_object := Some (Quit False l)\<rparr>)"

text \<open>\<open>Stop\<close> looks at the member first.\<close>

definition thread_Stop :: "'f loop_thread \<Rightarrow> 'f loop_thread" where
  "thread_Stop t = (if lt_published t then quit_loop t else t)"

text \<open>The destructor reads the member, without the mutex, and goes on with what it saw.\<close>

inductive thread_step :: "'f event_loop \<Rightarrow> 'f loop_thread \<Rightarrow> 'f loop_thread \<Rightarrow> bool" for fresh where
  start: "lt_owner t = O_new \<Longrightarrow>
    thread_step fresh t (t\<lparr>lt_owner := O_waiting, lt_child := C_started, lt_joinable := True\<rparr>)"
| make_loop: "lt_child t = C_started \<Longrightarrow> thread_step fresh t (t\<lparr>lt_child := C_publishing, lt_object := Some fresh\<rparr>)"
| publish: "lt_child t = C_publishing \<Longrightarrow> thread_step fresh t (t\<lparr>lt_child := C_before_loop, lt_published := True\<rparr>)"
| got_loop: "lt_owner t = O_waiting \<Longrightarrow> lt_published t \<Longrightarrow> thread_step fresh t (t\<lparr>lt_owner := O_running\<rparr>)"
| enter: "lt_child t = C_before_loop \<Longrightarrow> lt_object t = Some l \<Longrightarrow>
    thread_step fresh t (t\<lparr>lt_child := C_looping, lt_object := Some (l\<lparr>el_looping := True, el_quit := False\<rparr>)\<rparr>)"
| leave: "lt_child t = C_looping \<Longrightarrow> lt_object t = Some l \<Longrightarrow> el_quit l \<Longrightarrow>
    thread_step fresh t (t\<lparr>lt_child := C_after_loop, lt_object := Some (l\<lparr>el_looping := False\<rparr>)\<rparr>)"
| unpublish: "lt_child t = C_after_loop \<Longrightarrow> thread_step fresh t (t\<lparr>lt_child := C_leaving, lt_published := False\<rparr>)"
| end_thread: "lt_child t = C_leaving \<Longrightarrow> thread_step fresh t (t\<lparr>lt_child := C_ended, lt_object := None\<rparr>)"
| quit: "lt_owner t = O_running \<Longrightarrow> thread_step fresh t (quit_loop t)"
| stop: "lt_owner t = O_running \<Longrightarrow> thread_step fresh t (thread_Stop t)"
| join: "lt_owner t = O_running \<Longrightarrow> thread_step fresh t (t\<lparr>lt_owner := O_joining\<rparr>)"
| joined: "lt_owner t = O_joining \<Longrightarrow> lt_child t = C_ended \<Longrightarrow>
    thread_step fresh t (t\<lparr>lt_owner := O_joined, lt_joinable := False\<rparr>)"
| destroy_quit: "lt_owner t \<in> {O_new, O_running, O_joined} \<Longrightarrow> lt_published t \<Longrightarrow>
    thread_step fresh t (t\<lparr>lt_owner := O_destroying\<rparr>)"
| destroying: "lt_owner t = O_destroying \<Longrightarrow> thread_step fresh t ((quit_loop t)\<lparr>lt_owner := O_joining\<rparr>)"
| destroy: "lt_owner t \<in> {O_new, O_running, O_joined} \<Longrightarrow> \<not> lt_published t \<Longrightarrow>
    thread_step fresh t (t\<lparr>lt_owner := O_destroyed, lt_aborted := lt_joinable t\<rparr>)"

definition child_owns :: "child_phase \<Rightarrow> bool" where
  "child_owns c \<longleftrightarrow> c \<in> {C_publishing, C_before_loop, C_looping, C_after_loop, C_leaving}"

definition child_published :: "child_phase \<Rightarrow> bool" where
  "child_published c \<longleftrightarrow> c \<in> {C_before_loop, C_looping, C_after_loop}"

subsection \<open>The loop that is handed out\<close>

definition thread_inv :: "'f event_loop \<Rightarrow> 'f loop_thread \<Rightarrow> bool" where
  "thread_inv fresh t \<longleftrightarrow> (lt_object t \<noteq> None \<longleftrightarrow> child_owns (lt_child t))
     \<and> (lt_published t \<longleftrightarrow> child_published (lt_child t))
     \<and> (lt_owner t = O_new \<longrightarrow> lt_child t = C_none)
     \<and> (\<not> lt_asked t \<longrightarrow> \<not> lt_wrong t \<and> lt_child t \<notin> {C_after_loop, C_leaving, C_ended}
          \<and> (\<forall>l. lt_object t = Some l \<longrightarrow> \<not> el_quit l))
     \<and> (lt_owner t \<in> {O_new, O_waiting} \<longrightarrow> \<not> lt_asked t)
     \<and> (lt_owner t = O_running \<longrightarrow> lt_child t \<notin> {C_none, C_started, C_publishing})"

lemma thread_step_inv:
  "thread_step fresh t u \<Longrightarrow> \<not> el_quit fresh \<Longrightarrow> thread_inv fresh t \<Longrightarrow> thread_inv fresh u"
  by (induction rule: thread_step.induct)
    (auto simp: thread_inv_def child_owns_def child_published_def quit_loop_def thread_Stop_def split: option.splits)

interpretation threads: invariant_steps "thread_step fresh" "\<lambda>t. \<not> el_quit fresh \<and> thread_inv fresh t" for fresh
  by unfold_locales (use thread_step_inv in blast)

lemma new_thread_inv: "thread_inv fresh new_loop_thread"
  by (simp add: thread_inv_def new_loop_thread_def child_owns_def child_published_def)

text \<open>Whatever the two threads do, the loop that StartLoop returns exists, and the child has published it, until
  the owner has asked it to quit; and no loop that is gone is touched before that.\<close>
theorem start_hands_out_live_loop:
  assumes "\<not> el_quit fresh" and "(thread_step fresh)\<^sup>*\<^sup>* new_loop_thread t" and "\<not> lt_asked t"
  shows "\<not> lt_wrong t \<and> (lt_owner t = O_running \<longrightarrow>
    (\<exists>l. lt_object t = Some l \<and> \<not> el_quit l) \<and> lt_published t \<and> lt_child t \<in> {C_before_loop, C_looping})"
proof -
  have "thread_inv fresh t" using threads.steps_inv[OF assms(2)] assms(1) new_thread_inv by blast
  then show ?thesis using assms(3) by (cases "lt_child t") (auto simp: thread_inv_def child_owns_def child_published_def)
qed

subsection \<open>Stopping\<close>

text \<open>The loop has entered, and was asked to quit after that; the owner joins it.\<close>

definition asked_in_time :: "'f loop_thread \<Rightarrow> bool" where
  "asked_in_time t \<longleftrightarrow> \<not> lt_wrong t \<and> \<not> lt_aborted t
     \<and> (case lt_child t of
          C_looping \<Rightarrow> (\<exists>l. lt_object t = Some l \<and> el_quit l)
        | C_after_loop \<Rightarrow> True | C_leaving \<Rightarrow> True | C_ended \<Rightarrow> \<not> lt_published t | _ \<Rightarrow> False)
     \<and> (lt_child t = C_leaving \<longrightarrow> \<not> lt_published t)
     \<and> (lt_owner t = O_joining \<and> lt_joinable t
        \<or> lt_owner t \<in> {O_joined, O_destroyed} \<and> lt_child t = C_ended \<and> \<not> lt_joinable t)"

definition stop_rank :: "'f loop_thread \<Rightarrow> nat" where
  "stop_rank t =
     (case lt_child t of C_looping \<Rightarrow> 3 | C_after_loop \<Rightarrow> 2 | C_leaving \<Rightarrow> 1 | _ \<Rightarrow> 0)
     + (case lt_owner t of O_joining \<Rightarrow> 2 | O_joined \<Rightarrow> 1 | _ \<Rightarrow> 0)"

lemma stop_step:
  "thread_step fresh t u \<Longrightarrow> asked_in_time t \<Longrightarrow> asked_in_time u \<and> stop_rank u < stop_rank t"
  by (induction rule: thread_step.induct) (auto simp: asked_in_time_def stop_rank_def split: child_phase.splits)

lemma stop_not_stuck:
  assumes "asked_in_time t" "lt_owner t \<noteq> O_destroyed"
  shows "\<exists>u. thread_step fresh t u"
proof (cases "lt_child t")
  case C_looping
  then show ?thesis using assms thread_step.leave[OF C_looping] by (auto simp: asked_in_time_def)
next
  case C_after_loop
  then show ?thesis using thread_step.unpublish by blast
next
  case C_leaving
  then show ?thesis using thread_step.end_thread by blast
next
  case C_ended
  then show ?thesis using assms thread_step.joined[OF _ C_ended] thread_step.destroy[of t]
    by (auto simp: asked_in_time_def)
qed (use assms in \<open>simp_all add: asked_in_time_def\<close>)

interpretation stopping_thread: ending_steps "thread_step fresh" asked_in_time "\<lambda>t. lt_owner t = O_destroyed" stop_rank for fresh
  by unfold_locales (use stop_step stop_not_stuck in blast)+

text \<open>A loop that is asked to quit while it runs is joined and destroyed whichever thread goes next, within five
  steps, without touching a loop that is gone and without ending the program.\<close>
theorem late_quit_joins:
  assumes "lt_child t = C_looping" and "lt_object t = Some l" and "el_quit l"
    and "lt_owner t = O_joining" and "lt_joinable t" and "\<not> lt_wrong t" and "\<not> lt_aborted t"
    and "(thread_step fresh ^^ k) t u"
  shows "k \<le> 5 \<and> \<not> lt_wrong u \<and> \<not> lt_aborted u \<and> (lt_owner u = O_destroyed \<or> (\<exists>v. thread_step fresh u v))"
proof -
  have ok: "asked_in_time t" using assms by (simp add: asked_in_time_def)
  have "k \<le> stop_rank t" using stopping_thread.run_bounded[OF assms(8) ok] by simp
  moreover have "asked_in_time u" using stopping_thread.power_inv[OF assms(8) ok] .
  moreover from this have "lt_owner u = O_destroyed \<or> (\<exists>v. thread_step fresh u v)"
    using stopping_thread.not_stuck by blast
  ultimately show ?thesis using assms(1,4) by (simp add: stop_rank_def asked_in_time_def)
qed

lemma early_quit_stays:
  assumes "(thread_step fresh)\<^sup>*\<^sup>* t u" and "lt_owner t = O_joining" and "lt_child t = C_before_loop"
  shows "lt_owner u = O_joining \<and> (lt_child u = C_before_loop
    \<or> lt_child u = C_looping \<and> (\<exists>l. lt_object u = Some l \<and> \<not> el_quit l))"
  using assms
proof (induction rule: rtranclp_induct)
  case (step u v)
  then have "lt_owner u = O_joining \<and> (lt_child u = C_before_loop
    \<or> lt_child u = C_looping \<and> (\<exists>l. lt_object u = Some l \<and> \<not> el_quit l))" by blast
  with step(2) show ?case by cases auto
qed simp

text \<open>C25: A loop that is asked to quit before its thread has got as far as Loop never stops: Loop resets the flag,
  and joining the thread never returns, whatever happens.\<close>
theorem early_quit_hangs:
  assumes "(thread_step fresh)\<^sup>*\<^sup>* new_loop_thread t"
    and "lt_asked t" and "lt_owner t = O_joining" and "lt_child t = C_before_loop" and "(thread_step fresh)\<^sup>*\<^sup>* t u"
  shows "lt_owner u = O_joining \<and> lt_child u \<in> {C_before_loop, C_looping}"
  using early_quit_stays[OF assms(5,3,4)] by blast

subsection \<open>Runs\<close>

datatype thread_act = A_start | A_make | A_publish | A_got | A_enter | A_leave | A_unpublish | A_end | A_quit | A_join
  | A_joined | A_see | A_destroying | A_destroy

fun thread_do :: "'f event_loop \<Rightarrow> thread_act \<Rightarrow> 'f loop_thread \<Rightarrow> 'f loop_thread option" where
  "thread_do fresh A_start t = (if lt_owner t = O_new
     then Some (t\<lparr>lt_owner := O_waiting, lt_child := C_started, lt_joinable := True\<rparr>) else None)"
| "thread_do fresh A_make t = (if lt_child t = C_started then Some (t\<lparr>lt_child := C_publishing, lt_object := Some fresh\<rparr>) else None)"
| "thread_do fresh A_publish t = (if lt_child t = C_publishing then Some (t\<lparr>lt_child := C_before_loop, lt_published := True\<rparr>) else None)"
| "thread_do fresh A_got t = (if lt_owner t = O_waiting \<and> lt_published t then Some (t\<lparr>lt_owner := O_running\<rparr>) else None)"
| "thread_do fresh A_enter t = (case lt_object t of None \<Rightarrow> None | Some l \<Rightarrow>
     if lt_child t = C_before_loop
     then Some (t\<lparr>lt_child := C_looping, lt_object := Some (l\<lparr>el_looping := True, el_quit := False\<rparr>)\<rparr>) else None)"
| "thread_do fresh A_leave t = (case lt_object t of None \<Rightarrow> None | Some l \<Rightarrow>
     if lt_child t = C_looping \<and> el_quit l
     then Some (t\<lparr>lt_child := C_after_loop, lt_object := Some (l\<lparr>el_looping := False\<rparr>)\<rparr>) else None)"
| "thread_do fresh A_unpublish t = (if lt_child t = C_after_loop then Some (t\<lparr>lt_child := C_leaving, lt_published := False\<rparr>) else None)"
| "thread_do fresh A_end t = (if lt_child t = C_leaving then Some (t\<lparr>lt_child := C_ended, lt_object := None\<rparr>) else None)"
| "thread_do fresh A_quit t = (if lt_owner t = O_running then Some (quit_loop t) else None)"
| "thread_do fresh A_join t = (if lt_owner t = O_running then Some (t\<lparr>lt_owner := O_joining\<rparr>) else None)"
| "thread_do fresh A_joined t = (if lt_owner t = O_joining \<and> lt_child t = C_ended
     then Some (t\<lparr>lt_owner := O_joined, lt_joinable := False\<rparr>) else None)"
| "thread_do fresh A_see t = (if lt_owner t \<in> {O_new, O_running, O_joined} \<and> lt_published t
     then Some (t\<lparr>lt_owner := O_destroying\<rparr>) else None)"
| "thread_do fresh A_destroying t = (if lt_owner t = O_destroying then Some ((quit_loop t)\<lparr>lt_owner := O_joining\<rparr>) else None)"
| "thread_do fresh A_destroy t = (if lt_owner t \<in> {O_new, O_running, O_joined} \<and> \<not> lt_published t
     then Some (t\<lparr>lt_owner := O_destroyed, lt_aborted := lt_joinable t\<rparr>) else None)"

fun thread_acts :: "'f event_loop \<Rightarrow> thread_act list \<Rightarrow> 'f loop_thread \<Rightarrow> 'f loop_thread option" where
  "thread_acts fresh [] t = Some t"
| "thread_acts fresh (a # as) t = (case thread_do fresh a t of None \<Rightarrow> None | Some t \<Rightarrow> thread_acts fresh as t)"

lemma thread_do_step: "thread_do fresh a t = Some u \<Longrightarrow> thread_step fresh t u"
  by (cases a) (auto split: if_splits option.splits intro: thread_step.intros)

lemma thread_acts_reach: "thread_acts fresh as t = Some u \<Longrightarrow> (thread_step fresh)\<^sup>*\<^sup>* t u"
  by (induction as arbitrary: t)
    (auto split: option.splits intro: converse_rtranclp_into_rtranclp thread_do_step)

lemma thread_acts_power: "thread_acts fresh as t = Some u \<Longrightarrow> (thread_step fresh ^^ length as) t u"
proof (induction as arbitrary: t)
  case (Cons a as)
  then obtain v where "thread_do fresh a t = Some v" "thread_acts fresh as v = Some u" by (auto split: option.splits)
  with Cons.IH thread_do_step show ?case by (metis length_Cons relpowp_Suc_I2)
qed simp

lemmas thread_run_defs = new_loop_thread_def quit_loop_def Quit_def Wakeup_def Let_def

definition begun :: "thread_act list" where
  "begun = [A_start, A_make, A_publish, A_got]"

text \<open>Without a Join first, the destructor of the thread races with the end of the loop: it may call the loop
  after it is gone, and, when it sees that the loop has ended, it destroys a thread that was never joined,
  which ends the program.\<close>
theorem destructor_races_with_loop:
  "(\<exists>t. (thread_step fresh)\<^sup>*\<^sup>* new_loop_thread t \<and> lt_wrong t)
   \<and> (\<exists>t. (thread_step fresh)\<^sup>*\<^sup>* new_loop_thread t \<and> lt_aborted t)"
proof
  obtain t where t: "thread_acts fresh (begun @ [A_enter, A_quit, A_leave, A_see, A_unpublish, A_end, A_destroying])
      new_loop_thread = Some t" "lt_wrong t"
    by (simp add: thread_run_defs begun_def)
  then show "\<exists>t. (thread_step fresh)\<^sup>*\<^sup>* new_loop_thread t \<and> lt_wrong t" using thread_acts_reach by blast
next
  obtain t where t: "thread_acts fresh (begun @ [A_enter, A_quit, A_leave, A_unpublish, A_end, A_destroy])
      new_loop_thread = Some t" "lt_aborted t"
    by (simp add: thread_run_defs begun_def)
  then show "\<exists>t. (thread_step fresh)\<^sup>*\<^sup>* new_loop_thread t \<and> lt_aborted t" using thread_acts_reach by blast
qed

definition idle_loop :: "nat event_loop" where
  "idle_loop = new_event_loop True 0 3"

lemma fresh_quit: "\<not> el_quit idle_loop"
  by (simp add: idle_loop_def new_event_loop_def UpdateEvent_def)

theorem start_hands_out_live_loop_witness:
  "\<exists>t. (thread_step idle_loop)\<^sup>*\<^sup>* new_loop_thread t \<and> lt_owner t = O_running
    \<and> (\<exists>l. lt_object t = Some l \<and> \<not> el_quit l)"
proof -
  obtain t where t: "thread_acts idle_loop begun new_loop_thread = Some t" "lt_owner t = O_running" "\<not> lt_asked t"
    by (simp add: thread_run_defs begun_def)
  from start_hands_out_live_loop[OF fresh_quit thread_acts_reach[OF t(1)] t(3)] thread_acts_reach[OF t(1)] t(2)
  show ?thesis by blast
qed

theorem early_quit_hangs_witness:
  "\<exists>t. (thread_step idle_loop)\<^sup>*\<^sup>* new_loop_thread t \<and> lt_asked t \<and>
    (\<forall>u. (thread_step idle_loop)\<^sup>*\<^sup>* t u \<longrightarrow> lt_owner u = O_joining)"
proof -
  obtain t where t: "thread_acts idle_loop (begun @ [A_quit, A_join]) new_loop_thread = Some t"
    "lt_asked t" "lt_owner t = O_joining" "lt_child t = C_before_loop"
    by (simp add: thread_run_defs begun_def)
  note r = thread_acts_reach[OF t(1)]
  from early_quit_hangs[OF r t(2-4)] r t(2) show ?thesis by blast
qed

definition joining_thread :: "nat loop_thread" where
  "joining_thread = the (thread_acts idle_loop (begun @ [A_enter, A_quit, A_join]) new_loop_thread)"

theorem late_quit_joins_witness:
  "\<exists>u. (thread_step idle_loop ^^ 5) joining_thread u \<and> lt_owner u = O_destroyed \<and> \<not> lt_wrong u"
proof -
  obtain l where j: "lt_child joining_thread = C_looping" "lt_object joining_thread = Some l" "el_quit l"
    "lt_owner joining_thread = O_joining" "lt_joinable joining_thread" "\<not> lt_wrong joining_thread" "\<not> lt_aborted joining_thread"
    by (simp add: joining_thread_def thread_run_defs begun_def)
  obtain u where u: "thread_acts idle_loop [A_leave, A_unpublish, A_end, A_joined, A_destroy] joining_thread = Some u"
      "lt_owner u = O_destroyed"
    by (simp add: joining_thread_def thread_run_defs begun_def)
  have "length [A_leave, A_unpublish, A_end, A_joined, A_destroy] = 5" by simp
  with thread_acts_power[OF u(1)] have "(thread_step idle_loop ^^ 5) joining_thread u" by metis
  from late_quit_joins[OF j this] this u(2) show ?thesis by blast
qed

end
