(* ===== verification/Metrics.thy ===== *)
theory Metrics
  imports ConditionalRequest "HOL-Library.Multiset"
begin

text \<open>
  The metrics of the server (include/server_metrics.h, src/server_metrics.cpp): counters that any thread
  may change, snapshots of them, and their JSON and Prometheus forms.

  Every counter is an atomic of 64 bits, so that a change is a step of its own and wraps around;
  \<open>memory_allocated_\<close> is the signed one. Time points are nanoseconds; the time since the start is
  printed with two decimals, which is the parameter \<open>fixed2\<close> of a number of nanoseconds.
\<close>

record server_metrics =
  sm_start_time :: int
  sm_active_connections :: u64
  sm_total_connections :: u64
  sm_total_requests :: u64
  sm_requests_1xx :: u64
  sm_requests_2xx :: u64
  sm_requests_3xx :: u64
  sm_requests_4xx :: u64
  sm_requests_5xx :: u64
  sm_bytes_sent :: u64
  sm_bytes_received :: u64
  sm_errors :: u64
  sm_memory_allocated :: u64
  sm_epoll_wait_time_us :: u64

definition new_metrics :: "int \<Rightarrow> server_metrics" where
  "new_metrics now =
     \<lparr>sm_start_time = now, sm_active_connections = 0, sm_total_connections = 0, sm_total_requests = 0,
      sm_requests_1xx = 0, sm_requests_2xx = 0, sm_requests_3xx = 0, sm_requests_4xx = 0, sm_requests_5xx = 0,
      sm_bytes_sent = 0, sm_bytes_received = 0, sm_errors = 0, sm_memory_allocated = 0, sm_epoll_wait_time_us = 0\<rparr>"

definition OnCloseConnection :: "server_metrics \<Rightarrow> server_metrics" where
  "OnCloseConnection m = m\<lparr>sm_active_connections := sm_active_connections m - 1\<rparr>"

definition OnNewConnection :: "server_metrics \<Rightarrow> server_metrics" where
  "OnNewConnection m =
     m\<lparr>sm_active_connections := sm_active_connections m + 1, sm_total_connections := sm_total_connections m + 1\<rparr>"

definition OnRequest :: "server_metrics \<Rightarrow> server_metrics" where
  "OnRequest m = m\<lparr>sm_total_requests := sm_total_requests m + 1\<rparr>"

definition OnRequestWithStatusCode :: "int \<Rightarrow> server_metrics \<Rightarrow> server_metrics" where
  "OnRequestWithStatusCode status_code m =
     (let m = m\<lparr>sm_total_requests := sm_total_requests m + 1\<rparr>
      in if status_code \<ge> 100 \<and> status_code < 200 then m\<lparr>sm_requests_1xx := sm_requests_1xx m + 1\<rparr>
         else if status_code \<ge> 200 \<and> status_code < 300 then m\<lparr>sm_requests_2xx := sm_requests_2xx m + 1\<rparr>
         else if status_code \<ge> 300 \<and> status_code < 400 then m\<lparr>sm_requests_3xx := sm_requests_3xx m + 1\<rparr>
         else if status_code \<ge> 400 \<and> status_code < 500 then m\<lparr>sm_requests_4xx := sm_requests_4xx m + 1\<rparr>
         else if status_code \<ge> 500 \<and> status_code < 600 then m\<lparr>sm_requests_5xx := sm_requests_5xx m + 1\<rparr>
         else m)"

definition OnBytesSent :: "u64 \<Rightarrow> server_metrics \<Rightarrow> server_metrics" where
  "OnBytesSent n m = m\<lparr>sm_bytes_sent := sm_bytes_sent m + n\<rparr>"

definition OnBytesReceived :: "u64 \<Rightarrow> server_metrics \<Rightarrow> server_metrics" where
  "OnBytesReceived n m = m\<lparr>sm_bytes_received := sm_bytes_received m + n\<rparr>"

definition OnError :: "server_metrics \<Rightarrow> server_metrics" where
  "OnError m = m\<lparr>sm_errors := sm_errors m + 1\<rparr>"

definition OnMemoryAllocated :: "u64 \<Rightarrow> server_metrics \<Rightarrow> server_metrics" where
  "OnMemoryAllocated n m = m\<lparr>sm_memory_allocated := sm_memory_allocated m + n\<rparr>"

definition OnMemoryFreed :: "u64 \<Rightarrow> server_metrics \<Rightarrow> server_metrics" where
  "OnMemoryFreed n m = m\<lparr>sm_memory_allocated := sm_memory_allocated m - n\<rparr>"

definition OnEpollWaitTime :: "u64 \<Rightarrow> server_metrics \<Rightarrow> server_metrics" where
  "OnEpollWaitTime us m = m\<lparr>sm_epoll_wait_time_us := sm_epoll_wait_time_us m + us\<rparr>"

definition metrics_Reset :: "int \<Rightarrow> server_metrics \<Rightarrow> server_metrics" where
  "metrics_Reset now m = m
     \<lparr>sm_active_connections := 0, sm_total_connections := 0, sm_total_requests := 0,
      sm_requests_1xx := 0, sm_requests_2xx := 0, sm_requests_3xx := 0, sm_requests_4xx := 0, sm_requests_5xx := 0,
      sm_bytes_sent := 0, sm_bytes_received := 0, sm_errors := 0, sm_memory_allocated := 0, sm_epoll_wait_time_us := 0,
      sm_start_time := now\<rparr>"

subsection \<open>Snapshots\<close>

text \<open>The counters are read one after the other, and others may change them in between: \<open>s i\<close> is the state
  when field \<open>i\<close> is read. The memory counter is read as a signed number.\<close>

record metrics_snapshot =
  sn_active_connections :: u64
  sn_total_connections :: u64
  sn_total_requests :: u64
  sn_requests_1xx :: u64
  sn_requests_2xx :: u64
  sn_requests_3xx :: u64
  sn_requests_4xx :: u64
  sn_requests_5xx :: u64
  sn_bytes_sent :: u64
  sn_bytes_received :: u64
  sn_errors :: u64
  sn_memory_allocated :: int
  sn_epoll_wait_time_us :: u64
  sn_uptime :: int

definition GetSnapshot :: "int \<Rightarrow> (nat \<Rightarrow> server_metrics) \<Rightarrow> metrics_snapshot" where
  "GetSnapshot now s =
     \<lparr>sn_active_connections = sm_active_connections (s 0), sn_total_connections = sm_total_connections (s 1),
      sn_total_requests = sm_total_requests (s 2), sn_requests_1xx = sm_requests_1xx (s 3),
      sn_requests_2xx = sm_requests_2xx (s 4), sn_requests_3xx = sm_requests_3xx (s 5),
      sn_requests_4xx = sm_requests_4xx (s 6), sn_requests_5xx = sm_requests_5xx (s 7),
      sn_bytes_sent = sm_bytes_sent (s 8), sn_bytes_received = sm_bytes_received (s 9), sn_errors = sm_errors (s 10),
      sn_memory_allocated = sint (sm_memory_allocated (s 11)), sn_epoll_wait_time_us = sm_epoll_wait_time_us (s 12),
      sn_uptime = now - sm_start_time (s 0)\<rparr>"

abbreviation udec :: "u64 \<Rightarrow> string" where "udec n \<equiv> dec (unat n)"

abbreviation QT :: char where "QT \<equiv> CHR 0x22"

definition json_key :: "string \<Rightarrow> string" where
  "json_key k = QT # k @ [QT] @ '': ''"

definition metrics_ToJsonString :: "(int \<Rightarrow> string) \<Rightarrow> metrics_snapshot \<Rightarrow> string" where
  "metrics_ToJsonString fixed2 s =
     ''{'' @ json_key ''connections'' @ ''{''
     @ json_key ''active'' @ udec (sn_active_connections s) @ '', ''
     @ json_key ''total'' @ udec (sn_total_connections s) @ ''}, ''
     @ json_key ''requests'' @ ''{''
     @ json_key ''total'' @ udec (sn_total_requests s) @ '', ''
     @ json_key ''1xx'' @ udec (sn_requests_1xx s) @ '', ''
     @ json_key ''2xx'' @ udec (sn_requests_2xx s) @ '', ''
     @ json_key ''3xx'' @ udec (sn_requests_3xx s) @ '', ''
     @ json_key ''4xx'' @ udec (sn_requests_4xx s) @ '', ''
     @ json_key ''5xx'' @ udec (sn_requests_5xx s) @ ''}, ''
     @ json_key ''traffic'' @ ''{''
     @ json_key ''bytes_sent'' @ udec (sn_bytes_sent s) @ '', ''
     @ json_key ''bytes_received'' @ udec (sn_bytes_received s) @ ''}, ''
     @ json_key ''errors'' @ udec (sn_errors s) @ '', ''
     @ json_key ''resources'' @ ''{''
     @ json_key ''memory_allocated'' @ dec_int (sn_memory_allocated s) @ '', ''
     @ json_key ''epoll_wait_time_us'' @ udec (sn_epoll_wait_time_us s) @ ''}, ''
     @ json_key ''uptime_seconds'' @ fixed2 (sn_uptime s) @ ''}''"

definition help_lines :: "string \<Rightarrow> string \<Rightarrow> string \<Rightarrow> string" where
  "help_lines name help kind =
     ''# HELP '' @ name @ '' '' @ help @ [LF] @ ''# TYPE '' @ name @ '' '' @ kind @ [LF]"

definition sample_line :: "string \<Rightarrow> string \<Rightarrow> string" where
  "sample_line name value = name @ '' '' @ value @ [LF]"

definition family :: "string \<Rightarrow> string \<Rightarrow> string \<Rightarrow> string \<Rightarrow> string" where
  "family name help kind value = help_lines name help kind @ sample_line name value"

definition by_status :: "string \<Rightarrow> string" where
  "by_status f = ''webserver_requests_by_status_total{status='' @ [QT] @ f @ [QT] @ ''}''"

definition ToPrometheusString :: "(int \<Rightarrow> string) \<Rightarrow> metrics_snapshot \<Rightarrow> string" where
  "ToPrometheusString fixed2 s =
     family ''webserver_connections_active'' ''Current active connections'' ''gauge'' (udec (sn_active_connections s)) @ [LF]
     @ family ''webserver_connections_total'' ''Total connections accepted'' ''counter'' (udec (sn_total_connections s)) @ [LF]
     @ family ''webserver_requests_total'' ''Total requests processed'' ''counter'' (udec (sn_total_requests s)) @ [LF]
     @ help_lines ''webserver_requests_by_status_total'' ''Total requests by status code family'' ''counter''
     @ sample_line (by_status ''1xx'') (udec (sn_requests_1xx s))
     @ sample_line (by_status ''2xx'') (udec (sn_requests_2xx s))
     @ sample_line (by_status ''3xx'') (udec (sn_requests_3xx s))
     @ sample_line (by_status ''4xx'') (udec (sn_requests_4xx s))
     @ sample_line (by_status ''5xx'') (udec (sn_requests_5xx s)) @ [LF]
     @ family ''webserver_traffic_bytes_sent_total'' ''Total bytes sent'' ''counter'' (udec (sn_bytes_sent s)) @ [LF]
     @ family ''webserver_traffic_bytes_received_total'' ''Total bytes received'' ''counter'' (udec (sn_bytes_received s)) @ [LF]
     @ family ''webserver_errors_total'' ''Total errors encountered'' ''counter'' (udec (sn_errors s)) @ [LF]
     @ family ''webserver_memory_allocated_bytes'' ''Current allocated memory in bytes'' ''gauge'' (dec_int (sn_memory_allocated s)) @ [LF]
     @ family ''webserver_epoll_wait_time_microseconds_total'' ''Total time spent in epoll_wait'' ''counter'' (udec (sn_epoll_wait_time_us s)) @ [LF]
     @ family ''webserver_uptime_seconds'' ''Server uptime in seconds'' ''gauge'' (fixed2 (sn_uptime s))"

subsection \<open>Counting\<close>

datatype metric_event =
  M_open | M_close | M_request | M_status int | M_sent u64 | M_received u64 | M_error | M_alloc u64 | M_free u64 | M_wait u64

fun meter :: "metric_event \<Rightarrow> server_metrics \<Rightarrow> server_metrics" where
  "meter M_open m = OnNewConnection m"
| "meter M_close m = OnCloseConnection m"
| "meter M_request m = OnRequest m"
| "meter (M_status c) m = OnRequestWithStatusCode c m"
| "meter (M_sent n) m = OnBytesSent n m"
| "meter (M_received n) m = OnBytesReceived n m"
| "meter M_error m = OnError m"
| "meter (M_alloc n) m = OnMemoryAllocated n m"
| "meter (M_free n) m = OnMemoryFreed n m"
| "meter (M_wait n) m = OnEpollWaitTime n m"

lemmas meter_defs = OnNewConnection_def OnCloseConnection_def OnRequest_def OnRequestWithStatusCode_def OnBytesSent_def
  OnBytesReceived_def OnError_def OnMemoryAllocated_def OnMemoryFreed_def OnEpollWaitTime_def

text \<open>What an event adds to each counter; adding is all that happens to one.\<close>

definition added :: "metric_event \<Rightarrow> u64 list" where
  "added e = (let m = meter e (new_metrics 0) in
     [sm_active_connections m, sm_total_connections m, sm_total_requests m, sm_requests_1xx m, sm_requests_2xx m,
      sm_requests_3xx m, sm_requests_4xx m, sm_requests_5xx m, sm_bytes_sent m, sm_bytes_received m, sm_errors m,
      sm_memory_allocated m, sm_epoll_wait_time_us m])"

lemma meter_adds:
  "meter e m = m
     \<lparr>sm_active_connections := sm_active_connections m + added e ! 0, sm_total_connections := sm_total_connections m + added e ! 1,
      sm_total_requests := sm_total_requests m + added e ! 2, sm_requests_1xx := sm_requests_1xx m + added e ! 3,
      sm_requests_2xx := sm_requests_2xx m + added e ! 4, sm_requests_3xx := sm_requests_3xx m + added e ! 5,
      sm_requests_4xx := sm_requests_4xx m + added e ! 6, sm_requests_5xx := sm_requests_5xx m + added e ! 7,
      sm_bytes_sent := sm_bytes_sent m + added e ! 8, sm_bytes_received := sm_bytes_received m + added e ! 9,
      sm_errors := sm_errors m + added e ! 10, sm_memory_allocated := sm_memory_allocated m + added e ! 11,
      sm_epoll_wait_time_us := sm_epoll_wait_time_us m + added e ! 12\<rparr>"
  by (cases e) (simp_all add: meter_defs added_def new_metrics_def Let_def)

lemma meter_commutes: "meter e \<circ> meter f = meter f \<circ> meter e"
  by (rule ext) (simp add: meter_adds[of e] meter_adds[of f] ac_simps)

text \<open>The counters depend only on what happened and how often: however the events of several threads
  interleave, the totals are the same.\<close>
theorem metrics_ignore_order:
  assumes "mset es = mset es'"
  shows "fold meter es m = fold meter es' m"
  using fold_multiset_equiv[of es meter es', OF _ assms] meter_commutes by metis

theorem metrics_ignore_order_witness:
  "fold meter [M_open, M_status 404, M_sent 10] (new_metrics 0) = fold meter [M_sent 10, M_open, M_status 404] (new_metrics 0)"
  by (rule metrics_ignore_order) simp

text \<open>Closing a connection that was never counted wraps the number of active ones around.\<close>

theorem uncounted_close_wraps:
  "sm_active_connections (OnCloseConnection (new_metrics now)) = - 1
   \<and> unat (sm_active_connections (OnCloseConnection (new_metrics now))) = 2 ^ 64 - 1"
  by (simp add: OnCloseConnection_def new_metrics_def unsigned_minus_1_eq_mask mask_eq_exp_minus_1)

text \<open>The requests counted with a status are the families together, as long as every status has one.\<close>

fun counted_by_status :: "metric_event \<Rightarrow> bool" where
  "counted_by_status M_request = False"
| "counted_by_status (M_status c) = (100 \<le> c \<and> c < 600)"
| "counted_by_status _ = True"

theorem families_add_up:
  "list_all counted_by_status es \<Longrightarrow>
   sm_total_requests m = sm_requests_1xx m + sm_requests_2xx m + sm_requests_3xx m + sm_requests_4xx m + sm_requests_5xx m \<Longrightarrow>
   (let m = fold meter es m in
     sm_total_requests m = sm_requests_1xx m + sm_requests_2xx m + sm_requests_3xx m + sm_requests_4xx m + sm_requests_5xx m)"
proof (induction es arbitrary: m)
  case (Cons e es)
  have "sm_total_requests (meter e m) = sm_requests_1xx (meter e m) + sm_requests_2xx (meter e m)
      + sm_requests_3xx (meter e m) + sm_requests_4xx (meter e m) + sm_requests_5xx (meter e m)"
    using Cons.prems by (cases e) (auto simp: meter_defs Let_def)
  with Cons show ?case by simp
qed simp

subsection \<open>Reading the metrics back\<close>

text \<open>What a scraper takes from the text: the lines that are not comments, split at the first blank.\<close>

definition samples :: "string \<Rightarrow> (string \<times> string) list" where
  "samples t = map (\<lambda>l. (takeWhile (\<lambda>c. c \<noteq> CHR '' '') l, tl (dropWhile (\<lambda>c. c \<noteq> CHR '' '') l)))
     (filter (\<lambda>l. l \<noteq> [] \<and> hd l \<noteq> CHR ''#'') (getlines LF t))"

lemma samples_blank [simp]: "samples (LF # t) = samples t"
  by (simp add: samples_def)

lemma samples_help [simp]:
  "LF \<notin> set name \<Longrightarrow> LF \<notin> set help \<Longrightarrow> LF \<notin> set kind \<Longrightarrow> samples (help_lines name help kind @ t) = samples t"
  using getlines_line[of LF "''# HELP '' @ name @ '' '' @ help"] getlines_line[of LF "''# TYPE '' @ name @ '' '' @ kind" t]
  by (simp add: samples_def help_lines_def)

lemma samples_line [simp]:
  assumes "CHR '' '' \<notin> set name" "LF \<notin> set name" "name \<noteq> []" "hd name \<noteq> CHR ''#''" "LF \<notin> set value"
  shows "samples (sample_line name value @ t) = (name, value) # samples t"
proof -
  have "takeWhile (\<lambda>c. c \<noteq> CHR '' '') (name @ CHR '' '' # value) = name"
    "dropWhile (\<lambda>c. c \<noteq> CHR '' '') (name @ CHR '' '' # value) = CHR '' '' # value"
    using assms(1) by (induction name) auto
  then show ?thesis using getlines_line[of LF "name @ CHR '' '' # value" t] assms
    by (simp add: samples_def sample_line_def)
qed

lemma samples_none [simp]: "samples [] = []"
  by (simp add: samples_def)

definition snapshot_samples :: "(int \<Rightarrow> string) \<Rightarrow> metrics_snapshot \<Rightarrow> (string \<times> string) list" where
  "snapshot_samples fixed2 s =
     [(''webserver_connections_active'', udec (sn_active_connections s)),
      (''webserver_connections_total'', udec (sn_total_connections s)),
      (''webserver_requests_total'', udec (sn_total_requests s)),
      (by_status ''1xx'', udec (sn_requests_1xx s)), (by_status ''2xx'', udec (sn_requests_2xx s)),
      (by_status ''3xx'', udec (sn_requests_3xx s)), (by_status ''4xx'', udec (sn_requests_4xx s)),
      (by_status ''5xx'', udec (sn_requests_5xx s)),
      (''webserver_traffic_bytes_sent_total'', udec (sn_bytes_sent s)),
      (''webserver_traffic_bytes_received_total'', udec (sn_bytes_received s)),
      (''webserver_errors_total'', udec (sn_errors s)),
      (''webserver_memory_allocated_bytes'', dec_int (sn_memory_allocated s)),
      (''webserver_epoll_wait_time_microseconds_total'', udec (sn_epoll_wait_time_us s)),
      (''webserver_uptime_seconds'', fixed2 (sn_uptime s))]"

lemma no_lf [simp]: "LF \<notin> set (dec n)" "LF \<notin> set (dec_int i)"
  using dec_chars dec_int_chars by blast+

text \<open>A scraper of the Prometheus text finds exactly the fourteen samples of the snapshot, each with its
  name, its label and its value in full.\<close>
theorem prometheus_reads_back:
  assumes "LF \<notin> set (fixed2 (sn_uptime s))"
  shows "samples (ToPrometheusString fixed2 s) = snapshot_samples fixed2 s"
proof -
  have last: "samples (sample_line name v) = [(name, v)]"
    if "CHR '' '' \<notin> set name" "LF \<notin> set name" "name \<noteq> []" "hd name \<noteq> CHR ''#''" "LF \<notin> set v" for name v
    using samples_line[OF that, of "[]"] by simp
  show ?thesis using assms
    by (simp add: ToPrometheusString_def snapshot_samples_def family_def by_status_def last)
qed

theorem prometheus_reads_back_witness:
  "samples (ToPrometheusString (\<lambda>_. ''0.00'') (GetSnapshot 0 (\<lambda>_. new_metrics 0)))
   = snapshot_samples (\<lambda>_. ''0.00'') (GetSnapshot 0 (\<lambda>_. new_metrics 0))"
  by (rule prometheus_reads_back) simp

end
