(* ===== verification/ProgramStart.thy ===== *)
theory ProgramStart
  imports ServerRuns StructuredLog
begin

text \<open>
  The start of the program (src/main.cpp): the command line, the directories it makes sure of, the
  configuration, and the server it builds and starts. What the message callback and the plugins then do
  is in \<open>MessageHandler\<close> and \<open>Plugins\<close>.

  The file system is a map from paths to what is there. \<open>mkdir\<close> and creating a file need the directory
  above; nothing else of them fails here. How a configuration file is read and parsed is a parameter, as
  in \<open>ServerConfig\<close>. \<open>exit\<close> stands for the value \<open>main\<close> returns.
\<close>

subsection \<open>The command line\<close>

fun parse_args :: "string list \<Rightarrow> string \<Rightarrow> int + string" where
  "parse_args [] config_file = Inr config_file"
| "parse_args (arg # rest) config_file =
     (if arg = ''--config'' \<and> rest \<noteq> [] then parse_args (tl rest) (hd rest)
      else if arg = ''--help'' then Inl 0
      else Inl 1)"

subsection \<open>Directories\<close>

datatype node = Dir | File string

type_synonym file_system = "string \<rightharpoonup> node"

definition ensure_dir :: "string \<Rightarrow> string \<Rightarrow> file_system \<Rightarrow> file_system" where
  "ensure_dir parent path fs =
     (if fs path \<noteq> None then fs else if fs parent = Some Dir then fs(path \<mapsto> Dir) else fs)"

definition ensure_index :: "file_system \<Rightarrow> file_system" where
  "ensure_index fs =
     (if fs ''./public/index.html'' \<noteq> None then fs
      else if fs ''./public'' = Some Dir then fs(''./public/index.html'' \<mapsto> File ''<h1>TinyWebServer V3</h1>'')
      else fs)"

definition prepare_files :: "file_system \<Rightarrow> file_system" where
  "prepare_files fs =
     ensure_dir ''./local/logs'' ''./local/logs/benchmark''
       (ensure_dir ''./local'' ''./local/logs''
         (ensure_dir ''.'' ''./local''
           (ensure_index (ensure_dir ''.'' ''./public'' fs))))"

subsection \<open>The server\<close>

record running_site =
  mn_server :: server
  mn_static_root :: string
  mn_keep_alive_timeout :: i32
  mn_logs :: log_manager

datatype main_result = Exits int | Undefined_behaviour | Uncaught string | Serves running_site

text \<open>The configuration, the server made from it, and the call of \<open>Start\<close> and \<open>Run\<close>, up to its loop.\<close>

definition main_config :: "(string \<Rightarrow> json option) \<Rightarrow> (json \<Rightarrow> string option) \<Rightarrow> (string \<Rightarrow> string option) \<Rightarrow> string \<Rightarrow> server_config" where
  "main_config parse dump read_file config_file =
     (if config_file \<noteq> [] then LoadFromFile parse dump (read_file config_file) else default_config)"

definition main_start ::
  "os_answers \<Rightarrow> (string \<Rightarrow> json option) \<Rightarrow> (json \<Rightarrow> string option) \<Rightarrow> (string \<Rightarrow> string option) \<Rightarrow> string list
   \<Rightarrow> file_system \<Rightarrow> main_result \<times> file_system" where
  "main_start os parse dump read_file args fs =
     (case parse_args args [] of
        Inl code \<Rightarrow> (Exits code, fs)
      | Inr config_file \<Rightarrow>
          (let fs = prepare_files fs;
               config = main_config parse dump read_file config_file;
               made = (if config_file \<noteq> [] then new_server os (Some config)
                       else new_server_at os ''0.0.0.0'' 8080 False 0);
               logs = (if config_file \<noteq> [] then InitStructuredLoggerFromConfig (Some config) None else None)
           in (case made of
                 None \<Rightarrow> Undefined_behaviour
               | Some (Inl e, log) \<Rightarrow> Uncaught e
               | Some (Inr s, log) \<Rightarrow>
                   (case server_Run os (server_Start os s) of
                      None \<Rightarrow> Undefined_behaviour
                    | Some s \<Rightarrow> Serves \<lparr>mn_server = s, mn_static_root = st_root (sc_static config),
                        mn_keep_alive_timeout = li_keep_alive_timeout (sc_limits config), mn_logs = logs\<rparr>), fs)))"

subsection \<open>What the command line means\<close>

text \<open>The last file named counts; anything but pairs of \<open>--config\<close> and a file ends the program.\<close>

lemma parse_args_pairs: "parse_args (concat (map (\<lambda>f. [''--config'', f]) fs)) c = Inr (last (c # fs))"
  by (induction fs arbitrary: c) simp_all

lemma parse_args_only_pairs:
  "parse_args args c = Inr f \<Longrightarrow> \<exists>fs. args = concat (map (\<lambda>f. [''--config'', f]) fs)"
proof (induction args c rule: parse_args.induct)
  case (2 arg rest c)
  then obtain fs where "arg = ''--config''" "rest \<noteq> []" "tl rest = concat (map (\<lambda>f. [''--config'', f]) fs)"
    by (auto split: if_splits)
  then have "arg # rest = concat (map (\<lambda>f. [''--config'', f]) (hd rest # fs))" by (cases rest) simp_all
  then show ?case by blast
qed (auto intro: exI[of _ "[]"])

text \<open>The command line is accepted exactly if it consists of pairs of --config and a file name, and then the
  last file counts; otherwise the program ends at once, with 0 for --help and 1 for anything else, and has
  touched no file.\<close>
theorem command_line_meaning:
  "(\<forall>f. parse_args args [] = Inr f \<longleftrightarrow> (\<exists>fs. args = concat (map (\<lambda>f. [''--config'', f]) fs) \<and> f = last ([] # fs)))
   \<and> (\<forall>code. parse_args args [] = Inl code \<longrightarrow> code \<in> {0, 1} \<and> main_start os parse dump rd args fs0 = (Exits code, fs0))"
proof (intro conjI allI impI)
  fix f
  show "parse_args args [] = Inr f \<longleftrightarrow> (\<exists>fs. args = concat (map (\<lambda>f. [''--config'', f]) fs) \<and> f = last ([] # fs))"
    using parse_args_only_pairs[of args "[]" f] parse_args_pairs[of _ "[]"] by force
next
  fix code assume code: "parse_args args [] = Inl code"
  have "parse_args args c = Inl code \<Longrightarrow> code \<in> {0, 1}" for c
    by (induction args c rule: parse_args.induct) (auto split: if_splits)
  from this[OF code] show "code \<in> {0, 1}" .
  show "main_start os parse dump rd args fs0 = (Exits code, fs0)" by (simp add: main_start_def code)
qed

text \<open>Preparing the directories leaves what is there as it is, and makes what is missing.\<close>

lemma ensure_keeps:
  "fs p = Some n \<Longrightarrow> ensure_dir parent path fs p = Some n" "fs p = Some n \<Longrightarrow> ensure_index fs p = Some n"
  by (auto simp: ensure_dir_def ensure_index_def)

lemma ensure_other:
  "p \<noteq> path \<Longrightarrow> ensure_dir parent path fs p = fs p" "p \<noteq> ''./public/index.html'' \<Longrightarrow> ensure_index fs p = fs p"
  by (simp_all add: ensure_dir_def ensure_index_def)

lemma ensure_makes:
  "fs parent = Some Dir \<Longrightarrow> fs path = None \<or> fs path = Some Dir \<Longrightarrow> ensure_dir parent path fs path = Some Dir"
  by (auto simp: ensure_dir_def)

theorem prepare_files_keeps: "fs p = Some n \<Longrightarrow> prepare_files fs p = Some n"
  by (simp add: prepare_files_def ensure_keeps)

theorem prepare_files_makes:
  assumes dot: "fs ''.'' = Some Dir" and free: "\<And>p. p \<in> {''./public'', ''./local'', ''./local/logs''} \<Longrightarrow> fs p = None \<or> fs p = Some Dir"
  shows "prepare_files fs ''./public'' = Some Dir" "prepare_files fs ''./public/index.html'' \<noteq> None"
    "prepare_files fs ''./local'' = Some Dir" "prepare_files fs ''./local/logs'' = Some Dir"
    "prepare_files fs ''./local/logs/benchmark'' \<noteq> None"
proof -
  define f1 where "f1 = ensure_dir ''.'' ''./public'' fs"
  define f2 where "f2 = ensure_index f1"
  define f3 where "f3 = ensure_dir ''.'' ''./local'' f2"
  define f4 where "f4 = ensure_dir ''./local'' ''./local/logs'' f3"
  have prep: "prepare_files fs = ensure_dir ''./local/logs'' ''./local/logs/benchmark'' f4"
    by (simp add: prepare_files_def f1_def f2_def f3_def f4_def)
  have 1: "f1 ''./public'' = Some Dir" unfolding f1_def by (rule ensure_makes[where fs = fs, OF dot]) (use free in simp)
  have "f2 ''./public/index.html'' \<noteq> None" using 1 by (simp add: f2_def ensure_index_def)
  then have index: "\<exists>n. f2 ''./public/index.html'' = Some n" by blast
  have 2: "f2 ''./public'' = Some Dir" unfolding f2_def by (rule ensure_keeps(2)[where fs = f1, OF 1])
  have dot2: "f2 ''.'' = Some Dir" unfolding f2_def f1_def by (simp add: ensure_keeps dot)
  have "f2 ''./local'' = fs ''./local''" unfolding f2_def f1_def by (simp add: ensure_other)
  then have 3: "f3 ''./local'' = Some Dir" unfolding f3_def by (intro ensure_makes[where fs = f2, OF dot2]) (use free in simp)
  have "f3 ''./local/logs'' = fs ''./local/logs''" unfolding f3_def f2_def f1_def by (simp add: ensure_other)
  then have 4: "f4 ''./local/logs'' = Some Dir" unfolding f4_def by (intro ensure_makes[where fs = f3, OF 3]) (use free in simp)
  show "prepare_files fs ''./public'' = Some Dir" "prepare_files fs ''./public/index.html'' \<noteq> None"
    "prepare_files fs ''./local'' = Some Dir" "prepare_files fs ''./local/logs'' = Some Dir"
    using 2 3 4 index unfolding prep f4_def f3_def by (auto simp: ensure_keeps)
  show "prepare_files fs ''./local/logs/benchmark'' \<noteq> None"
    using 4 unfolding prep by (simp add: ensure_dir_def)
qed

subsection \<open>Starting with and without a file\<close>

lemma start_port: "sv_port (start_threads os n s) = sv_port s"
  by (induction n arbitrary: s) (simp_all add: Let_def)

lemma server_Run_keeps:
  "server_Run os s = Some t \<Longrightarrow> sv_pool t = sv_pool s \<and> sv_port t = sv_port s"
  by (auto simp: server_Run_def on_loop_def split: if_splits)

lemma traditional_keeps:
  "SetupTraditionalMode os s = (Inr t, log) \<Longrightarrow> sv_pool t = sv_pool s \<and> sv_port t = sv_port s"
  by (auto simp: SetupTraditionalMode_def on_loop_def split: prod.splits listen_result.splits)

lemma started_threads:
  assumes "SetupTraditionalMode os s = (Inr u, log)" and "server_Run os (server_Start os u) = Some t"
  shows "length (tp_loops (sv_pool t)) = length (tp_loops (sv_pool s)) + threads_of (sv_pool s) \<and> sv_port t = sv_port s"
  using server_Run_keeps[OF assms(2)] traditional_keeps[OF assms(1)]
  by (simp add: server_Start_def pool_Start_frame) (simp add: pool_Start_def start_port)

lemma default_made:
  "new_server os (Some default_config) = Some (SetupTraditionalMode os (config_blank os default_config))"
  by (simp add: new_server_blank setup_mode_def config_blank_fields) (simp add: default_config_def)

lemma default_fields:
  "threads_of (sv_pool (config_blank os default_config)) = 4" "sv_port (config_blank os default_config) = 8080"
  "st_root (sc_static default_config) = ''./public''"
  by (simp_all add: config_blank_fields) (simp_all add: default_config_def config_blank_def blank_server_def Let_def)



end
