(* ===== verification/LogStream.thy ===== *)
theory LogStream
  imports ConditionalRequest Logger
begin

text \<open>
  The stream front end of the log (include/LogStream.h): text of values gathered in one string. Numbers go
  through an array of 48 characters, and as many are appended as \<open>snprintf\<close> says it would have written:
  if that is more than the array holds, characters outside it are read, and the result is \<open>None\<close>.

  The text of floating-point numbers and pointers depends on the C library: \<open>SA_printed\<close> has it.
\<close>

datatype stream_arg =
    SA_bool bool
  | SA_short u16 | SA_ushort u16 | SA_int u32 | SA_uint u32
  | SA_long u64 | SA_ulong u64 | SA_longlong u64 | SA_ulonglong u64
  | SA_printed string
  | SA_char char
  | SA_cstring "string option"
  | SA_string string

definition kMaxNumericSize :: nat where
  "kMaxNumericSize = 48"

type_synonym log_stream = string

definition new_log_stream :: log_stream where
  "new_log_stream = []"

definition stream_append :: "string \<Rightarrow> log_stream \<Rightarrow> log_stream" where
  "stream_append s buffer = buffer @ s"

definition put_numeric :: "string \<Rightarrow> log_stream \<Rightarrow> log_stream option" where
  "put_numeric buf buffer =
     (if length buf < kMaxNumericSize then Some (stream_append buf buffer) else None)"

text \<open>The operators \<open><<\<close>; a null pointer writes nothing, a C string what is before its null character.\<close>

fun stream_put :: "stream_arg \<Rightarrow> log_stream \<Rightarrow> log_stream option" where
  "stream_put (SA_bool v) b = Some (stream_append (if v then ''true'' else ''false'') b)"
| "stream_put (SA_short v) b = put_numeric (dec_int (sint v)) b"
| "stream_put (SA_ushort v) b = put_numeric (dec (unat v)) b"
| "stream_put (SA_int v) b = put_numeric (dec_int (sint v)) b"
| "stream_put (SA_uint v) b = put_numeric (dec (unat v)) b"
| "stream_put (SA_long v) b = put_numeric (dec_int (sint v)) b"
| "stream_put (SA_ulong v) b = put_numeric (dec (unat v)) b"
| "stream_put (SA_longlong v) b = put_numeric (dec_int (sint v)) b"
| "stream_put (SA_ulonglong v) b = put_numeric (dec (unat v)) b"
| "stream_put (SA_printed s) b = put_numeric s b"
| "stream_put (SA_char c) b = Some (stream_append [c] b)"
| "stream_put (SA_cstring None) b = Some b"
| "stream_put (SA_cstring (Some s)) b = Some (stream_append (c_string s) b)"
| "stream_put (SA_string s) b = Some (stream_append s b)"

fun stream_puts :: "stream_arg list \<Rightarrow> log_stream \<Rightarrow> log_stream option" where
  "stream_puts [] b = Some b"
| "stream_puts (a # as) b = (case stream_put a b of None \<Rightarrow> None | Some b \<Rightarrow> stream_puts as b)"

definition stream_reset :: "log_stream \<Rightarrow> log_stream" where
  "stream_reset b = []"

subsection \<open>Numbers fit\<close>

lemma length_dec: "n < 10 ^ Suc k \<Longrightarrow> length (dec n) \<le> Suc k"
proof (induction k arbitrary: n)
  case 0
  then show ?case by (subst dec.simps) simp
next
  case (Suc k)
  then have "n div 10 < 10 ^ Suc k" by (simp add: less_mult_imp_div_less)
  from Suc.IH[OF this] show ?case by (subst dec.simps) simp
qed

lemma length_dec_20: "n < 10 ^ 20 \<Longrightarrow> length (dec n) \<le> 20"
  using length_dec[of n 19] by simp

lemma length_dec_word: "LENGTH('a) \<le> 64 \<Longrightarrow> length (dec (unat (w :: 'a::len word))) \<le> 20"
proof -
  assume "LENGTH('a) \<le> 64"
  then have "(2 :: nat) ^ LENGTH('a) \<le> 2 ^ 64" by (rule power_increasing) simp
  moreover have "unat w < 2 ^ LENGTH('a)" by (rule unsigned_less)
  ultimately have "unat w < 2 ^ 64" by linarith
  then have "unat w < 10 ^ 20" by simp
  then show ?thesis by (rule length_dec_20)
qed

lemma length_dec_int: "\<bar>i\<bar> < 10 ^ 20 \<Longrightarrow> length (dec_int i) \<le> 21"
  using length_dec_20[of "nat (- i)"] length_dec_20[of "nat i"] by (auto simp: dec_int_def nat_less_iff)

lemma length_dec_sint: "LENGTH('a) \<le> 64 \<Longrightarrow> length (dec_int (sint (w :: 'a::len word))) \<le> 21"
proof -
  assume "LENGTH('a) \<le> 64"
  then have p: "(2 :: int) ^ (LENGTH('a) - 1) \<le> 2 ^ 63" by (intro power_increasing) auto
  have "- (2 ^ (LENGTH('a) - 1)) \<le> sint w" "sint w < 2 ^ (LENGTH('a) - 1)"
    using sint_greater_eq[of w] sint_less[of w] by simp_all
  with p have "\<bar>sint w\<bar> \<le> 2 ^ 63" by linarith
  then show ?thesis by (intro length_dec_int) simp
qed

text \<open>What each argument writes.\<close>

fun stream_text :: "stream_arg \<Rightarrow> string" where
  "stream_text (SA_bool v) = (if v then ''true'' else ''false'')"
| "stream_text (SA_short v) = dec_int (sint v)"
| "stream_text (SA_ushort v) = dec (unat v)"
| "stream_text (SA_int v) = dec_int (sint v)"
| "stream_text (SA_uint v) = dec (unat v)"
| "stream_text (SA_long v) = dec_int (sint v)"
| "stream_text (SA_ulong v) = dec (unat v)"
| "stream_text (SA_longlong v) = dec_int (sint v)"
| "stream_text (SA_ulonglong v) = dec (unat v)"
| "stream_text (SA_printed s) = s"
| "stream_text (SA_char c) = [c]"
| "stream_text (SA_cstring None) = []"
| "stream_text (SA_cstring (Some s)) = c_string s"
| "stream_text (SA_string s) = s"

fun short_text :: "stream_arg \<Rightarrow> bool" where
  "short_text (SA_printed s) = (length s < kMaxNumericSize)"
| "short_text _ = True"

lemma stream_put_text: "short_text a \<Longrightarrow> stream_put a b = Some (b @ stream_text a)"
  by (induction a b rule: stream_put.induct)
    (simp_all add: put_numeric_def stream_append_def kMaxNumericSize_def le_less_trans[OF length_dec_word]
      le_less_trans[OF length_dec_sint])

text \<open>No integer of any width is too long for the array it is printed into: a stream of arguments whose
  floating-point texts are below 48 characters is defined, and is their texts one after the other.\<close>
theorem stream_is_concatenation:
  assumes "list_all short_text as"
  shows "stream_puts as b = Some (b @ concat (map stream_text as))"
  using assms by (induction as arbitrary: b) (simp_all add: stream_put_text)

theorem stream_is_concatenation_witness:
  "stream_puts [SA_long (- 1), SA_string '' of '', SA_bool True] [] = Some ''-1 of true''"
  using stream_is_concatenation[of "[SA_long (- 1), SA_string '' of '', SA_bool True]" "[]"]
  by (simp add: dec_int_def dec.simps digit_chars)

end
