(* ===== verification/JsonSimple.thy ===== *)
theory JsonSimple
  imports Complex_Main Prelude
begin

text \<open>
  The small JSON values of include/config/json_simple.h: a tagged union, its typed accessors, which throw
  when the tag is another one, and objects. A result is \<open>Inl\<close> the message of the \<open>runtime_error\<close>, or
  \<open>Inr\<close> the value. \<open>double\<close> is the reals: a 32-bit integer is converted to it exactly.
\<close>

datatype simple_json =
    SJ_null | SJ_bool bool | SJ_int "32 word" | SJ_double real | SJ_string string
  | SJ_object "string \<Rightarrow> simple_json option" | SJ_array "simple_json list"

type_synonym 'a access = "string + 'a"

fun As_bool :: "simple_json \<Rightarrow> bool access" where
  "As_bool (SJ_bool b) = Inr b"
| "As_bool _ = Inl ''Not a boolean''"

fun As_int :: "simple_json \<Rightarrow> 32 word access" where
  "As_int (SJ_int i) = Inr i"
| "As_int _ = Inl ''Not an integer''"

fun As_double :: "simple_json \<Rightarrow> real access" where
  "As_double (SJ_int i) = Inr (of_int (sint i))"
| "As_double (SJ_double d) = Inr d"
| "As_double _ = Inl ''Not a double''"

fun As_string :: "simple_json \<Rightarrow> string access" where
  "As_string (SJ_string s) = Inr s"
| "As_string _ = Inl ''Not a string''"

fun As_object :: "simple_json \<Rightarrow> (string \<rightharpoonup> simple_json) access" where
  "As_object (SJ_object m) = Inr m"
| "As_object _ = Inl ''Not an object''"

text \<open>Constructing a value from a string literal: a pointer converts to \<open>bool\<close> by a standard conversion, which
  is preferred to the one to \<open>std::string\<close>.\<close>

definition JsonValue_of_literal :: "string option \<Rightarrow> simple_json" where
  "JsonValue_of_literal p = SJ_bool (p \<noteq> None)"

type_synonym json_object = "string \<rightharpoonup> simple_json"

definition HasKey :: "string \<Rightarrow> json_object \<Rightarrow> bool" where
  "HasKey key obj \<longleftrightarrow> obj key \<noteq> None"

definition obj_Get :: "(simple_json \<Rightarrow> 'a access) \<Rightarrow> string \<Rightarrow> 'a \<Rightarrow> json_object \<Rightarrow> 'a access" where
  "obj_Get As key default_value obj = (case obj key of None \<Rightarrow> Inr default_value | Some v \<Rightarrow> As v)"

definition obj_GetOptional :: "(simple_json \<Rightarrow> 'a access) \<Rightarrow> string \<Rightarrow> json_object \<Rightarrow> 'a option access" where
  "obj_GetOptional As key obj =
     (case obj key of None \<Rightarrow> Inr None
      | Some v \<Rightarrow> (case As v of Inl e \<Rightarrow> Inl e | Inr x \<Rightarrow> Inr (Some x)))"

definition obj_Set :: "string \<Rightarrow> simple_json \<Rightarrow> json_object \<Rightarrow> json_object" where
  "obj_Set key v obj = obj(key \<mapsto> v)"

text \<open>The parser does not look at its input.\<close>

definition JsonParser_Parse :: "string \<Rightarrow> json_object" where
  "JsonParser_Parse json_str = Map.empty"

subsection \<open>Access is typed\<close>

lemma As_exact:
  "As_bool v = Inr b \<longleftrightarrow> v = SJ_bool b" "As_int v = Inr i \<longleftrightarrow> v = SJ_int i" "As_string v = Inr s \<longleftrightarrow> v = SJ_string s"
  "As_object v = Inr m \<longleftrightarrow> v = SJ_object m"
  "As_double v = Inr d \<longleftrightarrow> v = SJ_double d \<or> (\<exists>i. v = SJ_int i \<and> d = of_int (sint i))"
  by (cases v; auto)+


text \<open>A string literal is stored as a truth value and cannot be read as a string.\<close>

theorem literal_is_boolean:
  "obj_Get As_bool k d (obj_Set k (JsonValue_of_literal (Some s)) obj) = Inr True
   \<and> obj_Get As_string k t (obj_Set k (JsonValue_of_literal (Some s)) obj) = Inl ''Not a string''"
  by (simp add: obj_Get_def obj_Set_def JsonValue_of_literal_def)

end
