(* ===== verification/Backpressure.thy ===== *)
theory Backpressure
  imports MessageHandler
begin

text \<open>
  What the limits on the buffers of a connection come to (include/connection_limits.h, the checks of
  src/connection.cpp, and the callback of src/main.cpp, whose models this theory puts together).
\<close>

definition kMaxRequestSize :: nat where "kMaxRequestSize = 8 * 1024"

definition kMaxHeadersSize :: nat where "kMaxHeadersSize = 8 * 1024"

definition IsInputBufferExceeded :: "nat \<Rightarrow> bool" where
  "IsInputBufferExceeded current_size \<longleftrightarrow> current_size > kMaxInputBuffer"

definition IsOutputBufferExceeded :: "nat \<Rightarrow> bool" where
  "IsOutputBufferExceeded current_size \<longleftrightarrow> current_size > kMaxOutputBuffer"

definition IsRequestSizeExceeded :: "nat \<Rightarrow> bool" where
  "IsRequestSizeExceeded request_size \<longleftrightarrow> request_size > kMaxRequestSize"

definition IsHeadersSizeExceeded :: "nat \<Rightarrow> bool" where
  "IsHeadersSizeExceeded headers_size \<longleftrightarrow> headers_size > kMaxHeadersSize"

definition kMaxConnections :: nat where "kMaxConnections = 10000"

definition kTotalMemoryLimit :: nat where "kTotalMemoryLimit = 256 * 1024 * 1024"

definition IsConnectionLimitExceeded :: "nat \<Rightarrow> bool" where
  "IsConnectionLimitExceeded current_connections \<longleftrightarrow> current_connections > kMaxConnections"

definition IsMemoryLimitExceeded :: "nat \<Rightarrow> bool" where
  "IsMemoryLimitExceeded current_memory \<longleftrightarrow> current_memory > kTotalMemoryLimit"

text \<open>Without a configuration the checks of the connection are those of the limits.\<close>

lemma checks_are_limits:
  "c_config w = None \<Longrightarrow> CheckInputBufferLimit w = IsInputBufferExceeded (length (c_input w))"
  "c_config w = None \<Longrightarrow> CheckOutputBufferLimit w = IsOutputBufferExceeded (TotalBytes (c_output w))"
  by (simp_all add: CheckInputBufferLimit_def CheckOutputBufferLimit_def max_input_def max_output_def
      IsInputBufferExceeded_def IsOutputBufferExceeded_def)

subsection \<open>Reading\<close>

text \<open>Pieces as \<open>read\<close> returns them.\<close>

definition pieces :: "bytes list \<Rightarrow> bool" where
  "pieces bss \<longleftrightarrow> list_all (\<lambda>bs. bs \<noteq> [] \<and> length bs \<le> 4096) bss"

lemma untimed_fields [simp]:
  "untimed (w\<lparr>c_input := i\<rparr>) = untimed w" "untimed (w\<lparr>w_reads := rs\<rparr>) = untimed w"
  by (simp_all add: untimed_def HasActiveTimeout_def)

lemma read_pieces:
  "untimed w \<Longrightarrow> pieces bss \<Longrightarrow>
   read_loop (map Got bss) w = Some (w\<lparr>c_input := c_input w @ concat bss, w_reads := []\<rparr>)"
proof (induction bss arbitrary: w)
  case (Cons bs bss)
  have "UpdateActivityTimestamp True (w\<lparr>c_input := c_input w @ bs\<rparr>) = Some (w\<lparr>c_input := c_input w @ bs\<rparr>)"
    by (rule UpdateActivity_untimed) (simp add: Cons.prems)
  moreover have "read_loop (map Got bss) (w\<lparr>c_input := c_input w @ bs\<rparr>) =
      Some (w\<lparr>c_input := c_input w @ bs\<rparr>\<lparr>c_input := c_input (w\<lparr>c_input := c_input w @ bs\<rparr>) @ concat bss, w_reads := []\<rparr>)"
    by (rule Cons.IH) (use Cons.prems in \<open>simp_all add: pieces_def\<close>)
  ultimately show ?case using Cons.prems(2) by (simp add: pieces_def)
qed simp

text \<open>The connection as its callback sees it.\<close>

definition site_callback ::
  "(nat \<Rightarrow> response_os) \<Rightarrow> (nat \<Rightarrow> int) \<Rightarrow> string \<Rightarrow> int \<Rightarrow> http_request \<Rightarrow> resource_cache \<Rightarrow> conn_world \<Rightarrow> conn_world option" where
  "site_callback os now root t parser c w =
     map_option ms_conn (on_message os now root t 0 \<lparr>ms_conn = w, ms_parser = parser, ms_cache = c\<rparr>)"


definition small_limits :: limits_options where
  "small_limits = \<lparr>lo_connection_timeout = 0, lo_keep_alive_timeout = 0, lo_max_input_buffer = 1024,
     lo_max_output_buffer = 1024\<rparr>"

definition long_line :: bytes where
  "long_line = replicate 1025 65"

definition reading_conn :: conn_world where
  "reading_conn = (example_conn [])\<lparr>c_config := Some small_limits, w_reads := map Got [long_line]\<rparr>"

lemma no_mark: "find_sub header_mark (replicate n c) = None" if "c \<noteq> CR"
proof (induction n)
  case (Suc n)
  then show ?case using that by simp
qed simp


end
