(* ===== verification/BenchStats.thy ===== *)
theory BenchStats
  imports Complex_Main "HOL-Library.Multiset" ConditionalRequest
begin

text \<open>
  What the benchmarks compute from their measurements (include/benchmark.h, the class
      \<open>Statistics\<close> of
  benchmark/src/benchmark_base.cpp, and the ends of the \<open>Run\<close> functions beside it).

  A \<open>double\<close> is a real number: rounding is not modelled. A quotient by zero, an infinity or NaN
      in the
  sources, is \<open>None\<close>. What the threads of a benchmark counted and measured is an argument. Texts in
  Chinese are written as their code points, which \<open>utf8\<close> encodes as the compiler does.
\<close>

definition utf8_char :: "nat \<Rightarrow> string" where
  "utf8_char c =
     map char_of (if c < 0x80 then [c]
                  else if c < 0x800 then [0xC0 + c div 64, 0x80 + c mod 64]
                  else [0xE0 + c div 4096, 0x80 + c div 64 mod 64, 0x80 + c mod 64])"

definition utf8 :: "nat list \<Rightarrow> string" where
  "utf8 cs = concat (map utf8_char cs)"

record metric =
  mt_name :: string
  mt_value :: real
  mt_unit :: string
  mt_description :: string

definition metric_of :: "string \<Rightarrow> real \<Rightarrow> string \<Rightarrow> string \<Rightarrow>
    metric" where
  "metric_of n v u d = \<lparr>mt_name = n, mt_value = v, mt_unit = u, mt_description = d\<rparr>"

lemma metric_of_fields [simp]:
  "mt_name (metric_of n v u d) = n" "mt_value (metric_of n v u d) = v"
  "mt_unit (metric_of n v u d) = u" "mt_description (metric_of n v u d) = d"
  by (simp_all add: metric_of_def)

subsection \<open>Statistics\<close>

definition CalculateMin :: "real list \<Rightarrow> real" where
  "CalculateMin xs = (case xs of [] \<Rightarrow> 0 | v # vs \<Rightarrow> fold min vs v)"

definition CalculateMax :: "real list \<Rightarrow> real" where
  "CalculateMax xs = (case xs of [] \<Rightarrow> 0 | v # vs \<Rightarrow> fold max vs v)"

definition CalculateMean :: "real list \<Rightarrow> real" where
  "CalculateMean xs = (if xs = [] then 0 else fold (\<lambda>v s. s + v) xs 0 / real (length xs))"

definition squared_diffs :: "real list \<Rightarrow> real" where
  "squared_diffs xs =
     (let mean = CalculateMean xs in fold (\<lambda>v s. let diff = v - mean in s + diff * diff) xs 0)"

definition CalculateVariance :: "real list \<Rightarrow> real" where
  "CalculateVariance xs = (if xs = [] then 0 else squared_diffs xs / real (length xs))"

definition CalculateStdDev :: "real list \<Rightarrow> real" where
  "CalculateStdDev xs = (if xs = [] then 0 else sqrt (squared_diffs xs / real (length xs)))"

definition CalculatePercentile :: "real list \<Rightarrow> real \<Rightarrow> real" where
  "CalculatePercentile xs percentile =
     (if xs = [] then 0
      else if percentile \<le> 0 then hd xs
      else if percentile \<ge> 100 then last xs
      else let sorted_values = sort xs;
               index = percentile / 100 * real (length sorted_values - 1);
               lower_index = nat \<lfloor>index\<rfloor>;
               upper_index = nat \<lceil>index\<rceil>
           in if lower_index = upper_index then sorted_values ! lower_index
              else let weight = index - real lower_index
                   in sorted_values ! lower_index * (1 - weight) + sorted_values ! upper_index * weight)"

definition CalculateMedian :: "real list \<Rightarrow> real" where
  "CalculateMedian xs = CalculatePercentile xs 50"

lemma fold_min_le: "fold min vs v \<le> (v :: real) \<and> (\<forall>x \<in> set vs. fold min vs v \<le> x)"
proof (induction vs arbitrary: v)
  case (Cons w vs)
  from Cons[of "min w v"] show ?case by auto
qed simp

lemma fold_max_ge: "fold max vs v \<ge> (v :: real) \<and> (\<forall>x \<in> set vs. fold max vs v \<ge> x)"
proof (induction vs arbitrary: v)
  case (Cons w vs)
  from Cons[of "max w v"] show ?case by auto
qed simp

lemma extremes_bound: "x \<in> set xs \<Longrightarrow> CalculateMin xs \<le> x" "x \<in> set xs
    \<Longrightarrow> x \<le> CalculateMax xs"
  using fold_min_le fold_max_ge by (auto simp: CalculateMin_def CalculateMax_def split: list.splits)

lemma fold_pick: "(\<And>a b. f a b = a \<or> f a b = b) \<Longrightarrow> fold f vs v \<in> insert v (set vs)"
proof (induction vs arbitrary: v)
  case (Cons w vs)
  have "fold f vs (f w v) \<in> insert (f w v) (set vs)" by (rule Cons.IH[OF Cons.prems])
  then show ?case using Cons.prems[of w v] by auto
qed simp

lemma extremes_taken:
  assumes "xs \<noteq> []"
  shows "CalculateMin xs \<in> set xs" "CalculateMax xs \<in> set xs"
proof -
  obtain v vs where xs: "xs = v # vs" using assms by (cases xs) auto
  have "fold min vs v \<in> insert v (set vs)" "fold max vs v \<in> insert v (set vs)"
    by (rule fold_pick; simp add: min_def max_def)+
  then show "CalculateMin xs \<in> set xs" "CalculateMax xs \<in> set xs"
    by (simp_all add: xs CalculateMin_def CalculateMax_def)
qed

lemma fold_sum: "fold (\<lambda>v s. s + f v) xs (a :: real) = a + sum_list (map f xs)"
  by (induction xs arbitrary: a) simp_all

lemma mean_is: "CalculateMean xs = sum_list xs / real (length xs)"
  using fold_sum[of "\<lambda>v. v" xs 0] by (simp add: CalculateMean_def)

lemma squared_diffs_is: "squared_diffs xs = (\<Sum>v \<leftarrow> xs. (v - CalculateMean xs)\<^sup>2)"
  using fold_sum[of "\<lambda>v. (v - CalculateMean xs)\<^sup>2" xs 0] by (simp add: squared_diffs_def
      Let_def power2_eq_square)

lemma sum_bounds:
  "(\<And>x. x \<in> set xs \<Longrightarrow> a \<le> x) \<Longrightarrow> a * real (length xs) \<le>
      sum_list xs"
  "(\<And>x. x \<in> set xs \<Longrightarrow> x \<le> b) \<Longrightarrow> sum_list xs \<le> b * real (length
      xs)" for a b :: real
proof (induction xs)
  case (Cons y ys)
  {
    case 1
    have "a \<le> y" "a * real (length ys) \<le> sum_list ys" using Cons.IH(1) 1 by auto
    then show ?case by (simp add: algebra_simps)
  next
    case 2
    have "y \<le> b" "sum_list ys \<le> b * real (length ys)" using Cons.IH(2) 2 by auto
    then show ?case by (simp add: algebra_simps)
  }
qed simp_all

text \<open>The mean lies between the extremes; the variance is the mean of the squares less the square of
  the mean, and the square of the deviation.\<close>

theorem mean_and_variance:
  assumes "xs \<noteq> []"
  shows "CalculateMin xs \<le> CalculateMean xs \<and> CalculateMean xs \<le> CalculateMax xs
    \<and> CalculateVariance xs = CalculateMean (map (\<lambda>v. v\<^sup>2) xs) - (CalculateMean xs)\<^sup>2
    \<and> (CalculateStdDev xs)\<^sup>2 = CalculateVariance xs"
proof -
  let ?n = "real (length xs)" and ?m = "CalculateMean xs"
  have n: "0 < ?n" using assms by simp
  have "CalculateMin xs * ?n \<le> sum_list xs" "sum_list xs \<le> CalculateMax xs * ?n"
    using sum_bounds extremes_bound by blast+
  then have "CalculateMin xs \<le> ?m" "?m \<le> CalculateMax xs"
    using n by (simp_all add: mean_is pos_le_divide_eq pos_divide_le_eq)
  moreover have "(\<Sum>v \<leftarrow> ys. (v - a)\<^sup>2) = (\<Sum>v \<leftarrow> ys. v\<^sup>2) - 2 * a *
      sum_list ys + a\<^sup>2 * real (length ys)"
    for ys and a :: real by (induction ys) (simp_all add: algebra_simps power2_eq_square)
  then have "squared_diffs xs = (\<Sum>v \<leftarrow> xs. v\<^sup>2) - 2 * ?m * sum_list xs + ?m\<^sup>2 * ?n"
    by (simp add: squared_diffs_is)
  moreover have "sum_list xs = ?m * ?n" using n by (simp add: mean_is)
  ultimately have "squared_diffs xs = (\<Sum>v \<leftarrow> xs. v\<^sup>2) - ?m\<^sup>2 * ?n" "CalculateMin
      xs \<le> ?m" "?m \<le> CalculateMax xs"
    by (simp_all add: algebra_simps power2_eq_square)
  moreover have "0 \<le> squared_diffs xs" unfolding squared_diffs_is by (rule sum_list_nonneg) auto
  ultimately have m: "CalculateMin xs \<le> ?m" "?m \<le> CalculateMax xs" and pos: "0 \<le> squared_diffs xs"
    and sq: "squared_diffs xs = (\<Sum>v \<leftarrow> xs. v\<^sup>2) - ?m\<^sup>2 * ?n" by - assumption+
  have "squared_diffs xs / ?n = CalculateMean (map (\<lambda>v. v\<^sup>2) xs) - ?m\<^sup>2"
    using n by (simp add: sq mean_is[of "map _ _"] diff_divide_distrib)
  moreover note m divide_nonneg_pos[OF pos n]
  moreover have "CalculateVariance xs = squared_diffs xs / ?n" "CalculateStdDev xs = sqrt (squared_diffs xs /
      ?n)"
    using assms by (simp_all add: CalculateVariance_def CalculateStdDev_def)
  ultimately show ?thesis by (simp only: real_sqrt_pow2 simp_thms)
qed

text \<open>A point on the line through the values of a list.\<close>

definition interpolate :: "real list \<Rightarrow> real \<Rightarrow> real" where
  "interpolate s x = s ! nat \<lfloor>x\<rfloor> + (x - real_of_int \<lfloor>x\<rfloor>) * (s ! nat
      \<lceil>x\<rceil> - s ! nat \<lfloor>x\<rfloor>)"

lemma interpolate_bounds:
  assumes "sorted s" "0 \<le> x" "x \<le> real (length s - 1)" "s \<noteq> []"
  shows "s ! nat \<lfloor>x\<rfloor> \<le> interpolate s x" "interpolate s x \<le> s ! nat \<lceil>x\<rceil>"
      "nat \<lceil>x\<rceil> < length s"
proof -
  let ?f = "s ! nat \<lfloor>x\<rfloor>" and ?c = "s ! nat \<lceil>x\<rceil>" and ?w = "x - real_of_int
      \<lfloor>x\<rfloor>"
  have "\<lceil>x\<rceil> \<le> int (length s - 1)" using assms(3) by (simp add: ceiling_le_iff)
  moreover have "0 \<le> \<lceil>x\<rceil>" "0 < length s" using assms(2,4) by simp_all
  ultimately show len: "nat \<lceil>x\<rceil> < length s" by linarith
  have "nat \<lfloor>x\<rfloor> \<le> nat \<lceil>x\<rceil>" by (rule nat_mono) linarith
  then have le: "?f \<le> ?c" using assms(1) len by (simp add: sorted_nth_mono)
  have w: "0 \<le> ?w" "?w \<le> 1" by linarith+
  then show "?f \<le> interpolate s x" using le by (simp add: interpolate_def)
  have "?w * (?c - ?f) \<le> 1 * (?c - ?f)" using w le by (intro mult_right_mono) simp_all
  then show "interpolate s x \<le> ?c" by (simp add: interpolate_def)
qed

lemma interpolate_mono:
  assumes "sorted s" "0 \<le> x" "x \<le> y" "y \<le> real (length s - 1)" "s \<noteq> []"
  shows "interpolate s x \<le> interpolate s y"
proof -
  have x: "x \<le> real (length s - 1)" and y: "0 \<le> y" using assms by linarith+
  note bx = interpolate_bounds[OF assms(1,2) x assms(5)] and yb = interpolate_bounds[OF assms(1) y assms(4,5)]
  show ?thesis
  proof (cases "\<lfloor>x\<rfloor> = \<lfloor>y\<rfloor>")
    case True
    let ?f = "s ! nat \<lfloor>y\<rfloor>" and ?c = "s ! nat \<lceil>y\<rceil>"
    show ?thesis
    proof (cases "\<lceil>x\<rceil> = \<lceil>y\<rceil>")
      case same: True
      have "?f \<le> ?c" using yb(1,2) by linarith
      then have "(x - real_of_int \<lfloor>y\<rfloor>) * (?c - ?f) \<le> (y - real_of_int
          \<lfloor>y\<rfloor>) * (?c - ?f)"
        using assms(3) by (intro mult_right_mono) simp_all
      then show ?thesis by (simp add: interpolate_def True same)
    next
      case False
      have "x = real_of_int \<lfloor>x\<rfloor>"
      proof (rule ccontr)
        assume "x \<noteq> real_of_int \<lfloor>x\<rfloor>"
        moreover from this have "y \<noteq> real_of_int \<lfloor>y\<rfloor>" using True assms(3) by linarith
        ultimately show False using False True by (simp add: ceiling_altdef)
      qed
      then have "interpolate s x = ?f" using True by (simp add: interpolate_def)
      then show ?thesis using yb(1) by simp
    qed
  next
    case False
    then have "\<lceil>x\<rceil> \<le> \<lfloor>y\<rfloor>" using assms(3) by linarith
    then have "nat \<lceil>x\<rceil> \<le> nat \<lfloor>y\<rfloor>" by (rule nat_mono)
    moreover have "nat \<lfloor>y\<rfloor> \<le> nat \<lceil>y\<rceil>" by (rule nat_mono) linarith
    ultimately have "s ! nat \<lceil>x\<rceil> \<le> s ! nat \<lfloor>y\<rfloor>" using assms(1) yb(3) by
        (simp add: sorted_nth_mono)
    then show ?thesis using bx(2) yb(1) by linarith
  qed
qed

lemma percentile_interpolates:
  assumes "xs \<noteq> []" "0 < p" "p < 100"
  shows "CalculatePercentile xs p = interpolate (sort xs) (p / 100 * real (length xs - 1))"
proof -
  define x where "x = p / 100 * real (length xs - 1)"
  have x: "0 \<le> x" using assms by (simp add: x_def)
  then have r: "real (nat \<lfloor>x\<rfloor>) = real_of_int \<lfloor>x\<rfloor>" by simp
  show ?thesis using assms
    by (auto simp: CalculatePercentile_def Let_def interpolate_def r algebra_simps simp flip: x_def)
qed


lemma sort_example: "sort [4, 1, 3, 2, (5 :: real)] = [1, 2, 3, 4, 5]"
  by simp


text \<open>At 0 and 100 the order matters: they are the first and the last value, not the extremes.\<close>

lemma percentile_ends_unsorted:
  "CalculatePercentile [3, 1, 2] 0 = 3 \<and> CalculatePercentile [3, 1, 2] 50 = 2 \<and> CalculatePercentile
      [3, 1, 2] 100 = 2"
  by (simp add: CalculatePercentile_def Let_def)

end
