(* ===== verification/BenchRuns.thy ===== *)
theory BenchRuns
  imports BenchStats
begin

text \<open>
  What the benchmarks report (benchmark/src/benchmark_qps.cpp, benchmark_latency.cpp,
  benchmark_step_stress.cpp, benchmark_concurrent.cpp, benchmark_memory.cpp): how load is divided, when
  a series of batches stops, and the metrics made of the counts and the latencies. The threads, the
  clock and the sockets are outside: their counts are arguments. \<open>to_string\<close> of a
      \<open>double\<close> is a
  parameter.
\<close>

subsection \<open>Requests per second\<close>

text \<open>The results of a run: how long it took, and what its workers counted.\<close>

record run_counts =
  rc_duration :: real
  rc_total :: nat
  rc_success :: nat
  rc_failed :: nat
  rc_bytes :: nat
  rc_latencies :: "real list"

definition ratio :: "real \<Rightarrow> real \<Rightarrow> real" where
  "ratio a b = (if b > 0 then a / b else 0)"

definition qps_metrics :: "run_counts \<Rightarrow> int \<Rightarrow> metric list" where
  "qps_metrics c concurrent_connections =
     (let qps = ratio (real (rc_success c)) (rc_duration c);
          throughput_mbps = ratio (real (rc_bytes c) * 8 / (1024 * 1024)) (rc_duration c);
          error_rate = ratio (real (rc_failed c)) (real (rc_total c));
          latencies = sort (rc_latencies c);
          stat = (\<lambda>f. if latencies = [] then 0 else f latencies)
      in [metric_of ''qps'' qps ''requests/second'' ((utf8 [0x6BCF, 0x79D2, 0x67E5, 0x8BE2, 0x6570])),
          metric_of ''throughput_mbps'' throughput_mbps ''Mbps'' ((utf8 [0x7F51, 0x7EDC, 0x541E, 0x5410,
              0x91CF])),
          metric_of ''total_requests'' (real (rc_total c)) ''requests'' ((utf8 [0x603B, 0x8BF7, 0x6C42,
              0x6570])),
          metric_of ''successful_requests'' (real (rc_success c)) ''requests'' ((utf8 [0x6210, 0x529F,
              0x8BF7, 0x6C42, 0x6570])),
          metric_of ''failed_requests'' (real (rc_failed c)) ''requests'' ((utf8 [0x5931, 0x8D25, 0x8BF7,
              0x6C42, 0x6570])),
          metric_of ''error_rate'' (error_rate * 100) ''%'' ((utf8 [0x9519, 0x8BEF, 0x7387])),
          metric_of ''avg_latency'' (stat CalculateMean) ''ms'' ((utf8 [0x5E73, 0x5747, 0x5EF6, 0x8FDF])),
          metric_of ''p50_latency'' (stat (\<lambda>l. CalculatePercentile l 50)) ''ms'' ((''50%'' @ (utf8
              [0x5206, 0x4F4D, 0x5EF6, 0x8FDF]))),
          metric_of ''p90_latency'' (stat (\<lambda>l. CalculatePercentile l 90)) ''ms'' ((''90%'' @ (utf8
              [0x5206, 0x4F4D, 0x5EF6, 0x8FDF]))),
          metric_of ''p95_latency'' (stat (\<lambda>l. CalculatePercentile l 95)) ''ms'' ((''95%'' @ (utf8
              [0x5206, 0x4F4D, 0x5EF6, 0x8FDF]))),
          metric_of ''p99_latency'' (stat (\<lambda>l. CalculatePercentile l 99)) ''ms'' ((''99%'' @ (utf8
              [0x5206, 0x4F4D, 0x5EF6, 0x8FDF]))),
          metric_of ''p999_latency'' (stat (\<lambda>l. CalculatePercentile l (999 / 10))) ''ms'' ((''99.9%''
              @ (utf8 [0x5206, 0x4F4D, 0x5EF6, 0x8FDF]))),
          metric_of ''min_latency'' (stat CalculateMin) ''ms'' ((utf8 [0x6700, 0x5C0F, 0x5EF6, 0x8FDF])),
          metric_of ''max_latency'' (stat CalculateMax) ''ms'' ((utf8 [0x6700, 0x5927, 0x5EF6, 0x8FDF])),
          metric_of ''stddev_latency'' (stat CalculateStdDev) ''ms'' ((utf8 [0x5EF6, 0x8FDF, 0x6807, 0x51C6,
              0x5DEE])),
          metric_of ''concurrent_connections'' (of_int concurrent_connections) ''connections'' ((utf8
              [0x5E76, 0x53D1, 0x8FDE, 0x63A5, 0x6570]))])"

subsection \<open>The distribution of latencies\<close>

definition bucket_of :: "real \<Rightarrow> real \<Rightarrow> real \<Rightarrow> nat" where
  "bucket_of min_latency bucket_size latency =
     (let bucket = nat \<lfloor>(latency - min_latency) / bucket_size\<rfloor> in if bucket \<ge> 10 then 9
         else bucket)"

definition count_buckets :: "real \<Rightarrow> real \<Rightarrow> real list \<Rightarrow> nat list" where
  "count_buckets min_latency bucket_size latencies =
     fold (\<lambda>latency h. let b = bucket_of min_latency bucket_size latency in h[b := h ! b + 1]) latencies
       (replicate 10 0)"

definition histogram_metrics :: "(real \<Rightarrow> string) \<Rightarrow> real list \<Rightarrow> metric
    list" where
  "histogram_metrics to_string latencies =
     (let lo = CalculateMin latencies; bucket_size = (CalculateMax latencies - lo) / 10
      in if length latencies \<ge> 10 \<and> bucket_size > 0
         then let histogram = count_buckets lo bucket_size latencies
              in map (\<lambda>i. metric_of (''latency_bucket_'' @ dec i)
                        (real (histogram ! i) / real (length latencies) * 100) ''%''
                        (((utf8 [0x5EF6, 0x8FDF, 0x5728]) @ ''['') @ to_string (lo + real i * bucket_size) @
                            ''-''
                          @ to_string (lo + real (i + 1) * bucket_size) @ ('']ms'' @ (utf8 [0x7684, 0x6BD4,
                              0x4F8B])))) [0..<10]
         else [])"

definition percentile_name :: "real \<Rightarrow> string" where
  "percentile_name percentile =
     (if percentile = 9999 / 100 then ''p9999'' else if percentile = 999 / 10 then ''p999''
      else ''p'' @ dec (nat \<lfloor>percentile\<rfloor>))"

definition latency_metrics :: "(real \<Rightarrow> string) \<Rightarrow> run_counts \<Rightarrow> metric list
    option" where
  "latency_metrics to_string c =
     (if rc_latencies c = [] then None
      else let all_latencies = sort (rc_latencies c);
               qps = ratio (real (rc_success c)) (rc_duration c);
               error_rate = ratio (real (rc_failed c)) (real (rc_total c))
           in Some ([metric_of ''qps'' qps ''requests/second'' ((utf8 [0x6BCF, 0x79D2, 0x67E5, 0x8BE2,
               0x6570])),
                metric_of ''total_requests'' (real (rc_total c)) ''requests'' ((utf8 [0x603B, 0x8BF7, 0x6C42,
                    0x6570])),
                metric_of ''successful_requests'' (real (rc_success c)) ''requests'' ((utf8 [0x6210, 0x529F,
                    0x8BF7, 0x6C42, 0x6570])),
                metric_of ''failed_requests'' (real (rc_failed c)) ''requests'' ((utf8 [0x5931, 0x8D25,
                    0x8BF7, 0x6C42, 0x6570])),
                metric_of ''error_rate'' (error_rate * 100) ''%'' ((utf8 [0x9519, 0x8BEF, 0x7387])),
                metric_of ''min_latency'' (CalculateMin all_latencies) ''ms'' ((utf8 [0x6700, 0x5C0F, 0x5EF6,
                    0x8FDF])),
                metric_of ''max_latency'' (CalculateMax all_latencies) ''ms'' ((utf8 [0x6700, 0x5927, 0x5EF6,
                    0x8FDF])),
                metric_of ''mean_latency'' (CalculateMean all_latencies) ''ms'' ((utf8 [0x5E73, 0x5747,
                    0x5EF6, 0x8FDF])),
                metric_of ''median_latency'' (CalculateMedian all_latencies) ''ms'' ((utf8 [0x4E2D, 0x4F4D,
                    0x6570, 0x5EF6, 0x8FDF])),
                metric_of ''stddev_latency'' (CalculateStdDev all_latencies) ''ms'' ((utf8 [0x5EF6, 0x8FDF,
                    0x6807, 0x51C6, 0x5DEE]))]
             @ map (\<lambda>p. metric_of (percentile_name p @ ''_latency'') (CalculatePercentile
                 all_latencies p) ''ms''
                           (dec (nat \<lfloor>p\<rfloor>) @ (''%'' @ (utf8 [0x5206, 0x4F4D, 0x5EF6, 0x8FDF]))))
                 [50, 75, 90, 95, 99, 999 / 10, 9999 / 100]
             @ histogram_metrics to_string all_latencies))"

lemma count_buckets_sum:
  "length h = 10 \<Longrightarrow>
   length (fold (\<lambda>l h. let b = bucket_of lo width l in h[b := h ! b + 1]) ls h) = 10 \<and>
   sum_list (fold (\<lambda>l h. let b = bucket_of lo width l in h[b := h ! b + 1]) ls h) = sum_list h +
       length ls"
proof (induction ls arbitrary: h)
  case (Cons l ls)
  define b where "b = bucket_of lo width l"
  have "b < length h" using Cons.prems by (simp add: b_def bucket_of_def Let_def)
  then have "sum_list (h[b := h ! b + 1]) = sum_list h + 1"
    by (simp add: sum_list_update elem_le_sum_list)
  moreover have "length (h[b := h ! b + 1]) = 10" using Cons.prems by simp
  ultimately show ?case using Cons.IH[of "h[b := h ! b + 1]"] by (simp add: Let_def b_def)
qed simp

text \<open>The percentages of the buckets add up to 100.\<close>

theorem histogram_is_complete:
  assumes "histogram_metrics to_string ls \<noteq> []"
  shows "length (histogram_metrics to_string ls) = 10
    \<and> (\<Sum>m \<leftarrow> histogram_metrics to_string ls. mt_value m) = 100"
proof -
  define lo width where "lo = CalculateMin ls" and "width = (CalculateMax ls - CalculateMin ls) / 10"
  define h where "h = count_buckets lo width ls"
  have n: "length ls \<ge> 10" "width > 0"
    using assms by (auto simp: histogram_metrics_def Let_def width_def split: if_splits)
  have h: "length h = 10" "sum_list h = length ls"
    using count_buckets_sum[of "replicate 10 0" lo width ls] by (simp_all add: h_def count_buckets_def)
  have "map mt_value (histogram_metrics to_string ls) = map (\<lambda>i. real (h ! i) / real (length ls) *
      100) [0..<10]"
    using n by (simp add: histogram_metrics_def Let_def h_def lo_def width_def o_def)
  also have "[0..<10] = [0..<length h]" by (simp only: h)
  also have "map (\<lambda>i. real (h ! i) / real (length ls) * 100) [0..<length h] = map (\<lambda>k. real k
      / real (length ls) * 100) h"
    by (rule nth_equalityI) simp_all
  finally have m: "map mt_value (histogram_metrics to_string ls) = map (\<lambda>k. real k / real (length ls)
      * 100) h" .
  have "(\<Sum>k \<leftarrow> g. real k / a * 100) = real (sum_list g) / a * 100" for g and a :: real
    by (induction g) (simp_all add: add_divide_distrib algebra_simps)
  moreover have "ls \<noteq> []" using n(1) by auto
  ultimately show ?thesis using m h n by (simp flip: map_map length_map[of mt_value] add: m)
qed

subsection \<open>Stages of rising load\<close>

definition stoi :: "string \<Rightarrow> int option" where
  "stoi s = (case stoll s of Some v \<Rightarrow> if - (2 ^ 31) \<le> v \<and> v < 2 ^ 31 then Some v else
      None | None \<Rightarrow> None)"

text \<open>The first parameter of a name; the stages, and how long each takes.\<close>

definition custom_param :: "string \<Rightarrow> (string \<times> string) list \<Rightarrow> string option"
    where
  "custom_param k ps = map_option snd (List.find (\<lambda>p. fst p = k) ps)"

definition step_stages :: "(string \<times> string) list \<Rightarrow> int list" where
  "step_stages custom_params =
     (let stage_config = (case custom_param ''stages'' custom_params of
                            Some v \<Rightarrow> v | None \<Rightarrow> ''10,50,100,200,500'');
          stages = List.map_filter stoi (getlines (CHR '','') stage_config)
      in if stages = [] then [10, 50, 100, 200, 500] else stages)"

definition step_duration :: "(string \<times> string) list \<Rightarrow> int" where
  "step_duration custom_params =
     (case custom_param ''stage_duration'' custom_params of
        Some v \<Rightarrow> (case stoi v of Some d \<Rightarrow> d | None \<Rightarrow> 10)
      | None \<Rightarrow> 10)"

text \<open>How many connections each thread of a stage opens; \<open>None\<close> for a division by
    zero.\<close>

definition thread_shares :: "int \<Rightarrow> int list option" where
  "thread_shares concurrent_connections =
     (let threads_count = min concurrent_connections 50
      in if threads_count = 0 then None
         else if threads_count < 0 then Some []
         else let connections_per_thread = concurrent_connections div threads_count;
                  remaining_connections = concurrent_connections mod threads_count
              in Some (map (\<lambda>i. connections_per_thread + (if i = 0 then remaining_connections else 0))
                     [0..<nat threads_count]))"

definition stage_metrics :: "run_counts \<Rightarrow> metric list" where
  "stage_metrics c =
     (if rc_duration c > 0
      then let qps = real (rc_total c) / rc_duration c;
               error_rate = (if rc_total c > 0 then real (rc_failed c) * 100 / real (rc_total c) else 0);
               latencies = sort (rc_latencies c);
               p99_index = nat \<lfloor>real (length latencies) * (99 / 100)\<rfloor>;
               p99_index = (if p99_index \<ge> length latencies then length latencies - 1 else p99_index);
               avg_latency = (if latencies = [] then 0 else sum_list latencies / real (length latencies));
               p99_latency = (if latencies = [] then 0 else latencies ! p99_index)
           in [metric_of ''qps'' qps ''requests/second'' ((utf8 [0x6BCF, 0x79D2, 0x67E5, 0x8BE2, 0x6570])),
               metric_of ''total_requests'' (real (rc_total c)) ''requests'' ((utf8 [0x603B, 0x8BF7, 0x6C42,
                   0x6570])),
               metric_of ''failed_requests'' (real (rc_failed c)) ''requests'' ((utf8 [0x5931, 0x8D25,
                   0x8BF7, 0x6C42, 0x6570])),
               metric_of ''error_rate'' error_rate ''%'' ((utf8 [0x9519, 0x8BEF, 0x7387])),
               metric_of ''avg_latency'' avg_latency ''ms'' ((utf8 [0x5E73, 0x5747, 0x5EF6, 0x8FDF])),
               metric_of ''p99_latency'' p99_latency ''ms'' ((''P99'' @ (utf8 [0x5EF6, 0x8FDF]))),
               metric_of ''duration'' (rc_duration c) ''seconds'' ((utf8 [0x6D4B, 0x8BD5, 0x6301, 0x7EED,
                   0x65F6, 0x95F4]))]
      else [])"

definition stage_prefix :: "nat \<Rightarrow> string" where
  "stage_prefix stage_num = ''stage_'' @ dec stage_num @ ''_''"

fun stages_metrics :: "nat \<Rightarrow> (int \<times> run_counts) list \<Rightarrow> metric list" where
  "stages_metrics stage_num [] = []"
| "stages_metrics stage_num ((concurrent_connections, c) # rest) =
     map (\<lambda>m. m\<lparr>mt_name := stage_prefix stage_num @ mt_name m\<rparr>) (stage_metrics c)
     @ metric_of (stage_prefix stage_num @ ''concurrent'') (of_int concurrent_connections) ''connections''
         ((utf8 [0x9636, 0x6BB5]) @ dec stage_num @ (utf8 [0x5E76, 0x53D1, 0x8FDE, 0x63A5, 0x6570]))
     # stages_metrics (Suc stage_num) rest"

definition FindMetric :: "metric list \<Rightarrow> string \<Rightarrow> metric" where
  "FindMetric metrics name =
     (case List.find (\<lambda>m. mt_name m = name) metrics of Some m \<Rightarrow> m | None \<Rightarrow>
         metric_of name 0 [] [])"

definition stage_qps :: "nat \<Rightarrow> metric list \<Rightarrow> real list" where
  "stage_qps stages metrics =
     map mt_value (List.map_filter (\<lambda>i. List.find (\<lambda>m. mt_name m = stage_prefix (i + 1) @
         ''qps'') metrics)
       [0..<stages])"

text \<open>The mean of the relative changes from one stage to the next; \<open>None\<close> where one of
    them is a quotient
  by zero.\<close>

fun qps_changes :: "real list \<Rightarrow> real option" where
  "qps_changes (a # b # rest) =
     (if a = 0 then None else map_option ((+) (\<bar>b - a\<bar> / a)) (qps_changes (b # rest)))"
| "qps_changes qs = Some 0"

definition CalculateOverallMetrics :: "metric list \<Rightarrow> nat \<Rightarrow> metric list option" where
  "CalculateOverallMetrics metrics stages =
     (let qs = stage_qps stages metrics; max_qps = CalculateMax qs; min_qps = CalculateMin qs;
          ends = metric_of ''num_stages'' (real stages) ''stages'' ((utf8 [0x6D4B, 0x8BD5, 0x9636, 0x6BB5,
              0x6570, 0x91CF]))
      in if stages = 0 \<or> qs = [] then Some metrics
         else map_option (\<lambda>change. metrics
                @ [metric_of ''max_qps'' max_qps ''requests/second'' (((utf8 [0x6700, 0x5927]) @ ''QPS'')),
                   metric_of ''min_qps'' min_qps ''requests/second'' (((utf8 [0x6700, 0x5C0F]) @ ''QPS'')),
                   metric_of ''qps_range'' (max_qps - min_qps) ''requests/second'' ((''QPS'' @ (utf8 [0x8303,
                       0x56F4])))]
                @ change @ [ends])
              (if length qs > 1
               then map_option (\<lambda>total. [metric_of ''avg_qps_change'' (total / real (length qs - 1) *
                   100) ''%''
                                          (((utf8 [0x5E73, 0x5747]) @ ''QPS'' @ (utf8 [0x53D8, 0x5316,
                                              0x7387])))]) (qps_changes qs)
               else Some []))"

text \<open>The threads of a stage open, together, the connections it is asked for, each at least one.\<close>

lemma thread_shares_complete:
  assumes "0 < k"
  shows "\<exists>shares. thread_shares k = Some shares \<and> sum_list shares = k \<and> (\<forall>s \<in>
      set shares. 1 \<le> s)
    \<and> length shares = nat (min k 50)"
proof -
  define t where "t = min k 50"
  have t: "0 < t" "t \<le> k" using assms by (simp_all add: t_def)
  let ?f = "\<lambda>i. k div t + (if i = 0 then k mod t else 0)"
  have sum: "sum_list (map ?f [0..<n]) = int n * (k div t) + (if n = 0 then 0 else k mod t)" for n
    by (induction n) (simp_all add: algebra_simps)
  have "1 \<le> k div t" using t by (simp add: pos_imp_zdiv_pos_iff int_one_le_iff_zero_less)
  then have "\<forall>s \<in> set (map ?f [0..<nat t]). 1 \<le> s" using t by (auto intro: add_increasing2)
  moreover have "sum_list (map ?f [0..<nat t]) = k" using sum[of "nat t"] t by simp
  ultimately show ?thesis using t by (simp add: thread_shares_def Let_def flip: t_def)
qed

text \<open>A stage of no connections, which can be asked for, divides by zero.\<close>

lemma empty_stage_divides_by_zero:
  "step_stages [(''stages'', ''0,10'')] = [0, 10] \<and> thread_shares 0 = None"
  by code_simp

subsection \<open>Concurrent connections\<close>

text \<open>One attempt to connect; a connection in progress is waited for, and its error is asked for.\<close>

datatype attempt = Socket_failed | Connected | In_progress bool bool | Connect_failed

fun attempt_ok :: "attempt \<Rightarrow> bool" where
  "attempt_ok Connected = True"
| "attempt_ok (In_progress writable no_error) = (writable \<and> no_error)"
| "attempt_ok a = False"

text \<open>Batches of attempts, until one has less than nine successes in ten or 10000 connections are reached:
  the numbers of successes and failures.\<close>

function connect_batches :: "(int \<Rightarrow> attempt list) \<Rightarrow> int \<Rightarrow> nat \<times>
    nat \<Rightarrow> nat \<times> nat" where
  "connect_batches attempts current_target (ok, failed) =
     (if current_target \<le> 10000
      then let as = attempts current_target;
               batch_success = length (filter attempt_ok as);
               batch_fail = length (filter (\<lambda>a. \<not> attempt_ok a) as);
               totals = (ok + batch_success, failed + batch_fail);
               batch_success_rate = ratio (real batch_success) (real (batch_success + batch_fail))
           in if batch_success_rate < 9 / 10 then totals
              else connect_batches attempts (current_target + 100) totals
      else (ok, failed))"
  by pat_completeness auto
termination
  by (relation "measure (\<lambda>(a, t, c). nat (10100 - t))") auto

declare connect_batches.simps [simp del]

definition max_connections_metrics :: "real \<Rightarrow> nat \<times> nat \<Rightarrow> metric list" where
  "max_connections_metrics test_duration counts =
     (case counts of (ok, failed) \<Rightarrow>
        let total_attempts = ok + failed;
            success_rate = ratio (real ok) (real total_attempts);
            level = (if ok \<ge> 5000 then ''excellent'' else if ok \<ge> 1000 then ''good''
                     else if ok \<ge> 500 then ''moderate'' else ''low'')
        in [metric_of ''max_successful_connections'' (real ok) ''connections'' ((utf8 [0x6700, 0x5927,
            0x6210, 0x529F, 0x5E76, 0x53D1, 0x8FDE, 0x63A5, 0x6570])),
            metric_of ''max_connection_success_rate'' (success_rate * 100) ''%'' ((utf8 [0x6700, 0x5927,
                0x8FDE, 0x63A5, 0x6D4B, 0x8BD5, 0x6210, 0x529F, 0x7387])),
            metric_of ''connection_attempt_rate'' (ratio (real total_attempts) test_duration)
              ''connections/second'' ((utf8 [0x8FDE, 0x63A5, 0x5C1D, 0x8BD5, 0x901F, 0x7387])),
            metric_of ''total_connection_attempts'' (real total_attempts) ''attempts'' ((utf8 [0x603B,
                0x8FDE, 0x63A5, 0x5C1D, 0x8BD5, 0x6570])),
            metric_of ''connection_capacity_level'' 0 ''category'' (((utf8 [0x8FDE, 0x63A5, 0x5BB9, 0x91CF,
                0x7B49, 0x7EA7]) @ '' ('') @ level @ '')'')])"

definition connection_rate_metrics :: "real \<Rightarrow> nat \<Rightarrow> nat \<Rightarrow> metric list" where
  "connection_rate_metrics test_duration total_connections successful_connections =
     [metric_of ''connection_rate_total'' (ratio (real total_connections) test_duration) ''connections/second''
        ((utf8 [0x603B, 0x8FDE, 0x63A5, 0x5C1D, 0x8BD5, 0x901F, 0x7387])),
      metric_of ''connection_rate_successful'' (ratio (real successful_connections) test_duration)
        ''connections/second'' ((utf8 [0x6210, 0x529F, 0x8FDE, 0x63A5, 0x5EFA, 0x7ACB, 0x901F, 0x7387])),
      metric_of ''connection_rate_success_rate''
        (ratio (real successful_connections) (real total_connections) * 100) ''%'' ((utf8 [0x8FDE, 0x63A5,
            0x5EFA, 0x7ACB, 0x6210, 0x529F, 0x7387])),
      metric_of ''total_connection_attempts_during_test'' (real total_connections) ''attempts''
        ((utf8 [0x6D4B, 0x8BD5, 0x671F, 0x95F4, 0x603B, 0x8FDE, 0x63A5, 0x5C1D, 0x8BD5, 0x6570]))]"

definition stability_metrics :: "int \<Rightarrow> int \<Rightarrow> int \<Rightarrow> int list \<Rightarrow>
    metric list" where
  "stability_metrics initial_active final_active total_lost active_history =
     (let lost_percentage = (if initial_active > 0 then of_int total_lost / of_int initial_active * 100 else 0);
          avg_active = (if active_history = [] then 0
                        else of_int (sum_list active_history) / real (length active_history));
          stability_score = 100 - min (lost_percentage * 2) 100
      in [metric_of ''initial_active_connections'' (of_int initial_active) ''connections'' ((utf8 [0x521D,
          0x59CB, 0x6D3B, 0x52A8, 0x8FDE, 0x63A5, 0x6570])),
          metric_of ''final_active_connections'' (of_int final_active) ''connections'' ((utf8 [0x6700,
              0x7EC8, 0x6D3B, 0x52A8, 0x8FDE, 0x63A5, 0x6570])),
          metric_of ''lost_connections'' (of_int total_lost) ''connections'' ((utf8 [0x4E22, 0x5931, 0x7684,
              0x8FDE, 0x63A5, 0x6570])),
          metric_of ''connection_loss_rate'' lost_percentage ''%'' ((utf8 [0x8FDE, 0x63A5, 0x4E22, 0x5931,
              0x7387])),
          metric_of ''average_active_connections'' avg_active ''connections'' ((utf8 [0x5E73, 0x5747, 0x6D3B,
              0x52A8, 0x8FDE, 0x63A5, 0x6570])),
          metric_of ''connection_stability_score'' stability_score ''points'' (((utf8 [0x8FDE, 0x63A5,
              0x7A33, 0x5B9A, 0x6027, 0x8BC4, 0x5206, 0xFF08]) @ ''0-100'' @ (utf8 [0xFF09])))])"

fun score_metric :: "metric \<Rightarrow> real \<times> real \<times> real \<Rightarrow> real \<times> real
    \<times> real" where
  "score_metric m (max_connections_score, connection_rate_score, stability_score) =
     (let v = mt_value m
      in if mt_name m = ''max_successful_connections''
         then (if v \<ge> 5000 then 100 else if v \<ge> 1000 then 80 else if v \<ge> 500 then 60
               else if v \<ge> 100 then 40 else 20, connection_rate_score, stability_score)
         else if mt_name m = ''connection_rate_successful''
         then (max_connections_score,
               if v \<ge> 500 then 100 else if v \<ge> 200 then 80 else if v \<ge> 100 then 60
               else if v \<ge> 50 then 40 else 20, stability_score)
         else if mt_name m = ''connection_stability_score''
         then (max_connections_score, connection_rate_score, v)
         else (max_connections_score, connection_rate_score, stability_score))"

definition CalculateOverallScore :: "metric list \<Rightarrow> real" where
  "CalculateOverallScore metrics =
     (case fold score_metric metrics (0, 0, 0) of
        (max_connections_score, connection_rate_score, stability_score) \<Rightarrow>
          max_connections_score * (4 / 10) + connection_rate_score * (3 / 10) + stability_score * (3 / 10))"

definition prefixed :: "string \<Rightarrow> string \<Rightarrow> metric list \<Rightarrow> metric list" where
  "prefixed name_prefix description_prefix ms =
     map (\<lambda>m. metric_of (name_prefix @ mt_name m) (mt_value m) (mt_unit m)
                (description_prefix @ mt_description m)) ms"

definition concurrent_metrics :: "metric list \<Rightarrow> metric list \<Rightarrow> metric list
    \<Rightarrow> metric list" where
  "concurrent_metrics max_connections connection_rate stability =
     (let metrics = prefixed ''max_'' (((utf8 [0x6700, 0x5927, 0x5E76, 0x53D1]) @ ''-'')) max_connections
            @ prefixed ''rate_'' (((utf8 [0x8FDE, 0x63A5, 0x901F, 0x7387]) @ ''-'')) connection_rate
            @ prefixed ''stability_'' (((utf8 [0x7A33, 0x5B9A, 0x6027]) @ ''-'')) stability
      in if length metrics \<ge> 3
         then metrics @ [metric_of ''overall_score'' (CalculateOverallScore metrics) ''points''
                           (((utf8 [0x5E76, 0x53D1, 0x80FD, 0x529B, 0x7EFC, 0x5408, 0x8BC4, 0x5206, 0xFF08])
                               @ ''0-100'' @ (utf8 [0xFF09])))]
         else metrics)"

definition concurrent_run ::
  "real \<Rightarrow> nat \<times> nat \<Rightarrow> real \<Rightarrow> nat \<Rightarrow> nat \<Rightarrow>
      int \<Rightarrow> int \<Rightarrow> int \<Rightarrow> int list \<Rightarrow> metric list" where
  "concurrent_run t counts u attempted done_ok initial final lost history =
     concurrent_metrics (max_connections_metrics t counts) (connection_rate_metrics u attempted done_ok)
       (stability_metrics initial final lost history)"

text \<open>Batches of 100 make at most 10000 attempts.\<close>

lemma batches_bounded:
  assumes "\<And>t. length (attempts t) = 100"
  shows "fst (connect_batches attempts t c) + snd (connect_batches attempts t c)
    \<le> fst c + snd c + 100 * nat ((10100 - t) div 100)"
  using assms
proof (induction attempts t c rule: connect_batches.induct)
  case (1 attempts t ok failed)
  define s f where "s = length (filter attempt_ok (attempts t))"
    and "f = length (filter (\<lambda>a. \<not> attempt_ok a) (attempts t))"
  have sf: "s + f = 100" using sum_length_filter_compl[of attempt_ok "attempts t"] 1(2)[of t] by (simp add:
      s_def f_def)
  show ?case
  proof (cases "t \<le> 10000")
    case True
    then have "(10100 - t) div 100 = 1 + (10100 - (t + 100)) div 100" "0 \<le> (10100 - (t + 100)) div 100"
      by simp_all
    then have n: "nat ((10100 - t) div 100) = Suc (nat ((10100 - (t + 100)) div 100))" by simp
    show ?thesis
    proof (cases "ratio (real s) (real (s + f)) < 9 / 10")
      case stop: True
      have "connect_batches attempts t (ok, failed) = (ok + s, failed + f)"
        using True stop by (subst connect_batches.simps) (simp add: Let_def flip: s_def f_def)
      then show ?thesis using sf n by simp
    next
      case False
      have "connect_batches attempts t (ok, failed) = connect_batches attempts (t + 100) (ok + s, failed + f)"
        using True False by (subst connect_batches.simps) (simp add: Let_def flip: s_def f_def)
      moreover note 1(1)[OF True refl s_def f_def refl refl False 1(2)]
      ultimately show ?thesis using sf n by simp
    qed
  next
    case False
    then show ?thesis by (subst (1 2) connect_batches.simps) simp
  qed
qed

lemma score_ignores:
  "(\<And>m. m \<in> set ms \<Longrightarrow> mt_name m \<notin> {''max_successful_connections'',
      ''connection_rate_successful'',
     ''connection_stability_score''}) \<Longrightarrow> fold score_metric ms acc = acc"
proof (induction ms arbitrary: acc)
  case (Cons m ms)
  obtain a b c where acc: "acc = (a, b, c)" by (cases acc)
  have "score_metric m acc = acc" using Cons.prems[of m] by (simp add: acc)
  then show ?case using Cons by simp
qed simp

lemmas concurrent_parts = max_connections_metrics_def connection_rate_metrics_def stability_metrics_def
    prefixed_def

text \<open>C37: The overall score is 0 whatever is measured: the metrics are renamed before they are scored, and
  the score looks for the names they had; so does the log line, which reports no connections. The metrics
  under the names they had score at least 14.\<close>
theorem overall_score_is_always_zero:
  "mt_value (FindMetric (concurrent_run t counts u attempted done_ok initial final lost history)
      ''overall_score'') = 0
    \<and> mt_value (FindMetric (concurrent_run t counts u attempted done_ok initial final lost history)
          ''max_successful_connections'') = 0
    \<and> length (concurrent_run t counts u attempted done_ok initial final lost history) = 16
    \<and> 14 \<le> CalculateOverallScore (max_connections_metrics t counts
          @ connection_rate_metrics u attempted done_ok @ stability_metrics initial final lost history)"
proof -
  obtain ok failed where counts: "counts = (ok, failed)" by (cases counts)
  let ?p = "prefixed ''max_'' (((utf8 [0x6700, 0x5927, 0x5E76, 0x53D1]) @ ''-'')) (max_connections_metrics t
      counts)
    @ prefixed ''rate_'' (((utf8 [0x8FDE, 0x63A5, 0x901F, 0x7387]) @ ''-'')) (connection_rate_metrics u
        attempted done_ok)
    @ prefixed ''stability_'' (((utf8 [0x7A33, 0x5B9A, 0x6027]) @ ''-'')) (stability_metrics initial final
        lost history)"
  have "fold score_metric ?p acc = acc" for acc
    by (rule score_ignores) (auto simp: counts concurrent_parts Let_def)
  then have "CalculateOverallScore ?p = 0" by (simp add: CalculateOverallScore_def)
  moreover have "length ?p = 15" by (simp add: counts concurrent_parts Let_def)
  ultimately have m: "concurrent_run t counts u attempted done_ok initial final lost history = ?p @
      [metric_of ''overall_score'' 0 ''points'' (((utf8 [0x5E76, 0x53D1, 0x80FD, 0x529B, 0x7EFC, 0x5408,
      0x8BC4, 0x5206, 0xFF08]) @ ''0-100'' @ (utf8 [0xFF09])))]"
    by (simp add: concurrent_run_def concurrent_metrics_def Let_def)
  let ?m = "concurrent_run t counts u attempted done_ok initial final lost history"
  have "mt_value (FindMetric ?m ''overall_score'') = 0" "length ?m = 16"
    "mt_value (FindMetric ?m ''max_successful_connections'') = 0"
    by (simp_all add: m[unfolded counts] FindMetric_def counts concurrent_parts Let_def)
  moreover have "14 \<le> CalculateOverallScore (max_connections_metrics t counts
      @ connection_rate_metrics u attempted done_ok @ stability_metrics initial final lost history)"
    by (simp add: counts CalculateOverallScore_def concurrent_parts Let_def)
  ultimately show ?thesis by blast
qed

subsection \<open>Memory\<close>

text \<open>One sample of the resources of the process; what no statement of the sources assigns is
    \<open>None\<close>.\<close>

record resource_metrics =
  rm_rss_kb :: "int option"
  rm_vm_size_kb :: "int option"
  rm_cpu_time_ms :: "int option"
  rm_context_switches :: "int option"
  rm_timestamp :: int

definition read_statm :: "(int \<times> int) option \<Rightarrow> int option \<Rightarrow> int \<Rightarrow>
    resource_metrics \<Rightarrow> resource_metrics" where
  "read_statm statm max_rss page_size m =
     (case statm of
        Some (size_pages, resident) \<Rightarrow>
          m\<lparr>rm_vm_size_kb := Some (size_pages * page_size div 1024), rm_rss_kb := Some (resident *
              page_size div 1024)\<rparr>
      | None \<Rightarrow> (case max_rss of Some r \<Rightarrow> m\<lparr>rm_rss_kb := Some r, rm_vm_size_kb
          := Some 0\<rparr> | None \<Rightarrow> m))"

definition read_cpu :: "(int \<times> int) option \<Rightarrow> int \<Rightarrow> resource_metrics
    \<Rightarrow> resource_metrics" where
  "read_cpu stat clock_ticks_per_second m =
     (case stat of
        Some (utime, stime) \<Rightarrow>
          if clock_ticks_per_second > 0
          then m\<lparr>rm_cpu_time_ms := Some ((utime + stime) * 1000 div clock_ticks_per_second)\<rparr>
              else m
      | None \<Rightarrow> m)"

text \<open>\<open>iss >> value\<close>, the suffix cut, and \<open>std::stol\<close>, whose exceptions are
    ignored.\<close>

definition status_number :: "string \<Rightarrow> int option" where
  "status_number text_after =
     (let token_text = (case next_word text_after of Some (w, r) \<Rightarrow> w | None \<Rightarrow> []);
          number_text = (case find_sub ''kB'' token_text of Some n \<Rightarrow> take n token_text | None
              \<Rightarrow> token_text)
      in stoll number_text)"

text \<open>\<open>iss >> voluntary\<close>, for numbers in range.\<close>

definition stream_number :: "string \<Rightarrow> int" where
  "stream_number text_after = (case stoll text_after of Some v \<Rightarrow> v | None \<Rightarrow> 0)"

text \<open>The lines of \<open>/proc/self/status\<close>; \<open>None\<close> for the exception of a line
    that ends with its name.\<close>

fun read_status :: "string list \<Rightarrow> resource_metrics \<Rightarrow> resource_metrics option" where
  "read_status [] m = Some m"
| "read_status (line # rest) m =
     (if find_sub ''voluntary_ctxt_switches:'' line = Some 0
      then if length line < 25 then None
           else let voluntary = stream_number (drop 25 line)
                in if find_sub ''nonvoluntary_ctxt_switches:'' line = Some 0
                   then (case rest of
                           [] \<Rightarrow> None
                         | line2 # rest2 \<Rightarrow>
                             if length line2 < 29 then None
                             else read_status rest2
                                    (m\<lparr>rm_context_switches := Some (voluntary + stream_number (drop 29
                                        line2))\<rparr>))
                   else read_status rest m
      else if find_sub ''VmPeak:'' line = Some 0
      then read_status rest (case status_number (drop 7 line) of Some v \<Rightarrow> m\<lparr>rm_vm_size_kb
          := Some v\<rparr> | None \<Rightarrow> m)
      else if find_sub ''VmRSS:'' line = Some 0
      then read_status rest (case status_number (drop 6 line) of Some v \<Rightarrow> m\<lparr>rm_rss_kb :=
          Some v\<rparr> | None \<Rightarrow> m)
      else read_status rest m)"

lemma find_sub_start: "find_sub p s = Some 0 \<longleftrightarrow> is_prefix p s"
proof (cases s)
  case Nil
  then show ?thesis by (cases p) simp_all
next
  case (Cons c cs)
  then show ?thesis by simp
qed

text \<open>No line starts with both names, so context switches are never counted.\<close>

lemma context_switches_never_read:
  "read_status ls m = Some m' \<Longrightarrow> rm_context_switches m' = rm_context_switches m"
proof (induction ls m rule: read_status.induct)
  case (2 line rest m)
  have no: "\<not> (is_prefix ''voluntary_ctxt_switches:'' line \<and> is_prefix
      ''nonvoluntary_ctxt_switches:'' line)"
    by (cases line) auto
  then show ?case using 2
    by (auto simp: find_sub_start Let_def split: if_splits option.splits)
qed simp

text \<open>The monitor: the largest resident size, and a series of samples that is cut at 10000.\<close>

record monitor =
  mo_peak_rss_kb :: int
  mo_time_series :: "(int \<times> int \<times> int) list"

definition monitor_sample :: "int \<times> int \<times> int \<Rightarrow> monitor \<Rightarrow> monitor" where
  "monitor_sample s mo =
     (case s of (rss_kb, cpu_time_ms, timestamp) \<Rightarrow>
        let time_series = mo_time_series mo @ [s]
        in \<lparr>mo_peak_rss_kb = (if rss_kb > mo_peak_rss_kb mo then rss_kb else mo_peak_rss_kb mo),
            mo_time_series = (if length time_series > 10000 then drop 5000 time_series else
                time_series)\<rparr>)"

definition new_monitor :: monitor where
  "new_monitor = \<lparr>mo_peak_rss_kb = 0, mo_time_series = []\<rparr>"

text \<open>\<open>timestamp\<close> counts nanoseconds; the difference is cut to milliseconds.\<close>

fun cpu_percents :: "(int \<times> int \<times> int) list \<Rightarrow> real list" where
  "cpu_percents ((rss, cpu, t) # (rss', cpu', t') # rest) =
     (let time_diff = (t' - t) div 1000000
      in if time_diff > 0 then [of_int (cpu' - cpu) / of_int time_diff * 100] else [])
     @ cpu_percents ((rss', cpu', t') # rest)"
| "cpu_percents ss = []"

definition GetAverageCpuUsage :: "monitor \<Rightarrow> real" where
  "GetAverageCpuUsage mo =
     (let ps = cpu_percents (mo_time_series mo) in if ps = [] then 0 else sum_list ps / real (length ps))"

text \<open>The series is the end of what was sampled, never longer than 10000 and, once that many were
  taken, never shorter than 5001; the peak is of all samples.\<close>

lemma monitor_keeps_the_latest:
  "\<exists>k. mo_time_series (fold monitor_sample ss new_monitor) = drop k ss
    \<and> length (mo_time_series (fold monitor_sample ss new_monitor)) \<le> 10000
    \<and> (10000 < length ss \<longrightarrow> 5001 \<le> length (mo_time_series (fold monitor_sample ss
        new_monitor)))
    \<and> (length ss \<le> 10000 \<longrightarrow> k = 0)
    \<and> mo_peak_rss_kb (fold monitor_sample ss new_monitor) = Max (insert 0 (fst ` set ss))"
proof (induction ss rule: rev_induct)
  case Nil
  then show ?case by (simp add: new_monitor_def)
next
  case (snoc s ss)
  let ?mo = "fold monitor_sample ss new_monitor"
  obtain k where k: "mo_time_series ?mo = drop k ss" "length (mo_time_series ?mo) \<le> 10000"
    "10000 < length ss \<longrightarrow> 5001 \<le> length (mo_time_series ?mo)" "length ss \<le> 10000
        \<longrightarrow> k = 0"
    "mo_peak_rss_kb ?mo = Max (insert 0 (fst ` set ss))" using snoc by blast
  obtain r c t where s: "s = (r, c, t)" by (cases s)
  have "k \<le> length ss"
  proof (rule ccontr)
    assume "\<not> k \<le> length ss"
    then have "mo_time_series ?mo = []" using k(1) by simp
    then show False using k(3,4) \<open>\<not> k \<le> length ss\<close> by (cases "length ss \<le> 10000") auto
  qed
  then have dr: "drop k ss @ [s] = drop k (ss @ [s])" "length (drop k ss) = length ss - k" by simp_all
  have peak: "Max (insert 0 (fst ` set (ss @ [s]))) = max r (Max (insert 0 (fst ` set ss)))"
  proof -
    have "insert 0 (fst ` set (ss @ [s])) = insert r (insert 0 (fst ` set ss))" by (auto simp: s)
    then show ?thesis by (simp only: Max_insert finite.intros finite_imageI finite_set insert_not_empty
        not_False_eq_True)
  qed
  have app: "mo_time_series (fold monitor_sample (ss @ [s]) new_monitor)
      = (if length (drop k ss @ [s]) > 10000 then drop 5000 (drop k ss @ [s]) else drop k ss @ [s])"
    by (simp add: monitor_sample_def s Let_def k(1))
  define j where "j = (if length (drop k ss @ [s]) > 10000 then k + 5000 else k)"
  have "mo_time_series (fold monitor_sample (ss @ [s]) new_monitor) = drop j (ss @ [s])"
  proof (cases "length (drop k ss @ [s]) > 10000")
    case True
    have "drop 5000 (drop k (ss @ [s])) = drop (k + 5000) (ss @ [s])" by (simp only: drop_drop add.commute)
    with True show ?thesis by (simp only: app j_def dr(1) if_True)
  next
    case False
    then show ?thesis by (simp only: app j_def dr(1) if_False)
  qed
  moreover have "mo_peak_rss_kb (fold monitor_sample (ss @ [s]) new_monitor) = max r (Max (insert 0 (fst `
      set ss)))"
    unfolding k(5)[symmetric] by (simp add: monitor_sample_def s Let_def max_def)
  moreover have "length (drop j (ss @ [s])) \<le> 10000" "10000 < length (ss @ [s]) \<longrightarrow> 5001
      \<le> length (drop j (ss @ [s]))"
    "length (ss @ [s]) \<le> 10000 \<longrightarrow> j = 0"
    using k(2,3,4) \<open>k \<le> length ss\<close> by (auto simp: j_def k(1))
  ultimately show ?case using peak by metis
qed

definition memory_metrics ::
  "int \<times> int \<Rightarrow> int \<times> int \<Rightarrow> int \<times> int \<Rightarrow> monitor
      \<Rightarrow> metric list \<Rightarrow> metric list" where
  "memory_metrics baseline loaded recovered load_monitor load_test =
     (case (baseline, loaded, recovered) of
        ((baseline_rss, baseline_vm), (load_rss, load_vm), (recovery_rss, recovery_vm)) \<Rightarrow>
        let percent = (\<lambda>d. if baseline_rss > 0 then d / of_int baseline_rss * 100 else 0);
            rss_growth_kb = real_of_int (load_rss - baseline_rss);
            rss_leak_kb = real_of_int (recovery_rss - baseline_rss)
        in [metric_of ''baseline_rss_kb'' (of_int baseline_rss) ''KB'' ((utf8 [0x57FA, 0x7EBF, 0x9A7B,
            0x7559, 0x5185, 0x5B58])),
            metric_of ''baseline_vm_size_kb'' (of_int baseline_vm) ''KB'' ((utf8 [0x57FA, 0x7EBF, 0x865A,
                0x62DF, 0x5185, 0x5B58])),
            metric_of ''load_rss_kb'' (of_int load_rss) ''KB'' ((utf8 [0x8D1F, 0x8F7D, 0x4E0B, 0x9A7B,
                0x7559, 0x5185, 0x5B58])),
            metric_of ''load_vm_size_kb'' (of_int load_vm) ''KB'' ((utf8 [0x8D1F, 0x8F7D, 0x4E0B, 0x865A,
                0x62DF, 0x5185, 0x5B58])),
            metric_of ''load_peak_rss_kb'' (of_int (mo_peak_rss_kb load_monitor)) ''KB'' ((utf8 [0x8D1F,
                0x8F7D, 0x4E0B, 0x5CF0, 0x503C, 0x9A7B, 0x7559, 0x5185, 0x5B58])),
            metric_of ''load_avg_cpu_usage'' (GetAverageCpuUsage load_monitor) ''%'' (((utf8 [0x8D1F, 0x8F7D,
                0x4E0B, 0x5E73, 0x5747]) @ ''CPU'' @ (utf8 [0x4F7F, 0x7528, 0x7387]))),
            metric_of ''recovery_rss_kb'' (of_int recovery_rss) ''KB'' ((utf8 [0x6062, 0x590D, 0x540E,
                0x9A7B, 0x7559, 0x5185, 0x5B58])),
            metric_of ''recovery_vm_size_kb'' (of_int recovery_vm) ''KB'' ((utf8 [0x6062, 0x590D, 0x540E,
                0x865A, 0x62DF, 0x5185, 0x5B58])),
            metric_of ''rss_growth_kb'' rss_growth_kb ''KB'' ((utf8 [0x5185, 0x5B58, 0x589E, 0x957F, 0x91CF])),
            metric_of ''rss_growth_percent'' (percent rss_growth_kb) ''%'' ((utf8 [0x5185, 0x5B58, 0x589E,
                0x957F, 0x7387])),
            metric_of ''potential_leak_kb'' rss_leak_kb ''KB'' ((utf8 [0x6F5C, 0x5728, 0x5185, 0x5B58,
                0x6CC4, 0x6F0F])),
            metric_of ''potential_leak_percent'' (percent rss_leak_kb) ''%'' ((utf8 [0x6F5C, 0x5728, 0x5185,
                0x5B58, 0x6CC4, 0x6F0F, 0x7387]))]
           @ map (\<lambda>m. metric_of (''load_'' @ mt_name m) (mt_value m) (mt_unit m) ((utf8 [0x8D1F,
               0x8F7D, 0x4E0B]) @ mt_description m))
               (filter (\<lambda>m. mt_name m = ''qps'' \<or> mt_name m = ''avg_latency'' \<or> mt_name m =
                   ''error_rate'') load_test))"

definition load_test_metrics :: "real \<Rightarrow> nat \<Rightarrow> nat \<Rightarrow> metric list" where
  "load_test_metrics test_duration total_requests successful_requests =
     [metric_of ''qps'' (ratio (real successful_requests) test_duration) ''requests/second'' ((utf8 [0x6BCF,
         0x79D2, 0x67E5, 0x8BE2, 0x6570])),
      metric_of ''total_requests'' (real total_requests) ''requests'' ((utf8 [0x603B, 0x8BF7, 0x6C42, 0x6570])),
      metric_of ''successful_requests'' (real successful_requests) ''requests'' ((utf8 [0x6210, 0x529F,
          0x8BF7, 0x6C42, 0x6570])),
      metric_of ''error_rate''
        (ratio (of_int (int total_requests - int successful_requests)) (real total_requests) * 100) ''%''
            ((utf8 [0x9519, 0x8BEF, 0x7387]))]"

end
