(* ===== verification/BenchFiles.thy ===== *)
theory BenchFiles
  imports BenchRuns "HOL-Library.List_Lexorder" "HOL-Library.Char_ord"
begin

text \<open>
  What the benchmarks read and write: their configuration and its check, results as JSON and as tables
  (benchmark/src/benchmark_base.cpp), and the comparison, the report and the command line of the runner
  (benchmark/src/benchmark_runner.cpp).

  The JSON library is vendored: a value is the data type below, an object a list of its members in the
  order of their keys, and a file that holds JSON is its value, \<open>None\<close> where parsing throws. How
      a stream
  prints a \<open>double\<close>, \<open>get_time\<close> and \<open>mktime\<close> are parameters. Time
      points are nanoseconds.
\<close>

datatype rjson =
    RJ_bool bool
  | RJ_int int
  | RJ_float real
  | RJ_string string
  | RJ_array "rjson list"
  | RJ_object "(string \<times> rjson) list"

text \<open>\<open>j[k] = v\<close> for members in turn.\<close>

definition rj_object :: "(string \<times> rjson) list \<Rightarrow> rjson" where
  "rj_object ms = RJ_object (sort_key fst (fold (\<lambda>(k, v). AList.update k v) ms []))"

fun rj_field :: "rjson \<Rightarrow> string \<Rightarrow> rjson option" where
  "rj_field (RJ_object ms) k = map_of ms k"
| "rj_field j k = None"

fun as_string :: "rjson \<Rightarrow> string option" where
  "as_string (RJ_string s) = Some s" | "as_string j = None"

fun as_bool :: "rjson \<Rightarrow> bool option" where
  "as_bool (RJ_bool b) = Some b" | "as_bool j = None"

fun as_double :: "rjson \<Rightarrow> real option" where
  "as_double (RJ_float x) = Some x" | "as_double (RJ_int i) = Some (of_int i)" | "as_double j = None"

fun as_int64 :: "rjson \<Rightarrow> int option" where
  "as_int64 (RJ_int i) = Some i"
| "as_int64 (RJ_float x) = Some (if x < 0 then \<lceil>x\<rceil> else \<lfloor>x\<rfloor>)"
| "as_int64 j = None"

definition int32 :: "int \<Rightarrow> int" where
  "int32 i = sint (word_of_int i :: 32 word)"

fun as_int :: "rjson \<Rightarrow> int option" where
  "as_int (RJ_int i) = Some (int32 i)"
| "as_int (RJ_float x) = Some (int32 (if x < 0 then \<lceil>x\<rceil> else \<lfloor>x\<rfloor>))"
| "as_int (RJ_bool b) = Some (if b then 1 else 0)"
| "as_int j = None"

text \<open>\<open>j.value(k, default)\<close>: \<open>None\<close> where it throws.\<close>

definition rj_value :: "(rjson \<Rightarrow> 'a option) \<Rightarrow> rjson \<Rightarrow> string
    \<Rightarrow> 'a \<Rightarrow> 'a option" where
  "rj_value conv j k d =
     (case j of RJ_object ms \<Rightarrow> (case map_of ms k of None \<Rightarrow> Some d | Some v
         \<Rightarrow> conv v) | _ \<Rightarrow> None)"

lemma rj_object_field [simp]: "rj_field (rj_object ms) k = map_of (rev ms) k"
proof -
  have *: "map_of (fold (\<lambda>(k, v). AList.update k v) ms as) k = (map_of as ++ map_of (rev ms)) k" for
      as :: "(string \<times> rjson) list"
    by (induction ms arbitrary: as) (auto simp: update_conv' map_add_def split: option.splits)
  have "distinct (map fst (fold (\<lambda>(k, v). AList.update k v) ms as))" if "distinct (map fst as)" for
      as :: "(string \<times> rjson) list"
    using that by (induction ms arbitrary: as) (auto simp: distinct_update)
  then have d: "distinct (map fst (fold (\<lambda>(k, v). AList.update k v) ms ([] :: (string \<times> rjson)
      list)))" by simp
  have "map_of (sort_key fst as) = map_of as" if "distinct (map fst as)" for as :: "(string \<times> rjson)
      list"
  proof -
    have "mset (map fst (sort_key fst as)) = mset (map fst as)" by simp
    then have "distinct (map fst (sort_key fst as))" using that mset_eq_imp_distinct_iff by blast
    then show ?thesis using that by (intro map_of_inject_set[THEN iffD2]) simp_all
  qed
  with d show ?thesis using *[of "[]"] by (simp add: rj_object_def)
qed

text \<open>Statements in turn, until one throws: the state they leave, and whether all were run.\<close>

fun run_steps :: "('a \<Rightarrow> 'a option) list \<Rightarrow> 'a \<Rightarrow> 'a \<times> bool" where
  "run_steps [] a = (a, True)"
| "run_steps (f # fs) a = (case f a of None \<Rightarrow> (a, False) | Some b \<Rightarrow> run_steps fs b)"

definition set_field :: "'v option \<Rightarrow> ('v \<Rightarrow> 'a \<Rightarrow> 'a) \<Rightarrow> 'a
    \<Rightarrow> 'a option" where
  "set_field v upd a = map_option (\<lambda>x. upd x a) v"

lemma run_steps_append:
  "run_steps (fs @ gs) a = (case run_steps fs a of (b, True) \<Rightarrow> run_steps gs b | (b, False)
      \<Rightarrow> (b, False))"
  by (induction fs arbitrary: a) (auto split: option.splits)

lemma set_field_Some [simp]: "set_field (Some v) upd a = Some (upd v a)"
  by (simp add: set_field_def)

subsection \<open>Configurations\<close>

record bench_config =
  bc_name :: string
  bc_description :: string
  bc_duration_seconds :: real
  bc_concurrent_connections :: int
  bc_target_qps :: int
  bc_server_host :: string
  bc_server_port :: int
  bc_request_path :: string
  bc_request_method :: string
  bc_request_body :: string
  bc_keep_alive :: bool
  bc_collect_time_series :: bool
  bc_custom_params :: "(string \<times> string) list"

definition default_bench_config :: bench_config where
  "default_bench_config =
     \<lparr>bc_name = [], bc_description = [], bc_duration_seconds = 10, bc_concurrent_connections = 100,
      bc_target_qps = 0, bc_server_host = ''127.0.0.1'', bc_server_port = 8080,
      bc_request_path = ''/index.html'', bc_request_method = ''GET'', bc_request_body = [],
      bc_keep_alive = True, bc_collect_time_series = False, bc_custom_params = []\<rparr>"

definition config_steps :: "rjson \<Rightarrow> (bench_config \<Rightarrow> bench_config option) list" where
  "config_steps j =
     [set_field (rj_value as_string j ''name'' []) (\<lambda>v. bc_name_update (\<lambda>_. v)),
      set_field (rj_value as_string j ''description'' []) (\<lambda>v. bc_description_update (\<lambda>_. v)),
      set_field (rj_value as_double j ''duration_seconds'' 10) (\<lambda>v. bc_duration_seconds_update
          (\<lambda>_. v)),
      set_field (rj_value as_int j ''concurrent_connections'' 100) (\<lambda>v.
          bc_concurrent_connections_update (\<lambda>_. v)),
      set_field (rj_value as_int j ''target_qps'' 0) (\<lambda>v. bc_target_qps_update (\<lambda>_. v)),
      set_field (rj_value as_string j ''server_host'' ''127.0.0.1'') (\<lambda>v. bc_server_host_update
          (\<lambda>_. v)),
      set_field (rj_value as_int j ''server_port'' 8080) (\<lambda>v. bc_server_port_update (\<lambda>_. v)),
      set_field (rj_value as_string j ''request_path'' ''/index.html'') (\<lambda>v. bc_request_path_update
          (\<lambda>_. v)),
      set_field (rj_value as_string j ''request_method'' ''GET'') (\<lambda>v. bc_request_method_update
          (\<lambda>_. v)),
      set_field (rj_value as_string j ''request_body'' []) (\<lambda>v. bc_request_body_update (\<lambda>_. v)),
      set_field (rj_value as_bool j ''keep_alive'' True) (\<lambda>v. bc_keep_alive_update (\<lambda>_. v)),
      set_field (rj_value as_bool j ''collect_time_series'' False) (\<lambda>v. bc_collect_time_series_update
          (\<lambda>_. v))]
     @ (case rj_field j ''custom_params'' of
          Some (RJ_object ms) \<Rightarrow>
            map (\<lambda>(k, v). set_field (as_string v) (\<lambda>s. bc_custom_params_update (\<lambda>ps.
                ps @ [(k, s)]))) ms
        | _ \<Rightarrow> [])"

definition config_LoadFromFile :: "rjson option option \<Rightarrow> bench_config" where
  "config_LoadFromFile f =
     (case f of
        None \<Rightarrow> default_bench_config\<lparr>bc_name := ''error''\<rparr>
      | Some None \<Rightarrow> default_bench_config
      | Some (Some j) \<Rightarrow> fst (run_steps (config_steps j) default_bench_config))"

definition config_ToJson :: "bench_config \<Rightarrow> rjson" where
  "config_ToJson c =
     rj_object [(''name'', RJ_string (bc_name c)), (''description'', RJ_string (bc_description c)),
       (''duration_seconds'', RJ_float (bc_duration_seconds c)),
       (''concurrent_connections'', RJ_int (bc_concurrent_connections c)),
       (''target_qps'', RJ_int (bc_target_qps c)), (''server_host'', RJ_string (bc_server_host c)),
       (''server_port'', RJ_int (bc_server_port c)), (''request_path'', RJ_string (bc_request_path c)),
       (''request_method'', RJ_string (bc_request_method c)), (''request_body'', RJ_string (bc_request_body c)),
       (''keep_alive'', RJ_bool (bc_keep_alive c)), (''collect_time_series'', RJ_bool (bc_collect_time_series
           c)),
       (''custom_params'', rj_object (map (\<lambda>(k, v). (k, RJ_string v)) (bc_custom_params c)))]"

text \<open>\<open>SaveToFile\<close>: what the file holds; \<open>None\<close> when it cannot be
    opened.\<close>

definition SaveToFile :: "bool \<Rightarrow> bench_config \<Rightarrow> rjson option" where
  "SaveToFile opens c = (if opens then Some (config_ToJson c) else None)"

definition bench_Validate :: "bench_config \<Rightarrow> string list" where
  "bench_Validate c =
     (if bc_name c = [] then [(utf8 [0x6D4B, 0x8BD5, 0x540D, 0x79F0, 0x4E0D, 0x80FD, 0x4E3A, 0x7A7A])] else [])
     @ (if bc_duration_seconds c < 0 then [(utf8 [0x6D4B, 0x8BD5, 0x6301, 0x7EED, 0x65F6, 0x95F4, 0x4E0D,
         0x80FD, 0x4E3A, 0x8D1F, 0x6570])] else [])
     @ (if bc_concurrent_connections c \<le> 0 then [((utf8 [0x5E76, 0x53D1, 0x8FDE, 0x63A5, 0x6570, 0x5FC5,
         0x987B, 0x5927, 0x4E8E]) @ ''0'')] else [])
     @ (if bc_server_host c = [] then [(utf8 [0x670D, 0x52A1, 0x5668, 0x5730, 0x5740, 0x4E0D, 0x80FD, 0x4E3A,
         0x7A7A])] else [])
     @ (if bc_server_port c \<le> 0 \<or> bc_server_port c > 65535 then [(utf8 [0x670D, 0x52A1, 0x5668,
         0x7AEF, 0x53E3, 0x53F7, 0x65E0, 0x6548])] else [])
     @ (if bc_request_path c = [] then [(utf8 [0x8BF7, 0x6C42, 0x8DEF, 0x5F84, 0x4E0D, 0x80FD, 0x4E3A,
         0x7A7A])] else [])"

text \<open>What a configuration file can hold.\<close>

definition config_storable :: "bench_config \<Rightarrow> bool" where
  "config_storable c \<longleftrightarrow>
     int32 (bc_concurrent_connections c) = bc_concurrent_connections c \<and> int32 (bc_target_qps c) =
         bc_target_qps c
     \<and> int32 (bc_server_port c) = bc_server_port c \<and> distinct (map fst (bc_custom_params c))
     \<and> sorted (map fst (bc_custom_params c))"

lemma load_custom_params:
  "run_steps (map (\<lambda>(k, v). set_field (as_string v) (\<lambda>s. bc_custom_params_update
      (\<lambda>ps. ps @ [(k, s)])))
       (map (\<lambda>(k, v). (k, RJ_string v)) ps)) c
   = (bc_custom_params_update (\<lambda>qs. qs @ ps) c, True)"
  by (induction ps arbitrary: c) (auto split: prod.splits)

lemma rj_object_distinct:
  assumes "distinct (map fst ms)" "sorted (map fst ms)"
  shows "rj_object ms = RJ_object ms"
proof -
  have "fold (\<lambda>(k, v). AList.update k v) bs as = as @ bs" if "distinct (map fst (as @ bs))"
    for as bs :: "(string \<times> rjson) list"
    using that
  proof (induction bs arbitrary: as)
    case (Cons b bs)
    obtain k v where b: "b = (k, v)" by (cases b)
    have "k \<notin> fst ` set as \<Longrightarrow> AList.update k v as = as @ [(k, v)]" by (induction as) auto
    then have "AList.update k v as = as @ [(k, v)]" using Cons.prems by (simp add: b)
    then show ?case using Cons.IH[of "as @ [(k, v)]"] Cons.prems by (simp add: b)
  qed simp
  from this[of "[]" ms] show ?thesis using assms by (simp add: rj_object_def sort_key_id_if_sorted)
qed

lemma config_fields:
  "rj_field (config_ToJson c) ''name'' = Some (RJ_string (bc_name c))"
  "rj_field (config_ToJson c) ''description'' = Some (RJ_string (bc_description c))"
  "rj_field (config_ToJson c) ''duration_seconds'' = Some (RJ_float (bc_duration_seconds c))"
  "rj_field (config_ToJson c) ''concurrent_connections'' = Some (RJ_int (bc_concurrent_connections c))"
  "rj_field (config_ToJson c) ''target_qps'' = Some (RJ_int (bc_target_qps c))"
  "rj_field (config_ToJson c) ''server_host'' = Some (RJ_string (bc_server_host c))"
  "rj_field (config_ToJson c) ''server_port'' = Some (RJ_int (bc_server_port c))"
  "rj_field (config_ToJson c) ''request_path'' = Some (RJ_string (bc_request_path c))"
  "rj_field (config_ToJson c) ''request_method'' = Some (RJ_string (bc_request_method c))"
  "rj_field (config_ToJson c) ''request_body'' = Some (RJ_string (bc_request_body c))"
  "rj_field (config_ToJson c) ''keep_alive'' = Some (RJ_bool (bc_keep_alive c))"
  "rj_field (config_ToJson c) ''collect_time_series'' = Some (RJ_bool (bc_collect_time_series c))"
  "rj_field (config_ToJson c) ''custom_params''
    = Some (rj_object (map (\<lambda>(k, v). (k, RJ_string v)) (bc_custom_params c)))"
  by (simp_all add: config_ToJson_def)

text \<open>A configuration that is saved is the one that is loaded; and what passes the check is what the six
  messages do not object to.\<close>

theorem config_file_roundtrip:
  assumes "config_storable c"
  shows "config_LoadFromFile (Some (SaveToFile True c)) = c"
proof -
  let ?ps = "map (\<lambda>(k, v). (k, RJ_string v)) (bc_custom_params c)"
  have "(fst :: string \<times> rjson \<Rightarrow> string) \<circ> (\<lambda>(k, v). (k, RJ_string v)) =
      fst" by auto
  then have "rj_object ?ps = RJ_object ?ps"
    using assms by (intro rj_object_distinct) (simp_all add: config_storable_def)
  moreover have v: "rj_value conv (config_ToJson c) k d = (case rj_field (config_ToJson c) k of None
      \<Rightarrow> Some d | Some v \<Rightarrow> conv v)"
    for conv k and d :: 'v by (simp add: rj_value_def config_ToJson_def rj_object_def)
  ultimately show ?thesis using assms
    by (simp add: config_LoadFromFile_def SaveToFile_def config_steps_def run_steps_append v config_fields
        load_custom_params
        config_storable_def default_bench_config_def del: map_map)
qed

theorem config_file_roundtrip_witness:
  "config_LoadFromFile (Some (SaveToFile True (default_bench_config\<lparr>bc_custom_params := [(''stages'',
      ''1,2'')]\<rparr>)))
   = default_bench_config\<lparr>bc_custom_params := [(''stages'', ''1,2'')]\<rparr>"
  by (rule config_file_roundtrip) (simp add: config_storable_def default_bench_config_def int32_def)

lemma valid_config_iff:
  "bench_Validate c = [] \<longleftrightarrow> bc_name c \<noteq> [] \<and> 0 \<le> bc_duration_seconds c
      \<and> 0 < bc_concurrent_connections c
     \<and> bc_server_host c \<noteq> [] \<and> 0 < bc_server_port c \<and> bc_server_port c \<le> 65535
         \<and> bc_request_path c \<noteq> []"
  by (auto simp: bench_Validate_def)

subsection \<open>Results\<close>

record bench_result =
  br_name :: string
  br_success :: bool
  br_error_message :: string
  br_duration_seconds :: real
  br_start_time :: int
  br_end_time :: int
  br_metrics :: "metric list"
  br_time_series :: "(int \<times> real) list"

definition contains :: "string \<Rightarrow> string \<Rightarrow> bool" where
  "contains p s \<longleftrightarrow> find_sub p s \<noteq> None"

definition classify_metric :: "string \<Rightarrow> string" where
  "classify_metric name =
     (if contains ''error'' name \<or> contains ''failed'' name then ''errors''
      else if contains ''latency'' name \<or> contains ''_latency'' name \<or> contains ''delay'' name then
          ''latency''
      else if contains ''qps'' name \<or> contains ''throughput'' name \<or> contains ''_requests'' name then
          ''throughput''
      else if contains ''concurrent'' name \<or> contains ''connection'' name then ''concurrency''
      else if contains ''memory'' name \<or> contains ''cpu'' name \<or> contains ''rss'' name \<or> contains
          ''vm'' name
      then ''resources'' else ''other'')"

text \<open>The groups, in the order a \<open>std::map\<close> keeps their names.\<close>

definition group_descriptions :: "(string \<times> string) list" where
  "group_descriptions =
     [(''concurrency'', (utf8 [0x5E76, 0x53D1, 0x5904, 0x7406, 0x6307, 0x6807, 0xFF08, 0x5E76, 0x53D1,
         0x8FDE, 0x63A5, 0x6570, 0xFF09])),
      (''errors'', (utf8 [0x9519, 0x8BEF, 0x76F8, 0x5173, 0x6307, 0x6807, 0xFF08, 0x9519, 0x8BEF, 0x7387,
          0x3001, 0x5931, 0x8D25, 0x8BF7, 0x6C42, 0x6570, 0xFF09])),
      (''latency'', (utf8 [0x5EF6, 0x8FDF, 0x5206, 0x5E03, 0x6307, 0x6807, 0xFF08, 0x5E73, 0x5747, 0x5EF6,
          0x8FDF, 0x3001, 0x767E, 0x5206, 0x4F4D, 0x5EF6, 0x8FDF, 0x3001, 0x6807, 0x51C6, 0x5DEE, 0xFF09])),
      (''other'', (utf8 [0x5176, 0x4ED6, 0x672A, 0x5206, 0x7C7B, 0x6307, 0x6807])),
      (''resources'', ((utf8 [0x7CFB, 0x7EDF, 0x8D44, 0x6E90, 0x4F7F, 0x7528, 0x6307, 0x6807, 0xFF08, 0x5185,
          0x5B58, 0x3001]) @ ''CPU'' @ (utf8 [0x3001, 0x6587, 0x4EF6, 0x63CF, 0x8FF0, 0x7B26, 0xFF09]))),
      (''throughput'', ((utf8 [0x541E, 0x5410, 0x91CF, 0x76F8, 0x5173, 0x6307, 0x6807, 0xFF08]) @ ''QPS'' @
          (utf8 [0x3001, 0x8BF7, 0x6C42, 0x6570, 0x3001, 0x7F51, 0x7EDC, 0x541E, 0x5410, 0x91CF, 0xFF09])))]"

definition GetGroupDescription :: "string \<Rightarrow> string" where
  "GetGroupDescription group_name =
     (case map_of group_descriptions group_name of Some d \<Rightarrow> d | None \<Rightarrow> (utf8 [0x672A,
         0x5206, 0x7C7B, 0x6307, 0x6807]))"

definition iso_time :: "int \<Rightarrow> string" where
  "iso_time tp =
     (let tm = gmtime (cast_seconds tp)
      in dec_int (tm_year tm + 1900) @ ''-'' @ two_digits (tm_mon tm + 1) @ ''-'' @ two_digits (tm_mday tm)
         @ ''T'' @ two_digits (tm_hour tm) @ '':'' @ two_digits (tm_min tm) @ '':'' @ two_digits (tm_sec tm)
             @ ''Z'')"

definition cast_milliseconds :: "int \<Rightarrow> int" where
  "cast_milliseconds ns = (if ns \<ge> 0 then ns div 1000000 else - ((- ns) div 1000000))"

definition metric_json :: "metric \<Rightarrow> rjson" where
  "metric_json m =
     rj_object [(''name'', RJ_string (mt_name m)), (''value'', RJ_float (mt_value m)),
       (''unit'', RJ_string (mt_unit m)), (''description'', RJ_string (mt_description m))]"

definition group_json :: "metric list \<Rightarrow> string \<Rightarrow> rjson" where
  "group_json metrics group_name =
     rj_object [(''name'', RJ_string group_name), (''description'', RJ_string (GetGroupDescription group_name)),
       (''metrics'', RJ_array (map metric_json (filter (\<lambda>m. classify_metric (mt_name m) = group_name)
           metrics)))]"

definition summary_names :: "string list" where
  "summary_names = [''qps'', ''error_rate'', ''p99_latency'', ''avg_latency'', ''throughput_mbps'']"

definition result_ToJson :: "bench_result \<Rightarrow> rjson" where
  "result_ToJson r =
     (let metrics = br_metrics r;
          groups = filter (\<lambda>g. \<exists>m \<in> set metrics. classify_metric (mt_name m) = g) (map
              fst group_descriptions);
          summary = filter (\<lambda>m. mt_name m \<in> set summary_names) metrics
      in rj_object ([(''name'', RJ_string (br_name r)), (''success'', RJ_bool (br_success r)),
            (''error_message'', RJ_string (br_error_message r)),
            (''duration_seconds'', RJ_float (br_duration_seconds r)),
            (''start_time'', RJ_string (iso_time (br_start_time r))),
            (''end_time'', RJ_string (iso_time (br_end_time r))),
            (''metrics'', RJ_array (map metric_json metrics))]
          @ (if groups = [] then [] else [(''metric_groups'', RJ_array (map (group_json metrics) groups))])
          @ (if summary = [] then []
             else [(''summary'', rj_object (map (\<lambda>m. (mt_name m, rj_object [(''value'', RJ_float
                 (mt_value m)),
                      (''unit'', RJ_string (mt_unit m)), (''description'', RJ_string (mt_description m))]))
                          summary))])
          @ [(''time_series'', RJ_array (map (\<lambda>(timestamp, v).
                rj_object [(''timestamp_ms'', RJ_int (cast_milliseconds timestamp)), (''value'', RJ_float v)])
                (br_time_series r)))]))"

definition metric_from :: "rjson \<Rightarrow> metric option" where
  "metric_from j =
     (case (rj_value as_string j ''name'' [], rj_value as_double j ''value'' 0, rj_value as_string j ''unit''
         [],
            rj_value as_string j ''description'' []) of
        (Some n, Some v, Some u, Some d) \<Rightarrow> Some (metric_of n v u d)
      | _ \<Rightarrow> None)"

definition point_from :: "rjson \<Rightarrow> (int \<times> real) option" where
  "point_from j =
     (case (rj_value as_int64 j ''timestamp_ms'' 0, rj_value as_double j ''value'' 0) of
        (Some ms, Some v) \<Rightarrow> Some (ms * 1000000, v)
      | _ \<Rightarrow> None)"

definition string_to_time :: "(string \<Rightarrow> broken_time) \<Rightarrow> (broken_time \<Rightarrow>
    int) \<Rightarrow> string \<Rightarrow> int" where
  "string_to_time read_time mktime str = mktime (read_time str) * 1000000000"

definition result_steps ::
  "(string \<Rightarrow> broken_time) \<Rightarrow> (broken_time \<Rightarrow> int) \<Rightarrow> rjson
      \<Rightarrow> (bench_result \<Rightarrow> bench_result option) list" where
  "result_steps read_time mktime j =
     [set_field (rj_value as_string j ''name'' []) (\<lambda>v. br_name_update (\<lambda>_. v)),
      set_field (rj_value as_bool j ''success'' False) (\<lambda>v. br_success_update (\<lambda>_. v)),
      set_field (rj_value as_string j ''error_message'' []) (\<lambda>v. br_error_message_update (\<lambda>_.
          v)),
      set_field (rj_value as_double j ''duration_seconds'' 0) (\<lambda>v. br_duration_seconds_update
          (\<lambda>_. v))]
     @ (case rj_field j ''start_time'' of
          Some s \<Rightarrow> [set_field (as_string s) (\<lambda>v. br_start_time_update (\<lambda>_.
              string_to_time read_time mktime v))]
        | None \<Rightarrow> [])
     @ (case rj_field j ''end_time'' of
          Some s \<Rightarrow> [set_field (as_string s) (\<lambda>v. br_end_time_update (\<lambda>_.
              string_to_time read_time mktime v))]
        | None \<Rightarrow> [])
     @ (case rj_field j ''metrics'' of
          Some (RJ_array js) \<Rightarrow> map (\<lambda>m. set_field (metric_from m) (\<lambda>v.
              br_metrics_update (\<lambda>vs. vs @ [v]))) js
        | _ \<Rightarrow> [])
     @ (case rj_field j ''time_series'' of
          Some (RJ_array js) \<Rightarrow> map (\<lambda>p. set_field (point_from p) (\<lambda>v.
              br_time_series_update (\<lambda>vs. vs @ [v]))) js
        | _ \<Rightarrow> [])"

text \<open>\<open>FromJson\<close> of the value in a text, \<open>None\<close> where parsing throws;
    \<open>what\<close> is the text of the exception, and
  \<open>result\<close> the object as it is declared, with two fields that are not initialised.\<close>

definition result_FromJson ::
  "(string \<Rightarrow> broken_time) \<Rightarrow> (broken_time \<Rightarrow> int) \<Rightarrow> string
      \<Rightarrow> bench_result \<Rightarrow> rjson option \<Rightarrow> bench_result" where
  "result_FromJson read_time mktime what result parsed =
     (case (case parsed of Some j \<Rightarrow> run_steps (result_steps read_time mktime j) result | None
         \<Rightarrow> (result, False)) of
        (r, True) \<Rightarrow> r
      | (r, False) \<Rightarrow> r\<lparr>br_success := False, br_error_message := (''JSON'' @ (utf8 [0x89E3,
          0x6790, 0x5931, 0x8D25]) @ '': '') @ what\<rparr>)"

definition declared_result :: "bool \<Rightarrow> real \<Rightarrow> bench_result" where
  "declared_result s d =
     \<lparr>br_name = [], br_success = s, br_error_message = [], br_duration_seconds = d, br_start_time = 0,
      br_end_time = 0, br_metrics = [], br_time_series = []\<rparr>"

lemma metric_from_json [simp]: "metric_from (metric_json m) = Some m"
  by (simp add: metric_from_def metric_json_def rj_value_def rj_object_def metric_of_def)

lemma load_metric_steps:
  "run_steps (map (\<lambda>m. set_field (metric_from m) (\<lambda>v. br_metrics_update (\<lambda>vs. vs @
      [v]))) (map metric_json ms)) r
   = (br_metrics_update (\<lambda>vs. vs @ ms) r, True)"
  by (induction ms arbitrary: r) auto

lemma load_points:
  "run_steps (map (\<lambda>p. set_field (point_from p) (\<lambda>v. br_time_series_update (\<lambda>vs. vs @
      [v])))
      (map (\<lambda>(t, v). rj_object [(''timestamp_ms'', RJ_int (cast_milliseconds t)), (''value'',
          RJ_float v)]) ps)) r
   = (br_time_series_update (\<lambda>vs. vs @ map (\<lambda>(t, v). (cast_milliseconds t * 1000000, v)) ps)
       r, True)"
  by (induction ps arbitrary: r) (auto simp: point_from_def rj_value_def rj_object_def)

lemma result_members:
  "rj_field (result_ToJson r) ''name'' = Some (RJ_string (br_name r))"
  "rj_field (result_ToJson r) ''success'' = Some (RJ_bool (br_success r))"
  "rj_field (result_ToJson r) ''error_message'' = Some (RJ_string (br_error_message r))"
  "rj_field (result_ToJson r) ''duration_seconds'' = Some (RJ_float (br_duration_seconds r))"
  "rj_field (result_ToJson r) ''start_time'' = Some (RJ_string (iso_time (br_start_time r)))"
  "rj_field (result_ToJson r) ''end_time'' = Some (RJ_string (iso_time (br_end_time r)))"
  "rj_field (result_ToJson r) ''metrics'' = Some (RJ_array (map metric_json (br_metrics r)))"
  "rj_field (result_ToJson r) ''time_series'' = Some (RJ_array (map (\<lambda>(t, v).
     rj_object [(''timestamp_ms'', RJ_int (cast_milliseconds t)), (''value'', RJ_float v)]) (br_time_series
         r)))"
  by (simp_all add: result_ToJson_def Let_def)

lemma read_result:
  "result_FromJson read_time mktime what (declared_result s d) (Some (result_ToJson r))
    = r\<lparr>br_start_time := mktime (read_time (iso_time (br_start_time r))) * 1000000000,
        br_end_time := mktime (read_time (iso_time (br_end_time r))) * 1000000000,
        br_time_series := map (\<lambda>(t, v). (cast_milliseconds t * 1000000, v)) (br_time_series r)\<rparr>"
proof -
  have v: "rj_value conv (result_ToJson r) k a = (case rj_field (result_ToJson r) k of None \<Rightarrow>
      Some a | Some v \<Rightarrow> conv v)"
    for conv k and a :: 'v by (simp add: rj_value_def result_ToJson_def rj_object_def Let_def)
  show ?thesis
    by (simp add: result_FromJson_def result_steps_def run_steps_append v result_members load_metric_steps
        load_points
        string_to_time_def declared_result_def del: map_map)
qed

text \<open>A saved result is read back with its name, verdict, message, duration and metrics, whatever the
  uninitialised fields held; its series is cut to milliseconds, and its two times are what
      \<open>mktime\<close>, which
  takes them for local time, makes of what was printed in GMT.\<close>
theorem result_reads_back:
  "result_FromJson read_time mktime what (declared_result s d) (Some (result_ToJson r))
    = r\<lparr>br_start_time := mktime (read_time (iso_time (br_start_time r))) * 1000000000,
        br_end_time := mktime (read_time (iso_time (br_end_time r))) * 1000000000,
        br_time_series := map (\<lambda>(t, v). (cast_milliseconds t * 1000000, v)) (br_time_series r)\<rparr>"
  by (rule read_result)

text \<open>In a zone ahead of GMT they come back earlier by the offset.\<close>

lemma result_times_shift:
  assumes "\<And>t. read_time (iso_time t) = gmtime (cast_seconds t)" "\<And>t. timegm (gmtime t) = t"
  shows "br_start_time (result_FromJson read_time (\<lambda>tm. fst (zone_mktime timegm offset tm)) what
      (declared_result s d) (Some (result_ToJson r))) = (cast_seconds (br_start_time r) - offset) * 1000000000"
  by (simp add: read_result assms zone_mktime_def del: left_diff_distrib_numeral)

subsection \<open>Tables\<close>

abbreviation QT :: char where "QT \<equiv> CHR 0x22"

definition csv_escape :: "string \<Rightarrow> string" where
  "csv_escape s =
     (if CHR '','' \<in> set s \<or> QT \<in> set s
      then QT # concat (map (\<lambda>c. if c = QT then [QT, QT] else [c]) s) @ [QT] else s)"

definition csv_row :: "(real \<Rightarrow> string) \<Rightarrow> metric \<Rightarrow> string" where
  "csv_row show_double m =
     csv_escape (mt_name m) @ '','' @ show_double (mt_value m) @ '','' @ mt_unit m @ '',''
     @ csv_escape (mt_description m) @ '','' @ classify_metric (mt_name m) @ [LF]"

definition ToCsv :: "(real \<Rightarrow> string) \<Rightarrow> bench_result \<Rightarrow> string" where
  "ToCsv show_double r =
     ''name,value,unit,description,group'' @ LF # concat (map (csv_row show_double) (br_metrics r))"

definition ToTimeSeriesCsv :: "(real \<Rightarrow> string) \<Rightarrow> bench_result \<Rightarrow> string"
    where
  "ToTimeSeriesCsv show_double r =
     ''timestamp_ms,value'' @ LF # concat (map (\<lambda>(timestamp, v).
        dec_int (cast_milliseconds timestamp) @ '','' @ show_double v @ [LF]) (br_time_series r))"

definition grouped_row :: "(real \<Rightarrow> string) \<Rightarrow> metric \<Rightarrow> string" where
  "grouped_row show_double m =
     classify_metric (mt_name m) @ '','' @ csv_escape (mt_name m) @ '','' @ show_double (mt_value m) @ '',''
     @ mt_unit m @ '','' @ csv_escape (mt_description m) @ [LF]"

text \<open>A reader of such tables: a field is quoted, with quotes doubled, or ends at a comma or a line
    end.\<close>

fun unquote :: "string \<Rightarrow> (string \<times> string) option" where
  "unquote [] = None"
| "unquote (c # cs) =
     (if c = QT then (case cs of [] \<Rightarrow> Some ([], [])
                      | d # ds \<Rightarrow> if d = QT then map_option (apfst (Cons QT)) (unquote ds) else
                          Some ([], cs))
      else map_option (apfst (Cons c)) (unquote cs))"

definition in_field :: "char \<Rightarrow> bool" where
  "in_field c \<longleftrightarrow> c \<noteq> CHR '','' \<and> c \<noteq> LF"

definition read_field :: "string \<Rightarrow> (string \<times> string) option" where
  "read_field s =
     (if s \<noteq> [] \<and> hd s = QT then unquote (tl s) else Some (takeWhile in_field s, dropWhile
         in_field s))"

fun read_fields :: "nat \<Rightarrow> string \<Rightarrow> (string list \<times> string) option" where
  "read_fields 0 s = Some ([], s)"
| "read_fields (Suc n) s =
     (case read_field s of
        Some (f, c # r) \<Rightarrow>
          if c = (if n = 0 then LF else CHR '','') then map_option (apfst (Cons f)) (read_fields n r) else None
      | _ \<Rightarrow> None)"

fun read_rows :: "nat \<Rightarrow> string \<Rightarrow> string list list option" where
  "read_rows 0 s = (if s = [] then Some [] else None)"
| "read_rows (Suc n) s =
     (case read_fields 5 s of Some (fs, r) \<Rightarrow> map_option (Cons fs) (read_rows n r) | None
         \<Rightarrow> None)"

lemma unquote_doubled:
  "r = [] \<or> hd r \<noteq> QT \<Longrightarrow>
   unquote (concat (map (\<lambda>c. if c = QT then [QT, QT] else [c]) s) @ QT # r) = Some (s, r)"
  by (induction s) (auto split: list.splits)

text \<open>Text that stands in a row as it is, and text that the escaping makes fit.\<close>

definition bare :: "string \<Rightarrow> bool" where
  "bare s \<longleftrightarrow> list_all in_field s \<and> QT \<notin> set s"

definition csv_fits :: "string \<Rightarrow> bool" where
  "csv_fits s \<longleftrightarrow> (LF \<in> set s \<longrightarrow> CHR '','' \<in> set s \<or> QT \<in>
      set s)"

lemma read_bare: "bare s \<Longrightarrow> \<not> in_field c \<Longrightarrow> c \<noteq> QT
    \<Longrightarrow> read_field (s @ c # r) = Some (s, c # r)"
proof -
  assume s: "bare s" and c: "\<not> in_field c" "c \<noteq> QT"
  have "takeWhile in_field (s @ c # r) = s" "dropWhile in_field (s @ c # r) = c # r"
    using s c(1) by (simp_all add: bare_def list_all_iff takeWhile_append2 dropWhile_append2)
  moreover have "hd (s @ c # r) \<noteq> QT" using s c(2) by (cases s) (auto simp: bare_def)
  ultimately show ?thesis by (simp add: read_field_def)
qed

lemma read_escaped: "csv_fits s \<Longrightarrow> \<not> in_field c \<Longrightarrow> c \<noteq> QT
    \<Longrightarrow> read_field (csv_escape s @ c # r) = Some (s, c # r)"
proof (cases "CHR '','' \<in> set s \<or> QT \<in> set s")
  case True
  assume "c \<noteq> QT"
  then show ?thesis using True unquote_doubled[of "c # r" s] by (simp add: csv_escape_def read_field_def)
next
  case False
  assume "csv_fits s" "\<not> in_field c" "c \<noteq> QT"
  moreover from this False have "bare s" by (auto simp: bare_def csv_fits_def in_field_def list_all_iff)
  ultimately show ?thesis using False read_bare by (simp add: csv_escape_def)
qed

lemma bare_class: "bare (classify_metric n)"
  by (simp add: classify_metric_def bare_def in_field_def)

lemma ends: "\<not> in_field (CHR '','')" "\<not> in_field LF" "CHR '','' \<noteq> QT" "LF \<noteq> QT"
  by (simp_all add: in_field_def)

text \<open>A table is read back, row by row, if no text has a line end without a comma or a quote beside
    it.\<close>

lemma csv_reads_back:
  assumes "\<And>m. m \<in> set (br_metrics r) \<Longrightarrow> csv_fits (mt_name m) \<and> csv_fits
      (mt_description m) \<and> bare (mt_unit m)"
    and "\<And>x. bare (show_double x)"
  shows "read_rows (Suc (length (br_metrics r))) (ToCsv show_double r)
    = Some ([''name'', ''value'', ''unit'', ''description'', ''group'']
        # map (\<lambda>m. [mt_name m, show_double (mt_value m), mt_unit m, mt_description m, classify_metric
            (mt_name m)])
            (br_metrics r))"
proof -
  have row: "read_fields 5 (csv_row show_double m @ rest)
      = Some ([mt_name m, show_double (mt_value m), mt_unit m, mt_description m, classify_metric (mt_name
          m)], rest)"
    if "m \<in> set (br_metrics r)" for m rest
    using assms(1)[OF that] assms(2)[of "mt_value m"]
    by (simp add: csv_row_def numeral_eq_Suc read_escaped read_bare bare_class ends)
  have "read_rows (length ms) (concat (map (csv_row show_double) ms))
      = Some (map (\<lambda>m. [mt_name m, show_double (mt_value m), mt_unit m, mt_description m,
          classify_metric (mt_name m)]) ms)"
    if "set ms \<subseteq> set (br_metrics r)" for ms
    using that by (induction ms) (simp_all add: row)
  moreover have "read_fields 5 (''name,value,unit,description,group'' @ LF # rest)
      = Some ([''name'', ''value'', ''unit'', ''description'', ''group''], rest)" for rest
    by (simp add: numeral_eq_Suc read_field_def in_field_def)
  ultimately show ?thesis by (simp add: ToCsv_def del: append.simps)
qed

end
