(* ===== verification/BenchRunner.thy ===== *)
theory BenchRunner
  imports BenchFiles
begin

text \<open>
  The runner of the benchmarks (benchmark/src/benchmark_runner.cpp): comparing a result with a baseline, the
  tables and the report it writes, and its command line. What is printed to the terminal is left out. A
  benchmark itself and the conversions of numbers in the standard library are parameters.
\<close>

subsection \<open>Comparison with a baseline\<close>

record metric_comparison =
  mc_name :: string
  mc_baseline_value :: real
  mc_current_value :: real
  mc_absolute_diff :: real
  mc_relative_diff_percent :: real
  mc_unit :: string
  mc_improvement :: string

definition compare_metric :: "metric \<Rightarrow> metric \<Rightarrow> metric_comparison" where
  "compare_metric baseline_metric current_metric =
     (let baseline_value = mt_value baseline_metric; current_value = mt_value current_metric;
          diff = current_value - baseline_value;
          diff_percent = (if baseline_value \<noteq> 0 then diff / baseline_value * 100 else 0)
      in \<lparr>mc_name = mt_name baseline_metric, mc_baseline_value = baseline_value,
          mc_current_value = current_value, mc_absolute_diff = diff, mc_relative_diff_percent = diff_percent,
          mc_unit = mt_unit baseline_metric,
          mc_improvement = (if diff_percent > 0 \<and> \<not> contains ''latency'' (mt_name baseline_metric)
                            then ''improved'' else ''regressed'')\<rparr>)"

text \<open>The baseline is what its file holds, read by \<open>FromJson\<close>; \<open>Inl\<close> is the
    text under the key \<open>error\<close>.\<close>

definition CompareWithBaseline :: "bench_result \<Rightarrow> bench_result option \<Rightarrow> string +
    metric_comparison list" where
  "CompareWithBaseline current baseline_file =
     (case baseline_file of
        None \<Rightarrow> Inl (utf8 [0x65E0, 0x6CD5, 0x6253, 0x5F00, 0x57FA, 0x7EBF, 0x7ED3, 0x679C, 0x6587,
            0x4EF6])
      | Some baseline_result \<Rightarrow>
          if \<not> br_success baseline_result then Inl (((utf8 [0x57FA, 0x7EBF, 0x7ED3, 0x679C, 0x89E3,
              0x6790, 0x5931, 0x8D25]) @ '': '') @ br_error_message baseline_result)
          else let current_metrics_map = fold (\<lambda>m f. f(mt_name m \<mapsto> m)) (br_metrics current)
              Map.empty
               in Inr (List.map_filter (\<lambda>b. map_option (compare_metric b) (current_metrics_map
                   (mt_name b)))
                        (br_metrics baseline_result)))"

lemma last_by_name:
  "distinct (map mt_name ms) \<Longrightarrow> m \<in> set ms \<Longrightarrow> fold (\<lambda>m f. f(mt_name
      m \<mapsto> m)) ms f (mt_name m) = Some m"
proof (induction ms arbitrary: f)
  case (Cons a ms)
  have keep: "mt_name a \<notin> mt_name ` set ms \<Longrightarrow> fold (\<lambda>m f. f(mt_name m \<mapsto>
      m)) ms g (mt_name a) = g (mt_name a)" for g
    by (induction ms arbitrary: g) auto
  show ?case
  proof (cases "m = a")
    case True
    then show ?thesis using keep[of "f(mt_name a \<mapsto> a)"] Cons.prems by (simp del: fun_upd_apply) simp
  next
    case False
    then show ?thesis using Cons by (simp del: fun_upd_apply)
  qed
qed simp

text \<open>Comparing a successful result with itself reports every metric as regressed. In general a
    metric is
  improved when it has grown, relative to the baseline, and its name does not mention latency: a
  latency is never improved, and a growing rate of errors is.\<close>
theorem unchanged_result_has_regressed:
  "(br_success r \<and> distinct (map mt_name (br_metrics r)) \<longrightarrow>
      (\<exists>cs. CompareWithBaseline r (Some r) = Inr cs \<and> map mc_name cs = map mt_name (br_metrics r)
        \<and> (\<forall>c \<in> set cs. mc_absolute_diff c = 0 \<and> mc_improvement c = ''regressed'')))
   \<and> (contains ''latency'' (mt_name b) \<longrightarrow> mc_improvement (compare_metric b m) =
       ''regressed'')
   \<and> (mt_name b = ''error_rate'' \<and> 0 < mt_value b \<longrightarrow>
        (mc_improvement (compare_metric b m) = ''improved'' \<longleftrightarrow> mt_value b < mt_value m))"
proof (intro conjI impI)
  assume r: "br_success r \<and> distinct (map mt_name (br_metrics r))"
  let ?f = "\<lambda>b. map_option (compare_metric b) (fold (\<lambda>m f. f(mt_name m \<mapsto> m))
      (br_metrics r) Map.empty (mt_name b))"
  have "List.map_filter ?f bs = map (\<lambda>b. compare_metric b b) bs" if "set bs \<subseteq> set
      (br_metrics r)" for bs
    using that by (induction bs) (auto simp: last_by_name[OF conjunct2[OF r]] List.map_filter_simps)
  then have "CompareWithBaseline r (Some r) = Inr (map (\<lambda>b. compare_metric b b) (br_metrics r))"
    using r by (simp add: CompareWithBaseline_def)
  then show "\<exists>cs. CompareWithBaseline r (Some r) = Inr cs \<and> map mc_name cs = map mt_name
      (br_metrics r)
      \<and> (\<forall>c \<in> set cs. mc_absolute_diff c = 0 \<and> mc_improvement c = ''regressed'')"
    by (simp add: compare_metric_def Let_def o_def)
next
  assume "contains ''latency'' (mt_name b)"
  then show "mc_improvement (compare_metric b m) = ''regressed''" by (simp add: compare_metric_def Let_def)
next
  assume "mt_name b = ''error_rate'' \<and> 0 < mt_value b"
  then show "mc_improvement (compare_metric b m) = ''improved'' \<longleftrightarrow> mt_value b < mt_value m"
    by (auto simp: compare_metric_def Let_def contains_def zero_less_divide_iff)
qed

subsection \<open>Tables and report\<close>

definition GenerateCsvHeader :: "(real \<Rightarrow> string) \<Rightarrow> bench_result \<Rightarrow>
    bench_config \<Rightarrow> string" where
  "GenerateCsvHeader show_double result config =
     concat (map (\<lambda>l. l @ [LF])
       [''# Benchmark Results'',
        ''# Name: '' @ br_name result,
        ''# Start Time: '' @ iso_time (br_start_time result),
        ''# End Time: '' @ iso_time (br_end_time result),
        ''# Duration: '' @ show_double (br_duration_seconds result) @ '' seconds'',
        ''# Concurrent Connections: '' @ dec_int (bc_concurrent_connections config),
        ''# Target QPS: '' @ (if bc_target_qps config > 0 then dec_int (bc_target_qps config) else
            ''unlimited''),
        ''# Server: '' @ bc_server_host config @ '':'' @ dec_int (bc_server_port config),
        ''# Request Path: '' @ bc_request_path config,
        ''# Request Method: '' @ bc_request_method config,
        ''# Keep-Alive: '' @ (if bc_keep_alive config then ''enabled'' else ''disabled''),
        ''#''])"

definition find_metric :: "bench_result \<Rightarrow> string \<Rightarrow> real option" where
  "find_metric result name = map_option mt_value (List.find (\<lambda>m. mt_name m = name) (br_metrics result))"

text \<open>\<open>show p v\<close> is a number with \<open>p\<close> places. A row that is printed sets the
    places of what follows.\<close>

definition report_row :: "(nat \<Rightarrow> real \<Rightarrow> string) \<Rightarrow> string \<Rightarrow>
    real option \<Rightarrow> nat \<Rightarrow> string \<Rightarrow> string \<times> nat \<Rightarrow> string
    \<times> nat" where
  "report_row shown label v places rest_of_row out =
     (case v of
        None \<Rightarrow> out
      | Some x \<Rightarrow> (fst out @ ''| '' @ label @ '' | '' @ shown places x @ rest_of_row @ [LF],
          places))"

definition report_rows :: "(nat \<Rightarrow> real \<Rightarrow> string) \<Rightarrow> bench_result
    \<Rightarrow> string \<times> nat" where
  "report_rows shown result =
     fold (\<lambda>(label, name, places, rest_of_row) out. report_row shown label (find_metric result name)
         places rest_of_row out)
       [(''QPS'', ''qps'', 2, ('' | requests/second | '' @ (utf8 [0x6BCF, 0x79D2, 0x67E5, 0x8BE2, 0x6570]) @
           '' |'')),
        ((utf8 [0x9519, 0x8BEF, 0x7387]), ''error_rate'', 2, ('' | % | '' @ (utf8 [0x8BF7, 0x6C42, 0x9519,
            0x8BEF, 0x7387]) @ '' |'')),
        ((utf8 [0x5E73, 0x5747, 0x5EF6, 0x8FDF]), ''avg_latency'', 2, ('' | ms | '' @ (utf8 [0x5E73, 0x5747,
            0x54CD, 0x5E94, 0x65F6, 0x95F4]) @ '' |'')),
        ((''P99'' @ (utf8 [0x5EF6, 0x8FDF])), ''p99_latency'', 2, ('' | ms | 99%'' @ (utf8 [0x5206, 0x4F4D,
            0x54CD, 0x5E94, 0x65F6, 0x95F4]) @ '' |'')),
        ((utf8 [0x7F51, 0x7EDC, 0x541E, 0x5410, 0x91CF]), ''throughput_mbps'', 3, ('' | Mbps | '' @ (utf8
            [0x7F51, 0x7EDC, 0x5E26, 0x5BBD, 0x4F7F, 0x7528]) @ '' |''))] ([], 3)"

datatype assessment = Excellent | Good | Basic | Warning | Problem

definition report_assessment :: "bench_result \<Rightarrow> assessment" where
  "report_assessment result =
     (case find_metric result ''error_rate'' of
        None \<Rightarrow> Problem
      | Some error_rate \<Rightarrow>
          if error_rate < 1 / 10
          then (case find_metric result ''qps'' of
                  None \<Rightarrow> Basic
                | Some qps \<Rightarrow> if qps > 1000 then Excellent else if qps > 100 then Good else Basic)
          else if error_rate < 5 then Warning else Problem)"

fun assessment_line :: "assessment \<Rightarrow> string" where
  "assessment_line Excellent = ((utf8 [0x2705]) @ '' **'' @ (utf8 [0x4F18, 0x79C0, 0x6027, 0x80FD]) @
      ''**: '' @ (utf8 [0x9AD8, 0x541E, 0x5410, 0x91CF, 0xFF0C, 0x4F4E, 0x9519, 0x8BEF, 0x7387, 0xFF0C,
      0x9002, 0x5408, 0x751F, 0x4EA7, 0x73AF, 0x5883, 0x3002]))"
| "assessment_line Good = ((utf8 [0x2713]) @ '' **'' @ (utf8 [0x826F, 0x597D, 0x6027, 0x80FD]) @ ''**: '' @
    (utf8 [0x4E2D, 0x7B49, 0x541E, 0x5410, 0x91CF, 0xFF0C, 0x4F4E, 0x9519, 0x8BEF, 0x7387, 0xFF0C, 0x6EE1,
    0x8DB3, 0x4E00, 0x822C, 0x9700, 0x6C42, 0x3002]))"
| "assessment_line Basic = ((utf8 [0x26A0]) @ '' **'' @ (utf8 [0x57FA, 0x7840, 0x6027, 0x80FD]) @ ''**: '' @
    (utf8 [0x4F4E, 0x541E, 0x5410, 0x91CF, 0xFF0C, 0x4F46, 0x9519, 0x8BEF, 0x7387, 0x4F4E, 0xFF0C, 0x9002,
    0x5408, 0x6D4B, 0x8BD5, 0x73AF, 0x5883, 0x3002]))"
| "assessment_line Warning = ((utf8 [0x26A0]) @ '' **'' @ (utf8 [0x9700, 0x8981, 0x6CE8, 0x610F]) @ ''**: ''
    @ (utf8 [0x9519, 0x8BEF, 0x7387, 0x8F83, 0x9AD8, 0xFF0C, 0x5EFA, 0x8BAE, 0x68C0, 0x67E5, 0x670D, 0x52A1,
    0x5668, 0x72B6, 0x6001, 0x3002]))"
| "assessment_line Problem = ((utf8 [0x274C]) @ '' **'' @ (utf8 [0x6027, 0x80FD, 0x95EE, 0x9898]) @ ''**: ''
    @ (utf8 [0x9AD8, 0x9519, 0x8BEF, 0x7387, 0xFF0C, 0x9700, 0x8981, 0x7ACB, 0x5373, 0x6392, 0x67E5, 0x3002]))"

fun advice_lines :: "assessment \<Rightarrow> string list" where
  "advice_lines Excellent = [(''- '' @ (utf8 [0x5F53, 0x524D, 0x914D, 0x7F6E, 0x6027, 0x80FD, 0x4F18, 0x79C0,
      0xFF0C, 0x65E0, 0x9700, 0x8C03, 0x6574, 0x3002])), (''- '' @ (utf8 [0x53EF, 0x4EE5, 0x8003, 0x8651,
      0x589E, 0x52A0, 0x5E76, 0x53D1, 0x8FDE, 0x63A5, 0x6570, 0x4EE5, 0x6D4B, 0x8BD5, 0x6781, 0x9650, 0x6027,
      0x80FD, 0x3002]))]"
| "advice_lines Good = [(''- '' @ (utf8 [0x6027, 0x80FD, 0x826F, 0x597D, 0xFF0C, 0x53EF, 0x6EE1, 0x8DB3,
    0x5927, 0x591A, 0x6570, 0x5E94, 0x7528, 0x573A, 0x666F, 0x3002])), (''- '' @ (utf8 [0x5982, 0x9700,
    0x66F4, 0x9AD8, 0x541E, 0x5410, 0x91CF, 0xFF0C, 0x53EF, 0x4F18, 0x5316, 0x670D, 0x52A1, 0x5668, 0x914D,
    0x7F6E, 0x6216, 0x4EE3, 0x7801, 0x3002]))]"
| "advice_lines Warning = [(''- '' @ (utf8 [0x68C0, 0x67E5, 0x670D, 0x52A1, 0x5668, 0x8D44, 0x6E90, 0x4F7F,
    0x7528, 0x60C5, 0x51B5, 0xFF08]) @ ''CPU'' @ (utf8 [0x3001, 0x5185, 0x5B58, 0xFF09, 0x3002])), (''- '' @
    (utf8 [0x68C0, 0x67E5, 0x7F51, 0x7EDC, 0x8FDE, 0x63A5, 0x548C, 0x5E26, 0x5BBD, 0x9650, 0x5236, 0x3002])),
     (''- '' @ (utf8 [0x8003, 0x8651, 0x8C03, 0x6574, 0x5E76, 0x53D1, 0x8FDE, 0x63A5, 0x6570, 0x6216, 0x8BF7,
         0x6C42, 0x9891, 0x7387, 0x3002]))]"
| "advice_lines a = [(''- '' @ (utf8 [0x7ACB, 0x5373, 0x68C0, 0x67E5, 0x670D, 0x52A1, 0x5668, 0x65E5, 0x5FD7,
    0x548C, 0x9519, 0x8BEF, 0x4FE1, 0x606F, 0x3002])), (''- '' @ (utf8 [0x9A8C, 0x8BC1, 0x670D, 0x52A1,
    0x5668, 0x914D, 0x7F6E, 0x548C, 0x8D44, 0x6E90, 0x9650, 0x5236, 0x3002])),
     (''- '' @ (utf8 [0x964D, 0x4F4E, 0x5E76, 0x53D1, 0x8FDE, 0x63A5, 0x6570, 0x8FDB, 0x884C, 0x6D4B, 0x8BD5,
         0x3002]))]"

definition latency_line :: "bench_result \<Rightarrow> string list" where
  "latency_line result =
     (case find_metric result ''p99_latency'' of
        None \<Rightarrow> []
      | Some p99 \<Rightarrow>
          if p99 > 1000 then [((utf8 [0x26A0]) @ '' **'' @ (utf8 [0x9AD8, 0x5EF6, 0x8FDF, 0x8B66, 0x544A]) @
              ''**: P99'' @ (utf8 [0x5EF6, 0x8FDF, 0x8D85, 0x8FC7]) @ ''1'' @ (utf8 [0x79D2, 0xFF0C, 0x53EF,
              0x80FD, 0x5F71, 0x54CD, 0x7528, 0x6237, 0x4F53, 0x9A8C, 0x3002]))]
          else if p99 > 100 then [((utf8 [0x26A0]) @ '' **'' @ (utf8 [0x4E2D, 0x7B49, 0x5EF6, 0x8FDF]) @
              ''**: P99'' @ (utf8 [0x5EF6, 0x8FDF, 0x8D85, 0x8FC7]) @ ''100'' @ (utf8 [0x6BEB, 0x79D2,
              0xFF0C, 0x5EFA, 0x8BAE, 0x4F18, 0x5316, 0x3002]))] else [])"

definition report_overview :: "(nat \<Rightarrow> real \<Rightarrow> string) \<Rightarrow> bench_result
    \<Rightarrow> bench_config \<Rightarrow> string list" where
  "report_overview shown result config =
     [(''# '' @ (utf8 [0x57FA, 0x51C6, 0x6D4B, 0x8BD5, 0x62A5, 0x544A])), [], (''## '' @ (utf8 [0x6D4B,
         0x8BD5, 0x6982, 0x89C8])), [],
      (''- **'' @ (utf8 [0x6D4B, 0x8BD5, 0x540D, 0x79F0]) @ ''**: '') @ br_name result,
      (''- **'' @ (utf8 [0x5F00, 0x59CB, 0x65F6, 0x95F4]) @ ''**: '') @ iso_time (br_start_time result),
      (''- **'' @ (utf8 [0x7ED3, 0x675F, 0x65F6, 0x95F4]) @ ''**: '') @ iso_time (br_end_time result),
      (''- **'' @ (utf8 [0x6301, 0x7EED, 0x65F6, 0x95F4]) @ ''**: '') @ shown 3 (br_duration_seconds result)
          @ ('' '' @ (utf8 [0x79D2])),
      (''- **'' @ (utf8 [0x5E76, 0x53D1, 0x8FDE, 0x63A5, 0x6570]) @ ''**: '') @ dec_int
          (bc_concurrent_connections config),
      (''- **'' @ (utf8 [0x670D, 0x52A1, 0x5668]) @ ''**: '') @ bc_server_host config @ '':'' @ dec_int
          (bc_server_port config),
      (''- **'' @ (utf8 [0x8BF7, 0x6C42, 0x8DEF, 0x5F84]) @ ''**: '') @ bc_request_path config,
      (''- **'' @ (utf8 [0x6D4B, 0x8BD5, 0x72B6, 0x6001]) @ ''**: '') @ (if br_success result then ((utf8
          [0x2705]) @ '' '' @ (utf8 [0x6210, 0x529F])) else ((utf8 [0x274C]) @ '' '' @ (utf8 [0x5931,
          0x8D25])))]
     @ (if br_error_message result \<noteq> [] then [(''- **'' @ (utf8 [0x9519, 0x8BEF, 0x4FE1, 0x606F]) @
         ''**: '') @ br_error_message result] else [])
     @ [[]]"

definition report_latencies :: "(real \<Rightarrow> string) \<Rightarrow> bench_result \<Rightarrow> string
    list" where
  "report_latencies show_places result =
     (case map (find_metric result) [''p50_latency'', ''p90_latency'', ''p95_latency'', ''p99_latency'',
         ''p999_latency''] of
        [Some p50, Some p90, Some p95, Some p99, Some p999] \<Rightarrow>
          [(''## '' @ (utf8 [0x5EF6, 0x8FDF, 0x5206, 0x5E03])), [],
           ''- **P50**: '' @ show_places p50 @ '' ms'',
           ''- **P90**: '' @ show_places p90 @ '' ms'',
           ''- **P95**: '' @ show_places p95 @ '' ms'',
           ''- **P99**: '' @ show_places p99 @ '' ms'',
           ''- **P99.9**: '' @ show_places p999 @ '' ms'']
          @ (case (find_metric result ''min_latency'', find_metric result ''max_latency'') of
               (Some lo, Some hi) \<Rightarrow> [(''- **'' @ (utf8 [0x8303, 0x56F4]) @ ''**: '') @
                   show_places lo @ '' - '' @ show_places hi @ '' ms'']
             | _ \<Rightarrow> [])
          @ (case find_metric result ''stddev_latency'' of
               Some s \<Rightarrow> [(''- **'' @ (utf8 [0x6807, 0x51C6, 0x5DEE]) @ ''**: '') @ show_places s
                   @ '' ms''] | None \<Rightarrow> [])
          @ [[]]
      | _ \<Rightarrow> [])"

definition report_requests :: "(nat \<Rightarrow> real \<Rightarrow> string) \<Rightarrow> bench_result
    \<Rightarrow> string list" where
  "report_requests shown result =
     (case map (find_metric result) [''total_requests'', ''successful_requests'', ''failed_requests''] of
        [Some all_requests, Some successful, Some failed] \<Rightarrow>
          [(''## '' @ (utf8 [0x8BF7, 0x6C42, 0x7EDF, 0x8BA1])), [],
           (''- **'' @ (utf8 [0x603B, 0x8BF7, 0x6C42, 0x6570]) @ ''**: '') @ dec_int
               \<lfloor>all_requests\<rfloor>,
           (''- **'' @ (utf8 [0x6210, 0x529F, 0x8BF7, 0x6C42]) @ ''**: '') @ dec_int
               \<lfloor>successful\<rfloor>,
           (''- **'' @ (utf8 [0x5931, 0x8D25, 0x8BF7, 0x6C42]) @ ''**: '') @ dec_int \<lfloor>failed\<rfloor>,
           (''- **'' @ (utf8 [0x6210, 0x529F, 0x7387]) @ ''**: '') @ shown 2 (if all_requests > 0 then
               successful / all_requests * 100 else 0) @ ''%'',
           []]
      | _ \<Rightarrow> [])"

definition GenerateMarkdownReport ::
  "(nat \<Rightarrow> real \<Rightarrow> string) \<Rightarrow> int \<Rightarrow> bench_result \<Rightarrow>
      bench_config \<Rightarrow> string" where
  "GenerateMarkdownReport shown now result config =
     (let lines = (\<lambda>ls. concat (map (\<lambda>l. l @ [LF]) ls));
          (rows, places) = report_rows shown result;
          verdict = report_assessment result
      in lines (report_overview shown result config
            @ [(''## '' @ (utf8 [0x5173, 0x952E, 0x6027, 0x80FD, 0x6307, 0x6807])), [], (''| '' @ (utf8
                [0x6307, 0x6807]) @ '' | '' @ (utf8 [0x503C]) @ '' | '' @ (utf8 [0x5355, 0x4F4D]) @ '' | '' @
                (utf8 [0x63CF, 0x8FF0]) @ '' |''), ''|------|----|------|------|''])
         @ rows
         @ lines ([[]] @ report_latencies (shown places) result @ report_requests shown result
            @ [(''## '' @ (utf8 [0x6027, 0x80FD, 0x8BC4, 0x4F30])), [], assessment_line verdict] @
                latency_line result @ [[], (''## '' @ (utf8 [0x5EFA, 0x8BAE])), []]
            @ advice_lines verdict
            @ [(''## '' @ (utf8 [0x751F, 0x6210, 0x6587, 0x4EF6])), [], (''- `result.json`: '' @ (utf8
                [0x5B8C, 0x6574]) @ ''JSON'' @ (utf8 [0x683C, 0x5F0F, 0x7ED3, 0x679C])),
                (''- `metadata.json`: '' @ (utf8 [0x6D4B, 0x8BD5, 0x5143, 0x6570, 0x636E])),
               (''- `metrics.csv`: '' @ (utf8 [0x6307, 0x6807]) @ ''CSV'' @ (utf8 [0x6587, 0x4EF6])),
                   (''- `metrics_grouped.csv`: '' @ (utf8 [0x5206, 0x7EC4, 0x6307, 0x6807]) @ ''CSV'' @ (utf8
                   [0x6587, 0x4EF6]))]
            @ (if br_time_series result \<noteq> [] then [(''- `time_series.csv`: '' @ (utf8 [0x65F6, 0x95F4,
                0x5E8F, 0x5217, 0x6570, 0x636E]))] else [])
            @ [(''- `report.md`: '' @ (utf8 [0x672C, 0x62A5, 0x544A, 0x6587, 0x4EF6])), [], ''---'', [],
               (''*'' @ (utf8 [0x62A5, 0x544A, 0x751F, 0x6210, 0x65F6, 0x95F4]) @ '': '') @ iso_time now @
                   ''*'', (''*'' @ (utf8 [0x4F7F, 0x7528]) @ '' TinyWebServer '' @ (utf8 [0x57FA, 0x51C6,
                   0x6D4B, 0x8BD5, 0x6846, 0x67B6, 0x751F, 0x6210]) @ ''*'')]))"

text \<open>A result without an error rate of its own, as three of the five benchmarks make them, is reported
    as one
  with many errors; one with few requests and no errors gets the advice for a broken server.\<close>

lemma report_of_concurrent_run:
  "br_metrics r = concurrent_run t counts u attempted done_ok initial final lost history \<Longrightarrow>
      report_assessment r = Problem"
  by (cases counts)
    (simp add: report_assessment_def find_metric_def concurrent_run_def concurrent_metrics_def
        concurrent_parts Let_def)

lemma report_of_memory_run:
  "br_metrics r = memory_metrics a b c mo ms \<Longrightarrow> report_assessment r = Problem"
proof -
  have "List.find (\<lambda>m. mt_name m = ''error_rate'') (memory_metrics a b c mo ms) = None"
    by (cases a; cases b; cases c) (simp add: find_None_iff memory_metrics_def Let_def ball_Un)
  then show "br_metrics r = memory_metrics a b c mo ms \<Longrightarrow> report_assessment r = Problem"
    by (simp add: report_assessment_def find_metric_def)
qed

subsection \<open>The command line\<close>

text \<open>What \<open>main\<close> does with its arguments: print something and end, or run a benchmark;
    \<open>None\<close> is an exception
  of \<open>stoi\<close> or \<open>stod\<close> that nothing catches.\<close>

datatype runner =
    Exits int
  | Runs string bench_config string string
  | Compares string string

record run_args =
  ra_config :: bench_config
  ra_type :: string
  ra_config_file :: string
  ra_output_dir :: string
  ra_baseline_dir :: string
  ra_port_specified :: bool

text \<open>The loop over the arguments; \<open>Inl\<close> is an early return.\<close>

fun parse_run_args :: "(string \<Rightarrow> real option) \<Rightarrow> string list \<Rightarrow> run_args
    \<Rightarrow> (int + run_args) option" where
  "parse_run_args stod [] a = Some (Inr a)"
| "parse_run_args stod [arg] a = Some (if arg = ''--help'' \<or> arg = ''-h'' then Inl 0 else Inr a)"
| "parse_run_args stod (arg # v # rest) a =
     (let set = (\<lambda>f. parse_run_args stod rest (ra_config_update f a))
      in if arg = ''--type'' then parse_run_args stod rest (a\<lparr>ra_type := v\<rparr>)
         else if arg = ''--config'' then parse_run_args stod rest (a\<lparr>ra_config_file := v\<rparr>)
         else if arg = ''--output'' then parse_run_args stod rest (a\<lparr>ra_output_dir := v\<rparr>)
         else if arg = ''--baseline'' then parse_run_args stod rest (a\<lparr>ra_baseline_dir := v\<rparr>)
         else if arg = ''--duration''
         then (case stod v of None \<Rightarrow> None | Some d \<Rightarrow> set (bc_duration_seconds_update
             (\<lambda>_. d)))
         else if arg = ''--connections''
         then (case stoi v of None \<Rightarrow> None | Some n \<Rightarrow> set
             (bc_concurrent_connections_update (\<lambda>_. n)))
         else if arg = ''--host'' then set (bc_server_host_update (\<lambda>_. v))
         else if arg = ''--port''
         then (case stoi v of
                 None \<Rightarrow> None
               | Some n \<Rightarrow> parse_run_args stod rest
                             (ra_config_update (bc_server_port_update (\<lambda>_. n))
                                 a\<lparr>ra_port_specified := True\<rparr>))
         else if arg = ''--path'' then set (bc_request_path_update (\<lambda>_. v))
         else if arg = ''--method'' then set (bc_request_method_update (\<lambda>_. v))
         else if arg = ''--help'' \<or> arg = ''-h'' then Some (Inl 0)
         else parse_run_args stod (v # rest) a)"

definition kBenchmarkRegistry :: "string list" where
  "kBenchmarkRegistry = [''qps'', ''latency'', ''memory'', ''concurrent'', ''step_stress'']"

definition CreateBenchmark :: "string \<Rightarrow> string option" where
  "CreateBenchmark t = (if t \<in> set kBenchmarkRegistry then Some t else None)"

definition new_run_args :: run_args where
  "new_run_args = \<lparr>ra_config = default_bench_config, ra_type = ''qps'', ra_config_file = [],
      ra_output_dir = [],
     ra_baseline_dir = [], ra_port_specified = False\<rparr>"

definition run_command ::
  "(string \<Rightarrow> real option) \<Rightarrow> (string \<Rightarrow> rjson option option) \<Rightarrow>
      string \<Rightarrow> string list \<Rightarrow> runner option" where
  "run_command stod files timestamp args =
     (case parse_run_args stod args new_run_args of
        None \<Rightarrow> None
      | Some (Inl code) \<Rightarrow> Some (Exits code)
      | Some (Inr a) \<Rightarrow>
          let config = (if \<not> ra_port_specified a \<and> bc_server_port (ra_config a) = 8080
                        then ra_config a\<lparr>bc_server_port := 8081\<rparr> else ra_config a);
              loaded = config_LoadFromFile (files (ra_config_file a));
              config = (if ra_config_file a \<noteq> [] then loaded
                        else config\<lparr>bc_name := ra_type a @ ''_benchmark'',
                               bc_description := (utf8 [0x547D, 0x4EE4, 0x884C, 0x8FD0, 0x884C, 0x7684]) @
                                   ra_type a @ (utf8 [0x57FA, 0x51C6, 0x6D4B, 0x8BD5])\<rparr>);
              output_dir = (if ra_output_dir a = [] then ''benchmark_results/'' @ timestamp @ ''_'' @ take 8
                  ''unknown''
                            else ra_output_dir a)
          in if ra_config_file a \<noteq> [] \<and> (bc_name loaded = [] \<or> bc_name loaded = ''error'')
              then Some (Exits 1)
             else if CreateBenchmark (ra_type a) = None then Some (Exits 1)
             else if bench_Validate config \<noteq> [] then Some (Exits 1)
             else Some (Runs (ra_type a) config output_dir (ra_baseline_dir a)))"

fun parse_compare_args :: "string list \<Rightarrow> string \<times> string \<Rightarrow> string \<times>
    string" where
  "parse_compare_args (arg # v # rest) (baseline_dir, current_dir) =
     (if arg = ''--baseline'' then parse_compare_args rest (v, current_dir)
      else if arg = ''--current'' then parse_compare_args rest (baseline_dir, v)
      else parse_compare_args (v # rest) (baseline_dir, current_dir))"
| "parse_compare_args args dirs = dirs"

definition runner_main ::
  "(string \<Rightarrow> real option) \<Rightarrow> (string \<Rightarrow> rjson option option) \<Rightarrow>
      string \<Rightarrow> string list \<Rightarrow> runner option" where
  "runner_main stod files timestamp argv =
     (case argv of
        [] \<Rightarrow> Some (Exits 1)
      | command # args \<Rightarrow>
          if command = ''help'' \<or> command = ''-h'' \<or> command = ''--help'' then Some (Exits 0)
          else if command = ''list'' then Some (Exits 0)
          else if command = ''run'' then run_command stod files timestamp args
          else if command = ''compare''
          then (if length args < 2 then Some (Exits 1)
                else case parse_compare_args args ([], []) of (baseline_dir, current_dir) \<Rightarrow>
                       if baseline_dir = [] \<or> current_dir = [] then Some (Exits 1)
                       else Some (Compares baseline_dir current_dir))
          else Some (Exits 1))"

text \<open>With a configuration file, every other option about the run is ignored.\<close>

lemma configuration_file_wins:
  assumes "run_command stod files timestamp args = Some (Runs t c d b)"
    and "parse_run_args stod args new_run_args = Some (Inr a)" and "ra_config_file a \<noteq> []"
  shows "c = config_LoadFromFile (files (ra_config_file a)) \<and> bench_Validate c = []"
  using assms by (auto simp: run_command_def Let_def split: if_splits)

text \<open>The example of the help text for \<open>compare\<close> does not compare: it lacks an
    argument.\<close>

lemma help_example_fails:
  "runner_main stod files timestamp [''compare'', ''--baseline'', ''benchmark_results/baseline''] = Some
      (Exits 1)"
  by (simp add: runner_main_def)

end
