(* ===== verification/BenchClient.thy ===== *)
theory BenchClient
  imports BenchRuns HttpResponse
begin

text \<open>
  The clients of the benchmarks: the class \<open>HttpClient\<close> of benchmark/src/benchmark_qps.cpp and
      its variants in
  benchmark_latency.cpp, benchmark_step_stress.cpp and benchmark_memory.cpp, against the server's own models
  of requests and responses.

  What the system answers to one call is an argument: a script of results of \<open>recv\<close>, whose end
      means that the
  client waits. The clock and the log are left out; a field of a result that is not assigned is
      \<open>None\<close>.
\<close>

subsection \<open>Connecting\<close>

record http_client =
  hc_host :: string
  hc_keep_alive :: bool
  hc_fd :: int

record connect_answers =
  ca_socket :: int
  ca_address_ok :: bool
  ca_connects :: bool

text \<open>The answer, the client, and the descriptors that were closed.\<close>

definition client_Connect :: "connect_answers \<Rightarrow> http_client \<Rightarrow> bool \<times>
    http_client \<times> int list" where
  "client_Connect os c =
     (let c = c\<lparr>hc_fd := ca_socket os\<rparr>
      in if hc_fd c < 0 then (False, c, [])
         else if \<not> ca_address_ok os then (False, c\<lparr>hc_fd := - 1\<rparr>, [hc_fd c])
         else if \<not> ca_connects os then (False, c\<lparr>hc_fd := - 1\<rparr>, [hc_fd c])
         else (True, c, []))"

definition client_Close :: "http_client \<Rightarrow> http_client \<times> int list" where
  "client_Close c = (if hc_fd c \<ge> 0 then (c\<lparr>hc_fd := - 1\<rparr>, [hc_fd c]) else (c, []))"

definition new_client :: "connect_answers \<Rightarrow> string \<Rightarrow> bool \<Rightarrow> http_client
    \<times> int list" where
  "new_client os host keep_alive =
     snd (client_Connect os \<lparr>hc_host = host, hc_keep_alive = keep_alive, hc_fd = - 1\<rparr>)"

text \<open>A client holds the socket it made, or has closed it.\<close>

lemma connect_leaks_nothing:
  "client_Connect os c = (ok, c', shut) \<Longrightarrow> 0 \<le> ca_socket os \<Longrightarrow>
   (ok \<longrightarrow> hc_fd c' = ca_socket os \<and> shut = []) \<and> (\<not> ok \<longrightarrow> hc_fd
       c' = - 1 \<and> shut = [ca_socket os])"
  by (auto simp: client_Connect_def Let_def split: if_splits)

subsection \<open>The request\<close>

definition request_text :: "http_client \<Rightarrow> string \<Rightarrow> string \<Rightarrow> string
    \<Rightarrow> string" where
  "request_text c meth path body =
     meth @ '' '' @ path @ '' HTTP/1.1'' @ [CR, LF]
     @ ''Host: '' @ hc_host c @ [CR, LF]
     @ (if body \<noteq> [] then ''Content-Length: '' @ dec (length body) @ [CR, LF] else [])
     @ (if \<not> hc_keep_alive c then ''Connection: close'' @ [CR, LF] else ''Connection: keep-alive'' @
         [CR, LF])
     @ [CR, LF]
     @ (if body \<noteq> [] then body else [])"

definition client_fields :: "http_client \<Rightarrow> string \<Rightarrow> headers" where
  "client_fields c body =
     (''Host'', hc_host c) # (if body \<noteq> [] then [(''Content-Length'', dec (length body))] else [])
     @ [(''Connection'', if hc_keep_alive c then ''keep-alive'' else ''close'')]"

lemma request_text_renders:
  "request_text c meth path body = render_request meth path ''HTTP/1.1'' (client_fields c body) @ body"
  by (simp add: request_text_def render_request_def client_fields_def)

subsection \<open>The response\<close>

datatype recv_answer = Recv string | Recv_eof | Recv_again | Recv_error string

text \<open>Whether what has been received is taken for a whole response; \<open>None\<close> where
    \<open>stoi\<close> throws. The
  comparison is of 64 bits without sign.\<close>

definition response_done :: "string \<Rightarrow> bool option" where
  "response_done response =
     (case find_sub [CR, LF, CR, LF] response of
        None \<Rightarrow> Some False
      | Some header_end \<Rightarrow>
          (let hs = take header_end response
           in case find_sub ''Content-Length: '' hs of
                None \<Rightarrow> Some True
              | Some content_length_pos \<Rightarrow>
                  (let cl_start = content_length_pos + 16;
                       cl_str = (case find_sub [CR, LF] (drop cl_start hs) of
                                   Some n \<Rightarrow> take n (drop cl_start hs) | None \<Rightarrow> drop
                                       cl_start hs)
                   in map_option (\<lambda>content_length.
                        length response - header_end - 4 \<ge> nat (content_length mod 2 ^ 64)) (stoi
                            cl_str))))"

datatype receive_end =
    Complete string
  | Ended string bool
  | Broken string
  | Threw_stoi
  | Waiting string

text \<open>The loop of the first client, with the answers that are left; \<open>Ended\<close> is a timeout
    (\<open>False\<close>) or the end of
  the stream.\<close>

fun qps_receive :: "recv_answer list \<Rightarrow> string \<Rightarrow> receive_end \<times> recv_answer
    list" where
  "qps_receive [] response = (Waiting response, [])"
| "qps_receive (Recv_again # rs) response = (Ended response False, rs)"
| "qps_receive (Recv_error e # rs) response = (Broken e, rs)"
| "qps_receive (Recv_eof # rs) response = (Ended response True, rs)"
| "qps_receive (Recv bs # rs) response =
     (case response_done (response @ bs) of
        None \<Rightarrow> (Threw_stoi, rs)
      | Some True \<Rightarrow> (Complete (response @ bs), rs)
      | Some False \<Rightarrow> qps_receive rs (response @ bs))"

record request_result =
  rr_success :: bool
  rr_size :: "nat option"
  rr_status :: "int option"
  rr_error :: string

definition failed_result :: "string \<Rightarrow> request_result" where
  "failed_result e = \<lparr>rr_success = False, rr_size = None, rr_status = None, rr_error = e\<rparr>"

definition qps_status :: "string \<Rightarrow> int option" where
  "qps_status response =
     (if length response \<ge> 12
      then let status_line = (case find_sub [CR, LF] response of Some n \<Rightarrow> take n response | None
          \<Rightarrow> response)
           in if length status_line \<ge> 12 \<and> take 5 status_line = ''HTTP/''
              then Some (case stoi (take 3 (drop 9 status_line)) of Some code \<Rightarrow> code | None
                  \<Rightarrow> 0) else None
      else None)"

text \<open>One request: what it was answered, the client, the answers that are left; \<open>None\<close> for
    an exception
  and for a client that waits. \<open>sent\<close> is the text of the error of \<open>send\<close>.\<close>

definition connected :: "connect_answers \<Rightarrow> http_client \<Rightarrow> bool \<times> http_client"
    where
  "connected os c = (if hc_fd c < 0 then (case client_Connect os c of (ok, c, _) \<Rightarrow> (ok, c)) else
      (True, c))"

definition qps_SendRequest ::
  "connect_answers \<Rightarrow> string option \<Rightarrow> recv_answer list \<Rightarrow> http_client
      \<Rightarrow>
   (request_result \<times> http_client \<times> recv_answer list) option" where
  "qps_SendRequest os sent rs c =
     (case connected os c of
        (False, c) \<Rightarrow> Some (failed_result (utf8 [0x8FDE, 0x63A5, 0x5931, 0x8D25]), c, rs)
      | (True, c) \<Rightarrow>
          (case sent of
             Some e \<Rightarrow> Some (failed_result (((utf8 [0x53D1, 0x9001, 0x5931, 0x8D25]) @ '': '') @
                 e), fst (client_Close c), rs)
           | None \<Rightarrow>
               let finish = (\<lambda>c response rest. Some
                      (\<lparr>rr_success = True, rr_size = Some (length response), rr_status = qps_status
                          response, rr_error = []\<rparr>,
                       if \<not> hc_keep_alive c \<or> hc_fd c < 0 then fst (client_Close c) else c, rest))
               in case qps_receive rs [] of
                    (Complete response, rest) \<Rightarrow> finish c response rest
                  | (Ended response eof, rest) \<Rightarrow>
                      finish (if eof \<and> \<not> hc_keep_alive c then fst (client_Close c) else c) response
                          rest
                  | (Broken e, rest) \<Rightarrow> Some (failed_result (((utf8 [0x63A5, 0x6536, 0x5931,
                      0x8D25]) @ '': '') @ e), fst (client_Close c), rest)
                  | _ \<Rightarrow> None))"

text \<open>The client of the latency benchmark receives once; \<open>again\<close> is the text of the error
    of a timeout.\<close>

definition latency_SendRequest ::
  "string \<Rightarrow> connect_answers \<Rightarrow> string option \<Rightarrow> recv_answer list
      \<Rightarrow> http_client \<Rightarrow>
   (request_result \<times> http_client \<times> recv_answer list) option" where
  "latency_SendRequest again os sent rs c =
     (case connected os c of
        (False, c) \<Rightarrow> Some (failed_result (utf8 [0x8FDE, 0x63A5, 0x5931, 0x8D25]), c, rs)
      | (True, c) \<Rightarrow>
          (case sent of
             Some e \<Rightarrow> Some (failed_result (((utf8 [0x53D1, 0x9001, 0x5931, 0x8D25]) @ '': '') @
                 e), fst (client_Close c), rs)
           | None \<Rightarrow>
               let finish = (\<lambda>c n rest. Some
                      (\<lparr>rr_success = True, rr_size = n, rr_status = None, rr_error = []\<rparr>,
                       if \<not> hc_keep_alive c \<or> hc_fd c < 0 then fst (client_Close c) else c, rest))
               in case rs of
                    [] \<Rightarrow> None
                  | Recv_again # rest \<Rightarrow>
                      Some (failed_result (((utf8 [0x63A5, 0x6536, 0x5931, 0x8D25]) @ '': '') @ again), fst
                          (client_Close c), rest)
                  | Recv_error e # rest \<Rightarrow> Some (failed_result (((utf8 [0x63A5, 0x6536, 0x5931,
                      0x8D25]) @ '': '') @ e), fst (client_Close c), rest)
                  | Recv_eof # rest \<Rightarrow> finish (if \<not> hc_keep_alive c then fst (client_Close c)
                      else c) None rest
                  | Recv bs # rest \<Rightarrow> finish c (Some (length bs)) rest))"

text \<open>That of the stages receives until the stream ends or the timeout comes.\<close>

fun step_receive :: "recv_answer list \<Rightarrow> string \<Rightarrow> (string \<times> recv_answer list)
    option" where
  "step_receive [] response = None"
| "step_receive (Recv bs # rs) response = step_receive rs (response @ bs)"
| "step_receive (r # rs) response = Some (response, rs)"

text \<open>\<open>Inl\<close> is an exception of \<open>stoi\<close>.\<close>

definition step_status :: "string \<Rightarrow> unit + int option" where
  "step_status response =
     (case find_char (CHR '' '') response of
        None \<Rightarrow> Inr None
      | Some space_pos \<Rightarrow>
          (case find_char (CHR '' '') (drop (space_pos + 1) response) of
             None \<Rightarrow> Inr None
           | Some n \<Rightarrow>
               (case stoi (take n (drop (space_pos + 1) response)) of None \<Rightarrow> Inl () | Some v
                   \<Rightarrow> Inr (Some v))))"

definition step_SendRequest ::
  "connect_answers \<Rightarrow> string option \<Rightarrow> recv_answer list \<Rightarrow> http_client
      \<Rightarrow>
   (request_result \<times> http_client \<times> recv_answer list) option" where
  "step_SendRequest os sent rs c =
     (case connected os c of
        (False, c) \<Rightarrow> Some (failed_result (utf8 [0x8FDE, 0x63A5, 0x5931, 0x8D25]), c, rs)
      | (True, c) \<Rightarrow>
          (case sent of
             Some e \<Rightarrow> Some (failed_result (((utf8 [0x53D1, 0x9001, 0x5931, 0x8D25]) @ '': '') @
                 e), fst (client_Close c), rs)
           | None \<Rightarrow>
               (case step_receive rs [] of
                  None \<Rightarrow> None
                | Some (response, rest) \<Rightarrow>
                    let close = (\<lambda>c. if \<not> hc_keep_alive c then fst (client_Close c) else c);
                        n = Some (length response)
                    in if find_sub ''HTTP/1.1'' response \<noteq> None \<or> find_sub ''HTTP/1.0'' response
                        \<noteq> None
                       then (case step_status response of
                               Inl _ \<Rightarrow> None
                             | Inr code \<Rightarrow>
                                 Some (\<lparr>rr_success = True, rr_size = n, rr_status = code, rr_error =
                                     []\<rparr>, close c, rest))
                       else Some (\<lparr>rr_success = False, rr_size = n, rr_status = None, rr_error =
                           ((utf8 [0x65E0, 0x6548, 0x7684]) @ ''HTTP'' @ (utf8 [0x54CD, 0x5E94]))\<rparr>,
                              close (fst (client_Close c)), rest))))"

text \<open>That of the memory benchmark ignores what it receives.\<close>

definition simple_SendRequest ::
  "connect_answers \<Rightarrow> bool \<Rightarrow> recv_answer list \<Rightarrow> http_client \<Rightarrow>
      (bool \<times> http_client \<times> recv_answer list) option" where
  "simple_SendRequest os send_fails rs c =
     (case connected os c of
        (False, c) \<Rightarrow> Some (False, c, rs)
      | (True, c) \<Rightarrow>
          if send_fails then Some (False, fst (client_Close c), rs)
          else (case rs of [] \<Rightarrow> None | r # rest \<Rightarrow> Some (True, fst (client_Close c),
              rest)))"

subsection \<open>Client and server\<close>

text \<open>The server reads the request of a client as it was meant.\<close>

lemma server_reads_client_request:
  assumes "token meth" "token path" "field_ok (''Host'', hc_host c)"
  shows "request_Parse r (request_text c meth path body) =
    (True, r\<lparr>rq_method := meth, rq_path := (if path = ''/'' then ''/index.html'' else path),
       rq_version := ''HTTP/1.1'', rq_headers := fold set_header (client_fields c body) (rq_headers r),
       rq_finished := True\<rparr>)"
proof -
  have "token ''HTTP/1.1''" by (simp add: token_def isspace_def)
  moreover have "\<forall>kv \<in> set (client_fields c body). field_ok kv"
    using assms(3) length_field connection_field by (simp add: client_fields_def)
  ultimately show ?thesis
    unfolding request_text_renders using request_Parse_render(1) assms(1,2) by simp
qed

lemma stoi_dec: "n < 2 ^ 31 \<Longrightarrow> stoi (dec n) = Some (int n)"
proof -
  assume n: "n < 2 ^ 31"
  have d: "c \<in> set (dec n) \<Longrightarrow> isdigit c" for c using dec_digits by blast
  have nb: "isdigit c \<Longrightarrow> \<not> isspace c \<and> c \<noteq> CHR ''-'' \<and> c \<noteq> CHR
      ''+''" for c
    by (auto simp: isdigit_def isspace_def)
  obtain c cs where cs: "dec n = c # cs" by (cases "dec n") auto
  have all: "takeWhile isdigit (dec n) = dec n" using d by (simp add: takeWhile_eq_all_conv)
  then have tw: "takeWhile isdigit cs = cs" using d[of c] by (simp add: cs)
  have "dropWhile isspace (dec n) = dec n" using d[of c] nb[of c] by (simp add: cs)
  with all have "stoll (dec n) = (if int n < - (2 ^ 63) \<or> int n \<ge> 2 ^ 63 then None else Some (int n))"
    using d[of c] nb[of c] digits_value_dec[of n] by (simp add: stoll_def Let_def cs tw)
  then show ?thesis using n by (simp add: stoi_def)
qed

text \<open>What comes before the length in a header does not look like it.\<close>

lemma find_sub_here [simp]: "p \<noteq> [] \<Longrightarrow> find_sub p (p @ s) = Some 0"
proof -
  have "is_prefix p (p @ s)" by (induction p) simp_all
  then show "p \<noteq> [] \<Longrightarrow> find_sub p (p @ s) = Some 0" by (cases p) simp_all
qed

lemma find_length_line:
  assumes "CHR ''C'' \<notin> set a" "CHR ''C'' \<notin> set t"
  shows "find_sub ''Content-Length: '' (a @ ''Content-Type: '' @ t @ ''Content-Length: '' @ s)
    = Some (length a + 14 + length t)"
proof -
  have "find_sub ''Content-Length: '' ((''ontent-Type: '' @ t) @ ''Content-Length: '' @ s)
      = map_option ((+) (length (''ontent-Type: '' @ t))) (find_sub ''Content-Length: ''
          (''Content-Length: '' @ s))"
    by (rule find_sub_skip) (use assms(2) in simp)
  moreover have "find_sub ''Content-Length: '' (''Content-Length: '' @ s) = Some 0" by (rule find_sub_here) simp
  ultimately have "find_sub ''Content-Length: '' (''Content-Type: '' @ t @ ''Content-Length: '' @ s) = Some
      (14 + length t)"
    by simp
  then show ?thesis using find_sub_skip[OF assms(1), of "''ontent-Length: ''"] by simp
qed

lemma find_first_line: "plain_line l \<Longrightarrow> h = l @ [CR, LF] @ s \<Longrightarrow> find_sub [CR,
    LF] h = Some (length l) \<and> take (length l) h = l"
  using find_sub_skip[of CR l "[LF]" "[CR, LF] @ s"] by (simp add: plain_line_def)

lemma type_has_no_capital: "CHR ''C'' \<notin> set (GetFileType r)"
proof -
  have "\<forall>t \<in> insert ''text/plain'' (snd ` set SUFFIX_TYPE). CHR ''C'' \<notin> set t" by (simp
      add: SUFFIX_TYPE_def)
  then show ?thesis using GetFileType_cases by blast
qed

lemma status_has_no_capital: "CHR ''C'' \<notin> set (''HTTP/1.1 '' @ dec_int code @ '' '' @ status_text code)"
proof -
  have "c \<in> set (dec n) \<Longrightarrow> c \<noteq> CHR ''C''" for c n using dec_digits[of c n] by (auto
      simp: isdigit_def)
  then have "CHR ''C'' \<notin> set (dec_int code)" by (auto simp: dec_int_def)
  moreover have "CHR ''C'' \<notin> set (status_text code)" using status_text_cases[of code] by auto
  ultimately show ?thesis by simp
qed

lemma drop_prefix: "x = p @ s \<Longrightarrow> length p = n \<Longrightarrow> drop n x = s"
  by simp

text \<open>A response as the client sees it: its header, and how its length is read.\<close>

lemma response_header:
  assumes "MakeResponse os r c = Some (r', c')" "rs_code r' \<noteq> 304"
  obtains h where "rs_header_string r' = h @ [CR, LF, CR, LF]"
    "\<And>rest. find_sub [CR, LF, CR, LF] (h @ [CR, LF, CR, LF] @ rest) = Some (length h)"
    "find_sub [CR, LF] (rs_header_string r') = Some (length (''HTTP/1.1 '' @ dec_int (rs_code r') @ '' '' @
        status_text (rs_code r')))"
    "take (length (''HTTP/1.1 '' @ dec_int (rs_code r') @ '' '' @ status_text (rs_code r')))
        (rs_header_string r')
      = ''HTTP/1.1 '' @ dec_int (rs_code r') @ '' '' @ status_text (rs_code r')"
    "\<exists>n w. find_sub ''Content-Length: '' h = Some n \<and> drop (n + 16) h = dec (GetBodyLen r') @
        [CR, LF] @ w"
proof -
  obtain r0 where r0: "r' = AddContent (AddHeader os (AddStateLine r0))" "rs_code r0 \<noteq> 304"
    using assms by (auto simp: MakeResponse_def)
  define l0 where "l0 = ''HTTP/1.1 '' @ dec_int (rs_code r') @ '' '' @ status_text (rs_code r')"
  define h where "h = l0 @ block_tail (map header_line (response_fields r0))"
  have block: "rs_header_string r' @ s = l0 @ block_tail (map header_line (response_fields r0)) @ [CR, LF,
      CR, LF] @ s" for s
    using header_string_block[OF r0(2), of os s] by (simp add: r0(1) l0_def)
  have hs: "rs_header_string r' = h @ [CR, LF, CR, LF]" using block[of "[]"] by (simp add: h_def)
  have pl: "plain_line l0" unfolding l0_def by (rule status_line_plain)
  have end_found: "find_sub [CR, LF, CR, LF] (h @ [CR, LF, CR, LF] @ rest) = Some (length h)" for rest
    using find_header_end[OF pl, of "map header_line (response_fields r0)" rest] response_fields_ok
        plain_header_line
    by (simp add: h_def)
  have "rs_header_string r' = l0 @ [CR, LF] @ drop 2 (block_tail (map header_line (response_fields r0))) @
      [CR, LF, CR, LF]"
    by (simp add: hs h_def response_fields_def block_tail_def)
  note find_first_line[OF pl this]
  then have first: "find_sub [CR, LF] (rs_header_string r') = Some (length l0)" "take (length l0)
      (rs_header_string r') = l0"
    by blast+
  have "\<exists>n w. find_sub ''Content-Length: '' h = Some n \<and> drop (n + 16) h = dec (GetBodyLen r0) @
      [CR, LF] @ w"
  proof -
    define a t w where "a = l0 @ [CR, LF]" and "t = GetFileType r0 @ [CR, LF]"
      and "w = ''Connection: '' @ (if rs_keep_alive r0 then ''keep-alive'' else ''close'')"
    let ?s = "dec (GetBodyLen r0) @ [CR, LF] @ w"
    have h: "h = a @ ''Content-Type: '' @ t @ ''Content-Length: '' @ ?s"
      by (simp add: h_def response_fields_def block_tail_def header_line_def a_def t_def w_def)
    have "CHR ''C'' \<notin> set a" "CHR ''C'' \<notin> set t"
      using status_has_no_capital[of "rs_code r'"] type_has_no_capital[of r0] by (simp_all add: a_def t_def
          l0_def)
    then have "find_sub ''Content-Length: '' h = Some (length a + 14 + length t)" unfolding h by (rule
        find_length_line)
    moreover have "h = (a @ ''Content-Type: '' @ t @ ''Content-Length: '') @ ?s" by (simp only: h append_assoc)
    then have "drop (length a + 14 + length t + 16) h = ?s" by (rule drop_prefix) simp
    ultimately show ?thesis by blast
  qed
  moreover have "GetBodyLen r' = GetBodyLen r0" by (simp add: r0(1))
  ultimately have "\<exists>n w. find_sub ''Content-Length: '' h = Some n \<and> drop (n + 16) h = dec
      (GetBodyLen r') @ [CR, LF] @ w"
    by (simp only:)
  then show ?thesis by (rule that[OF hs end_found first[unfolded l0_def]])
qed

lemma done_when_whole:
  assumes "MakeResponse os r c = Some (r', c')" "rs_code r' \<noteq> 304" "GetBodyLen r' < 2 ^ 31"
  shows "response_done (rs_header_string r' @ rest) = Some (GetBodyLen r' \<le> length rest)"
proof -
  obtain h where h: "rs_header_string r' = h @ [CR, LF, CR, LF]"
    "\<And>rest. find_sub [CR, LF, CR, LF] (h @ [CR, LF, CR, LF] @ rest) = Some (length h)"
    "\<exists>n w. find_sub ''Content-Length: '' h = Some n \<and> drop (n + 16) h = dec (GetBodyLen r') @
        [CR, LF] @ w"
    by (rule response_header[OF assms(1,2)]) blast
  obtain n w where n: "find_sub ''Content-Length: '' h = Some n" "drop (n + 16) h = dec (GetBodyLen r') @
      [CR, LF] @ w"
    using h(3) by blast
  have "CR \<notin> set (dec (GetBodyLen r'))" using dec_digits[of CR] by (auto simp: isdigit_def)
  then have "find_sub [CR, LF] (drop (n + 16) h) = Some (length (dec (GetBodyLen r')))"
    using find_sub_skip[of CR _ "[LF]" "[CR, LF] @ w"] by (simp add: n(2))
  moreover have "take (length (dec (GetBodyLen r'))) (drop (n + 16) h) = dec (GetBodyLen r')" unfolding n(2)
      by simp
  moreover have "take (length h) (h @ [CR, LF, CR, LF] @ rest) = h" by simp
  ultimately have "response_done (h @ [CR, LF, CR, LF] @ rest)
      = map_option (\<lambda>l. length (h @ [CR, LF, CR, LF] @ rest) - length h - 4 \<ge> nat (l mod 2 ^ 64))
          (Some (int (GetBodyLen r')))"
    using stoi_dec[OF assms(3)] by (simp only: response_done_def h(2) n(1) Let_def option.case)
  moreover have "nat (int (GetBodyLen r') mod 2 ^ 64) = GetBodyLen r'" using assms(3) by simp
  ultimately show ?thesis by (simp add: h(1))
qed

lemma undone_before_header_end:
  assumes "MakeResponse os r c = Some (r', c')" "rs_code r' \<noteq> 304" "p @ q = rs_header_string r'" "q
      \<noteq> []"
  shows "response_done p = Some False"
proof -
  obtain h where h: "rs_header_string r' = h @ [CR, LF, CR, LF]"
    "\<And>rest. find_sub [CR, LF, CR, LF] (h @ [CR, LF, CR, LF] @ rest) = Some (length h)"
    by (rule response_header[OF assms(1,2)]) blast
  have "find_sub [CR, LF, CR, LF] p = None"
  proof (cases "find_sub [CR, LF, CR, LF] p")
    case (Some n)
    have "n + 4 \<le> length p" using find_sub_Some[OF Some] by simp
    moreover have "find_sub [CR, LF, CR, LF] (p @ q) = Some n" by (rule find_sub_extend[OF _ Some]) simp
    then have "n = length h" using h(2)[of "[]"] assms(3) h(1) by simp
    moreover have "length p + length q = length h + 4" using arg_cong[OF assms(3), of length] h(1) by simp
    moreover have "0 < length q" using assms(4) by simp
    ultimately show ?thesis by linarith
  qed simp
  then show ?thesis by (simp add: response_done_def)
qed

lemma cut_in_two:
  "p @ q = h @ b \<Longrightarrow> length p < length h \<Longrightarrow> \<exists>d. p @ d = h \<and> d
      \<noteq> []"
  "p @ q = h @ b \<Longrightarrow> \<not> length p < length h \<Longrightarrow> \<exists>d. p = h @ d \<and>
      d @ q = b"
  by (auto simp: append_eq_append_conv2)

lemma receives_whole_response:
  assumes "MakeResponse os r c = Some (r', c')" "rs_code r' \<noteq> 304" "GetBodyLen r' < 2 ^ 31"
    and "length body = GetBodyLen r'"
  shows "list_all (\<lambda>bs. bs \<noteq> []) bss \<Longrightarrow> bss \<noteq> [] \<Longrightarrow> acc @
      concat bss = rs_header_string r' @ body \<Longrightarrow>
    qps_receive (map Recv bss @ later) acc = (Complete (rs_header_string r' @ body), later)"
proof (induction bss arbitrary: acc)
  case (Cons bs bss)
  show ?case
  proof (cases "bss = []")
    case True
    then have "acc @ bs = rs_header_string r' @ body" using Cons.prems(3) by simp
    then show ?thesis using done_when_whole[OF assms(1-3), of body] assms(4) True by simp
  next
    case False
    then obtain q where q: "(acc @ bs) @ q = rs_header_string r' @ body" "q \<noteq> []" "q = concat bss"
      using Cons.prems by (cases bss) auto
    have "response_done (acc @ bs) = Some False"
    proof (cases "length (acc @ bs) < length (rs_header_string r')")
      case True
      from cut_in_two(1)[OF q(1) this] obtain d where "(acc @ bs) @ d = rs_header_string r'" "d \<noteq> []"
          by blast
      then show ?thesis by (rule undone_before_header_end[OF assms(1,2)])
    next
      case False
      from cut_in_two(2)[OF q(1) this] obtain d where d: "acc @ bs = rs_header_string r' @ d" "d @ q = body"
          by blast
      moreover have "0 < length q" "length d + length q = length body" using q(2) arg_cong[OF d(2), of
          length] by simp_all
      ultimately have "length d < GetBodyLen r'" using assms(4) by linarith
      then show ?thesis using done_when_whole[OF assms(1-3), of d] by (simp add: d(1))
    qed
    moreover have "qps_receive (map Recv bss @ later) (acc @ bs) = (Complete (rs_header_string r' @ body),
        later)"
      by (rule Cons.IH) (use Cons.prems False in simp_all)
    ultimately show ?thesis by simp
  qed
qed simp

lemma three_digits: "100 \<le> n \<Longrightarrow> n < 1000 \<Longrightarrow> length (dec n) = 3"
proof -
  assume n: "100 \<le> n" "n < 1000"
  then have small: "n div 10 div 10 < 10" "\<not> n div 10 < 10" "\<not> n < 10"
    by (simp_all add: div_less_iff_less_mult)
  have "dec n = dec (n div 10) @ [digit_char (n mod 10)]" using small(3) by (subst dec.simps) (simp only:
      if_False)
  moreover have "dec (n div 10) = dec (n div 10 div 10) @ [digit_char (n div 10 mod 10)]"
    using small(2) by (subst dec.simps) (simp only: if_False)
  moreover have "dec (n div 10 div 10) = [digit_char (n div 10 div 10)]"
    using small(1) by (subst dec.simps) (simp only: if_True)
  ultimately show ?thesis by (simp only: length_append list.size)
qed

lemma reads_status:
  assumes "MakeResponse os r c = Some (r', c')" "rs_code r' \<noteq> 304" "100 \<le> rs_code r'" "rs_code r'
      < 1000"
  shows "qps_status (rs_header_string r' @ body) = Some (rs_code r')"
proof -
  define l0 where "l0 = ''HTTP/1.1 '' @ dec_int (rs_code r') @ '' '' @ status_text (rs_code r')"
  have f: "find_sub [CR, LF] (rs_header_string r') = Some (length l0)" "take (length l0) (rs_header_string
      r') = l0"
    by (rule response_header[OF assms(1,2)], simp add: l0_def)+
  have e: "find_sub [CR, LF] (rs_header_string r' @ body) = Some (length l0)"
    by (rule find_sub_extend) (simp_all add: f)
  have "length l0 + 2 \<le> length (rs_header_string r')" using find_sub_Some[OF f(1)] by simp
  then have t: "take (length l0) (rs_header_string r' @ body) = l0" using f(2) by simp
  define n where "n = nat (rs_code r')"
  have n: "dec_int (rs_code r') = dec n" "length (dec n) = 3" "100 \<le> n" "n < 1000"
    using assms(3,4) three_digits[of n] by (simp_all add: n_def dec_int_def nat_less_iff le_nat_iff)
  have "12 \<le> length l0" "take 5 l0 = ''HTTP/''" "take 3 (drop 9 l0) = dec n" using n(2) by (simp_all add:
      l0_def n(1))
  moreover have "stoi (dec n) = Some (int n)" by (rule stoi_dec) (use n(4) in simp)
  moreover have "12 \<le> length (rs_header_string r' @ body)" using \<open>length l0 + 2 \<le> _\<close>
      calculation(1) by simp
  ultimately have "qps_status (rs_header_string r' @ body) = Some (int n)"
    by (simp only: qps_status_def e t option.case Let_def if_True simp_thms)
  then show ?thesis using assms(3) by (simp add: n_def)
qed


definition reused_client :: http_client where
  "reused_client = \<lparr>hc_host = ''127.0.0.1'', hc_keep_alive = True, hc_fd = 7\<rparr>"

definition no_sockets :: connect_answers where
  "no_sockets = \<lparr>ca_socket = - 1, ca_address_ok = False, ca_connects = False\<rparr>"


text \<open>What the numbers of the benchmarks rest on: a server that closes, or does not answer in time, is
    a success
  of no bytes; the client for latencies takes what one \<open>recv\<close> returns for the response and, on a
      kept
  connection, the rest of it for the response to the next request; and that of the stages returns only
  at the end of the stream or at the timeout, after whatever number of pieces.\<close>

lemma silence_is_success:
  assumes "0 \<le> hc_fd client" "a = Recv_eof \<or> a = Recv_again"
  shows "\<exists>client'. qps_SendRequest sys None (a # later) client =
    Some (\<lparr>rr_success = True, rr_size = Some 0, rr_status = None, rr_error = []\<rparr>, client', later)"
  using assms by (auto simp: qps_SendRequest_def connected_def Let_def qps_status_def)

lemma latency_client_splits_response:
  assumes "0 \<le> hc_fd client" "hc_keep_alive client" "a \<noteq> []" "b \<noteq> []"
  shows "\<exists>first second. latency_SendRequest again sys None (Recv a # Recv b # later) client = Some
      (first, client, Recv b # later)
    \<and> latency_SendRequest again sys None (Recv b # later) client = Some (second, client, later)
    \<and> rr_success first \<and> rr_success second \<and> rr_size first = Some (length a) \<and> rr_size
        second = Some (length b)"
  using assms by (simp add: latency_SendRequest_def connected_def Let_def)

lemma step_client_waits_for_the_end: "step_receive (map Recv bss) acc = None"
  by (induction bss arbitrary: acc) simp_all

end
