(* ===== verification/Spec2Isabelle.thy ===== *)
theory Spec2Isabelle
  imports H2Session Hpack RequestValidator ConnectionRuns TimerManager MemoryPool MessageHandler ServerConfig ServerRuns LoggerRuns StructuredLog Plugins ThreadPool LoopThread Metrics ProgramStart LogStream JsonSimple Backpressure BenchRunner BenchClient
begin

text \<open>
  A verification library of the TinyWebServer sources.

  \<^bold>\<open>The program.\<close> An HTTP server in C++: a main thread and sub threads each run an
  event loop over epoll; a connection belongs to one loop, buffers what it reads and writes, and calls a
  message callback; the callback parses requests, validates them, builds responses from a cache of
  mapped files, and sends them. Timers, keep-alive records, an HTTP/2 layer, an HPACK decoder, a memory
  pool, a configuration and logging stand beside it. A server object creates the listening sockets,
  accepts, and spreads the connections over the loops.

  \<^bold>\<open>The theories.\<close> Each models the files it names, one definition per function or
  handler, in the order of the source.

  \<^item> \<open>Prelude\<close>: words, big-endian packing, the string operations of the standard
    library.
  \<^item> \<open>WebError\<close>: \<open>error/error.h\<close>, \<open>error/error.cpp\<close>.
  \<^item> \<open>StateMachine\<close>, \<open>KeyedStore\<close>, \<open>Evicting\<close>,
    \<open>Chunked\<close>: the interfaces of the library, as locales. A state machine with a terminal
    state; a store of values under keys; a table that drops its oldest entries until a new one fits; a
    parser that consumes a buffer step by step. They are interpreted on the stream, HTTP/2 and TCP
    connection states; on the timer heap and the keep-alive manager; on the HPACK table and the file
    cache; on the HTTP parser and the HTTP/2 frame loop.
  \<^item> \<open>H2Frame\<close>, \<open>H2Stream\<close>, \<open>H2Connection\<close>,
    \<open>H2Session\<close>: \<open>http2/h2_frame_parser\<close>, \<open>http2/h2_stream\<close>,
    \<open>http2/h2_connection\<close> (headers and sources); the last holds the theorems on whole
    sessions.
  \<^item> \<open>Hpack\<close>: \<open>http2/hpack_decoder\<close>.
  \<^item> \<open>TimerManager\<close>: \<open>timer_manager\<close>, a binary heap with an index;
    \<open>TimerWheel\<close>: \<open>timer/timer_wheel\<close>.
  \<^item> \<open>HttpRequest\<close>: \<open>http_request\<close>, \<open>http_parser\<close>;
    \<open>RequestValidator\<close>: \<open>request_validator\<close>, with the lexical part of
    \<open>std::filesystem::path\<close>.
  \<^item> \<open>StaticCache\<close>: \<open>static_resource_manager\<close>;
    \<open>BufferChain\<close>: \<open>buffer_chain.h\<close>; \<open>KeepAlive\<close>:
    \<open>http/keep_alive_manager\<close>; \<open>MemoryPool\<close>: \<open>memory_pool\<close>.
  \<^item> \<open>BatchIO\<close>: \<open>reactor/batch_io_handler\<close>; \<open>EventLoop\<close>:
    \<open>reactor/event_loop\<close>; \<open>Connection\<close>, \<open>ConnectionRuns\<close>:
    \<open>connection\<close>, \<open>connection_limits.h\<close>, as an extension of the record of its
    loop.
  \<^item> \<open>ConditionalRequest\<close>: \<open>http/conditional_request_handler\<close>;
    \<open>HttpResponse\<close>: \<open>http_response\<close>; \<open>MessageHandler\<close>: the
    message callback of \<open>main.cpp\<close>, on the models of parser, validator, response, cache and
    connection.
  \<^item> \<open>ServerConfig\<close>: \<open>config/server_config\<close>; \<open>Sockets\<close>:
    \<open>reactor/socket_utils\<close>, \<open>reactor/multi_listen_socket\<close>;
    \<open>Server\<close>, \<open>ServerRuns\<close>: \<open>server\<close>,
    \<open>reactor/event_loop_thread_pool\<close>, on the models of loops, sockets and configuration.
  \<^item> \<open>AsyncLogger\<close>, \<open>LoggerRuns\<close>: \<open>log_buffer.h\<close>,
    \<open>async_logger\<close>, its producers and its writing thread as steps; \<open>Logger\<close>:
    \<open>Logger.h\<close> and the messages built for it; \<open>StructuredLog\<close>:
    \<open>logging/structured_logger\<close>; \<open>Metrics\<close>: \<open>server_metrics\<close>;
    \<open>LogStream\<close>: \<open>LogStream.h\<close>; \<open>JsonSimple\<close>:
    \<open>config/json_simple.h\<close>.
  \<^item> \<open>Plugins\<close>: \<open>plugin/plugin_manager\<close>, the example plugin, and the
    message callback with plugins; \<open>ProgramStart\<close>: the rest of \<open>main.cpp\<close>;
    \<open>Backpressure\<close>: \<open>connection_limits.h\<close>, and the connection together with
    its callback.
  \<^item> \<open>Stepping\<close>: systems of threads as step relations, their invariants and how they
    end; on it \<open>LoopThread\<close>: \<open>reactor/event_loop_thread\<close>, and
    \<open>ThreadPool\<close>: \<open>thread_pool\<close>.
  \<^item> \<open>BenchStats\<close>, \<open>BenchRuns\<close>, \<open>BenchFiles\<close>,
    \<open>BenchRunner\<close>: the statistics of \<open>benchmark.h\<close>, what the benchmarks under
    \<open>benchmark/src\<close> report, read and write; \<open>BenchClient\<close>: their clients, on
    the models of requests and responses.

  \<^bold>\<open>How code is read.\<close> State is a record with the members of the class; an operation
  takes it and returns it with the result. Undefined behaviour (a dangling iterator, an access outside a
  buffer, a mutex locked twice by its thread, a bad \<open>free\<close>) is the result
  \<open>None\<close> of an option, so a theorem that gives \<open>Some\<close> says that it does not
  occur. Errors of the program are values of its own types. Integers keep their width as words where the
  code can make them wrap; sizes and counters bounded by the memory of the process are natural numbers,
  a \<open>double\<close> of the benchmarks a real. Loops are recursive functions that end; the only
  fuel is in \<open>shrink\<close>, the number of entries of a table, which is enough because each round
  removes one. Callbacks are recorded as the list of calls made, or passed as functions. The answers of
  the kernel, the clocks, the file system, the system allocator and the locale are arguments: a theorem
  holds for all of them. What a lock protects is one step; the model of the file cache has two steps
  where the code locks twice.

  \<^bold>\<open>What is shown.\<close> Refinement: the timer heap and the keep-alive manager implement
  maps, the file cache a list by recency with a size bound, the output buffer a queue of bytes, the loop
  a sequence of turns, and the message callback answers pipelined requests in order. Invariants: HTTP/2
  sessions, HPACK accounting, the stream of a connection, blocks of the memory pool that never overlap.
  Equivalence: input may be cut anywhere for the HTTP parser and the HTTP/2 connection. The server
  spreads connections evenly and establishes each; the logger keeps every line in order until it stops,
  and its writer gets them all to the file; plugins that only observe do not change what the callback
  does; the thread pool runs each task once and its destructor returns; the client of the benchmarks
  takes exactly one response off its connection. Round trips: frame headers, the configuration file,
  requests, responses, HPACK integers, entity tags, JSON log entries, saved results. Safety: paths stay
  below the root, for the validator and for everything the callback asks the file system; closed
  connections and streams stay closed. Errors: what each validator refuses and why; and where the code
  does not do what it means to, the theorem states what it does: an idle timer that makes activity
  undefined and blocks the loop when it fires, a split HTTP/2 preface, time zones and precedence in
  conditional requests, memory given back after \<open>Clear\<close>, a loop thread stopped before it
  loops, a misspelt configuration that starts the server, a request header that stalls its connection, a
  benchmark score that is always 0.

  \<^bold>\<open>Not modelled.\<close> Restarting a stopped logger; the tests, and the threads of the
  benchmarks, which drive the server from outside; the empty error class of
  \<open>common/error.h\<close>; the vendored JSON library, which is a parameter; and what the kernel,
  the C library and the system allocator do, which the models take as arguments. Contention on locks,
  memory order and the reclaiming of objects by their last owner are not modelled: what a mutex protects
  is one step.
\<close>

end
